(* ===== verification/Holocron_Prelude.thy ===== *)
theory Holocron_Prelude
  imports Main "HOL-Library.Word" "HOL-Library.List_Lexorder" "HOL-Library.Char_ord"
begin

text \<open>
  Shared vocabulary of the development: Go's machine integers, byte slices, strings and error
  values, the big-endian primitives of \<^verbatim>\<open>encoding/binary\<close>, CRC32C of \<^verbatim>\<open>hash/crc32\<close>, the
  binary search of \<^verbatim>\<open>sort.Search\<close>, and the generic lemmas the components rely on. It models no file of the
  repository itself, only the parts of the language and its standard library the sources use.
\<close>

unbundle bit_operations_syntax

named_theorems codec_simps \<open>evaluation of the byte-level readers on encoded input\<close>
named_theorems go_defs \<open>conversions between Go's integer types\<close>

section \<open>Go values\<close>

text \<open>
  A \<^verbatim>\<open>[]byte\<close> that is only ever read is a list of 8-bit words. Where the code distinguishes the nil
  slice from an empty one the type is \<open>gobytes\<close>: \<open>None\<close> is nil, \<open>Some []\<close> an empty non-nil slice.
  A Go \<^verbatim>\<open>string\<close> is an immutable byte sequence, which is what HOL's \<open>string\<close> (8-bit characters) is.
\<close>

type_synonym byte = "8 word"
type_synonym bytes = "byte list"
type_synonym gobytes = "bytes option"

definition gb :: "gobytes \<Rightarrow> bytes" where
  "gb b = (case b of None \<Rightarrow> [] | Some x \<Rightarrow> x)"

definition norm_bytes :: "gobytes \<Rightarrow> gobytes" where
  "norm_bytes b = (if gb b = [] then None else b)"

lemma gb_simps [simp]: "gb None = []" "gb (Some x) = x"
  by (simp_all add: gb_def)

lemma gb_norm_bytes [simp]: "gb (norm_bytes b) = gb b"
  by (auto simp: norm_bytes_def)

lemma norm_bytes_idem [simp]: "norm_bytes (norm_bytes b) = norm_bytes b"
  by (simp add: norm_bytes_def)

lemma norm_bytes_None [simp]: "norm_bytes None = None"
  by (simp add: norm_bytes_def)

lemma norm_bytes_Some: "norm_bytes (Some x) = (if x = [] then None else Some x)"
  by (simp add: norm_bytes_def)

definition bytes_of_string :: "string \<Rightarrow> bytes" where
  "bytes_of_string s = map (\<lambda>c. word_of_nat (of_char c)) s"

definition string_of_bytes :: "bytes \<Rightarrow> string" where
  "string_of_bytes b = map (\<lambda>w. char_of (unat w)) b"

lemma length_bytes_of_string [simp]: "length (bytes_of_string s) = length s"
  by (simp add: bytes_of_string_def)

lemma length_string_of_bytes [simp]: "length (string_of_bytes b) = length b"
  by (simp add: string_of_bytes_def)

lemma string_of_bytes_of_string [simp]: "string_of_bytes (bytes_of_string s) = s"
proof -
  have "char_of (unat (word_of_nat (of_char c) :: byte)) = c" for c
    using nat_of_char_less_256 [of c] by (simp add: unat_of_nat take_bit_nat_eq_self)
  then show ?thesis
    by (simp add: string_of_bytes_def bytes_of_string_def map_idI)
qed

lemma bytes_of_string_of_bytes [simp]: "bytes_of_string (string_of_bytes b) = b"
proof -
  have "word_of_nat (of_char (char_of (unat w) :: char)) = w" for w :: byte
  proof -
    have "unat w < 256" using unsigned_less [of w, where ?'a = nat] by simp
    then show ?thesis by simp
  qed
  then show ?thesis
    by (simp add: string_of_bytes_def bytes_of_string_def map_idI)
qed

lemma bytes_of_string_inject [simp]: "bytes_of_string s = bytes_of_string t \<longleftrightarrow> s = t"
  by (metis string_of_bytes_of_string)

lemma bytes_of_string_append: "bytes_of_string (s @ t) = bytes_of_string s @ bytes_of_string t"
  by (simp add: bytes_of_string_def)

lemma bytes_of_string_Nil [simp]: "bytes_of_string [] = []" "bytes_of_string s = [] \<longleftrightarrow> s = []"
  by (simp_all add: bytes_of_string_def)

subsection \<open>Errors\<close>

text \<open>
  Go error values: the sentinels the code tests with \<^verbatim>\<open>errors.Is\<close>, errors that only carry a text
  (the interpolated arguments are dropped), \<^verbatim>\<open>%w\<close> wrapping, the broker's
  \<^verbatim>\<open>*proto.ProtocolError\<close> (status and message), its \<^verbatim>\<open>*broker.ErrNotLeader\<close> (leader and wire address), and \<open>Panic\<close> for a run-time panic such
  as a slice bound out of range.
\<close>

datatype go_error =
    EOF
  | ErrUnexpectedEOF
  | ErrTornFrame
  | ErrNotExist
  | ErrNew string
  | ErrWrap string go_error
  | ErrProtocol byte string
  | ErrNotLeader string string
  | Panic

fun errors_Is :: "go_error \<Rightarrow> go_error \<Rightarrow> bool" where
  "errors_Is (ErrWrap m e) t = (ErrWrap m e = t \<or> errors_Is e t)"
| "errors_Is e t = (e = t)"

type_synonym 'a result = "go_error + 'a"

subsection \<open>Fixed-width integers\<close>

text \<open>
  \<^verbatim>\<open>int32\<close> and \<^verbatim>\<open>int64\<close> values are mathematical integers; the conversions to and from the unsigned
  word types, where Go truncates, are written out. The ranges are the predicates below.
\<close>

definition int32_ok :: "int \<Rightarrow> bool" where
  "int32_ok x \<longleftrightarrow> - (2 ^ 31) \<le> x \<and> x < 2 ^ 31"

definition int64_ok :: "int \<Rightarrow> bool" where
  "int64_ok x \<longleftrightarrow> - (2 ^ 63) \<le> x \<and> x < 2 ^ 63"

definition uint32_of :: "int \<Rightarrow> 32 word" where
  "uint32_of x = word_of_int x"

definition uint64_of :: "int \<Rightarrow> 64 word" where
  "uint64_of x = word_of_int x"

definition int32_of :: "32 word \<Rightarrow> int" where
  "int32_of w = sint w"

definition int64_of :: "64 word \<Rightarrow> int" where
  "int64_of w = sint w"

definition uint32_len :: "'a list \<Rightarrow> 32 word" where
  "uint32_len xs = word_of_nat (length xs)"

lemma int32_of_uint32_of [codec_simps]: "int32_ok x \<Longrightarrow> int32_of (uint32_of x) = x"
  by (simp add: int32_ok_def int32_of_def uint32_of_def sint_sbintrunc' signed_take_bit_int_eq_self)

lemma int64_of_uint64_of [codec_simps]: "int64_ok x \<Longrightarrow> int64_of (uint64_of x) = x"
  by (simp add: int64_ok_def int64_of_def uint64_of_def sint_sbintrunc' signed_take_bit_int_eq_self)

lemma int32_ok_int32_of [simp]: "int32_ok (int32_of w)"
  using sint_range_size [of w] by (simp add: int32_ok_def int32_of_def size_word_def)

lemma int64_ok_int64_of [simp]: "int64_ok (int64_of w)"
  using sint_range_size [of w] by (simp add: int64_ok_def int64_of_def size_word_def)

lemma uint32_of_int32_of [simp]: "uint32_of (int32_of w) = w"
  by (simp add: int32_of_def uint32_of_def)

lemma uint64_of_int64_of [simp]: "uint64_of (int64_of w) = w"
  by (simp add: int64_of_def uint64_of_def)

lemma unat_uint32_len [codec_simps]: "length xs < 2 ^ 32 \<Longrightarrow> unat (uint32_len xs) = length xs"
  by (simp add: uint32_len_def unat_of_nat take_bit_nat_eq_self)

text \<open>Buffers below 4 GiB, the largest a \<^verbatim>\<open>uint32\<close> length prefix can describe.\<close>

definition buf32 :: "'a list \<Rightarrow> bool" where
  "buf32 b \<longleftrightarrow> length b < 2 ^ 32"

lemma buf32_append: "buf32 (a @ b) \<Longrightarrow> buf32 a" "buf32 (a @ b) \<Longrightarrow> buf32 b"
  by (simp_all add: buf32_def)

lemma buf32_drop: "buf32 b \<Longrightarrow> buf32 (drop n b)"
  by (simp add: buf32_def)

section \<open>Byte-level primitives\<close>

text \<open>The Go slice expression \<open>b[i:j]\<close>, for bounds the code has checked.\<close>

definition sl :: "'a list \<Rightarrow> nat \<Rightarrow> nat \<Rightarrow> 'a list" where
  "sl b i j = take (j - i) (drop i b)"

lemma length_sl: "j \<le> length b \<Longrightarrow> length (sl b i j) = j - i"
  by (simp add: sl_def)

text \<open>\<^verbatim>\<open>binary.BigEndian\<close>: \<open>be32\<close>, \<open>be64\<close> are the bytes AppendUint32/64 append, \<open>Uint32\<close>, \<open>Uint64\<close> read them back.\<close>

definition be32 :: "32 word \<Rightarrow> bytes" where
  "be32 v = [ucast (drop_bit 24 v), ucast (drop_bit 16 v), ucast (drop_bit 8 v), ucast v]"

definition Uint32 :: "bytes \<Rightarrow> 32 word" where
  "Uint32 b = ucast (b ! 3) OR push_bit 8 (ucast (b ! 2)) OR push_bit 16 (ucast (b ! 1))
     OR push_bit 24 (ucast (b ! 0))"

definition be64 :: "64 word \<Rightarrow> bytes" where
  "be64 v = [ucast (drop_bit 56 v), ucast (drop_bit 48 v), ucast (drop_bit 40 v),
     ucast (drop_bit 32 v), ucast (drop_bit 24 v), ucast (drop_bit 16 v), ucast (drop_bit 8 v),
     ucast v]"

definition Uint64 :: "bytes \<Rightarrow> 64 word" where
  "Uint64 b = ucast (b ! 7) OR push_bit 8 (ucast (b ! 6)) OR push_bit 16 (ucast (b ! 5))
     OR push_bit 24 (ucast (b ! 4)) OR push_bit 32 (ucast (b ! 3)) OR push_bit 40 (ucast (b ! 2))
     OR push_bit 48 (ucast (b ! 1)) OR push_bit 56 (ucast (b ! 0))"

lemma length_be32 [simp]: "length (be32 v) = 4"
  by (simp add: be32_def)

lemma length_be64 [simp]: "length (be64 v) = 8"
  by (simp add: be64_def)

lemma be_nonempty [simp]: "be32 v \<noteq> []" "be64 w \<noteq> []" "[] \<noteq> be32 v" "[] \<noteq> be64 w"
  by (simp_all add: be32_def be64_def)

lemma Uint32_be32 [codec_simps]: "Uint32 (be32 v) = v"
proof (rule bit_word_eqI)
  fix n assume "n < LENGTH(32)"
  then consider "n < 8" | "8 \<le> n" "n < 16" | "16 \<le> n" "n < 24" | "24 \<le> n" "n < 32"
    by fastforce
  then show "bit (Uint32 (be32 v)) n = bit v n"
    by cases (simp_all add: Uint32_def be32_def bit_simps less_diff_conv2)
qed

lemma Uint64_be64 [codec_simps]: "Uint64 (be64 v) = v"
proof (rule bit_word_eqI)
  fix n assume "n < LENGTH(64)"
  then consider "n < 8" | "8 \<le> n" "n < 16" | "16 \<le> n" "n < 24" | "24 \<le> n" "n < 32"
    | "32 \<le> n" "n < 40" | "40 \<le> n" "n < 48" | "48 \<le> n" "n < 56" | "56 \<le> n" "n < 64"
    by fastforce
  then show "bit (Uint64 (be64 v)) n = bit v n"
    by cases (simp_all add: Uint64_def be64_def bit_simps less_diff_conv2)
qed

text \<open>
  \<^verbatim>\<open>crc32.Checksum(b, MakeTable(Castagnoli))\<close>: the reflected CRC with polynomial 0x82F63B78,
  one bit at a time, with the initial value and the result complemented.
\<close>

primrec crc32_bits :: "nat \<Rightarrow> 32 word \<Rightarrow> 32 word" where
  "crc32_bits 0 c = c"
| "crc32_bits (Suc k) c =
     crc32_bits k (if c AND 1 = 1 then drop_bit 1 c XOR 0x82F63B78 else drop_bit 1 c)"

definition crc32c_update :: "32 word \<Rightarrow> byte \<Rightarrow> 32 word" where
  "crc32c_update c b = crc32_bits 8 (c XOR ucast b)"

definition crc32c :: "bytes \<Rightarrow> 32 word" where
  "crc32c b = NOT (foldl crc32c_update (NOT 0) b)"

subsection \<open>Counted sequences\<close>

text \<open>
  The decoders' loop \<^verbatim>\<open>for range count\<close>: each round decodes one element from the front of the
  remaining slice and continues with what is left of it (\<^verbatim>\<open>b = b[n:]\<close>); the first error ends the loop.
\<close>

primrec decode_loop :: "(bytes \<Rightarrow> ('a \<times> bytes) result) \<Rightarrow> nat \<Rightarrow> bytes \<Rightarrow> ('a list \<times> bytes) result" where
  "decode_loop dec 0 b = Inr ([], b)"
| "decode_loop dec (Suc k) b =
     (case dec b of
        Inl e \<Rightarrow> Inl e
      | Inr (x, b) \<Rightarrow>
          (case decode_loop dec k b of
             Inl e \<Rightarrow> Inl e
           | Inr (xs, rest) \<Rightarrow> Inr (x # xs, rest)))"

text \<open>A reader that reports how many bytes it consumed, followed by \<^verbatim>\<open>b = b[n:]\<close>.\<close>

definition advance :: "(bytes \<Rightarrow> ('a \<times> nat) result) \<Rightarrow> bytes \<Rightarrow> ('a \<times> bytes) result" where
  "advance dec b = (case dec b of Inl e \<Rightarrow> Inl e | Inr (x, n) \<Rightarrow> Inr (x, drop n b))"

text \<open>\<^verbatim>\<open>fmt.Errorf("...: %w", err)\<close> around the error of a call.\<close>

definition wrap_error :: "string \<Rightarrow> 'a result \<Rightarrow> 'a result" where
  "wrap_error m r = (case r of Inl e \<Rightarrow> Inl (ErrWrap m e) | Inr x \<Rightarrow> Inr x)"

lemma wrap_error_Inr [simp]: "wrap_error m (Inr x) = Inr x"
  by (simp add: wrap_error_def)

text \<open>The encoders' loops append one element after the other.\<close>

lemma foldl_append_form:
  "(\<And>b x. f b x = b @ g x) \<Longrightarrow> foldl f buf xs = buf @ concat (map g xs)"
  by (induction xs arbitrary: buf) simp_all

text \<open>In a list sorted by \<open>f\<close>, what lies above the \<open>n\<close>-th of the elements from \<open>c\<close> on is the rest of them.\<close>

lemma filter_after_batch:
  fixes f :: "'a \<Rightarrow> int"
  assumes "sorted_wrt (<) (map f xs)" "n < length (filter (\<lambda>x. c \<le> f x) xs)"
  shows "filter (\<lambda>x. f (filter (\<lambda>x. c \<le> f x) xs ! n) + 1 \<le> f x) xs
    = drop (Suc n) (filter (\<lambda>x. c \<le> f x) xs)"
  using assms
proof (induction xs arbitrary: n)
  case (Cons r xs)
  show ?case
  proof (cases "c \<le> f r")
    case False
    with Cons.prems(2) have n: "n < length (filter (\<lambda>x. c \<le> f x) xs)" by simp
    then have "filter (\<lambda>x. c \<le> f x) xs ! n \<in> set (filter (\<lambda>x. c \<le> f x) xs)" by (rule nth_mem)
    with False Cons.IH [OF _ n] Cons.prems(1) show ?thesis by auto
  next
    case c: True
    show ?thesis
    proof (cases n)
      case 0
      then show ?thesis using c Cons.prems(1) by (auto intro!: filter_cong)
    next
      case (Suc m)
      with c Cons.prems have m: "m < length (filter (\<lambda>x. c \<le> f x) xs)" by simp
      then have "filter (\<lambda>x. c \<le> f x) xs ! m \<in> set (filter (\<lambda>x. c \<le> f x) xs)" by (rule nth_mem)
      with Cons.prems(1) have "f r < f (filter (\<lambda>x. c \<le> f x) xs ! m)" by auto
      with c Suc Cons.IH [OF _ m] Cons.prems(1) show ?thesis by simp
    qed
  qed
qed simp

lemma length_concat_ge:
  "(\<And>x. x \<in> set xs \<Longrightarrow> c \<le> length (g x)) \<Longrightarrow> c * length xs \<le> length (concat (map g xs))"
  by (induction xs) (auto simp: add_mono)

text \<open>
  The contract between an encoder and the decoder that reads its output off the front of a longer
  buffer. \<open>nrm\<close> is what the wire format does not distinguish (a nil and an empty byte slice).
\<close>

locale prefix_codec =
  fixes enc :: "'a \<Rightarrow> bytes"
    and dec :: "bytes \<Rightarrow> ('a \<times> bytes) result"
    and wf :: "'a \<Rightarrow> bool"
    and nrm :: "'a \<Rightarrow> 'a"
  assumes dec_enc: "wf x \<Longrightarrow> buf32 (enc x @ rest) \<Longrightarrow> dec (enc x @ rest) = Inr (nrm x, rest)"
    and enc_nonempty: "enc x \<noteq> []"
begin

lemma decode_loop_enc:
  "list_all wf xs \<Longrightarrow> buf32 (concat (map enc xs) @ rest) \<Longrightarrow>
     decode_loop dec (length xs) (concat (map enc xs) @ rest) = Inr (map nrm xs, rest)"
proof (induction xs)
  case (Cons x xs)
  then have "buf32 (concat (map enc xs) @ rest)"
    using buf32_append(2) [of "enc x"] by simp
  with Cons show ?case by (simp add: dec_enc)
qed simp

lemma count_fits: "buf32 (concat (map enc xs) @ rest) \<Longrightarrow> unat (uint32_len xs) = length xs"
  using length_concat_ge [of xs 1 enc] enc_nonempty
  by (intro unat_uint32_len) (simp add: buf32_def Suc_le_eq)

lemma decode_counted:
  assumes "list_all wf xs" "buf32 (concat (map enc xs) @ rest)"
  shows "decode_loop dec (unat (uint32_len xs)) (concat (map enc xs) @ rest) = Inr (map nrm xs, rest)"
  using decode_loop_enc [OF assms] count_fits [OF assms(2)] by simp

lemma decode_counted_all:
  assumes "list_all wf xs" "buf32 (concat (map enc xs))"
  shows "decode_loop dec (unat (uint32_len xs)) (concat (map enc xs)) = Inr (map nrm xs, [])"
  using decode_counted [of xs "[]"] assms by simp

lemma wrapped: "prefix_codec enc (\<lambda>b. wrap_error m (dec b)) wf nrm"
  by unfold_locales (simp_all add: dec_enc enc_nonempty)

lemma enc_prefix_free:
  assumes "wf x" "wf y" "enc x @ r = enc y @ s" "buf32 (enc x @ r)"
  shows "nrm x = nrm y \<and> r = s"
  using dec_enc [OF assms(1), of r] dec_enc [OF assms(2), of s] assms(3,4) by simp

end

text \<open>The same contract for a decoder that owns the whole buffer, as the request decoders do.\<close>

locale message_codec =
  fixes Encode :: "'a \<Rightarrow> bytes"
    and Decode :: "bytes \<Rightarrow> 'a result"
    and wf :: "'a \<Rightarrow> bool"
    and nrm :: "'a \<Rightarrow> 'a"
  assumes Decode_Encode: "wf x \<Longrightarrow> buf32 (Encode x) \<Longrightarrow> Decode (Encode x) = Inr (nrm x)"
begin

lemma Encode_inj: "wf x \<Longrightarrow> wf y \<Longrightarrow> buf32 (Encode x) \<Longrightarrow> Encode x = Encode y \<Longrightarrow> nrm x = nrm y"
  using Decode_Encode [of x] Decode_Encode [of y] by simp

end

section \<open>Binary search\<close>

text \<open>\<^verbatim>\<open>sort.Search(n, f)\<close> of Go's standard library: bisection on the interval \<open>[i, j)\<close>.\<close>

function search_loop :: "(nat \<Rightarrow> bool) \<Rightarrow> nat \<Rightarrow> nat \<Rightarrow> nat" where
  "search_loop f i j =
     (if i < j then
        (let h = (i + j) div 2 in if \<not> f h then search_loop f (h + 1) j else search_loop f i h)
      else i)"
  by pat_completeness auto
termination
  by (relation "measure (\<lambda>(f, i, j). j - i)") auto

declare search_loop.simps [simp del]

definition sort_Search :: "nat \<Rightarrow> (nat \<Rightarrow> bool) \<Rightarrow> nat" where
  "sort_Search n f = search_loop f 0 n"

lemma search_loop_correct:
  assumes "i \<le> j" "\<And>k. k < i \<Longrightarrow> \<not> f k" "\<And>k. j \<le> k \<Longrightarrow> k < n \<Longrightarrow> f k"
    and mono: "\<And>k l. f k \<Longrightarrow> k \<le> l \<Longrightarrow> l < n \<Longrightarrow> f l" and "j \<le> n"
  shows "i \<le> search_loop f i j \<and> search_loop f i j \<le> j
    \<and> (\<forall>k < search_loop f i j. \<not> f k) \<and> (\<forall>k \<ge> search_loop f i j. k < n \<longrightarrow> f k)"
  using assms
proof (induction f i j rule: search_loop.induct)
  case (1 f i j)
  show ?case
  proof (cases "i < j")
    case False
    with "1.prems" show ?thesis by (subst (1 2 3 4) search_loop.simps) auto
  next
    case True
    define h where "h = (i + j) div 2"
    with True have h: "i \<le> h" "h < j" by auto
    show ?thesis
    proof (cases "f h")
      case False
      then have "\<not> f k" if "k < h + 1" for k
        using that "1.prems"(4) [of k h] h "1.prems"(5) by auto
      with "1.IH"(1) [OF True h_def] False h "1.prems"
      have "h + 1 \<le> search_loop f (h + 1) j \<and> search_loop f (h + 1) j \<le> j
        \<and> (\<forall>k < search_loop f (h + 1) j. \<not> f k) \<and> (\<forall>k \<ge> search_loop f (h + 1) j. k < n \<longrightarrow> f k)"
        by auto
      with True False h show ?thesis
        by (simp add: search_loop.simps [of f i j] h_def [symmetric] Let_def)
    next
      case fh: True
      then have "f k" if "h \<le> k" "k < n" for k
        using that "1.prems"(4) by blast
      with "1.IH"(2) [OF True h_def] fh h "1.prems"
      have "i \<le> search_loop f i h \<and> search_loop f i h \<le> h
        \<and> (\<forall>k < search_loop f i h. \<not> f k) \<and> (\<forall>k \<ge> search_loop f i h. k < n \<longrightarrow> f k)"
        by auto
      with True fh h show ?thesis
        by (simp add: search_loop.simps [of f i j] h_def [symmetric] Let_def)
    qed
  qed
qed

lemma sort_Search_correct:
  assumes "\<And>k l. f k \<Longrightarrow> k \<le> l \<Longrightarrow> l < n \<Longrightarrow> f l"
  shows "sort_Search n f \<le> n" "\<And>k. k < sort_Search n f \<Longrightarrow> \<not> f k"
    "\<And>k. sort_Search n f \<le> k \<Longrightarrow> k < n \<Longrightarrow> f k"
  using search_loop_correct [of 0 n f n] assms by (auto simp: sort_Search_def)

end
