(* ===== verification/Wire_Primitives.thy ===== *)
theory Wire_Primitives
  imports Holocron_Prelude
begin

text \<open>
  The data types of \<^verbatim>\<open>proto/record.go\<close> and \<^verbatim>\<open>proto/topic.go\<close>, and the internal helpers and frame
  layer of \<^verbatim>\<open>proto/wire.go\<close>: length-prefixed strings and byte slices, record bodies, records in the
  disk envelope, wire frames and responses. The lemmas show that every reader inverts its writer on
  the front of a longer buffer, and that the readers never panic on buffers below 4 GiB.
\<close>

section \<open>Data types\<close>

record Header =
  h_Key :: string
  h_Value :: gobytes

record Record =
  r_Offset :: int
  r_Timestamp :: int
  r_Key :: gobytes
  r_Value :: gobytes
  r_Headers :: "Header list"

record PartitionRef =
  p_Topic :: string
  p_Index :: int

record TopicConfig =
  tc_Name :: string
  tc_PartitionCount :: int
  tc_RetentionMs :: int
  tc_SegmentBytes :: int

definition HeaderProducerID :: string where
  "HeaderProducerID = ''holocron.producer.id''"

definition HeaderProducerSeq :: string where
  "HeaderProducerSeq = ''holocron.producer.seq''"

section \<open>Strings, byte slices and records\<close>

definition encodeString :: "bytes \<Rightarrow> string \<Rightarrow> bytes" where
  "encodeString buf s = (buf @ be32 (uint32_len s)) @ bytes_of_string s"

text \<open>
  \<^verbatim>\<open>b[4 : 4+n]\<close> adds in \<^verbatim>\<open>uint32\<close>: for \<open>n\<close> within 4 of \<open>2\<^sup>3\<^sup>2\<close> the bound wraps below 4 and the
  slice expression panics.
\<close>

definition decodeString :: "bytes \<Rightarrow> (string \<times> nat) result" where
  "decodeString b =
     (if length b < 4 then Inl ErrUnexpectedEOF
      else let n = Uint32 (sl b 0 4) in
        if word_of_nat (length b - 4) < n then Inl ErrUnexpectedEOF
        else if unat (4 + n) < 4 then Inl Panic
        else Inr (string_of_bytes (sl b 4 (unat (4 + n))), 4 + unat n))"

definition encodeBytes :: "bytes \<Rightarrow> gobytes \<Rightarrow> bytes" where
  "encodeBytes buf b = (buf @ be32 (uint32_len (gb b))) @ gb b"

definition decodeBytes :: "bytes \<Rightarrow> (gobytes \<times> nat) result" where
  "decodeBytes b =
     (if length b < 4 then Inl ErrUnexpectedEOF
      else let n = Uint32 (sl b 0 4) in
        if word_of_nat (length b - 4) < n then Inl ErrUnexpectedEOF
        else if n = 0 then Inr (None, 4)
        else if unat (4 + n) < 4 then Inl Panic
        else Inr (Some (sl b 4 (unat (4 + n))), 4 + unat n))"

primrec encode_headers :: "bytes \<Rightarrow> Header list \<Rightarrow> bytes" where
  "encode_headers buf [] = buf"
| "encode_headers buf (h # hs) =
     encode_headers (encodeBytes (encodeString buf (h_Key h)) (h_Value h)) hs"

definition encodeRecord :: "bytes \<Rightarrow> Record \<Rightarrow> bytes" where
  "encodeRecord buf r =
     (let buf = buf @ be64 (uint64_of (r_Offset r));
          buf = buf @ be64 (uint64_of (r_Timestamp r));
          buf = encodeBytes buf (r_Key r);
          buf = encodeBytes buf (r_Value r);
          buf = buf @ be32 (uint32_len (r_Headers r))
      in encode_headers buf (r_Headers r))"

primrec decode_headers :: "nat \<Rightarrow> bytes \<Rightarrow> nat \<Rightarrow> (Header list \<times> nat) result" where
  "decode_headers 0 b p = Inr ([], p)"
| "decode_headers (Suc k) b p =
     (case decodeString (drop p b) of
        Inl e \<Rightarrow> Inl e
      | Inr (hk, n) \<Rightarrow>
          (let p = p + n in
           case decodeBytes (drop p b) of
             Inl e \<Rightarrow> Inl e
           | Inr (hv, n) \<Rightarrow>
               (case decode_headers k b (p + n) of
                  Inl e \<Rightarrow> Inl e
                | Inr (hs, p) \<Rightarrow> Inr (\<lparr>h_Key = hk, h_Value = hv\<rparr> # hs, p))))"

definition decodeRecord :: "bytes \<Rightarrow> (Record \<times> nat) result" where
  "decodeRecord b =
     (if length b < 16 then Inl ErrUnexpectedEOF
      else let offset = int64_of (Uint64 (sl b 0 8)); ts = int64_of (Uint64 (sl b 8 16)); p = 16 in
        case decodeBytes (drop p b) of
          Inl e \<Rightarrow> Inl e
        | Inr (key, n) \<Rightarrow>
            (let p = p + n in
             case decodeBytes (drop p b) of
               Inl e \<Rightarrow> Inl e
             | Inr (val, n) \<Rightarrow>
                 (let p = p + n in
                  if length (drop p b) < 4 then Inl ErrUnexpectedEOF
                  else let hdrCount = Uint32 (sl b p (p + 4)); p = p + 4 in
                    case decode_headers (unat hdrCount) b p of
                      Inl e \<Rightarrow> Inl e
                    | Inr (headers, p) \<Rightarrow>
                        Inr (\<lparr>r_Offset = offset, r_Timestamp = ts, r_Key = key, r_Value = val,
                              r_Headers = headers\<rparr>, p))))"

section \<open>The disk envelope on the wire\<close>

definition encodeFramedRecord :: "bytes \<Rightarrow> Record \<Rightarrow> bytes" where
  "encodeFramedRecord buf r =
     (let bodyStart = length buf + 4;
          buf = buf @ [0, 0, 0, 0];
          buf = encodeRecord buf r;
          body = drop bodyStart buf;
          buf = take (bodyStart - 4) buf @ be32 (uint32_len body) @ drop bodyStart buf;
          crc = crc32c body
      in buf @ be32 crc)"

definition decodeFramedRecord :: "bytes \<Rightarrow> (Record \<times> nat) result" where
  "decodeFramedRecord b =
     (if length b < 4 then Inl ErrUnexpectedEOF
      else let bodyLen = Uint32 (sl b 0 4); total = 4 + unat bodyLen + 4 in
        if length b < total then Inl ErrUnexpectedEOF
        else if unat (4 + bodyLen) < 4 then Inl Panic
        else let body = sl b 4 (unat (4 + bodyLen)); gotCRC = Uint32 (sl b (unat (4 + bodyLen)) total) in
          if crc32c body \<noteq> gotCRC then Inl (ErrNew ''proto: framed-record CRC mismatch'')
          else case decodeRecord body of
                 Inl e \<Rightarrow> Inl e
               | Inr (rec, _) \<Rightarrow> Inr (rec, total))"

section \<open>Frames\<close>

text \<open>
  A connection is the byte sequence still to be read. \<open>ReadFull\<close> is \<^verbatim>\<open>io.ReadFull\<close>: it fails with
  \<open>EOF\<close> when nothing could be read and with \<open>ErrUnexpectedEOF\<close> when the input ends inside the request.
\<close>

definition ReadFull :: "nat \<Rightarrow> bytes \<Rightarrow> (bytes \<times> bytes) result" where
  "ReadFull n s =
     (if n \<le> length s then Inr (take n s, drop n s)
      else if s = [] then Inl EOF else Inl ErrUnexpectedEOF)"

definition maxFrameBytes :: nat where
  "maxFrameBytes = 64 * 1024 * 1024"

definition ReadFrame :: "bytes \<Rightarrow> (byte \<times> bytes \<times> bytes) result" where
  "ReadFrame s =
     (case ReadFull 4 s of
        Inl e \<Rightarrow> Inl e
      | Inr (lenBuf, s) \<Rightarrow>
          (let n = Uint32 lenBuf in
           if n = 0 then Inl (ErrNew ''proto: empty frame'')
           else if maxFrameBytes < unat n then Inl (ErrNew ''proto: frame too large'')
           else case ReadFull (unat n) s of
                  Inl e \<Rightarrow> Inl e
                | Inr (body, s) \<Rightarrow> Inr (hd body, tl body, s)))"

definition WriteFrame :: "byte \<Rightarrow> bytes \<Rightarrow> bytes" where
  "WriteFrame op payload = be32 (word_of_nat (1 + length payload)) @ [op] @ payload"

definition StatusOK :: byte where
  "StatusOK = 0"

definition WriteResponse :: "byte \<Rightarrow> byte \<Rightarrow> bytes \<Rightarrow> bytes" where
  "WriteResponse op status body = WriteFrame op ([status] @ body)"

definition WriteErrorResponse :: "byte \<Rightarrow> byte \<Rightarrow> string \<Rightarrow> bytes" where
  "WriteErrorResponse op status msg = WriteResponse op status (encodeString [] msg)"

definition ReadResponse :: "bytes \<Rightarrow> byte \<Rightarrow> (bytes \<times> bytes) result" where
  "ReadResponse s op =
     (case ReadFrame s of
        Inl e \<Rightarrow> Inl e
      | Inr (got, body, s) \<Rightarrow>
          if got \<noteq> op then Inl (ErrNew ''proto: unexpected opcode'')
          else if body = [] then Inl (ErrNew ''proto: response missing status byte'')
          else let status = hd body; rest = tl body in
            if status = StatusOK then Inr (rest, s)
            else let msg = (case decodeString rest of Inl _ \<Rightarrow> [] | Inr (m, _) \<Rightarrow> m)
                 in Inl (ErrProtocol status msg))"

section \<open>Readers invert writers\<close>

text \<open>Writers append to the buffer they are given, so each is determined by its value on the empty one.\<close>

lemma encodeString_append: "NO_MATCH ([] :: bytes) buf \<Longrightarrow> encodeString buf s = buf @ encodeString [] s"
  by (simp add: encodeString_def)

lemma encodeBytes_append: "NO_MATCH ([] :: bytes) buf \<Longrightarrow> encodeBytes buf b = buf @ encodeBytes [] b"
  by (simp add: encodeBytes_def)

definition header_bytes :: "Header \<Rightarrow> bytes" where
  "header_bytes h = encodeString [] (h_Key h) @ encodeBytes [] (h_Value h)"

lemma encode_headers_eq: "encode_headers buf hs = buf @ concat (map header_bytes hs)"
  by (induction hs arbitrary: buf)
    (simp_all add: header_bytes_def encodeString_append encodeBytes_append)

lemma encodeRecord_eq:
  "encodeRecord buf r = buf @ be64 (uint64_of (r_Offset r)) @ be64 (uint64_of (r_Timestamp r))
     @ encodeBytes [] (r_Key r) @ encodeBytes [] (r_Value r) @ be32 (uint32_len (r_Headers r))
     @ concat (map header_bytes (r_Headers r))"
  by (simp add: encodeRecord_def encodeBytes_append encode_headers_eq Let_def)

lemma encodeRecord_append: "NO_MATCH ([] :: bytes) buf \<Longrightarrow> encodeRecord buf r = buf @ encodeRecord [] r"
  by (simp add: encodeRecord_eq)

lemma length_encodeString [simp]: "length (encodeString [] s) = 4 + length s"
  by (simp add: encodeString_def)

lemma encodeString_nonempty [simp]: "encodeString [] s \<noteq> []"
  by (simp add: encodeString_def)

lemma length_encodeBytes [simp]: "length (encodeBytes [] b) = 4 + length (gb b)"
  by (simp add: encodeBytes_def)

lemma length_header_bytes [simp]: "length (header_bytes h) = 8 + length (h_Key h) + length (gb (h_Value h))"
  by (simp add: header_bytes_def)

lemmas append_form = encodeString_append encodeBytes_append encodeRecord_append append_assoc append_Nil

lemma uint32_len_prefix:
  assumes "buf32 (be32 (uint32_len xs) @ ys @ rest)" "length ys = length xs"
  shows "unat (uint32_len xs) = length xs"
    and "unat (4 + uint32_len xs) = 4 + length xs"
    and "\<not> word_of_nat (length ys + length rest) < uint32_len xs"
proof -
  from assms have l: "length xs + length rest + 4 < 2 ^ 32" by (simp add: buf32_def)
  then show u: "unat (uint32_len xs) = length xs" by (simp add: unat_uint32_len)
  have "unat (4 + uint32_len xs) = (4 + length xs) mod 2 ^ 32"
    by (simp add: unat_word_ariths u)
  with l show "unat (4 + uint32_len xs) = 4 + length xs" by simp
  have "unat (word_of_nat (length xs + length rest) :: 32 word) = length xs + length rest"
    using l by (simp add: unat_of_nat take_bit_nat_eq_self del: of_nat_add)
  with u show "\<not> word_of_nat (length ys + length rest) < uint32_len xs"
    using assms(2) by (simp add: word_less_nat_alt del: of_nat_add)
qed

lemma decodeString_encode [codec_simps]:
  assumes "buf32 (encodeString [] s @ rest)"
  shows "decodeString (encodeString [] s @ rest) = Inr (s, 4 + length s)"
proof -
  from assms have "buf32 (be32 (uint32_len s) @ bytes_of_string s @ rest)"
    by (simp add: encodeString_def)
  from uint32_len_prefix [OF this]
  show ?thesis
    by (simp add: decodeString_def encodeString_def sl_def Uint32_be32 Let_def)
qed

lemma decodeBytes_encode [codec_simps]:
  assumes "buf32 (encodeBytes [] b @ rest)"
  shows "decodeBytes (encodeBytes [] b @ rest) = Inr (norm_bytes b, 4 + length (gb b))"
proof -
  from assms have "buf32 (be32 (uint32_len (gb b)) @ gb b @ rest)"
    by (simp add: encodeBytes_def)
  note len = uint32_len_prefix [OF this refl]
  have zero: "uint32_len (gb b) = 0 \<longleftrightarrow> gb b = []"
    using len(1) by (auto simp: uint32_len_def)
  show ?thesis
    using len zero by (cases b)
      (auto simp: decodeBytes_def encodeBytes_def sl_def Uint32_be32 Let_def norm_bytes_def)
qed

text \<open>What a round trip does not preserve: a nil and an empty slice have the same encoding.\<close>

definition norm_header :: "Header \<Rightarrow> Header" where
  "norm_header h = h\<lparr>h_Value := norm_bytes (h_Value h)\<rparr>"

definition norm_record :: "Record \<Rightarrow> Record" where
  "norm_record r = r\<lparr>r_Key := norm_bytes (r_Key r), r_Value := norm_bytes (r_Value r),
     r_Headers := map norm_header (r_Headers r)\<rparr>"

definition wf_record :: "Record \<Rightarrow> bool" where
  "wf_record r \<longleftrightarrow> int64_ok (r_Offset r) \<and> int64_ok (r_Timestamp r)"

lemma norm_header_idem [simp]: "norm_header (norm_header h) = norm_header h"
  by (simp add: norm_header_def)

lemma norm_record_idem [simp]: "norm_record (norm_record r) = norm_record r"
  by (simp add: norm_record_def comp_def)

lemma norm_record_sel [simp]:
  "r_Offset (norm_record r) = r_Offset r" "r_Timestamp (norm_record r) = r_Timestamp r"
  "r_Key (norm_record r) = norm_bytes (r_Key r)" "r_Value (norm_record r) = norm_bytes (r_Value r)"
  by (simp_all add: norm_record_def)

lemma wf_record_norm [simp]: "wf_record (norm_record r) = wf_record r"
  by (simp add: wf_record_def)

lemma header_bytes_norm [simp]: "header_bytes (norm_header h) = header_bytes h"
  by (simp add: header_bytes_def norm_header_def encodeBytes_def)

lemma encodeRecord_norm [simp]: "encodeRecord buf (norm_record r) = encodeRecord buf r"
  by (simp add: encodeRecord_eq norm_record_def encodeBytes_def comp_def uint32_len_def)

lemma decode_headers_encode:
  "drop p b = concat (map header_bytes hs) @ rest \<Longrightarrow> buf32 (drop p b) \<Longrightarrow>
     decode_headers (length hs) b p
       = Inr (map norm_header hs, p + length (concat (map header_bytes hs)))"
proof (induction hs arbitrary: p)
  case (Cons h hs)
  let ?tl = "concat (map header_bytes hs) @ rest"
  from Cons.prems(1) have b: "drop p b = encodeString [] (h_Key h) @ encodeBytes [] (h_Value h) @ ?tl"
    by (simp add: header_bytes_def [of h])
  then have "drop (4 + length (h_Key h)) (drop p b) = encodeBytes [] (h_Value h) @ ?tl"
    by simp
  then have b2: "drop (p + (4 + length (h_Key h))) b = encodeBytes [] (h_Value h) @ ?tl"
    by (simp add: add.commute)
  then have "drop (4 + length (gb (h_Value h))) (drop (p + (4 + length (h_Key h))) b) = ?tl"
    by simp
  then have b3: "drop (p + (4 + length (h_Key h)) + (4 + length (gb (h_Value h)))) b = ?tl"
    by (simp add: add.commute)
  have buf2: "buf32 (encodeBytes [] (h_Value h) @ ?tl)" and buf3: "buf32 ?tl"
    using Cons.prems(2) unfolding b by (blast dest: buf32_append)+
  have "decodeString (drop p b) = Inr (h_Key h, 4 + length (h_Key h))"
    using Cons.prems(2) unfolding b by (rule decodeString_encode)
  moreover have "decodeBytes (drop (p + (4 + length (h_Key h))) b)
      = Inr (norm_bytes (h_Value h), 4 + length (gb (h_Value h)))"
    unfolding b2 using buf2 by (rule decodeBytes_encode)
  moreover note Cons.IH [OF b3, unfolded b3, OF buf3]
  ultimately show ?case
    by (simp add: Let_def norm_header_def)
qed simp

lemma length_concat_header_bytes: "length hs \<le> length (concat (map header_bytes hs))"
  by (induction hs) simp_all

lemma length_encodeRecord:
  "length (encodeRecord [] r) = 28 + length (gb (r_Key r)) + length (gb (r_Value r))
     + length (concat (map header_bytes (r_Headers r)))"
  by (simp add: encodeRecord_eq)

lemma decodeRecord_encode [codec_simps]:
  assumes wf: "wf_record r" and buf: "buf32 (encodeRecord [] r @ rest)"
  shows "decodeRecord (encodeRecord [] r @ rest) = Inr (norm_record r, length (encodeRecord [] r))"
proof -
  let ?k = "encodeBytes [] (r_Key r)" and ?v = "encodeBytes [] (r_Value r)"
  let ?c = "be32 (uint32_len (r_Headers r))" and ?hs = "concat (map header_bytes (r_Headers r))"
  define b where "b = encodeRecord [] r @ rest"
  let ?p1 = "16 + (4 + length (gb (r_Key r)))"
  let ?p2 = "?p1 + (4 + length (gb (r_Value r)))"
  have b: "b = be64 (uint64_of (r_Offset r)) @ be64 (uint64_of (r_Timestamp r)) @ ?k @ ?v @ ?c @ ?hs @ rest"
    by (simp add: b_def encodeRecord_eq)
  have d1: "drop 16 b = ?k @ ?v @ ?c @ ?hs @ rest" by (simp add: b)
  have d2: "drop ?p1 b = ?v @ ?c @ ?hs @ rest" by (simp add: b)
  have d3: "drop ?p2 b = ?c @ ?hs @ rest" by (simp add: b)
  have d4: "drop (?p2 + 4) b = ?hs @ rest" by (simp add: b)
  have bufs: "buf32 (?k @ ?v @ ?c @ ?hs @ rest)" "buf32 (?v @ ?c @ ?hs @ rest)" "buf32 (?hs @ rest)"
    using buf buf32_drop [of b 16] buf32_drop [of b ?p1] buf32_drop [of b "?p2 + 4"]
    unfolding b_def [symmetric] d1 d2 d4 by auto
  have cnt: "unat (uint32_len (r_Headers r)) = length (r_Headers r)"
    using bufs(3) length_concat_header_bytes [of "r_Headers r"]
    by (intro unat_uint32_len) (simp add: buf32_def)
  have "decode_headers (length (r_Headers r)) b (?p2 + 4)
      = Inr (map norm_header (r_Headers r), ?p2 + 4 + length ?hs)"
    by (rule decode_headers_encode [OF d4, unfolded d4, OF bufs(3)])
  moreover have "Uint32 (sl b ?p2 (?p2 + 4)) = uint32_len (r_Headers r)"
    using d3 by (simp add: sl_def Uint32_be32)
  moreover have "sl b 0 8 = be64 (uint64_of (r_Offset r))" "sl b 8 16 = be64 (uint64_of (r_Timestamp r))"
    by (simp_all add: b sl_def)
  moreover have "16 \<le> length b" "4 \<le> length (drop ?p2 b)" by (simp_all add: b)
  moreover have "decodeBytes (drop 16 b) = Inr (norm_bytes (r_Key r), 4 + length (gb (r_Key r)))"
    "decodeBytes (drop ?p1 b) = Inr (norm_bytes (r_Value r), 4 + length (gb (r_Value r)))"
    unfolding d1 d2 by (rule decodeBytes_encode, rule bufs)+
  moreover have "length (encodeRecord [] r) = ?p2 + 4 + length ?hs"
    by (simp add: length_encodeRecord)
  moreover note wf [unfolded wf_record_def]
  ultimately show ?thesis
    unfolding b_def [symmetric]
    by (simp add: decodeRecord_def Let_def cnt norm_record_def codec_simps del: drop_drop length_drop)
qed

lemma encodeFramedRecord_eq:
  "encodeFramedRecord buf r = buf @ be32 (uint32_len (encodeRecord [] r)) @ encodeRecord [] r
     @ be32 (crc32c (encodeRecord [] r))"
  by (simp add: encodeFramedRecord_def Let_def encodeRecord_append)

lemma length_encodeFramedRecord [simp]:
  "length (encodeFramedRecord [] r) = length (encodeRecord [] r) + 8"
  by (simp add: encodeFramedRecord_eq)

lemma decodeFramedRecord_encode [codec_simps]:
  assumes wf: "wf_record r" and buf: "buf32 (encodeFramedRecord [] r @ rest)"
  shows "decodeFramedRecord (encodeFramedRecord [] r @ rest)
    = Inr (norm_record r, length (encodeFramedRecord [] r))"
proof -
  let ?body = "encodeRecord [] r"
  have "buf32 (be32 (uint32_len ?body) @ ?body @ be32 (crc32c ?body) @ rest)"
    using buf by (simp add: encodeFramedRecord_eq)
  note len = uint32_len_prefix [OF this refl]
  have "buf32 ?body"
    using buf by (simp add: encodeFramedRecord_eq buf32_def)
  then have "decodeRecord ?body = Inr (norm_record r, length ?body)"
    using decodeRecord_encode [OF wf, of "[]"] by simp
  with len(1,2) show ?thesis
    by (simp add: decodeFramedRecord_def encodeFramedRecord_eq sl_def Uint32_be32 Let_def)
qed

interpretation string_codec: prefix_codec "encodeString []" "advance decodeString" "\<lambda>_. True" "\<lambda>s. s"
proof unfold_locales
  show "encodeString [] x \<noteq> []" for x
    by (simp add: encodeString_def be32_def)
qed (simp add: advance_def decodeString_encode)

interpretation record_codec: prefix_codec "encodeRecord []" "advance decodeRecord" wf_record norm_record
proof unfold_locales
  show "encodeRecord [] x \<noteq> []" for x
    by (simp add: encodeRecord_eq be64_def)
qed (simp add: advance_def decodeRecord_encode)

interpretation framed_codec:
  prefix_codec "encodeFramedRecord []" "advance decodeFramedRecord" wf_record norm_record
proof unfold_locales
  show "encodeFramedRecord [] x \<noteq> []" for x
    by (simp add: encodeFramedRecord_eq be32_def)
qed (simp add: advance_def decodeFramedRecord_encode del: length_encodeFramedRecord)

section \<open>Safety of the readers\<close>

text \<open>
  A reader is safe on a buffer when it neither panics nor claims to have consumed more than it was
  given. Below 4 GiB every reader is, on arbitrary (not only well-formed) input.
\<close>

definition safe_read :: "('a \<times> nat) result \<Rightarrow> bytes \<Rightarrow> bool" where
  "safe_read res b \<longleftrightarrow> (case res of Inl e \<Rightarrow> \<not> errors_Is e Panic | Inr (_, n) \<Rightarrow> n \<le> length b)"

lemma prefix_in_range:
  assumes "buf32 b" "4 \<le> length b" "\<not> word_of_nat (length b - 4) < (n :: 32 word)"
  shows "4 + unat n \<le> length b" and "unat (4 + n) = 4 + unat n"
proof -
  from assms(1) have "unat (word_of_nat (length b - 4) :: 32 word) = length b - 4"
    by (simp add: buf32_def unat_of_nat take_bit_nat_eq_self)
  with assms(2,3) show le: "4 + unat n \<le> length b" by (simp add: word_less_nat_alt)
  with assms(1) show "unat (4 + n) = 4 + unat n"
    by (simp add: buf32_def unat_word_ariths)
qed

lemma decodeString_safe: "buf32 b \<Longrightarrow> safe_read (decodeString b) b"
  using prefix_in_range [of b]
  by (auto simp: safe_read_def decodeString_def Let_def not_less split: if_splits)

lemma decodeBytes_safe: "buf32 b \<Longrightarrow> safe_read (decodeBytes b) b"
  using prefix_in_range [of b]
  by (auto simp: safe_read_def decodeBytes_def Let_def not_less split: if_splits)

lemma safe_readD:
  "safe_read (Inl e) b \<Longrightarrow> \<not> errors_Is e Panic" "safe_read (Inr (x, n)) b \<Longrightarrow> n \<le> length b"
  by (simp_all add: safe_read_def)

lemma decode_headers_safe:
  "buf32 b \<Longrightarrow> p \<le> length b \<Longrightarrow> safe_read (decode_headers k b p) b"
proof (induction k arbitrary: p)
  case (Suc k)
  show ?case
  proof (cases "decodeString (drop p b)")
    case (Inl e)
    with decodeString_safe [OF buf32_drop [OF Suc.prems(1), of p]] show ?thesis
      by (simp add: safe_read_def)
  next
    case (Inr kn)
    obtain hk n where kn: "kn = (hk, n)" by (cases kn)
    with decodeString_safe [OF buf32_drop [OF Suc.prems(1), of p]] Inr Suc.prems(2)
    have p1: "p + n \<le> length b" by (auto simp: safe_read_def)
    note safe2 = decodeBytes_safe [OF buf32_drop [OF Suc.prems(1), of "p + n"]]
    show ?thesis
    proof (cases "decodeBytes (drop (p + n) b)")
      case (Inl e)
      with safe2 Inr kn show ?thesis by (simp add: safe_read_def)
    next
      case Inr2: (Inr vm)
      obtain hv m where vm: "vm = (hv, m)" by (cases vm)
      with safe2 Inr2 p1 have "p + n + m \<le> length b" by (auto simp: safe_read_def)
      from Suc.IH [OF Suc.prems(1) this] Inr Inr2 kn vm show ?thesis
        by (auto simp: safe_read_def split: sum.splits prod.splits)
    qed
  qed
qed (simp add: safe_read_def)

lemma decodeRecord_safe:
  assumes buf: "buf32 b" shows "safe_read (decodeRecord b) b"
proof (cases "length b < 16")
  case True
  then show ?thesis by (simp add: decodeRecord_def safe_read_def)
next
  case l16: False
  note s1 = decodeBytes_safe [OF buf32_drop [OF buf, of 16]]
  show ?thesis
  proof (cases "decodeBytes (drop 16 b)")
    case (Inl e)
    with s1 l16 show ?thesis by (simp add: decodeRecord_def safe_read_def)
  next
    case Inr1: (Inr kn)
    obtain key n where kn: "kn = (key, n)" by (cases kn)
    note s2 = decodeBytes_safe [OF buf32_drop [OF buf, of "16 + n"]]
    show ?thesis
    proof (cases "decodeBytes (drop (16 + n) b)")
      case (Inl e)
      with s2 Inr1 kn l16 show ?thesis by (simp add: decodeRecord_def safe_read_def)
    next
      case Inr2: (Inr vm)
      obtain val m where vm: "vm = (val, m)" by (cases vm)
      show ?thesis
      proof (cases "length (drop (16 + n + m) b) < 4")
        case True
        with Inr1 Inr2 kn vm l16 show ?thesis
          by (simp add: decodeRecord_def safe_read_def Let_def)
      next
        case False
        then have "16 + n + m + 4 \<le> length b" by simp
        from decode_headers_safe [OF buf this, of "unat (Uint32 (sl b (16 + n + m) (16 + n + m + 4)))"] False Inr1 Inr2 kn vm l16 show ?thesis
          by (auto simp: decodeRecord_def safe_read_def Let_def split: sum.splits prod.splits)
      qed
    qed
  qed
qed

lemma decodeFramedRecord_safe:
  assumes buf: "buf32 b" shows "safe_read (decodeFramedRecord b) b"
proof -
  let ?n = "Uint32 (sl b 0 4)"
  have wrap: "unat (4 + ?n) = 4 + unat ?n" if "4 + unat ?n + 4 \<le> length b"
    using that buf by (simp add: buf32_def unat_word_ariths)
  have "buf32 (sl b 4 j)" for j
    using buf by (simp add: buf32_def sl_def)
  note body = decodeRecord_safe [OF this [of "unat (4 + ?n)"]]
  show ?thesis
    using wrap body
    by (auto simp: decodeFramedRecord_def safe_read_def Let_def not_less
        split: sum.splits prod.splits if_splits)
qed

section \<open>Frames on a connection\<close>

lemma ReadFull_append [simp]: "length a = n \<Longrightarrow> ReadFull n (a @ b) = Inr (a, b)"
  by (simp add: ReadFull_def)

lemma ReadFrame_WriteFrame:
  assumes "length payload < maxFrameBytes"
  shows "ReadFrame (WriteFrame op payload @ rest) = Inr (op, payload, rest)"
proof -
  let ?n = "word_of_nat (1 + length payload) :: 32 word"
  from assms have n: "unat ?n = 1 + length payload"
    by (simp add: maxFrameBytes_def unat_of_nat take_bit_nat_eq_self del: of_nat_Suc of_nat_add)
  then have "?n \<noteq> 0" by (metis add_is_0 one_neq_zero unat_0)
  with assms n show ?thesis
    using ReadFull_append [of "op # payload" "1 + length payload" rest]
    by (simp add: ReadFrame_def WriteFrame_def Uint32_be32 Let_def maxFrameBytes_def)
qed

lemma ReadFrame_oversize:
  assumes "maxFrameBytes \<le> length payload" "1 + length payload < 2 ^ 32"
  shows "ReadFrame (WriteFrame op payload @ rest) = Inl (ErrNew ''proto: frame too large'')"
proof -
  let ?n = "word_of_nat (1 + length payload) :: 32 word"
  from assms(2) have n: "unat ?n = 1 + length payload"
    by (simp add: unat_of_nat take_bit_nat_eq_self del: of_nat_Suc of_nat_add)
  then have "?n \<noteq> 0" by (metis add_is_0 one_neq_zero unat_0)
  with assms n show ?thesis
    by (simp add: ReadFrame_def WriteFrame_def Uint32_be32 Let_def)
qed

lemma ReadResponse_WriteResponse:
  assumes "length body + 1 < maxFrameBytes"
  shows "ReadResponse (WriteResponse op StatusOK body @ rest) op = Inr (body, rest)"
  using ReadFrame_WriteFrame [of "StatusOK # body" op rest] assms
  by (simp add: ReadResponse_def WriteResponse_def)

lemma ReadResponse_WriteErrorResponse:
  assumes "length msg + 5 < maxFrameBytes" "status \<noteq> StatusOK"
  shows "ReadResponse (WriteErrorResponse op status msg @ rest) op = Inl (ErrProtocol status msg)"
proof -
  have "decodeString (encodeString [] msg) = Inr (msg, 4 + length msg)"
    using decodeString_encode [of msg "[]"] assms(1) by (simp add: buf32_def maxFrameBytes_def)
  with ReadFrame_WriteFrame [of "status # encodeString [] msg" op rest] assms show ?thesis
    by (simp add: ReadResponse_def WriteErrorResponse_def WriteResponse_def)
qed

end
