(* ===== verification/Wire_Data.thy ===== *)
theory Wire_Data
  imports Wire_Primitives
begin

text \<open>
  The data-path messages of \<^verbatim>\<open>proto/wire.go\<close>: handshake, produce (single and batch), fetch, metadata,
  high water, sync and segment transfer, with the LZ4 wrapper of \<^verbatim>\<open>proto/lz4.go\<close>. Each request or
  response is a record with the source's fields, an encoder and a decoder; every pair is an instance
  of \<open>message_codec\<close>. The LZ4 library is third-party code: the block functions are parameters.
\<close>

section \<open>Handshake and produce\<close>

record HandshakeRequest =
  hs_Version :: byte
  hs_CredentialKind :: byte
  hs_Credential :: gobytes

definition HandshakeRequest_Encode :: "HandshakeRequest \<Rightarrow> bytes" where
  "HandshakeRequest_Encode h = encodeBytes [hs_Version h, hs_CredentialKind h] (hs_Credential h)"

definition DecodeHandshakeRequest :: "bytes \<Rightarrow> HandshakeRequest result" where
  "DecodeHandshakeRequest b =
     (if length b < 1 then Inl (ErrNew ''proto: bad handshake'')
      else let version = b ! 0; rest = drop 1 b in
        if rest = [] then Inr \<lparr>hs_Version = version, hs_CredentialKind = 0, hs_Credential = None\<rparr>
        else let kind = rest ! 0; rest = drop 1 rest in
          case decodeBytes rest of
            Inl e \<Rightarrow> Inl (ErrWrap ''proto: handshake credential'' e)
          | Inr (cred, _) \<Rightarrow>
              Inr \<lparr>hs_Version = version, hs_CredentialKind = kind, hs_Credential = cred\<rparr>)"

record ProduceRequest =
  pq_Topic :: string
  pq_Partition :: int
  pq_Record :: Record

definition ProduceRequest_Encode :: "ProduceRequest \<Rightarrow> bytes" where
  "ProduceRequest_Encode r =
     (let b = encodeString [] (pq_Topic r);
          b = b @ be32 (uint32_of (pq_Partition r))
      in encodeRecord b (pq_Record r))"

definition DecodeProduceRequest :: "bytes \<Rightarrow> ProduceRequest result" where
  "DecodeProduceRequest b =
     (case decodeString b of
        Inl e \<Rightarrow> Inl e
      | Inr (topic, n) \<Rightarrow>
          (let b = drop n b in
           if length b < 4 then Inl (ErrNew ''proto: short ProduceRequest'')
           else let part = int32_of (Uint32 (sl b 0 4)); b = drop 4 b in
             case decodeRecord b of
               Inl e \<Rightarrow> Inl (ErrWrap ''proto: ProduceRequest record'' e)
             | Inr (rec, _) \<Rightarrow> Inr \<lparr>pq_Topic = topic, pq_Partition = part, pq_Record = rec\<rparr>))"

record ProduceResponse =
  ps_Offset :: int

definition ProduceResponse_Encode :: "ProduceResponse \<Rightarrow> bytes" where
  "ProduceResponse_Encode r = be64 (uint64_of (ps_Offset r))"

definition DecodeProduceResponse :: "bytes \<Rightarrow> ProduceResponse result" where
  "DecodeProduceResponse b =
     (if length b < 8 then Inl (ErrNew ''proto: short ProduceResponse'')
      else Inr \<lparr>ps_Offset = int64_of (Uint64 (sl b 0 8))\<rparr>)"

section \<open>LZ4\<close>

text \<open>
  \<open>CompressBlock l src\<close> is the library's block compressor: level 0 the fast compressor, 1 to 9 the HC
  variants; an empty result is the library's \<open>n = 0\<close> (incompressible). \<open>UncompressBlock src n\<close> inflates
  into a buffer of \<open>n\<close> bytes and gives the bytes written.
\<close>

type_synonym compress_block = "nat \<Rightarrow> bytes \<Rightarrow> bytes result"
type_synonym uncompress_block = "bytes \<Rightarrow> nat \<Rightarrow> bytes result"

definition lz4_library :: "compress_block \<Rightarrow> uncompress_block \<Rightarrow> bool" where
  "lz4_library cb ub \<longleftrightarrow>
     (\<forall>l src out. src \<noteq> [] \<and> cb l src = Inr out \<and> out \<noteq> [] \<longrightarrow> ub out (length src) = Inr src)"

definition hcLevel :: "int \<Rightarrow> nat" where
  "hcLevel n = (if n \<le> 1 then 1 else if n = 2 then 2 else if n = 3 then 3 else if n = 4 then 4
     else if n = 5 then 5 else if n = 6 then 6 else if n = 7 then 7 else if n = 8 then 8 else 9)"

definition lz4CompressLevel :: "compress_block \<Rightarrow> bytes \<Rightarrow> int \<Rightarrow> bytes result" where
  "lz4CompressLevel cb src level =
     (if src = [] then Inr []
      else case (if level \<le> 0 then cb 0 src else cb (hcLevel level) src) of
             Inl e \<Rightarrow> Inl e
           | Inr out \<Rightarrow> if out = [] then Inl (ErrNew ''proto: lz4: payload incompressible'') else Inr out)"

definition lz4Compress :: "compress_block \<Rightarrow> bytes \<Rightarrow> bytes result" where
  "lz4Compress cb src = lz4CompressLevel cb src 0"

definition lz4Decompress :: "uncompress_block \<Rightarrow> bytes \<Rightarrow> nat \<Rightarrow> bytes result" where
  "lz4Decompress ub src uncompressedLen =
     (if uncompressedLen = 0 then Inr []
      else case ub src uncompressedLen of
             Inl e \<Rightarrow> Inl e
           | Inr dst \<Rightarrow> if length dst \<noteq> uncompressedLen then Inl (ErrNew ''proto: lz4: short decompress'')
                        else Inr dst)"

section \<open>Batches\<close>

definition CodecNone :: byte where
  "CodecNone = 0"

definition CodecLZ4 :: byte where
  "CodecLZ4 = 1"

record ProduceBatchRequest =
  pbq_Topic :: string
  pbq_Partition :: int
  pbq_Codec :: byte
  pbq_Records :: "Record list"
  pbq_Level :: byte

definition ProduceBatchRequest_Encode :: "compress_block \<Rightarrow> ProduceBatchRequest \<Rightarrow> bytes" where
  "ProduceBatchRequest_Encode cb r =
     (let b = encodeString [] (pbq_Topic r);
          b = b @ be32 (uint32_of (pbq_Partition r));
          b = b @ [pbq_Codec r];
          b = b @ be32 (uint32_len (pbq_Records r));
          recordsBuf = foldl encodeRecord [] (pbq_Records r)
      in if pbq_Codec r = CodecLZ4 then
           (case lz4CompressLevel cb recordsBuf (uint (pbq_Level r)) of
              Inl _ \<Rightarrow> b[length b - 5 := CodecNone] @ recordsBuf
            | Inr compressed \<Rightarrow> (b @ be32 (uint32_len recordsBuf)) @ compressed)
         else b @ recordsBuf)"

definition DecodeProduceBatchRequest :: "uncompress_block \<Rightarrow> bytes \<Rightarrow> ProduceBatchRequest result" where
  "DecodeProduceBatchRequest ub b =
     (case decodeString b of
        Inl e \<Rightarrow> Inl e
      | Inr (topic, n) \<Rightarrow>
          (let b = drop n b in
           if length b < 5 then Inl (ErrNew ''proto: short ProduceBatchRequest'')
           else let partition = int32_of (Uint32 (sl b 0 4)); codec = b ! 4; b = drop 5 b in
             if length b < 4 then Inl (ErrNew ''proto: short ProduceBatchRequest count'')
             else let count = Uint32 (sl b 0 4); b = drop 4 b in
               case (if codec = CodecLZ4 then
                       (if length b < 4 then Inl (ErrNew ''proto: short LZ4 length'')
                        else let uncompressedLen = Uint32 (sl b 0 4); b = drop 4 b in
                          wrap_error ''proto: lz4 decompress'' (lz4Decompress ub b (unat uncompressedLen)))
                     else if codec = CodecNone then Inr b
                     else Inl (ErrNew ''proto: unknown codec'')) of
                 Inl e \<Rightarrow> Inl e
               | Inr recordsBuf \<Rightarrow>
                   (case decode_loop (\<lambda>b. wrap_error ''proto: ProduceBatchRequest record'' (advance decodeRecord b))
                           (unat count) recordsBuf of
                      Inl e \<Rightarrow> Inl e
                    | Inr (records, _) \<Rightarrow>
                        Inr \<lparr>pbq_Topic = topic, pbq_Partition = partition, pbq_Codec = codec,
                             pbq_Records = records, pbq_Level = 0\<rparr>)))"

record ProduceBatchResponse =
  pbs_BaseOffset :: int
  pbs_Count :: int

definition ProduceBatchResponse_Encode :: "ProduceBatchResponse \<Rightarrow> bytes" where
  "ProduceBatchResponse_Encode r =
     (let b = be64 (uint64_of (pbs_BaseOffset r))
      in b @ be32 (uint32_of (pbs_Count r)))"

definition DecodeProduceBatchResponse :: "bytes \<Rightarrow> ProduceBatchResponse result" where
  "DecodeProduceBatchResponse b =
     (if length b < 12 then Inl (ErrNew ''proto: short ProduceBatchResponse'')
      else Inr \<lparr>pbs_BaseOffset = int64_of (Uint64 (sl b 0 8)), pbs_Count = int32_of (Uint32 (sl b 8 12))\<rparr>)"

section \<open>Fetch\<close>

record FetchRequest =
  fq_Topic :: string
  fq_Partition :: int
  fq_FromOffset :: int
  fq_MaxRecords :: int
  fq_MaxWaitMs :: int
  fq_AcceptCodec :: byte

definition FetchRequest_Encode :: "FetchRequest \<Rightarrow> bytes" where
  "FetchRequest_Encode r =
     (let b = encodeString [] (fq_Topic r);
          b = b @ be32 (uint32_of (fq_Partition r));
          b = b @ be64 (uint64_of (fq_FromOffset r));
          b = b @ be32 (uint32_of (fq_MaxRecords r));
          b = b @ be32 (uint32_of (fq_MaxWaitMs r))
      in b @ [fq_AcceptCodec r])"

definition DecodeFetchRequest :: "bytes \<Rightarrow> FetchRequest result" where
  "DecodeFetchRequest b =
     (case decodeString b of
        Inl e \<Rightarrow> Inl e
      | Inr (topic, n) \<Rightarrow>
          (let b = drop n b in
           if length b < 21 then Inl (ErrNew ''proto: short FetchRequest'')
           else Inr \<lparr>fq_Topic = topic,
                     fq_Partition = int32_of (Uint32 (sl b 0 4)),
                     fq_FromOffset = int64_of (Uint64 (sl b 4 12)),
                     fq_MaxRecords = int32_of (Uint32 (sl b 12 16)),
                     fq_MaxWaitMs = int32_of (Uint32 (sl b 16 20)),
                     fq_AcceptCodec = b ! 20\<rparr>))"

record FetchResponse =
  fs_Records :: "Record list"
  fs_Codec :: byte

definition fetchPayload :: "FetchResponse \<Rightarrow> bytes" where
  "fetchPayload r = foldl encodeFramedRecord (be32 (uint32_len (fs_Records r))) (fs_Records r)"

definition FetchResponse_Encode :: "compress_block \<Rightarrow> FetchResponse \<Rightarrow> bytes" where
  "FetchResponse_Encode cb r =
     (if fs_Codec r \<noteq> CodecLZ4 then [CodecNone] @ fetchPayload r
      else let payload = fetchPayload r in
        case lz4Compress cb payload of
          Inl _ \<Rightarrow> [CodecNone] @ payload
        | Inr compressed \<Rightarrow> ([CodecLZ4] @ be32 (uint32_len payload)) @ compressed)"

definition DecodeFetchResponse :: "uncompress_block \<Rightarrow> bytes \<Rightarrow> FetchResponse result" where
  "DecodeFetchResponse ub b =
     (if length b < 1 then Inl (ErrNew ''proto: short FetchResponse'')
      else let codec = b ! 0; b = drop 1 b in
        case (if codec = CodecLZ4 then
                (if length b < 4 then Inl (ErrNew ''proto: short FetchResponse lz4 header'')
                 else let uncompressedLen = unat (Uint32 (sl b 0 4)) in
                   wrap_error ''proto: FetchResponse lz4'' (lz4Decompress ub (drop 4 b) uncompressedLen))
              else Inr b) of
          Inl e \<Rightarrow> Inl e
        | Inr b \<Rightarrow>
            if length b < 4 then Inl (ErrNew ''proto: short FetchResponse count'')
            else let count = Uint32 (sl b 0 4); b = drop 4 b in
              case decode_loop (\<lambda>b. wrap_error ''proto: FetchResponse record'' (advance decodeFramedRecord b))
                     (unat count) b of
                Inl e \<Rightarrow> Inl e
              | Inr (out, _) \<Rightarrow> Inr \<lparr>fs_Records = out, fs_Codec = codec\<rparr>)"

section \<open>Metadata, high water, sync\<close>

record MetadataRequest =
  mq_Topic :: string

definition MetadataRequest_Encode :: "MetadataRequest \<Rightarrow> bytes" where
  "MetadataRequest_Encode r = encodeString [] (mq_Topic r)"

definition DecodeMetadataRequest :: "bytes \<Rightarrow> MetadataRequest result" where
  "DecodeMetadataRequest b =
     (case decodeString b of Inl e \<Rightarrow> Inl e | Inr (topic, _) \<Rightarrow> Inr \<lparr>mq_Topic = topic\<rparr>)"

record MetadataResponse =
  ms_PartitionCount :: int

definition MetadataResponse_Encode :: "MetadataResponse \<Rightarrow> bytes" where
  "MetadataResponse_Encode r = be32 (uint32_of (ms_PartitionCount r))"

definition DecodeMetadataResponse :: "bytes \<Rightarrow> MetadataResponse result" where
  "DecodeMetadataResponse b =
     (if length b < 4 then Inl (ErrNew ''proto: short MetadataResponse'')
      else Inr \<lparr>ms_PartitionCount = int32_of (Uint32 (sl b 0 4))\<rparr>)"

record HighWaterRequest =
  hwq_Topic :: string
  hwq_Partition :: int

definition HighWaterRequest_Encode :: "HighWaterRequest \<Rightarrow> bytes" where
  "HighWaterRequest_Encode r = encodeString [] (hwq_Topic r) @ be32 (uint32_of (hwq_Partition r))"

definition DecodeHighWaterRequest :: "bytes \<Rightarrow> HighWaterRequest result" where
  "DecodeHighWaterRequest b =
     (case decodeString b of
        Inl e \<Rightarrow> Inl e
      | Inr (topic, off) \<Rightarrow>
          if length b - off < 4 then Inl (ErrNew ''proto: short HighWaterRequest'')
          else Inr \<lparr>hwq_Topic = topic, hwq_Partition = int32_of (Uint32 (sl b off (off + 4)))\<rparr>)"

record HighWaterResponse =
  hws_HighWater :: int

definition HighWaterResponse_Encode :: "HighWaterResponse \<Rightarrow> bytes" where
  "HighWaterResponse_Encode r = be64 (uint64_of (hws_HighWater r))"

definition DecodeHighWaterResponse :: "bytes \<Rightarrow> HighWaterResponse result" where
  "DecodeHighWaterResponse b =
     (if length b < 8 then Inl (ErrNew ''proto: short HighWaterResponse'')
      else Inr \<lparr>hws_HighWater = int64_of (Uint64 (sl b 0 8))\<rparr>)"

record SyncRequest =
  sq_Topic :: string
  sq_Partition :: int

definition SyncRequest_Encode :: "SyncRequest \<Rightarrow> bytes" where
  "SyncRequest_Encode r =
     (let b = encodeString [] (sq_Topic r)
      in b @ be32 (uint32_of (sq_Partition r)))"

definition DecodeSyncRequest :: "bytes \<Rightarrow> SyncRequest result" where
  "DecodeSyncRequest b =
     (case decodeString b of
        Inl e \<Rightarrow> Inl e
      | Inr (topic, n) \<Rightarrow>
          (let b = drop n b in
           if length b < 4 then Inl (ErrNew ''proto: short SyncRequest'')
           else Inr \<lparr>sq_Topic = topic, sq_Partition = int32_of (Uint32 (sl b 0 4))\<rparr>))"

section \<open>Segment transfer\<close>

record SegmentInfo =
  si_Base :: int
  si_LogSize :: int
  si_IdxSize :: int

record ListSegmentsRequest =
  lsq_Topic :: string
  lsq_Partition :: int

definition ListSegmentsRequest_Encode :: "ListSegmentsRequest \<Rightarrow> bytes" where
  "ListSegmentsRequest_Encode r = encodeString [] (lsq_Topic r) @ be32 (uint32_of (lsq_Partition r))"

definition DecodeListSegmentsRequest :: "bytes \<Rightarrow> ListSegmentsRequest result" where
  "DecodeListSegmentsRequest b =
     (case decodeString b of
        Inl e \<Rightarrow> Inl e
      | Inr (topic, off) \<Rightarrow>
          if length b - off < 4 then Inl (ErrNew ''proto: short ListSegmentsRequest'')
          else Inr \<lparr>lsq_Topic = topic, lsq_Partition = int32_of (Uint32 (sl b off (off + 4)))\<rparr>)"

record ListSegmentsResponse =
  lss_Segments :: "SegmentInfo list"

definition encodeSegmentInfo :: "bytes \<Rightarrow> SegmentInfo \<Rightarrow> bytes" where
  "encodeSegmentInfo b s =
     (let b = b @ be64 (uint64_of (si_Base s));
          b = b @ be64 (uint64_of (si_LogSize s))
      in b @ be64 (uint64_of (si_IdxSize s)))"

definition decodeSegmentInfo :: "bytes \<Rightarrow> (SegmentInfo \<times> bytes) result" where
  "decodeSegmentInfo b =
     Inr (\<lparr>si_Base = int64_of (Uint64 (sl b 0 8)), si_LogSize = int64_of (Uint64 (sl b 8 16)),
           si_IdxSize = int64_of (Uint64 (sl b 16 24))\<rparr>, drop 24 b)"

definition ListSegmentsResponse_Encode :: "ListSegmentsResponse \<Rightarrow> bytes" where
  "ListSegmentsResponse_Encode r =
     foldl encodeSegmentInfo (be32 (uint32_len (lss_Segments r))) (lss_Segments r)"

definition DecodeListSegmentsResponse :: "bytes \<Rightarrow> ListSegmentsResponse result" where
  "DecodeListSegmentsResponse b =
     (if length b < 4 then Inl (ErrNew ''proto: short ListSegmentsResponse'')
      else let count = unat (Uint32 (sl b 0 4)); b = drop 4 b in
        if length b < count * 24 then Inl (ErrNew ''proto: short ListSegmentsResponse entries'')
        else case decode_loop decodeSegmentInfo count b of
               Inl e \<Rightarrow> Inl e
             | Inr (out, _) \<Rightarrow> Inr \<lparr>lss_Segments = out\<rparr>)"

record FetchSegmentChunkRequest =
  fcq_Topic :: string
  fcq_Partition :: int
  fcq_Base :: int
  fcq_Kind :: byte
  fcq_Offset :: int
  fcq_MaxBytes :: int

definition FetchSegmentChunkRequest_Encode :: "FetchSegmentChunkRequest \<Rightarrow> bytes" where
  "FetchSegmentChunkRequest_Encode r =
     (let b = encodeString [] (fcq_Topic r);
          b = b @ be32 (uint32_of (fcq_Partition r));
          b = b @ be64 (uint64_of (fcq_Base r));
          b = b @ [fcq_Kind r];
          b = b @ be64 (uint64_of (fcq_Offset r))
      in b @ be32 (uint32_of (fcq_MaxBytes r)))"

definition DecodeFetchSegmentChunkRequest :: "bytes \<Rightarrow> FetchSegmentChunkRequest result" where
  "DecodeFetchSegmentChunkRequest b =
     (case decodeString b of
        Inl e \<Rightarrow> Inl e
      | Inr (topic, off) \<Rightarrow>
          (let b = drop off b in
           if length b < 4 + 8 + 1 + 8 + 4 then Inl (ErrNew ''proto: short FetchSegmentChunkRequest'')
           else Inr \<lparr>fcq_Topic = topic,
                     fcq_Partition = int32_of (Uint32 (sl b 0 4)),
                     fcq_Base = int64_of (Uint64 (sl b 4 12)),
                     fcq_Kind = b ! 12,
                     fcq_Offset = int64_of (Uint64 (sl b 13 21)),
                     fcq_MaxBytes = int32_of (Uint32 (sl b 21 25))\<rparr>))"

record FetchSegmentChunkResponse =
  fcs_Bytes :: gobytes

definition FetchSegmentChunkResponse_Encode :: "FetchSegmentChunkResponse \<Rightarrow> bytes" where
  "FetchSegmentChunkResponse_Encode r = encodeBytes [] (fcs_Bytes r)"

definition DecodeFetchSegmentChunkResponse :: "bytes \<Rightarrow> FetchSegmentChunkResponse result" where
  "DecodeFetchSegmentChunkResponse b =
     (case decodeBytes b of Inl e \<Rightarrow> Inl e | Inr (bs, _) \<Rightarrow> Inr \<lparr>fcs_Bytes = bs\<rparr>)"

section \<open>Round trips\<close>

text \<open>Integer fields within the range of their Go type; lengths are bounded by \<open>buf32\<close> of the encoding.\<close>

lemma decodeString_all: "buf32 (encodeString [] s) \<Longrightarrow> decodeString (encodeString [] s) = Inr (s, 4 + length s)"
  using decodeString_encode [of s "[]"] by simp

lemma decodeBytes_all:
  "buf32 (encodeBytes [] b) \<Longrightarrow> decodeBytes (encodeBytes [] b) = Inr (norm_bytes b, 4 + length (gb b))"
  using decodeBytes_encode [of b "[]"] by simp

lemma decodeRecord_all:
  "wf_record r \<Longrightarrow> buf32 (encodeRecord [] r) \<Longrightarrow>
     decodeRecord (encodeRecord [] r) = Inr (norm_record r, length (encodeRecord [] r))"
  using decodeRecord_encode [of r "[]"] by simp

lemmas decode_all [codec_simps] = decodeString_all decodeBytes_all decodeRecord_all

lemmas wire_simps = append_form codec_simps sl_def Let_def nth_append advance_def buf32_def

interpretation HandshakeRequest: message_codec HandshakeRequest_Encode DecodeHandshakeRequest "\<lambda>_. True"
  "\<lambda>h. h\<lparr>hs_Credential := norm_bytes (hs_Credential h)\<rparr>"
  by unfold_locales
    (simp add: HandshakeRequest_Encode_def DecodeHandshakeRequest_def wire_simps)

definition wf_ProduceRequest :: "ProduceRequest \<Rightarrow> bool" where
  "wf_ProduceRequest r \<longleftrightarrow> int32_ok (pq_Partition r) \<and> wf_record (pq_Record r)"

interpretation ProduceRequest: message_codec ProduceRequest_Encode DecodeProduceRequest wf_ProduceRequest
  "\<lambda>r. r\<lparr>pq_Record := norm_record (pq_Record r)\<rparr>"
  by unfold_locales
    (simp add: ProduceRequest_Encode_def DecodeProduceRequest_def wf_ProduceRequest_def wire_simps)

interpretation ProduceResponse: message_codec ProduceResponse_Encode DecodeProduceResponse
  "\<lambda>r. int64_ok (ps_Offset r)" "\<lambda>r. r"
  by unfold_locales (simp add: ProduceResponse_Encode_def DecodeProduceResponse_def wire_simps)

interpretation ProduceBatchResponse: message_codec ProduceBatchResponse_Encode DecodeProduceBatchResponse
  "\<lambda>r. int64_ok (pbs_BaseOffset r) \<and> int32_ok (pbs_Count r)" "\<lambda>r. r"
  by unfold_locales (simp add: ProduceBatchResponse_Encode_def DecodeProduceBatchResponse_def wire_simps)

definition wf_FetchRequest :: "FetchRequest \<Rightarrow> bool" where
  "wf_FetchRequest r \<longleftrightarrow> int32_ok (fq_Partition r) \<and> int64_ok (fq_FromOffset r)
     \<and> int32_ok (fq_MaxRecords r) \<and> int32_ok (fq_MaxWaitMs r)"

interpretation FetchRequest: message_codec FetchRequest_Encode DecodeFetchRequest wf_FetchRequest "\<lambda>r. r"
  by unfold_locales
    (simp add: FetchRequest_Encode_def DecodeFetchRequest_def wf_FetchRequest_def wire_simps)

interpretation MetadataRequest: message_codec MetadataRequest_Encode DecodeMetadataRequest "\<lambda>_. True" "\<lambda>r. r"
  by unfold_locales (simp add: MetadataRequest_Encode_def DecodeMetadataRequest_def wire_simps)

interpretation MetadataResponse: message_codec MetadataResponse_Encode DecodeMetadataResponse
  "\<lambda>r. int32_ok (ms_PartitionCount r)" "\<lambda>r. r"
  by unfold_locales (simp add: MetadataResponse_Encode_def DecodeMetadataResponse_def wire_simps)

interpretation HighWaterRequest: message_codec HighWaterRequest_Encode DecodeHighWaterRequest
  "\<lambda>r. int32_ok (hwq_Partition r)" "\<lambda>r. r"
  by unfold_locales (simp add: HighWaterRequest_Encode_def DecodeHighWaterRequest_def wire_simps)

interpretation HighWaterResponse: message_codec HighWaterResponse_Encode DecodeHighWaterResponse
  "\<lambda>r. int64_ok (hws_HighWater r)" "\<lambda>r. r"
  by unfold_locales (simp add: HighWaterResponse_Encode_def DecodeHighWaterResponse_def wire_simps)

interpretation SyncRequest: message_codec SyncRequest_Encode DecodeSyncRequest
  "\<lambda>r. int32_ok (sq_Partition r)" "\<lambda>r. r"
  by unfold_locales (simp add: SyncRequest_Encode_def DecodeSyncRequest_def wire_simps)

interpretation ListSegmentsRequest: message_codec ListSegmentsRequest_Encode DecodeListSegmentsRequest
  "\<lambda>r. int32_ok (lsq_Partition r)" "\<lambda>r. r"
  by unfold_locales (simp add: ListSegmentsRequest_Encode_def DecodeListSegmentsRequest_def wire_simps)

definition wf_SegmentInfo :: "SegmentInfo \<Rightarrow> bool" where
  "wf_SegmentInfo s \<longleftrightarrow> int64_ok (si_Base s) \<and> int64_ok (si_LogSize s) \<and> int64_ok (si_IdxSize s)"

lemma encodeSegmentInfo_eq: "encodeSegmentInfo b s = b @ encodeSegmentInfo [] s"
  by (simp add: encodeSegmentInfo_def Let_def)

interpretation segment_info: prefix_codec "encodeSegmentInfo []" decodeSegmentInfo wf_SegmentInfo "\<lambda>s. s"
  by unfold_locales
    (simp_all add: encodeSegmentInfo_def decodeSegmentInfo_def wf_SegmentInfo_def wire_simps)

lemma length_encodeSegmentInfos: "length (concat (map (encodeSegmentInfo []) xs)) = 24 * length xs"
  by (induction xs) (simp_all add: encodeSegmentInfo_def Let_def)

interpretation ListSegmentsResponse: message_codec ListSegmentsResponse_Encode DecodeListSegmentsResponse
  "\<lambda>r. list_all wf_SegmentInfo (lss_Segments r)" "\<lambda>r. r"
proof unfold_locales
  fix r
  assume wf: "list_all wf_SegmentInfo (lss_Segments r)" and buf: "buf32 (ListSegmentsResponse_Encode r)"
  have enc: "ListSegmentsResponse_Encode r
      = be32 (uint32_len (lss_Segments r)) @ concat (map (encodeSegmentInfo []) (lss_Segments r))"
    unfolding ListSegmentsResponse_Encode_def by (rule foldl_append_form) (rule encodeSegmentInfo_eq)
  with buf have buf': "buf32 (concat (map (encodeSegmentInfo []) (lss_Segments r)))"
    using buf32_append by metis
  note segs = segment_info.decode_counted_all [OF wf buf']
  have "unat (uint32_len (lss_Segments r)) = length (lss_Segments r)"
    using segment_info.count_fits [of _ "[]"] buf' by simp
  with segs show "DecodeListSegmentsResponse (ListSegmentsResponse_Encode r) = Inr r"
    by (simp add: enc DecodeListSegmentsResponse_def Let_def sl_def Uint32_be32 length_encodeSegmentInfos)
qed

definition wf_FetchSegmentChunkRequest :: "FetchSegmentChunkRequest \<Rightarrow> bool" where
  "wf_FetchSegmentChunkRequest r \<longleftrightarrow> int32_ok (fcq_Partition r) \<and> int64_ok (fcq_Base r)
     \<and> int64_ok (fcq_Offset r) \<and> int32_ok (fcq_MaxBytes r)"

interpretation FetchSegmentChunkRequest: message_codec FetchSegmentChunkRequest_Encode
  DecodeFetchSegmentChunkRequest wf_FetchSegmentChunkRequest "\<lambda>r. r"
  by unfold_locales
    (simp add: FetchSegmentChunkRequest_Encode_def DecodeFetchSegmentChunkRequest_def
      wf_FetchSegmentChunkRequest_def wire_simps)

interpretation FetchSegmentChunkResponse: message_codec FetchSegmentChunkResponse_Encode
  DecodeFetchSegmentChunkResponse "\<lambda>_. True" "\<lambda>r. r\<lparr>fcs_Bytes := norm_bytes (fcs_Bytes r)\<rparr>"
  by unfold_locales
    (simp add: FetchSegmentChunkResponse_Encode_def DecodeFetchSegmentChunkResponse_def wire_simps)

section \<open>Compressed messages\<close>

lemma lz4_roundtrip:
  assumes "lz4_library cb ub" "lz4CompressLevel cb src level = Inr out"
  shows "lz4Decompress ub out (length src) = Inr src"
  using assms
  by (auto simp: lz4_library_def lz4CompressLevel_def lz4Decompress_def split: if_splits sum.splits)

definition batch_bytes :: "Record list \<Rightarrow> bytes" where
  "batch_bytes rs = concat (map (encodeRecord []) rs)"

definition framed_bytes :: "Record list \<Rightarrow> bytes" where
  "framed_bytes rs = concat (map (encodeFramedRecord []) rs)"

lemma encodeRecords_eq: "foldl encodeRecord buf rs = buf @ batch_bytes rs"
  unfolding batch_bytes_def by (rule foldl_append_form) (simp add: encodeRecord_eq)

lemma fetchPayload_eq: "fetchPayload r = be32 (uint32_len (fs_Records r)) @ framed_bytes (fs_Records r)"
  unfolding framed_bytes_def fetchPayload_def by (rule foldl_append_form) (simp add: encodeFramedRecord_eq)

lemma decode_batch:
  assumes "list_all wf_record rs" "buf32 (batch_bytes rs)"
  shows "decode_loop (\<lambda>b. wrap_error m (advance decodeRecord b)) (unat (uint32_len rs)) (batch_bytes rs)
    = Inr (map norm_record rs, [])"
  using prefix_codec.decode_counted_all [OF record_codec.wrapped, of rs m] assms
  unfolding batch_bytes_def by blast

lemma decode_framed:
  assumes "list_all wf_record rs" "buf32 (framed_bytes rs)"
  shows "decode_loop (\<lambda>b. wrap_error m (advance decodeFramedRecord b)) (unat (uint32_len rs)) (framed_bytes rs)
    = Inr (map norm_record rs, [])"
  using prefix_codec.decode_counted_all [OF framed_codec.wrapped, of rs m] assms
  unfolding framed_bytes_def by blast

text \<open>The codec a batch travels under: the requested one unless compression fails.\<close>

definition sent_codec :: "compress_block \<Rightarrow> byte \<Rightarrow> int \<Rightarrow> bytes \<Rightarrow> byte" where
  "sent_codec cb codec level payload =
     (if codec = CodecLZ4 \<and> isl (lz4CompressLevel cb payload level) then CodecNone else codec)"

definition wf_ProduceBatch :: "ProduceBatchRequest \<Rightarrow> bool" where
  "wf_ProduceBatch r \<longleftrightarrow> int32_ok (pbq_Partition r) \<and> pbq_Codec r \<in> {CodecNone, CodecLZ4}
     \<and> list_all wf_record (pbq_Records r) \<and> buf32 (batch_bytes (pbq_Records r))"

lemma batch_request_bytes:
  "ProduceBatchRequest_Encode cb r =
     encodeString [] (pbq_Topic r) @ be32 (uint32_of (pbq_Partition r)) @
      [sent_codec cb (pbq_Codec r) (uint (pbq_Level r)) (batch_bytes (pbq_Records r))] @
      be32 (uint32_len (pbq_Records r)) @
      (if pbq_Codec r = CodecLZ4
       then (case lz4CompressLevel cb (batch_bytes (pbq_Records r)) (uint (pbq_Level r)) of
               Inl _ \<Rightarrow> batch_bytes (pbq_Records r)
             | Inr c \<Rightarrow> be32 (uint32_len (batch_bytes (pbq_Records r))) @ c)
       else batch_bytes (pbq_Records r))"
  by (simp add: ProduceBatchRequest_Encode_def encodeRecords_eq sent_codec_def Let_def
      list_update_append split: sum.splits)

lemma DecodeProduceBatchRequest_parts:
  assumes "buf32 (encodeString [] t @ be32 (uint32_of p) @ [c] @ be32 n @ tail)" "int32_ok p"
    and "(if c = CodecLZ4 then 4 \<le> length tail \<and>
            lz4Decompress ub (drop 4 tail) (unat (Uint32 (take 4 tail))) = Inr payload
          else c = CodecNone \<and> payload = tail)"
    and "\<And>m. decode_loop (\<lambda>b. wrap_error m (advance decodeRecord b)) (unat n) payload = Inr (rs, rest)"
  shows "DecodeProduceBatchRequest ub (encodeString [] t @ be32 (uint32_of p) @ [c] @ be32 n @ tail) =
    Inr \<lparr>pbq_Topic = t, pbq_Partition = p, pbq_Codec = c, pbq_Records = rs, pbq_Level = 0\<rparr>"
  using assms
  by (auto simp: DecodeProduceBatchRequest_def decodeString_encode sl_def nth_append Uint32_be32
      int32_of_uint32_of Let_def CodecNone_def CodecLZ4_def split: if_splits)

lemma ProduceBatchRequest_decode:
  assumes lib: "lz4_library cb ub" and wf: "wf_ProduceBatch r"
    and buf: "buf32 (ProduceBatchRequest_Encode cb r)"
  shows "DecodeProduceBatchRequest ub (ProduceBatchRequest_Encode cb r) =
    Inr (r\<lparr>pbq_Codec := sent_codec cb (pbq_Codec r) (uint (pbq_Level r)) (batch_bytes (pbq_Records r)),
           pbq_Records := map norm_record (pbq_Records r), pbq_Level := 0\<rparr>)"
proof -
  let ?b = "batch_bytes (pbq_Records r)"
  have ok: "int32_ok (pbq_Partition r)" "buf32 ?b" "list_all wf_record (pbq_Records r)"
    and codec: "pbq_Codec r = CodecNone \<or> pbq_Codec r = CodecLZ4"
    using wf by (auto simp: wf_ProduceBatch_def)
  have len: "unat (uint32_len ?b) = length ?b"
    using ok(2) by (intro unat_uint32_len) (simp add: buf32_def)
  have lz4: "lz4Decompress ub c (length ?b) = Inr ?b"
    if "lz4CompressLevel cb ?b (uint (pbq_Level r)) = Inr c" for c
    using lz4_roundtrip [OF lib that] .
  show ?thesis
    unfolding batch_request_bytes
    by (subst DecodeProduceBatchRequest_parts [where payload = ?b, OF _ ok(1) _ decode_batch [OF ok(3,2)]])
      (use buf codec lz4 in \<open>auto simp: batch_request_bytes sent_codec_def len Uint32_be32 CodecNone_def
        CodecLZ4_def split: sum.splits\<close>)
qed

definition wf_FetchResponse :: "FetchResponse \<Rightarrow> bool" where
  "wf_FetchResponse r \<longleftrightarrow> fs_Codec r \<in> {CodecNone, CodecLZ4}
     \<and> list_all wf_record (fs_Records r) \<and> buf32 (fetchPayload r)"

lemma FetchResponse_decode:
  assumes lib: "lz4_library cb ub" and wf: "wf_FetchResponse r"
  shows "DecodeFetchResponse ub (FetchResponse_Encode cb r) =
    Inr \<lparr>fs_Records = map norm_record (fs_Records r),
         fs_Codec = sent_codec cb (fs_Codec r) 0 (fetchPayload r)\<rparr>"
proof -
  let ?p = "fetchPayload r"
  have ok: "buf32 ?p" "list_all wf_record (fs_Records r)"
    and codec: "fs_Codec r = CodecNone \<or> fs_Codec r = CodecLZ4"
    using wf by (auto simp: wf_FetchResponse_def)
  have buf: "buf32 (framed_bytes (fs_Records r))"
    using ok(1) buf32_append unfolding fetchPayload_eq by blast
  have len: "unat (uint32_len ?p) = length ?p"
    using ok(1) by (intro unat_uint32_len) (simp add: buf32_def)
  have lz4: "lz4Decompress ub c (length ?p) = Inr ?p" if "lz4CompressLevel cb ?p 0 = Inr c" for c
    using lz4_roundtrip [OF lib that] .
  have take: "take 4 ?p = be32 (uint32_len (fs_Records r))" "drop 4 ?p = framed_bytes (fs_Records r)"
    "\<not> length ?p < 4"
    by (simp_all add: fetchPayload_eq)
  show ?thesis
    using codec lz4
    by (cases "lz4CompressLevel cb ?p 0")
      (auto simp: DecodeFetchResponse_def FetchResponse_Encode_def lz4Compress_def sent_codec_def sl_def
        Let_def len take Uint32_be32 decode_framed [OF ok(2) buf] CodecNone_def CodecLZ4_def)
qed

end
