(* ===== verification/Wire_Admin.thy ===== *)
theory Wire_Admin
  imports Wire_Data
begin

text \<open>
  The cluster and topic administration messages of \<^verbatim>\<open>proto/wire.go\<close>: Raft membership and status,
  topic creation, update, deletion and listing. A list in a message is a count followed by its
  elements; the element encoders and decoders are the loop bodies of the source. Requests with an
  empty body (\<^verbatim>\<open>ClusterMembersRequest\<close>, \<^verbatim>\<open>ClusterStatusRequest\<close>, \<^verbatim>\<open>ListTopicsRequest\<close>) carry nothing.
\<close>

section \<open>Raft membership\<close>

record ClusterMember =
  cm_ID :: string
  cm_Addr :: string

definition encodeClusterMember :: "bytes \<Rightarrow> ClusterMember \<Rightarrow> bytes" where
  "encodeClusterMember b r =
     (let b = encodeString b (cm_ID r)
      in encodeString b (cm_Addr r))"

definition decodeClusterMember :: "bytes \<Rightarrow> (ClusterMember \<times> bytes) result" where
  "decodeClusterMember b =
     (case decodeString b of
        Inl e \<Rightarrow> Inl e
      | Inr (ident, n) \<Rightarrow>
          (let b = drop n b in
           (case decodeString b of
              Inl e \<Rightarrow> Inl e
            | Inr (addr, n) \<Rightarrow>
                (let b = drop n b in
                 Inr (\<lparr>cm_ID = ident,
                              cm_Addr = addr\<rparr>, b)))))"

record ClusterMembersResponse =
  cms_Members :: "ClusterMember list"

definition ClusterMembersResponse_Encode :: "ClusterMembersResponse \<Rightarrow> bytes" where
  "ClusterMembersResponse_Encode r = foldl encodeClusterMember (be32 (uint32_len (cms_Members r))) (cms_Members r)"

definition DecodeClusterMembersResponse :: "bytes \<Rightarrow> ClusterMembersResponse result" where
  "DecodeClusterMembersResponse b =
     (if length b < 4 then Inl (ErrNew ''proto: short ClusterMembersResponse'')
      else let count = unat (Uint32 (sl b 0 4)); b = drop 4 b in
        case decode_loop decodeClusterMember count b of
          Inl e \<Rightarrow> Inl e
        | Inr (out, _) \<Rightarrow> Inr \<lparr>cms_Members = out\<rparr>)"

record AddVoterRequest =
  av_ID :: string
  av_Addr :: string

definition AddVoterRequest_Encode :: "AddVoterRequest \<Rightarrow> bytes" where
  "AddVoterRequest_Encode r =
     (let b = encodeString [] (av_ID r)
      in encodeString b (av_Addr r))"

definition DecodeAddVoterRequest :: "bytes \<Rightarrow> AddVoterRequest result" where
  "DecodeAddVoterRequest b =
     (case decodeString b of
        Inl e \<Rightarrow> Inl e
      | Inr (ident, n) \<Rightarrow>
          (let b = drop n b in
           (case decodeString b of
              Inl e \<Rightarrow> Inl e
            | Inr (addr, _) \<Rightarrow>
                Inr \<lparr>av_ID = ident,
                             av_Addr = addr\<rparr>)))"

record RemoveVoterRequest =
  rv_ID :: string

definition RemoveVoterRequest_Encode :: "RemoveVoterRequest \<Rightarrow> bytes" where
  "RemoveVoterRequest_Encode r = encodeString [] (rv_ID r)"

definition DecodeRemoveVoterRequest :: "bytes \<Rightarrow> RemoveVoterRequest result" where
  "DecodeRemoveVoterRequest b =
     (case decodeString b of
        Inl e \<Rightarrow> Inl e
      | Inr (ident, _) \<Rightarrow>
          Inr \<lparr>rv_ID = ident\<rparr>)"

record ClusterStatusResponse =
  css_NodeID :: string
  css_IsLeader :: bool
  css_LeaderID :: string
  css_LeaderAddr :: string

definition ClusterStatusResponse_Encode :: "ClusterStatusResponse \<Rightarrow> bytes" where
  "ClusterStatusResponse_Encode r =
     (let b = encodeString [] (css_NodeID r);
          b = (if css_IsLeader r then b @ [1] else b @ [0]);
          b = encodeString b (css_LeaderID r)
      in encodeString b (css_LeaderAddr r))"

definition DecodeClusterStatusResponse :: "bytes \<Rightarrow> ClusterStatusResponse result" where
  "DecodeClusterStatusResponse b =
     (case decodeString b of
        Inl e \<Rightarrow> Inl e
      | Inr (nodeID, n) \<Rightarrow>
          (let b = drop n b in
           if length b < 1 then Inl (ErrNew ''proto: short ClusterStatusResponse'')
           else let isLeader = (b ! 0 \<noteq> 0); b = drop 1 b in
             case decodeString b of
               Inl e \<Rightarrow> Inl e
             | Inr (leaderID, n) \<Rightarrow>
                 (let b = drop n b in
                  case decodeString b of
                    Inl e \<Rightarrow> Inl e
                  | Inr (leaderAddr, _) \<Rightarrow>
                      Inr \<lparr>css_NodeID = nodeID, css_IsLeader = isLeader,
                           css_LeaderID = leaderID, css_LeaderAddr = leaderAddr\<rparr>)))"

section \<open>Topics\<close>

record CreateTopicRequest =
  ct_Name :: string
  ct_PartitionCount :: int
  ct_RetentionMs :: int
  ct_SegmentBytes :: int

definition CreateTopicRequest_Encode :: "CreateTopicRequest \<Rightarrow> bytes" where
  "CreateTopicRequest_Encode r =
     (let b = encodeString [] (ct_Name r);
          b = b @ be32 (uint32_of (ct_PartitionCount r));
          b = b @ be64 (uint64_of (ct_RetentionMs r))
      in b @ be64 (uint64_of (ct_SegmentBytes r)))"

definition DecodeCreateTopicRequest :: "bytes \<Rightarrow> CreateTopicRequest result" where
  "DecodeCreateTopicRequest b =
     (case decodeString b of
        Inl e \<Rightarrow> Inl e
      | Inr (name, n) \<Rightarrow>
          (let b = drop n b in
           if length b < 20 then Inl (ErrNew ''proto: short CreateTopicRequest'')
           else Inr \<lparr>ct_Name = name,
                        ct_PartitionCount = int32_of (Uint32 (sl b 0 4)),
                        ct_RetentionMs = int64_of (Uint64 (sl b 4 12)),
                        ct_SegmentBytes = int64_of (Uint64 (sl b 12 20))\<rparr>))"

record UpdateTopicConfigRequest =
  ut_Name :: string
  ut_RetentionMs :: int
  ut_SegmentBytes :: int

definition UpdateTopicConfigRequest_Encode :: "UpdateTopicConfigRequest \<Rightarrow> bytes" where
  "UpdateTopicConfigRequest_Encode r =
     (let b = encodeString [] (ut_Name r);
          b = b @ be64 (uint64_of (ut_RetentionMs r))
      in b @ be64 (uint64_of (ut_SegmentBytes r)))"

definition DecodeUpdateTopicConfigRequest :: "bytes \<Rightarrow> UpdateTopicConfigRequest result" where
  "DecodeUpdateTopicConfigRequest b =
     (case decodeString b of
        Inl e \<Rightarrow> Inl e
      | Inr (name, n) \<Rightarrow>
          (let b = drop n b in
           if length b < 16 then Inl (ErrNew ''proto: short UpdateTopicConfigRequest'')
           else Inr \<lparr>ut_Name = name,
                        ut_RetentionMs = int64_of (Uint64 (sl b 0 8)),
                        ut_SegmentBytes = int64_of (Uint64 (sl b 8 16))\<rparr>))"

record DeleteTopicRequest =
  dt_Name :: string

definition DeleteTopicRequest_Encode :: "DeleteTopicRequest \<Rightarrow> bytes" where
  "DeleteTopicRequest_Encode r = encodeString [] (dt_Name r)"

definition DecodeDeleteTopicRequest :: "bytes \<Rightarrow> DeleteTopicRequest result" where
  "DecodeDeleteTopicRequest b =
     (case decodeString b of
        Inl e \<Rightarrow> Inl e
      | Inr (name, _) \<Rightarrow>
          Inr \<lparr>dt_Name = name\<rparr>)"

definition encodeTopicConfig :: "bytes \<Rightarrow> TopicConfig \<Rightarrow> bytes" where
  "encodeTopicConfig b r =
     (let b = encodeString b (tc_Name r);
          b = b @ be32 (uint32_of (tc_PartitionCount r));
          b = b @ be64 (uint64_of (tc_RetentionMs r))
      in b @ be64 (uint64_of (tc_SegmentBytes r)))"

definition decodeTopicConfig :: "bytes \<Rightarrow> (TopicConfig \<times> bytes) result" where
  "decodeTopicConfig b =
     (case decodeString b of
        Inl e \<Rightarrow> Inl e
      | Inr (name, n) \<Rightarrow>
          (let b = drop n b in
           if length b < 20 then Inl (ErrNew ''proto: short ListTopicsResponse entry'')
           else Inr (\<lparr>tc_Name = name,
                        tc_PartitionCount = int32_of (Uint32 (sl b 0 4)),
                        tc_RetentionMs = int64_of (Uint64 (sl b 4 12)),
                        tc_SegmentBytes = int64_of (Uint64 (sl b 12 20))\<rparr>, drop 20 b)))"

record ListTopicsResponse =
  lts_Topics :: "TopicConfig list"

definition ListTopicsResponse_Encode :: "ListTopicsResponse \<Rightarrow> bytes" where
  "ListTopicsResponse_Encode r = foldl encodeTopicConfig (be32 (uint32_len (lts_Topics r))) (lts_Topics r)"

definition DecodeListTopicsResponse :: "bytes \<Rightarrow> ListTopicsResponse result" where
  "DecodeListTopicsResponse b =
     (if length b < 4 then Inl (ErrNew ''proto: short ListTopicsResponse'')
      else let count = unat (Uint32 (sl b 0 4)); b = drop 4 b in
        case decode_loop decodeTopicConfig count b of
          Inl e \<Rightarrow> Inl e
        | Inr (out, _) \<Rightarrow> Inr \<lparr>lts_Topics = out\<rparr>)"

section \<open>Round trips\<close>

definition wf_ClusterMember :: "ClusterMember \<Rightarrow> bool" where
  "wf_ClusterMember r \<longleftrightarrow> True"

lemma encodeClusterMember_eq: "encodeClusterMember b r = b @ encodeClusterMember [] r"
  by (simp add: encodeClusterMember_def encodeString_append Let_def)

interpretation ClusterMember: prefix_codec "encodeClusterMember []" decodeClusterMember wf_ClusterMember "\<lambda>r. r"
  by unfold_locales (auto simp: encodeClusterMember_def decodeClusterMember_def wf_ClusterMember_def wire_simps)

interpretation ClusterMembersResponse: message_codec ClusterMembersResponse_Encode DecodeClusterMembersResponse
  "\<lambda>r. list_all wf_ClusterMember (cms_Members r)" "\<lambda>r. r"
proof unfold_locales
  fix r
  assume wf: "list_all wf_ClusterMember (cms_Members r)" and buf: "buf32 (ClusterMembersResponse_Encode r)"
  note enc = foldl_append_form [of encodeClusterMember "encodeClusterMember []", OF encodeClusterMember_eq]
  show "DecodeClusterMembersResponse (ClusterMembersResponse_Encode r) = Inr r"
    using ClusterMember.decode_counted_all [OF wf] buf32_append(2) [OF buf [unfolded ClusterMembersResponse_Encode_def enc]]
    by (simp add: ClusterMembersResponse_Encode_def DecodeClusterMembersResponse_def enc sl_def Let_def Uint32_be32)
qed

interpretation AddVoterRequest: message_codec AddVoterRequest_Encode DecodeAddVoterRequest
  "\<lambda>_. True" "\<lambda>r. r"
  by unfold_locales (simp add: AddVoterRequest_Encode_def DecodeAddVoterRequest_def wire_simps)

interpretation RemoveVoterRequest: message_codec RemoveVoterRequest_Encode DecodeRemoveVoterRequest
  "\<lambda>_. True" "\<lambda>r. r"
  by unfold_locales (simp add: RemoveVoterRequest_Encode_def DecodeRemoveVoterRequest_def wire_simps)

interpretation ClusterStatusResponse: message_codec ClusterStatusResponse_Encode DecodeClusterStatusResponse
  "\<lambda>_. True" "\<lambda>r. r"
proof unfold_locales
  show "DecodeClusterStatusResponse (ClusterStatusResponse_Encode r) = Inr r"
    if "buf32 (ClusterStatusResponse_Encode r)" for r
    using that
    by (cases "css_IsLeader r")
      (simp_all add: ClusterStatusResponse_Encode_def DecodeClusterStatusResponse_def wire_simps)
qed

interpretation CreateTopicRequest: message_codec CreateTopicRequest_Encode DecodeCreateTopicRequest
  "\<lambda>r. int32_ok (ct_PartitionCount r) \<and> int64_ok (ct_RetentionMs r) \<and> int64_ok (ct_SegmentBytes r)" "\<lambda>r. r"
  by unfold_locales (simp add: CreateTopicRequest_Encode_def DecodeCreateTopicRequest_def wire_simps)

interpretation UpdateTopicConfigRequest: message_codec UpdateTopicConfigRequest_Encode DecodeUpdateTopicConfigRequest
  "\<lambda>r. int64_ok (ut_RetentionMs r) \<and> int64_ok (ut_SegmentBytes r)" "\<lambda>r. r"
  by unfold_locales (simp add: UpdateTopicConfigRequest_Encode_def DecodeUpdateTopicConfigRequest_def wire_simps)

interpretation DeleteTopicRequest: message_codec DeleteTopicRequest_Encode DecodeDeleteTopicRequest
  "\<lambda>_. True" "\<lambda>r. r"
  by unfold_locales (simp add: DeleteTopicRequest_Encode_def DecodeDeleteTopicRequest_def wire_simps)

definition wf_TopicConfig :: "TopicConfig \<Rightarrow> bool" where
  "wf_TopicConfig r \<longleftrightarrow> int32_ok (tc_PartitionCount r) \<and> int64_ok (tc_RetentionMs r) \<and> int64_ok (tc_SegmentBytes r)"

lemma encodeTopicConfig_eq: "encodeTopicConfig b r = b @ encodeTopicConfig [] r"
  by (simp add: encodeTopicConfig_def encodeString_append Let_def)

interpretation TopicConfig: prefix_codec "encodeTopicConfig []" decodeTopicConfig wf_TopicConfig "\<lambda>r. r"
  by unfold_locales (auto simp: encodeTopicConfig_def decodeTopicConfig_def wf_TopicConfig_def wire_simps)

interpretation ListTopicsResponse: message_codec ListTopicsResponse_Encode DecodeListTopicsResponse
  "\<lambda>r. list_all wf_TopicConfig (lts_Topics r)" "\<lambda>r. r"
proof unfold_locales
  fix r
  assume wf: "list_all wf_TopicConfig (lts_Topics r)" and buf: "buf32 (ListTopicsResponse_Encode r)"
  note enc = foldl_append_form [of encodeTopicConfig "encodeTopicConfig []", OF encodeTopicConfig_eq]
  show "DecodeListTopicsResponse (ListTopicsResponse_Encode r) = Inr r"
    using TopicConfig.decode_counted_all [OF wf] buf32_append(2) [OF buf [unfolded ListTopicsResponse_Encode_def enc]]
    by (simp add: ListTopicsResponse_Encode_def DecodeListTopicsResponse_def enc sl_def Let_def Uint32_be32)
qed

end
