(* ===== verification/Wire_Groups.thy ===== *)
theory Wire_Groups
  imports Wire_Data
begin

text \<open>
  The consumer-group messages of \<^verbatim>\<open>proto/wire.go\<close>: commit, join, heartbeat, leave, delete, and the
  inspection messages with nested lists (a group's topics and its members' partitions).
\<close>

section \<open>Group operations\<close>

record CommitRequest =
  cq_Group :: string
  cq_Topic :: string
  cq_Partition :: int
  cq_Offset :: int

definition CommitRequest_Encode :: "CommitRequest \<Rightarrow> bytes" where
  "CommitRequest_Encode r =
     (let b = encodeString [] (cq_Group r);
          b = encodeString b (cq_Topic r);
          b = b @ be32 (uint32_of (cq_Partition r))
      in b @ be64 (uint64_of (cq_Offset r)))"

definition DecodeCommitRequest :: "bytes \<Rightarrow> CommitRequest result" where
  "DecodeCommitRequest b =
     (case decodeString b of
        Inl e \<Rightarrow> Inl e
      | Inr (grp, n) \<Rightarrow>
          (let b = drop n b in
           (case decodeString b of
              Inl e \<Rightarrow> Inl e
            | Inr (topic, n) \<Rightarrow>
                (let b = drop n b in
                 if length b < 12 then Inl (ErrNew ''proto: short CommitRequest'')
                 else Inr \<lparr>cq_Group = grp,
                              cq_Topic = topic,
                              cq_Partition = int32_of (Uint32 (sl b 0 4)),
                              cq_Offset = int64_of (Uint64 (sl b 4 12))\<rparr>))))"

record JoinGroupRequest =
  jq_Group :: string
  jq_MemberID :: string
  jq_Topics :: "string list"

definition JoinGroupRequest_Encode :: "JoinGroupRequest \<Rightarrow> bytes" where
  "JoinGroupRequest_Encode r =
     (let b = encodeString [] (jq_Group r);
          b = encodeString b (jq_MemberID r);
          b = b @ be32 (uint32_len (jq_Topics r))
      in foldl encodeString b (jq_Topics r))"

definition DecodeJoinGroupRequest :: "bytes \<Rightarrow> JoinGroupRequest result" where
  "DecodeJoinGroupRequest b =
     (case decodeString b of
        Inl e \<Rightarrow> Inl e
      | Inr (grp, n) \<Rightarrow>
          (let b = drop n b in
           case decodeString b of
             Inl e \<Rightarrow> Inl e
           | Inr (member, n) \<Rightarrow>
               (let b = drop n b in
                if length b < 4 then Inl (ErrNew ''proto: short JoinGroupRequest'')
                else let count = unat (Uint32 (sl b 0 4)); b = drop 4 b in
                  case decode_loop (advance decodeString) count b of
                    Inl e \<Rightarrow> Inl e
                  | Inr (topics, _) \<Rightarrow>
                      Inr \<lparr>jq_Group = grp, jq_MemberID = member, jq_Topics = topics\<rparr>)))"

record AssignmentEntry =
  ae_Topic :: string
  ae_Partition :: int
  ae_CommittedOffset :: int

definition encodeAssignmentEntry :: "bytes \<Rightarrow> AssignmentEntry \<Rightarrow> bytes" where
  "encodeAssignmentEntry b r =
     (let b = encodeString b (ae_Topic r);
          b = b @ be32 (uint32_of (ae_Partition r))
      in b @ be64 (uint64_of (ae_CommittedOffset r)))"

definition decodeAssignmentEntry :: "bytes \<Rightarrow> (AssignmentEntry \<times> bytes) result" where
  "decodeAssignmentEntry b =
     (case decodeString b of
        Inl e \<Rightarrow> Inl e
      | Inr (topic, n) \<Rightarrow>
          (let b = drop n b in
           if length b < 12 then Inl (ErrNew ''proto: short assignment entry'')
           else Inr (\<lparr>ae_Topic = topic,
                        ae_Partition = int32_of (Uint32 (sl b 0 4)),
                        ae_CommittedOffset = int64_of (Uint64 (sl b 4 12))\<rparr>, drop 12 b)))"

record JoinGroupResponse =
  js_MemberID :: string
  js_Generation :: int
  js_Assignments :: "AssignmentEntry list"

definition JoinGroupResponse_Encode :: "JoinGroupResponse \<Rightarrow> bytes" where
  "JoinGroupResponse_Encode r =
     (let b = encodeString [] (js_MemberID r);
          b = b @ be32 (uint32_of (js_Generation r));
          b = b @ be32 (uint32_len (js_Assignments r))
      in foldl encodeAssignmentEntry b (js_Assignments r))"

definition DecodeJoinGroupResponse :: "bytes \<Rightarrow> JoinGroupResponse result" where
  "DecodeJoinGroupResponse b =
     (case decodeString b of
        Inl e \<Rightarrow> Inl e
      | Inr (member, n) \<Rightarrow>
          (let b = drop n b in
           if length b < 8 then Inl (ErrNew ''proto: short JoinGroupResponse'')
           else let generation = int32_of (Uint32 (sl b 0 4)); count = unat (Uint32 (sl b 4 8)); b = drop 8 b in
             case decode_loop decodeAssignmentEntry count b of
               Inl e \<Rightarrow> Inl e
             | Inr (assignments, _) \<Rightarrow>
                 Inr \<lparr>js_MemberID = member, js_Generation = generation, js_Assignments = assignments\<rparr>))"

record HeartbeatRequest =
  hq_Group :: string
  hq_MemberID :: string
  hq_Generation :: int
  hq_MaxWaitMs :: int

definition HeartbeatRequest_Encode :: "HeartbeatRequest \<Rightarrow> bytes" where
  "HeartbeatRequest_Encode r =
     (let b = encodeString [] (hq_Group r);
          b = encodeString b (hq_MemberID r);
          b = b @ be32 (uint32_of (hq_Generation r))
      in b @ be32 (uint32_of (hq_MaxWaitMs r)))"

definition DecodeHeartbeatRequest :: "bytes \<Rightarrow> HeartbeatRequest result" where
  "DecodeHeartbeatRequest b =
     (case decodeString b of
        Inl e \<Rightarrow> Inl e
      | Inr (grp, n) \<Rightarrow>
          (let b = drop n b in
           (case decodeString b of
              Inl e \<Rightarrow> Inl e
            | Inr (memberid, n) \<Rightarrow>
                (let b = drop n b in
                 if length b < 8 then Inl (ErrNew ''proto: short HeartbeatRequest'')
                 else Inr \<lparr>hq_Group = grp,
                              hq_MemberID = memberid,
                              hq_Generation = int32_of (Uint32 (sl b 0 4)),
                              hq_MaxWaitMs = int32_of (Uint32 (sl b 4 8))\<rparr>))))"

record HeartbeatResponse =
  hr_RebalanceNeeded :: bool

definition HeartbeatResponse_Encode :: "HeartbeatResponse \<Rightarrow> bytes" where
  "HeartbeatResponse_Encode r = (if hr_RebalanceNeeded r then [1] else [0])"

definition DecodeHeartbeatResponse :: "bytes \<Rightarrow> HeartbeatResponse result" where
  "DecodeHeartbeatResponse b =
     (if length b < 1 then Inl (ErrNew ''proto: short HeartbeatResponse'')
      else Inr \<lparr>hr_RebalanceNeeded = (b ! 0 \<noteq> 0)\<rparr>)"

record LeaveGroupRequest =
  lq_Group :: string
  lq_MemberID :: string

definition LeaveGroupRequest_Encode :: "LeaveGroupRequest \<Rightarrow> bytes" where
  "LeaveGroupRequest_Encode r =
     (let b = encodeString [] (lq_Group r)
      in encodeString b (lq_MemberID r))"

definition DecodeLeaveGroupRequest :: "bytes \<Rightarrow> LeaveGroupRequest result" where
  "DecodeLeaveGroupRequest b =
     (case decodeString b of
        Inl e \<Rightarrow> Inl e
      | Inr (grp, n) \<Rightarrow>
          (let b = drop n b in
           (case decodeString b of
              Inl e \<Rightarrow> Inl e
            | Inr (memberid, _) \<Rightarrow>
                Inr \<lparr>lq_Group = grp,
                             lq_MemberID = memberid\<rparr>)))"

record DeleteGroupRequest =
  dg_Group :: string

definition DeleteGroupRequest_Encode :: "DeleteGroupRequest \<Rightarrow> bytes" where
  "DeleteGroupRequest_Encode r = encodeString [] (dg_Group r)"

definition DecodeDeleteGroupRequest :: "bytes \<Rightarrow> DeleteGroupRequest result" where
  "DecodeDeleteGroupRequest b =
     (case decodeString b of
        Inl e \<Rightarrow> Inl e
      | Inr (grp, _) \<Rightarrow>
          Inr \<lparr>dg_Group = grp\<rparr>)"

section \<open>Group inspection\<close>

record GroupSummary =
  gs_Name :: string
  gs_Generation :: int
  gs_MemberCount :: int
  gs_Topics :: "string list"

definition encodeGroupSummary :: "bytes \<Rightarrow> GroupSummary \<Rightarrow> bytes" where
  "encodeGroupSummary b g =
     (let b = encodeString b (gs_Name g);
          b = b @ be32 (uint32_of (gs_Generation g));
          b = b @ be32 (uint32_of (gs_MemberCount g));
          b = b @ be32 (uint32_len (gs_Topics g))
      in foldl encodeString b (gs_Topics g))"

definition decodeGroupSummary :: "bytes \<Rightarrow> (GroupSummary \<times> bytes) result" where
  "decodeGroupSummary b =
     (case decodeString b of
        Inl e \<Rightarrow> Inl e
      | Inr (name, n) \<Rightarrow>
          (let b = drop n b in
           if length b < 12 then Inl (ErrNew ''proto: short ListGroupsResponse entry'')
           else let gen = int32_of (Uint32 (sl b 0 4)); members = int32_of (Uint32 (sl b 4 8));
                    topicCount = unat (Uint32 (sl b 8 12)); b = drop 12 b in
             case decode_loop (advance decodeString) topicCount b of
               Inl e \<Rightarrow> Inl e
             | Inr (topics, b) \<Rightarrow>
                 Inr (\<lparr>gs_Name = name, gs_Generation = gen, gs_MemberCount = members, gs_Topics = topics\<rparr>, b)))"

record ListGroupsResponse =
  lgs_Groups :: "GroupSummary list"

definition ListGroupsResponse_Encode :: "ListGroupsResponse \<Rightarrow> bytes" where
  "ListGroupsResponse_Encode r = foldl encodeGroupSummary (be32 (uint32_len (lgs_Groups r))) (lgs_Groups r)"

definition DecodeListGroupsResponse :: "bytes \<Rightarrow> ListGroupsResponse result" where
  "DecodeListGroupsResponse b =
     (if length b < 4 then Inl (ErrNew ''proto: short ListGroupsResponse'')
      else let count = unat (Uint32 (sl b 0 4)); b = drop 4 b in
        case decode_loop decodeGroupSummary count b of
          Inl e \<Rightarrow> Inl e
        | Inr (out, _) \<Rightarrow> Inr \<lparr>lgs_Groups = out\<rparr>)"

record DescribeGroupRequest =
  dgq_Group :: string

definition DescribeGroupRequest_Encode :: "DescribeGroupRequest \<Rightarrow> bytes" where
  "DescribeGroupRequest_Encode r = encodeString [] (dgq_Group r)"

definition DecodeDescribeGroupRequest :: "bytes \<Rightarrow> DescribeGroupRequest result" where
  "DecodeDescribeGroupRequest b =
     (case decodeString b of
        Inl e \<Rightarrow> Inl e
      | Inr (grp, _) \<Rightarrow>
          Inr \<lparr>dgq_Group = grp\<rparr>)"

definition encodePartitionRef :: "bytes \<Rightarrow> PartitionRef \<Rightarrow> bytes" where
  "encodePartitionRef b r =
     (let b = encodeString b (p_Topic r)
      in b @ be32 (uint32_of (p_Index r)))"

definition decodePartitionRef :: "bytes \<Rightarrow> (PartitionRef \<times> bytes) result" where
  "decodePartitionRef b =
     (case decodeString b of
        Inl e \<Rightarrow> Inl e
      | Inr (topic, n) \<Rightarrow>
          (let b = drop n b in
           if length b < 4 then Inl (ErrNew ''proto: short DescribeGroupResponse partition'')
           else Inr (\<lparr>p_Topic = topic,
                        p_Index = int32_of (Uint32 (sl b 0 4))\<rparr>, drop 4 b)))"

record MemberAssignment =
  ma_MemberID :: string
  ma_Partitions :: "PartitionRef list"

definition encodeMemberAssignment :: "bytes \<Rightarrow> MemberAssignment \<Rightarrow> bytes" where
  "encodeMemberAssignment b m =
     (let b = encodeString b (ma_MemberID m);
          b = b @ be32 (uint32_len (ma_Partitions m))
      in foldl encodePartitionRef b (ma_Partitions m))"

definition decodeMemberAssignment :: "bytes \<Rightarrow> (MemberAssignment \<times> bytes) result" where
  "decodeMemberAssignment b =
     (case decodeString b of
        Inl e \<Rightarrow> Inl e
      | Inr (ident, n) \<Rightarrow>
          (let b = drop n b in
           if length b < 4 then Inl (ErrNew ''proto: short DescribeGroupResponse partition count'')
           else let pcount = unat (Uint32 (sl b 0 4)); b = drop 4 b in
             case decode_loop decodePartitionRef pcount b of
               Inl e \<Rightarrow> Inl e
             | Inr (parts, b) \<Rightarrow> Inr (\<lparr>ma_MemberID = ident, ma_Partitions = parts\<rparr>, b)))"

record DescribeGroupResponse =
  dgs_Name :: string
  dgs_Generation :: int
  dgs_Topics :: "string list"
  dgs_Members :: "MemberAssignment list"

definition DescribeGroupResponse_Encode :: "DescribeGroupResponse \<Rightarrow> bytes" where
  "DescribeGroupResponse_Encode r =
     (let b = encodeString [] (dgs_Name r);
          b = b @ be32 (uint32_of (dgs_Generation r));
          b = b @ be32 (uint32_len (dgs_Topics r));
          b = foldl encodeString b (dgs_Topics r);
          b = b @ be32 (uint32_len (dgs_Members r))
      in foldl encodeMemberAssignment b (dgs_Members r))"

definition DecodeDescribeGroupResponse :: "bytes \<Rightarrow> DescribeGroupResponse result" where
  "DecodeDescribeGroupResponse b =
     (case decodeString b of
        Inl e \<Rightarrow> Inl e
      | Inr (name, n) \<Rightarrow>
          (let b = drop n b in
           if length b < 8 then Inl (ErrNew ''proto: short DescribeGroupResponse'')
           else let gen = int32_of (Uint32 (sl b 0 4)); topicCount = unat (Uint32 (sl b 4 8)); b = drop 8 b in
             case decode_loop (advance decodeString) topicCount b of
               Inl e \<Rightarrow> Inl e
             | Inr (topics, b) \<Rightarrow>
                 if length b < 4 then Inl (ErrNew ''proto: short DescribeGroupResponse members'')
                 else let memberCount = unat (Uint32 (sl b 0 4)); b = drop 4 b in
                   case decode_loop decodeMemberAssignment memberCount b of
                     Inl e \<Rightarrow> Inl e
                   | Inr (members, _) \<Rightarrow>
                       Inr \<lparr>dgs_Name = name, dgs_Generation = gen, dgs_Topics = topics, dgs_Members = members\<rparr>))"

record ListGroupOffsetsRequest =
  loq_Group :: string

definition ListGroupOffsetsRequest_Encode :: "ListGroupOffsetsRequest \<Rightarrow> bytes" where
  "ListGroupOffsetsRequest_Encode r = encodeString [] (loq_Group r)"

definition DecodeListGroupOffsetsRequest :: "bytes \<Rightarrow> ListGroupOffsetsRequest result" where
  "DecodeListGroupOffsetsRequest b =
     (case decodeString b of
        Inl e \<Rightarrow> Inl e
      | Inr (grp, _) \<Rightarrow>
          Inr \<lparr>loq_Group = grp\<rparr>)"

record GroupOffsetEntry =
  ge_Topic :: string
  ge_Partition :: int
  ge_Committed :: int
  ge_HighWater :: int

definition encodeGroupOffsetEntry :: "bytes \<Rightarrow> GroupOffsetEntry \<Rightarrow> bytes" where
  "encodeGroupOffsetEntry b r =
     (let b = encodeString b (ge_Topic r);
          b = b @ be32 (uint32_of (ge_Partition r));
          b = b @ be64 (uint64_of (ge_Committed r))
      in b @ be64 (uint64_of (ge_HighWater r)))"

definition decodeGroupOffsetEntry :: "bytes \<Rightarrow> (GroupOffsetEntry \<times> bytes) result" where
  "decodeGroupOffsetEntry b =
     (case decodeString b of
        Inl e \<Rightarrow> Inl e
      | Inr (topic, n) \<Rightarrow>
          (let b = drop n b in
           if length b < 20 then Inl (ErrNew ''proto: short ListGroupOffsetsResponse entry'')
           else Inr (\<lparr>ge_Topic = topic,
                        ge_Partition = int32_of (Uint32 (sl b 0 4)),
                        ge_Committed = int64_of (Uint64 (sl b 4 12)),
                        ge_HighWater = int64_of (Uint64 (sl b 12 20))\<rparr>, drop 20 b)))"

record ListGroupOffsetsResponse =
  los_Entries :: "GroupOffsetEntry list"

definition ListGroupOffsetsResponse_Encode :: "ListGroupOffsetsResponse \<Rightarrow> bytes" where
  "ListGroupOffsetsResponse_Encode r = foldl encodeGroupOffsetEntry (be32 (uint32_len (los_Entries r))) (los_Entries r)"

definition DecodeListGroupOffsetsResponse :: "bytes \<Rightarrow> ListGroupOffsetsResponse result" where
  "DecodeListGroupOffsetsResponse b =
     (if length b < 4 then Inl (ErrNew ''proto: short ListGroupOffsetsResponse'')
      else let count = unat (Uint32 (sl b 0 4)); b = drop 4 b in
        case decode_loop decodeGroupOffsetEntry count b of
          Inl e \<Rightarrow> Inl e
        | Inr (out, _) \<Rightarrow> Inr \<lparr>los_Entries = out\<rparr>)"

section \<open>Round trips\<close>

interpretation CommitRequest: message_codec CommitRequest_Encode DecodeCommitRequest
  "\<lambda>r. int32_ok (cq_Partition r) \<and> int64_ok (cq_Offset r)" "\<lambda>r. r"
  by unfold_locales (simp add: CommitRequest_Encode_def DecodeCommitRequest_def wire_simps)

lemma encodeStrings_eq: "foldl encodeString b ss = b @ concat (map (encodeString []) ss)"
  by (rule foldl_append_form) (simp add: encodeString_def)

lemma decode_strings:
  "buf32 (concat (map (encodeString []) ss) @ rest) \<Longrightarrow>
     decode_loop (advance decodeString) (unat (uint32_len ss)) (concat (map (encodeString []) ss) @ rest) = Inr (ss, rest)"
  using string_codec.decode_counted [of ss rest] by (simp add: list_all_iff)

lemma decode_strings_all:
  "buf32 (concat (map (encodeString []) ss)) \<Longrightarrow>
     decode_loop (advance decodeString) (unat (uint32_len ss)) (concat (map (encodeString []) ss)) = Inr (ss, [])"
  using decode_strings [of ss "[]"] by simp

lemmas list_simps = foldl_append_form encodeStrings_eq decode_strings decode_strings_all
  decodeString_encode Uint32_be32 int32_of_uint32_of sl_def Let_def append_form

interpretation JoinGroupRequest: message_codec JoinGroupRequest_Encode DecodeJoinGroupRequest
  "\<lambda>_. True" "\<lambda>r. r"
proof unfold_locales
  fix r assume "buf32 (JoinGroupRequest_Encode r)"
  then have "buf32 (concat (map (encodeString []) (jq_Topics r)))"
    "buf32 (JoinGroupRequest_Encode r)"
    by (auto simp: JoinGroupRequest_Encode_def encodeStrings_eq buf32_def)
  then show "DecodeJoinGroupRequest (JoinGroupRequest_Encode r) = Inr r"
    by (simp add: JoinGroupRequest_Encode_def DecodeJoinGroupRequest_def list_simps buf32_def del: length_concat)
qed

definition wf_AssignmentEntry :: "AssignmentEntry \<Rightarrow> bool" where
  "wf_AssignmentEntry r \<longleftrightarrow> int32_ok (ae_Partition r) \<and> int64_ok (ae_CommittedOffset r)"

lemma encodeAssignmentEntry_eq: "encodeAssignmentEntry b r = b @ encodeAssignmentEntry [] r"
  by (simp add: encodeAssignmentEntry_def encodeString_append Let_def)

interpretation AssignmentEntry: prefix_codec "encodeAssignmentEntry []" decodeAssignmentEntry wf_AssignmentEntry "\<lambda>r. r"
  by unfold_locales (auto simp: encodeAssignmentEntry_def decodeAssignmentEntry_def wf_AssignmentEntry_def wire_simps)

interpretation JoinGroupResponse: message_codec JoinGroupResponse_Encode DecodeJoinGroupResponse
  "\<lambda>r. int32_ok (js_Generation r) \<and> list_all wf_AssignmentEntry (js_Assignments r)" "\<lambda>r. r"
proof unfold_locales
  fix r
  assume wf: "int32_ok (js_Generation r) \<and> list_all wf_AssignmentEntry (js_Assignments r)"
    and buf: "buf32 (JoinGroupResponse_Encode r)"
  note enc = foldl_append_form [of encodeAssignmentEntry "encodeAssignmentEntry []", OF encodeAssignmentEntry_eq]
  have "buf32 (concat (map (encodeAssignmentEntry []) (js_Assignments r)))"
    using buf by (auto simp: JoinGroupResponse_Encode_def enc buf32_def)
  then show "DecodeJoinGroupResponse (JoinGroupResponse_Encode r) = Inr r"
    using AssignmentEntry.decode_counted_all [of "js_Assignments r"] wf buf
    by (simp add: JoinGroupResponse_Encode_def DecodeJoinGroupResponse_def enc list_simps)
qed

interpretation HeartbeatRequest: message_codec HeartbeatRequest_Encode DecodeHeartbeatRequest
  "\<lambda>r. int32_ok (hq_Generation r) \<and> int32_ok (hq_MaxWaitMs r)" "\<lambda>r. r"
  by unfold_locales (simp add: HeartbeatRequest_Encode_def DecodeHeartbeatRequest_def wire_simps)

interpretation HeartbeatResponse: message_codec HeartbeatResponse_Encode DecodeHeartbeatResponse
  "\<lambda>_. True" "\<lambda>r. r"
  by unfold_locales (simp add: HeartbeatResponse_Encode_def DecodeHeartbeatResponse_def)

interpretation LeaveGroupRequest: message_codec LeaveGroupRequest_Encode DecodeLeaveGroupRequest
  "\<lambda>_. True" "\<lambda>r. r"
  by unfold_locales (simp add: LeaveGroupRequest_Encode_def DecodeLeaveGroupRequest_def wire_simps)

interpretation DeleteGroupRequest: message_codec DeleteGroupRequest_Encode DecodeDeleteGroupRequest
  "\<lambda>_. True" "\<lambda>r. r"
  by unfold_locales (simp add: DeleteGroupRequest_Encode_def DecodeDeleteGroupRequest_def wire_simps)

definition wf_GroupSummary :: "GroupSummary \<Rightarrow> bool" where
  "wf_GroupSummary g \<longleftrightarrow> int32_ok (gs_Generation g) \<and> int32_ok (gs_MemberCount g)"

lemma encodeGroupSummary_eq: "encodeGroupSummary b r = b @ encodeGroupSummary [] r"
  by (simp add: encodeGroupSummary_def encodeString_append encodeStrings_eq Let_def)

interpretation GroupSummary: prefix_codec "encodeGroupSummary []" decodeGroupSummary wf_GroupSummary "\<lambda>r. r"
proof unfold_locales
  fix r rest
  assume wf: "wf_GroupSummary r" and buf: "buf32 (encodeGroupSummary [] r @ rest)"
  have "buf32 (concat (map (encodeString []) (gs_Topics r)) @ rest)"
    using buf by (simp add: encodeGroupSummary_def encodeStrings_eq buf32_def)
  with wf buf show "decodeGroupSummary (encodeGroupSummary [] r @ rest) = Inr (r, rest)"
    by (simp add: encodeGroupSummary_def decodeGroupSummary_def wf_GroupSummary_def list_simps)
qed (simp add: encodeGroupSummary_def encodeStrings_eq Let_def)

interpretation ListGroupsResponse: message_codec ListGroupsResponse_Encode DecodeListGroupsResponse
  "\<lambda>r. list_all wf_GroupSummary (lgs_Groups r)" "\<lambda>r. r"
proof unfold_locales
  fix r
  assume wf: "list_all wf_GroupSummary (lgs_Groups r)" and buf: "buf32 (ListGroupsResponse_Encode r)"
  note enc = foldl_append_form [of encodeGroupSummary "encodeGroupSummary []", OF encodeGroupSummary_eq]
  show "DecodeListGroupsResponse (ListGroupsResponse_Encode r) = Inr r"
    using GroupSummary.decode_counted_all [OF wf] buf32_append(2) [OF buf [unfolded ListGroupsResponse_Encode_def enc]]
    by (simp add: ListGroupsResponse_Encode_def DecodeListGroupsResponse_def enc sl_def Let_def Uint32_be32)
qed

interpretation DescribeGroupRequest: message_codec DescribeGroupRequest_Encode DecodeDescribeGroupRequest
  "\<lambda>_. True" "\<lambda>r. r"
  by unfold_locales (simp add: DescribeGroupRequest_Encode_def DecodeDescribeGroupRequest_def wire_simps)

definition wf_PartitionRef :: "PartitionRef \<Rightarrow> bool" where
  "wf_PartitionRef r \<longleftrightarrow> int32_ok (p_Index r)"

lemma encodePartitionRef_eq: "encodePartitionRef b r = b @ encodePartitionRef [] r"
  by (simp add: encodePartitionRef_def encodeString_append Let_def)

interpretation PartitionRef: prefix_codec "encodePartitionRef []" decodePartitionRef wf_PartitionRef "\<lambda>r. r"
  by unfold_locales (auto simp: encodePartitionRef_def decodePartitionRef_def wf_PartitionRef_def wire_simps)

definition wf_MemberAssignment :: "MemberAssignment \<Rightarrow> bool" where
  "wf_MemberAssignment m \<longleftrightarrow> list_all wf_PartitionRef (ma_Partitions m)"

lemma encodePartitionRefs_eq: "foldl encodePartitionRef b ps = b @ concat (map (encodePartitionRef []) ps)"
  by (rule foldl_append_form) (rule encodePartitionRef_eq)

lemma encodeMemberAssignment_eq: "encodeMemberAssignment b r = b @ encodeMemberAssignment [] r"
  by (simp add: encodeMemberAssignment_def encodeString_append encodePartitionRefs_eq Let_def)

interpretation MemberAssignment: prefix_codec "encodeMemberAssignment []" decodeMemberAssignment
  wf_MemberAssignment "\<lambda>r. r"
proof unfold_locales
  fix r rest
  assume wf: "wf_MemberAssignment r" and buf: "buf32 (encodeMemberAssignment [] r @ rest)"
  have "buf32 (concat (map (encodePartitionRef []) (ma_Partitions r)) @ rest)"
    using buf by (simp add: encodeMemberAssignment_def encodePartitionRefs_eq buf32_def)
  with wf buf PartitionRef.decode_counted [of "ma_Partitions r" rest]
  show "decodeMemberAssignment (encodeMemberAssignment [] r @ rest) = Inr (r, rest)"
    by (simp add: encodeMemberAssignment_def decodeMemberAssignment_def wf_MemberAssignment_def
        encodePartitionRefs_eq list_simps)
qed (simp add: encodeMemberAssignment_def encodePartitionRefs_eq Let_def)

interpretation DescribeGroupResponse: message_codec DescribeGroupResponse_Encode DecodeDescribeGroupResponse
  "\<lambda>r. int32_ok (dgs_Generation r) \<and> list_all wf_MemberAssignment (dgs_Members r)" "\<lambda>r. r"
proof unfold_locales
  fix r :: DescribeGroupResponse
  let ?ts = "concat (map (encodeString []) (dgs_Topics r))"
  let ?ms = "concat (map (encodeMemberAssignment []) (dgs_Members r))"
  assume wf: "int32_ok (dgs_Generation r) \<and> list_all wf_MemberAssignment (dgs_Members r)"
    and buf: "buf32 (DescribeGroupResponse_Encode r)"
  note enc = foldl_append_form [of encodeMemberAssignment "encodeMemberAssignment []", OF encodeMemberAssignment_eq]
  have "buf32 ?ms" "buf32 (?ts @ be32 (uint32_len (dgs_Members r)) @ ?ms)"
    using buf by (auto simp: DescribeGroupResponse_Encode_def enc encodeStrings_eq buf32_def)
  then show "DecodeDescribeGroupResponse (DescribeGroupResponse_Encode r) = Inr r"
    using MemberAssignment.decode_counted_all [of "dgs_Members r"] wf buf
    by (simp add: DescribeGroupResponse_Encode_def DecodeDescribeGroupResponse_def enc list_simps)
qed

interpretation ListGroupOffsetsRequest: message_codec ListGroupOffsetsRequest_Encode DecodeListGroupOffsetsRequest
  "\<lambda>_. True" "\<lambda>r. r"
  by unfold_locales (simp add: ListGroupOffsetsRequest_Encode_def DecodeListGroupOffsetsRequest_def wire_simps)

definition wf_GroupOffsetEntry :: "GroupOffsetEntry \<Rightarrow> bool" where
  "wf_GroupOffsetEntry r \<longleftrightarrow> int32_ok (ge_Partition r) \<and> int64_ok (ge_Committed r) \<and> int64_ok (ge_HighWater r)"

lemma encodeGroupOffsetEntry_eq: "encodeGroupOffsetEntry b r = b @ encodeGroupOffsetEntry [] r"
  by (simp add: encodeGroupOffsetEntry_def encodeString_append Let_def)

interpretation GroupOffsetEntry: prefix_codec "encodeGroupOffsetEntry []" decodeGroupOffsetEntry wf_GroupOffsetEntry "\<lambda>r. r"
  by unfold_locales (auto simp: encodeGroupOffsetEntry_def decodeGroupOffsetEntry_def wf_GroupOffsetEntry_def wire_simps)

interpretation ListGroupOffsetsResponse: message_codec ListGroupOffsetsResponse_Encode DecodeListGroupOffsetsResponse
  "\<lambda>r. list_all wf_GroupOffsetEntry (los_Entries r)" "\<lambda>r. r"
proof unfold_locales
  fix r
  assume wf: "list_all wf_GroupOffsetEntry (los_Entries r)" and buf: "buf32 (ListGroupOffsetsResponse_Encode r)"
  note enc = foldl_append_form [of encodeGroupOffsetEntry "encodeGroupOffsetEntry []", OF encodeGroupOffsetEntry_eq]
  show "DecodeListGroupOffsetsResponse (ListGroupOffsetsResponse_Encode r) = Inr r"
    using GroupOffsetEntry.decode_counted_all [OF wf] buf32_append(2) [OF buf [unfolded ListGroupOffsetsResponse_Encode_def enc]]
    by (simp add: ListGroupOffsetsResponse_Encode_def DecodeListGroupOffsetsResponse_def enc sl_def Let_def Uint32_be32)
qed

end
