(* ===== verification/Wire_Properties.thy ===== *)
theory Wire_Properties
  imports Wire_Admin Wire_Groups
begin

text \<open>
  The properties of the wire protocol (\<^verbatim>\<open>proto/wire.go\<close>, \<^verbatim>\<open>proto/lz4.go\<close>): frames and responses, record
  bodies and framed records on arbitrary input, and the round trips of every message, collected from
  the codec interpretations of the message theories.
\<close>

section \<open>Frames and responses\<close>

text \<open>
  A frame written with \<^verbatim>\<open>WriteFrame\<close> is read back by \<^verbatim>\<open>ReadFrame\<close> unchanged, leaving the rest of
  the connection, when its payload is below the 64 MiB limit; a payload at or above the limit is
  written all the same but the reader rejects it.
\<close>

theorem frame_roundtrip:
  assumes "1 + length payload < 2 ^ 32"
  shows "ReadFrame (WriteFrame op payload @ rest) =
    (if length payload < maxFrameBytes then Inr (op, payload, rest)
     else Inl (ErrNew ''proto: frame too large''))"
  using ReadFrame_WriteFrame [of payload op rest] ReadFrame_oversize [of payload op rest] assms by simp

lemma frame_roundtrip_witness:
  "ReadFrame (WriteFrame 3 [1, 2] @ [9]) = Inr (3, [1, 2], [9])"
  using frame_roundtrip [of "[1, 2]" 3 "[9]"] by (simp add: maxFrameBytes_def)

text \<open>
  A client that waits for the response to an operation gets the body of a success response, and
  the status and message of an error response as a protocol error.
\<close>

theorem response_roundtrip:
  assumes "length body + 1 < maxFrameBytes" "length msg + 5 < maxFrameBytes" "status \<noteq> StatusOK"
  shows "ReadResponse (WriteResponse op StatusOK body @ rest) op = Inr (body, rest)
    \<and> ReadResponse (WriteErrorResponse op status msg @ rest) op = Inl (ErrProtocol status msg)"
  using ReadResponse_WriteResponse [of body op rest] ReadResponse_WriteErrorResponse [of msg status op rest] assms
  by simp

lemma response_roundtrip_witness:
  "ReadResponse (WriteResponse 7 StatusOK [5] @ []) 7 = Inr ([5], [])
    \<and> ReadResponse (WriteErrorResponse 7 2 ''no'' @ []) 7 = Inl (ErrProtocol 2 ''no'')"
  using response_roundtrip [of "[5]" "''no''" 2 7 "[]"] by (simp add: maxFrameBytes_def StatusOK_def)

section \<open>Records on arbitrary input\<close>



text \<open>
  A framed record decodes from the front of any longer buffer to the record that was encoded (nil
  and empty byte slices identified) and the decoder stops exactly behind its checksum.
\<close>

theorem framed_record_roundtrip:
  assumes "wf_record r" "buf32 (encodeFramedRecord [] r @ rest)"
  shows "decodeFramedRecord (encodeFramedRecord [] r @ rest)
    = Inr (norm_record r, length (encodeFramedRecord [] r))"
  using assms by (rule decodeFramedRecord_encode)

lemma framed_record_roundtrip_witness:
  "decodeFramedRecord (encodeFramedRecord []
      \<lparr>r_Offset = 5, r_Timestamp = - 1, r_Key = Some [], r_Value = Some [7], r_Headers = []\<rparr> @ [1])
    = Inr (\<lparr>r_Offset = 5, r_Timestamp = - 1, r_Key = None, r_Value = Some [7], r_Headers = []\<rparr>, 37)"
  using framed_record_roundtrip
    [of "\<lparr>r_Offset = 5, r_Timestamp = - 1, r_Key = Some [], r_Value = Some [7], r_Headers = []\<rparr>" "[1]"]
  by (simp add: wf_record_def int64_ok_def buf32_def length_encodeRecord norm_record_def norm_bytes_Some)

section \<open>Batches and compression\<close>

definition sample_record :: Record where
  "sample_record = \<lparr>r_Offset = 1, r_Timestamp = 2, r_Key = Some [3], r_Value = None, r_Headers = []\<rparr>"

lemma sample_record_ok [simp]:
  "wf_record sample_record" "norm_record sample_record = sample_record" "length (encodeRecord [] sample_record) = 29"
  by (simp_all add: sample_record_def wf_record_def int64_ok_def norm_record_def norm_bytes_Some length_encodeRecord)

text \<open>
  C27: For an LZ4 library whose decompressor inverts its compressor, a produce batch survives the wire:
  the broker decodes the topic, partition and records the producer encoded, under the codec that was
  really used (uncompressed when the compressor failed or found the payload incompressible).
\<close>

theorem produce_batch_roundtrip:
  assumes "lz4_library cb ub" "wf_ProduceBatch r" "buf32 (ProduceBatchRequest_Encode cb r)"
  shows "DecodeProduceBatchRequest ub (ProduceBatchRequest_Encode cb r) =
    Inr \<lparr>pbq_Topic = pbq_Topic r, pbq_Partition = pbq_Partition r,
         pbq_Codec = sent_codec cb (pbq_Codec r) (uint (pbq_Level r)) (batch_bytes (pbq_Records r)),
         pbq_Records = map norm_record (pbq_Records r), pbq_Level = 0\<rparr>"
  using ProduceBatchRequest_decode [OF assms] by simp

definition store_block :: compress_block where
  "store_block l src = Inr (1 # src)"

definition unstore_block :: uncompress_block where
  "unstore_block src n = Inr (take n (tl src))"

lemma store_library: "lz4_library store_block unstore_block"
  by (simp add: lz4_library_def store_block_def unstore_block_def)

lemma produce_batch_roundtrip_witness:
  "DecodeProduceBatchRequest unstore_block (ProduceBatchRequest_Encode store_block
      \<lparr>pbq_Topic = ''t'', pbq_Partition = 3, pbq_Codec = CodecLZ4, pbq_Records = [sample_record], pbq_Level = 9\<rparr>)
    = Inr \<lparr>pbq_Topic = ''t'', pbq_Partition = 3, pbq_Codec = CodecLZ4, pbq_Records = [sample_record], pbq_Level = 0\<rparr>"
  using produce_batch_roundtrip [OF store_library,
    of "\<lparr>pbq_Topic = ''t'', pbq_Partition = 3, pbq_Codec = CodecLZ4, pbq_Records = [sample_record], pbq_Level = 9\<rparr>"]
  by (simp add: wf_ProduceBatch_def int32_ok_def buf32_def batch_bytes_def batch_request_bytes sent_codec_def
      lz4CompressLevel_def store_block_def split: sum.splits)

text \<open>
  A fetch response delivers the records it was built from, each re-checked against its checksum,
  whether or not the payload was compressed; compression that fails falls back to the plain payload.
\<close>

theorem fetch_response_roundtrip:
  assumes "lz4_library cb ub" "wf_FetchResponse r"
  shows "DecodeFetchResponse ub (FetchResponse_Encode cb r) =
    Inr \<lparr>fs_Records = map norm_record (fs_Records r), fs_Codec = sent_codec cb (fs_Codec r) 0 (fetchPayload r)\<rparr>"
  using assms by (rule FetchResponse_decode)

lemma fetch_response_roundtrip_witness:
  "DecodeFetchResponse unstore_block (FetchResponse_Encode (\<lambda>_ _. Inl EOF)
      \<lparr>fs_Records = [sample_record], fs_Codec = CodecLZ4\<rparr>)
    = Inr \<lparr>fs_Records = [sample_record], fs_Codec = CodecNone\<rparr>"
proof -
  have "lz4_library (\<lambda>_ _. Inl EOF) unstore_block" by (simp add: lz4_library_def)
  moreover have "fetchPayload \<lparr>fs_Records = [sample_record], fs_Codec = CodecLZ4\<rparr> \<noteq> []"
    by (simp add: fetchPayload_eq)
  ultimately show ?thesis
    using fetch_response_roundtrip [of "\<lambda>_ _. Inl EOF" unstore_block "\<lparr>fs_Records = [sample_record], fs_Codec = CodecLZ4\<rparr>"]
    by (simp add: wf_FetchResponse_def fetchPayload_eq framed_bytes_def buf32_def sent_codec_def lz4CompressLevel_def)
qed

section \<open>All other messages\<close>

text \<open>
  Every data-path message other than the batches (handshake, produce, fetch request, metadata, high
  water, sync, segment listing and chunk transfer) decodes to what was encoded, for field values in
  the range of their Go types; nil and empty byte slices are identified.
\<close>

theorem data_messages_roundtrip:
  assumes "buf32 (HandshakeRequest_Encode hs)"
    "wf_ProduceRequest pq" "buf32 (ProduceRequest_Encode pq)" "wf_FetchRequest fq" "buf32 (FetchRequest_Encode fq)"
    "int64_ok (ps_Offset ps)" "int64_ok (pbs_BaseOffset pbs)" "int32_ok (pbs_Count pbs)"
    "int32_ok (ms_PartitionCount ms)" "int64_ok (hws_HighWater hws)"
    "int32_ok (hwq_Partition hwq)" "buf32 (HighWaterRequest_Encode hwq)"
    "int32_ok (sq_Partition sq)" "buf32 (SyncRequest_Encode sq)"
    "list_all wf_SegmentInfo (lss_Segments lss)" "buf32 (ListSegmentsResponse_Encode lss)"
    "wf_FetchSegmentChunkRequest fcq" "buf32 (FetchSegmentChunkRequest_Encode fcq)"
    "buf32 (FetchSegmentChunkResponse_Encode fcs)"
  shows "DecodeHandshakeRequest (HandshakeRequest_Encode hs) = Inr (hs\<lparr>hs_Credential := norm_bytes (hs_Credential hs)\<rparr>)
    \<and> DecodeProduceRequest (ProduceRequest_Encode pq) = Inr (pq\<lparr>pq_Record := norm_record (pq_Record pq)\<rparr>)
    \<and> DecodeFetchRequest (FetchRequest_Encode fq) = Inr fq
    \<and> DecodeProduceResponse (ProduceResponse_Encode ps) = Inr ps
    \<and> DecodeProduceBatchResponse (ProduceBatchResponse_Encode pbs) = Inr pbs
    \<and> DecodeMetadataResponse (MetadataResponse_Encode ms) = Inr ms
    \<and> DecodeHighWaterResponse (HighWaterResponse_Encode hws) = Inr hws
    \<and> DecodeHighWaterRequest (HighWaterRequest_Encode hwq) = Inr hwq
    \<and> DecodeSyncRequest (SyncRequest_Encode sq) = Inr sq
    \<and> DecodeListSegmentsResponse (ListSegmentsResponse_Encode lss) = Inr lss
    \<and> DecodeFetchSegmentChunkRequest (FetchSegmentChunkRequest_Encode fcq) = Inr fcq
    \<and> DecodeFetchSegmentChunkResponse (FetchSegmentChunkResponse_Encode fcs) = Inr (fcs\<lparr>fcs_Bytes := norm_bytes (fcs_Bytes fcs)\<rparr>)"
  by (intro conjI HandshakeRequest.Decode_Encode ProduceRequest.Decode_Encode FetchRequest.Decode_Encode
      ProduceResponse.Decode_Encode ProduceBatchResponse.Decode_Encode MetadataResponse.Decode_Encode
      HighWaterResponse.Decode_Encode HighWaterRequest.Decode_Encode SyncRequest.Decode_Encode
      ListSegmentsResponse.Decode_Encode FetchSegmentChunkRequest.Decode_Encode FetchSegmentChunkResponse.Decode_Encode)
    (use assms in \<open>simp_all add: ProduceResponse_Encode_def ProduceBatchResponse_Encode_def
      MetadataResponse_Encode_def HighWaterResponse_Encode_def buf32_def Let_def\<close>)

lemma data_messages_roundtrip_witness:
  "DecodeFetchRequest (FetchRequest_Encode \<lparr>fq_Topic = ''t'', fq_Partition = 0, fq_FromOffset = - 1,
      fq_MaxRecords = 10, fq_MaxWaitMs = 0, fq_AcceptCodec = 1\<rparr>)
    = Inr \<lparr>fq_Topic = ''t'', fq_Partition = 0, fq_FromOffset = - 1, fq_MaxRecords = 10, fq_MaxWaitMs = 0, fq_AcceptCodec = 1\<rparr>"
  using data_messages_roundtrip
    [of "\<lparr>hs_Version = 1, hs_CredentialKind = 0, hs_Credential = None\<rparr>"
        "\<lparr>pq_Topic = ''t'', pq_Partition = 0, pq_Record = sample_record\<rparr>"
        "\<lparr>fq_Topic = ''t'', fq_Partition = 0, fq_FromOffset = - 1, fq_MaxRecords = 10, fq_MaxWaitMs = 0, fq_AcceptCodec = 1\<rparr>"
        "\<lparr>ps_Offset = 4\<rparr>" "\<lparr>pbs_BaseOffset = 4, pbs_Count = 2\<rparr>" "\<lparr>ms_PartitionCount = 3\<rparr>" "\<lparr>hws_HighWater = 9\<rparr>"
        "\<lparr>hwq_Topic = ''t'', hwq_Partition = 0\<rparr>" "\<lparr>sq_Topic = ''t'', sq_Partition = 0\<rparr>"
        "\<lparr>lss_Segments = []\<rparr>"
        "\<lparr>fcq_Topic = ''t'', fcq_Partition = 0, fcq_Base = 0, fcq_Kind = 0, fcq_Offset = 0, fcq_MaxBytes = 1\<rparr>"
        "\<lparr>fcs_Bytes = Some [1]\<rparr>"]
  by (simp add: buf32_def int32_ok_def int64_ok_def wf_ProduceRequest_def wf_FetchRequest_def
      wf_FetchSegmentChunkRequest_def HandshakeRequest_Encode_def ProduceRequest_Encode_def FetchRequest_Encode_def
      HighWaterRequest_Encode_def SyncRequest_Encode_def ListSegmentsResponse_Encode_def
      FetchSegmentChunkRequest_Encode_def FetchSegmentChunkResponse_Encode_def append_form Let_def)

text \<open>
  Every cluster and topic administration message decodes to what was encoded: voter changes, the
  membership and status reports, topic creation, update, deletion and the topic listing.
\<close>

theorem admin_messages_roundtrip:
  assumes "buf32 (AddVoterRequest_Encode av)" "buf32 (RemoveVoterRequest_Encode rv)"
    "buf32 (ClusterMembersResponse_Encode cms)" "buf32 (ClusterStatusResponse_Encode css)"
    "int32_ok (ct_PartitionCount ct) \<and> int64_ok (ct_RetentionMs ct) \<and> int64_ok (ct_SegmentBytes ct)"
    "buf32 (CreateTopicRequest_Encode ct)"
    "int64_ok (ut_RetentionMs ut) \<and> int64_ok (ut_SegmentBytes ut)" "buf32 (UpdateTopicConfigRequest_Encode ut)"
    "buf32 (DeleteTopicRequest_Encode dt)"
    "list_all wf_TopicConfig (lts_Topics lts)" "buf32 (ListTopicsResponse_Encode lts)"
  shows "DecodeAddVoterRequest (AddVoterRequest_Encode av) = Inr av
    \<and> DecodeRemoveVoterRequest (RemoveVoterRequest_Encode rv) = Inr rv
    \<and> DecodeClusterMembersResponse (ClusterMembersResponse_Encode cms) = Inr cms
    \<and> DecodeClusterStatusResponse (ClusterStatusResponse_Encode css) = Inr css
    \<and> DecodeCreateTopicRequest (CreateTopicRequest_Encode ct) = Inr ct
    \<and> DecodeUpdateTopicConfigRequest (UpdateTopicConfigRequest_Encode ut) = Inr ut
    \<and> DecodeDeleteTopicRequest (DeleteTopicRequest_Encode dt) = Inr dt
    \<and> DecodeListTopicsResponse (ListTopicsResponse_Encode lts) = Inr lts"
  by (intro conjI AddVoterRequest.Decode_Encode RemoveVoterRequest.Decode_Encode
      ClusterMembersResponse.Decode_Encode ClusterStatusResponse.Decode_Encode CreateTopicRequest.Decode_Encode
      UpdateTopicConfigRequest.Decode_Encode DeleteTopicRequest.Decode_Encode ListTopicsResponse.Decode_Encode)
    (use assms in \<open>simp_all add: list_all_iff wf_ClusterMember_def\<close>)

lemma admin_messages_roundtrip_witness:
  "DecodeClusterStatusResponse (ClusterStatusResponse_Encode
      \<lparr>css_NodeID = ''n1'', css_IsLeader = True, css_LeaderID = ''n1'', css_LeaderAddr = ''a''\<rparr>)
    = Inr \<lparr>css_NodeID = ''n1'', css_IsLeader = True, css_LeaderID = ''n1'', css_LeaderAddr = ''a''\<rparr>"
  using admin_messages_roundtrip
    [of "\<lparr>av_ID = ''n2'', av_Addr = ''b''\<rparr>" "\<lparr>rv_ID = ''n2''\<rparr>" "\<lparr>cms_Members = []\<rparr>"
        "\<lparr>css_NodeID = ''n1'', css_IsLeader = True, css_LeaderID = ''n1'', css_LeaderAddr = ''a''\<rparr>"
        "\<lparr>ct_Name = ''t'', ct_PartitionCount = 2, ct_RetentionMs = 0, ct_SegmentBytes = 0\<rparr>"
        "\<lparr>ut_Name = ''t'', ut_RetentionMs = 0, ut_SegmentBytes = 0\<rparr>" "\<lparr>dt_Name = ''t''\<rparr>" "\<lparr>lts_Topics = []\<rparr>"]
  by (simp add: buf32_def int32_ok_def int64_ok_def AddVoterRequest_Encode_def RemoveVoterRequest_Encode_def
      ClusterMembersResponse_Encode_def ClusterStatusResponse_Encode_def CreateTopicRequest_Encode_def
      UpdateTopicConfigRequest_Encode_def DeleteTopicRequest_Encode_def ListTopicsResponse_Encode_def
      append_form Let_def)

text \<open>
  Every consumer-group message decodes to what was encoded, nested lists included: commit, join
  request and response, heartbeat, leave, and the group inspection messages.
\<close>

theorem group_messages_roundtrip:
  assumes "int32_ok (cq_Partition cq) \<and> int64_ok (cq_Offset cq)" "buf32 (CommitRequest_Encode cq)"
    "buf32 (JoinGroupRequest_Encode jq)"
    "int32_ok (js_Generation js) \<and> list_all wf_AssignmentEntry (js_Assignments js)" "buf32 (JoinGroupResponse_Encode js)"
    "int32_ok (hq_Generation hq) \<and> int32_ok (hq_MaxWaitMs hq)" "buf32 (HeartbeatRequest_Encode hq)"
    "buf32 (LeaveGroupRequest_Encode lq)"
    "list_all wf_GroupSummary (lgs_Groups lgs)" "buf32 (ListGroupsResponse_Encode lgs)"
    "int32_ok (dgs_Generation dgs) \<and> list_all wf_MemberAssignment (dgs_Members dgs)"
    "buf32 (DescribeGroupResponse_Encode dgs)"
    "list_all wf_GroupOffsetEntry (los_Entries los)" "buf32 (ListGroupOffsetsResponse_Encode los)"
  shows "DecodeCommitRequest (CommitRequest_Encode cq) = Inr cq
    \<and> DecodeJoinGroupRequest (JoinGroupRequest_Encode jq) = Inr jq
    \<and> DecodeJoinGroupResponse (JoinGroupResponse_Encode js) = Inr js
    \<and> DecodeHeartbeatRequest (HeartbeatRequest_Encode hq) = Inr hq
    \<and> DecodeHeartbeatResponse (HeartbeatResponse_Encode hr) = Inr hr
    \<and> DecodeLeaveGroupRequest (LeaveGroupRequest_Encode lq) = Inr lq
    \<and> DecodeListGroupsResponse (ListGroupsResponse_Encode lgs) = Inr lgs
    \<and> DecodeDescribeGroupResponse (DescribeGroupResponse_Encode dgs) = Inr dgs
    \<and> DecodeListGroupOffsetsResponse (ListGroupOffsetsResponse_Encode los) = Inr los"
  by (intro conjI CommitRequest.Decode_Encode JoinGroupRequest.Decode_Encode JoinGroupResponse.Decode_Encode
      HeartbeatRequest.Decode_Encode HeartbeatResponse.Decode_Encode LeaveGroupRequest.Decode_Encode
      ListGroupsResponse.Decode_Encode DescribeGroupResponse.Decode_Encode ListGroupOffsetsResponse.Decode_Encode)
    (use assms in \<open>simp_all add: HeartbeatResponse_Encode_def buf32_def\<close>)

lemma group_messages_roundtrip_witness:
  "DecodeDescribeGroupResponse (DescribeGroupResponse_Encode
      \<lparr>dgs_Name = ''g'', dgs_Generation = 2, dgs_Topics = [''t''],
       dgs_Members = [\<lparr>ma_MemberID = ''m'', ma_Partitions = [\<lparr>p_Topic = ''t'', p_Index = 0\<rparr>]\<rparr>]\<rparr>)
    = Inr \<lparr>dgs_Name = ''g'', dgs_Generation = 2, dgs_Topics = [''t''],
       dgs_Members = [\<lparr>ma_MemberID = ''m'', ma_Partitions = [\<lparr>p_Topic = ''t'', p_Index = 0\<rparr>]\<rparr>]\<rparr>"
  using group_messages_roundtrip
    [of "\<lparr>cq_Group = ''g'', cq_Topic = ''t'', cq_Partition = 0, cq_Offset = 1\<rparr>"
        "\<lparr>jq_Group = ''g'', jq_MemberID = [], jq_Topics = [''t'']\<rparr>"
        "\<lparr>js_MemberID = ''m'', js_Generation = 1, js_Assignments = []\<rparr>"
        "\<lparr>hq_Group = ''g'', hq_MemberID = ''m'', hq_Generation = 1, hq_MaxWaitMs = 0\<rparr>"
        "\<lparr>lq_Group = ''g'', lq_MemberID = ''m''\<rparr>" "\<lparr>lgs_Groups = []\<rparr>"
        "\<lparr>dgs_Name = ''g'', dgs_Generation = 2, dgs_Topics = [''t''],
          dgs_Members = [\<lparr>ma_MemberID = ''m'', ma_Partitions = [\<lparr>p_Topic = ''t'', p_Index = 0\<rparr>]\<rparr>]\<rparr>"
        "\<lparr>los_Entries = []\<rparr>"]
  by (simp add: buf32_def int32_ok_def int64_ok_def CommitRequest_Encode_def JoinGroupRequest_Encode_def
      JoinGroupResponse_Encode_def HeartbeatRequest_Encode_def LeaveGroupRequest_Encode_def
      ListGroupsResponse_Encode_def DescribeGroupResponse_Encode_def ListGroupOffsetsResponse_Encode_def
      encodeMemberAssignment_def encodePartitionRef_def wf_MemberAssignment_def wf_PartitionRef_def append_form Let_def)

end
