(* ===== verification/Log_Files.thy ===== *)
theory Log_Files
  imports Wire_Primitives "HOL-Library.AList" "HOL-Library.Sublist"
begin

text \<open>
  The part of Go's \<^verbatim>\<open>os\<close>, \<^verbatim>\<open>io\<close> and \<^verbatim>\<open>bufio\<close> packages that \<^verbatim>\<open>broker/internal/log\<close> stands on. A partition
  directory is an association list from file names to files; a file carries its bytes and how many of
  them have been fsynced, so that a crash can be stated as the loss of a suffix that was never synced.
  An open file is its position and flags; \<^verbatim>\<open>bufio.Reader\<close> and \<^verbatim>\<open>bufio.Writer\<close> are modelled with their
  4096-byte buffers, because the position at which the operating system continues a shared handle
  depends on how far ahead the reader has read. System calls fail only for the reasons written out
  here (a missing file, a read-only handle); media errors and full disks are not modelled.
\<close>

section \<open>Files and directories\<close>

record disk_file =
  fl_data :: bytes
  fl_synced :: nat

type_synonym dir = "(string \<times> disk_file) list"

definition file_data :: "dir \<Rightarrow> string \<Rightarrow> bytes" where
  "file_data d name = (case map_of d name of None \<Rightarrow> [] | Some f \<Rightarrow> fl_data f)"

definition set_data :: "dir \<Rightarrow> string \<Rightarrow> bytes \<Rightarrow> dir" where
  "set_data d name b =
     (case map_of d name of
        None \<Rightarrow> AList.update name \<lparr>fl_data = b, fl_synced = 0\<rparr> d
      | Some f \<Rightarrow> AList.update name (f\<lparr>fl_data := b\<rparr>) d)"

record os_File =
  f_pos :: nat
  f_append :: bool
  f_rdonly :: bool

text \<open>\<^verbatim>\<open>(*os.File).Write\<close>: an \<^verbatim>\<open>O_APPEND\<close> handle writes at the end, any other handle at its position.\<close>

definition os_Write :: "dir \<Rightarrow> string \<Rightarrow> os_File \<Rightarrow> bytes \<Rightarrow> dir \<times> os_File" where
  "os_Write d name f p =
     (let old = file_data d name;
          at = (if f_append f then length old else f_pos f);
          new = take at old @ replicate (at - length old) 0 @ p @ drop (at + length p) old
      in (set_data d name new, f\<lparr>f_pos := at + length p\<rparr>))"

definition os_Truncate :: "dir \<Rightarrow> string \<Rightarrow> os_File \<Rightarrow> nat \<Rightarrow> dir result" where
  "os_Truncate d name f n =
     (if f_rdonly f then Inl (ErrNew ''truncate: invalid argument'')
      else let old = file_data d name in
        Inr (case map_of d name of
               None \<Rightarrow> d
             | Some fl \<Rightarrow>
                 AList.update name \<lparr>fl_data = take n old @ replicate (n - length old) 0,
                   fl_synced = min n (fl_synced fl)\<rparr> d))"

definition os_Sync :: "dir \<Rightarrow> string \<Rightarrow> dir" where
  "os_Sync d name =
     (case map_of d name of
        None \<Rightarrow> d
      | Some f \<Rightarrow> AList.update name (f\<lparr>fl_synced := length (fl_data f)\<rparr>) d)"

definition os_Remove :: "dir \<Rightarrow> string \<Rightarrow> dir \<times> unit result" where
  "os_Remove d name =
     (case map_of d name of None \<Rightarrow> (d, Inl ErrNotExist) | Some _ \<Rightarrow> (AList.delete name d, Inr ()))"

definition os_Rename :: "dir \<Rightarrow> string \<Rightarrow> string \<Rightarrow> dir result" where
  "os_Rename d old new =
     (case map_of d old of
        None \<Rightarrow> Inl ErrNotExist
      | Some f \<Rightarrow> if old = new then Inr d else Inr (AList.update new f (AList.delete old d)))"

text \<open>
  A crash keeps every directory entry and, of each file, some prefix that contains the synced bytes.
\<close>

definition crash_file :: "disk_file \<Rightarrow> disk_file \<Rightarrow> bool" where
  "crash_file f g \<longleftrightarrow> (\<exists>n \<ge> fl_synced f. g = \<lparr>fl_data = take n (fl_data f), fl_synced = length (take n (fl_data f))\<rparr>)"

definition crash :: "dir \<Rightarrow> dir \<Rightarrow> bool" where
  "crash d d' \<longleftrightarrow> list_all2 (\<lambda>(m, f) (n, g). m = n \<and> crash_file f g) d d'"

section \<open>bufio\<close>

definition defaultBufSize :: nat where
  "defaultBufSize = 4096"

text \<open>
  \<^verbatim>\<open>(*bufio.Writer).Write\<close> on the buffered bytes \<open>b\<close>: the first component is what reaches the file.
\<close>

function bufio_Write :: "bytes \<Rightarrow> bytes \<Rightarrow> bytes \<times> bytes" where
  "bufio_Write b p =
     (if length p \<le> defaultBufSize - length b then ([], b @ p)
      else if b = [] then (p, [])
      else let n = defaultBufSize - length b;
               (w, b') = bufio_Write [] (drop n p)
           in ((b @ take n p) @ w, b'))"
  by pat_completeness auto
termination
  by (relation "measure (\<lambda>(b, p). length p + (if b = [] then 0 else 1))") auto

declare bufio_Write.simps [simp del]

lemma bufio_Write_append: "fst (bufio_Write b p) @ snd (bufio_Write b p) = b @ p"
proof (induction b p rule: bufio_Write.induct)
  case (1 b p)
  then show ?case
    by (subst (1 2) bufio_Write.simps) (auto simp: Let_def split: prod.splits)
qed

record bufio_reader =
  rd_pos :: nat
  rd_buf :: bytes

text \<open>
  \<^verbatim>\<open>(*bufio.Reader).Read\<close> of at most \<open>n > 0\<close> bytes from a file with the given content; no bytes is
  the end of the file. A request of at least the buffer's size bypasses an empty buffer.
\<close>

definition bufio_Read :: "bytes \<Rightarrow> nat \<Rightarrow> bufio_reader \<Rightarrow> bytes \<times> bufio_reader" where
  "bufio_Read content n rd =
     (if rd_buf rd = [] then
        if defaultBufSize \<le> n then
          let chunk = take n (drop (rd_pos rd) content)
          in (chunk, rd\<lparr>rd_pos := rd_pos rd + length chunk\<rparr>)
        else
          let fill = take defaultBufSize (drop (rd_pos rd) content)
          in (take n fill, \<lparr>rd_pos = rd_pos rd + length fill, rd_buf = drop n fill\<rparr>)
      else (take n (rd_buf rd), rd\<lparr>rd_buf := drop n (rd_buf rd)\<rparr>))"

text \<open>\<^verbatim>\<open>io.ReadFull\<close> on a buffered reader; \<open>acc\<close> is what has been read so far.\<close>

function io_ReadFull :: "bytes \<Rightarrow> nat \<Rightarrow> bufio_reader \<Rightarrow> bytes \<Rightarrow> bytes result \<times> bufio_reader" where
  "io_ReadFull content n rd acc =
     (if n = 0 then (Inr acc, rd)
      else let (chunk, rd') = bufio_Read content n rd in
        if chunk = [] then (Inl (if acc = [] then EOF else ErrUnexpectedEOF), rd')
        else io_ReadFull content (n - length chunk) rd' (acc @ chunk))"
  by pat_completeness auto
termination
  by (relation "measure (\<lambda>(c, n, rd, acc). n)") auto

declare io_ReadFull.simps [simp del]

section \<open>The stream behind a buffered reader\<close>

text \<open>What is still to be read: the buffered bytes, then the file from its position on.\<close>

definition rd_rest :: "bytes \<Rightarrow> bufio_reader \<Rightarrow> bytes" where
  "rd_rest content rd = rd_buf rd @ drop (rd_pos rd) content"

definition rd_ok :: "bytes \<Rightarrow> bufio_reader \<Rightarrow> bool" where
  "rd_ok content rd \<longleftrightarrow> rd_pos rd \<le> length content"

lemma drop_past_take: "drop (p + length (take m (drop p xs))) xs = drop m (drop p xs)"
  by (cases "m \<le> length xs - p") (simp_all add: add.commute)

lemma bufio_Read_stream:
  assumes "bufio_Read content n rd = (chunk, rd')" "0 < n"
  shows "rd_rest content rd = chunk @ rd_rest content rd'" "length chunk \<le> n"
    "chunk = [] \<longleftrightarrow> rd_rest content rd = []" "rd_ok content rd \<Longrightarrow> rd_ok content rd'"
proof -
  note defs = bufio_Read_def rd_rest_def rd_ok_def defaultBufSize_def Let_def
  have "chunk @ rd_rest content rd' = rd_rest content rd"
    using assms(1) drop_past_take [of "rd_pos rd" _ content] append_take_drop_id [of n "take 4096 (drop (rd_pos rd) content)"]
      append_take_drop_id [of n "rd_buf rd"]
    by (auto simp: defs simp del: drop_drop length_take length_drop take_drop append_take_drop_id
        simp flip: append_assoc split: if_splits)
      (simp_all del: drop_drop)
  then show "rd_rest content rd = chunk @ rd_rest content rd'" ..
  show "length chunk \<le> n" "chunk = [] \<longleftrightarrow> rd_rest content rd = []"
    "rd_ok content rd \<Longrightarrow> rd_ok content rd'"
    using assms by (auto simp: defs split: if_splits)
qed

lemma io_ReadFull_stream:
  assumes "io_ReadFull content n rd acc = (res, rd')"
  shows "(rd_ok content rd \<longrightarrow> rd_ok content rd') \<and>
    (if n \<le> length (rd_rest content rd)
     then res = Inr (acc @ take n (rd_rest content rd)) \<and> rd_rest content rd' = drop n (rd_rest content rd)
     else res = Inl (if acc = [] \<and> rd_rest content rd = [] then EOF else ErrUnexpectedEOF)
       \<and> rd_rest content rd' = [])"
  using assms
proof (induction content n rd acc arbitrary: res rd' rule: io_ReadFull.induct)
  case (1 content n rd acc)
  show ?case
  proof (cases "n = 0")
    case True
    with "1.prems" show ?thesis by (simp add: io_ReadFull.simps)
  next
    case n: False
    obtain chunk rd1 where rd1: "bufio_Read content n rd = (chunk, rd1)"
      by (cases "bufio_Read content n rd")
    note st = bufio_Read_stream [OF rd1]
    show ?thesis
    proof (cases "chunk = []")
      case True
      with n rd1 "1.prems" st show ?thesis
        by (auto simp: io_ReadFull.simps [of content n])
    next
      case False
      with n rd1 "1.prems" have "io_ReadFull content (n - length chunk) rd1 (acc @ chunk) = (res, rd')"
        by (simp add: io_ReadFull.simps [of content n])
      from "1.IH" [OF n rd1 [symmetric] refl False this] n st False show ?thesis
        by auto
    qed
  qed
qed

end
