(* ===== verification/Log_Frame.thy ===== *)
theory Log_Frame
  imports Log_Files
begin

text \<open>
  The on-disk record format of \<^verbatim>\<open>broker/internal/log/frame.go\<close>: a length prefix, the record body and its
  CRC-32C. \<open>readRecordFrom\<close> works on a buffered reader; \<open>parse_frame\<close> is the same function on the
  stream behind the reader. The disk frame is byte for byte the framed record of the wire protocol.
\<close>

section \<open>Writer\<close>

definition appendBytes :: "bytes \<Rightarrow> bytes \<Rightarrow> bytes" where
  "appendBytes buf b = (buf @ be32 (uint32_len b)) @ b"

definition log_encodeRecord :: "bytes \<Rightarrow> Record \<Rightarrow> bytes" where
  "log_encodeRecord buf r =
     (let bodyStart = length buf + 4;
          buf = buf @ [0, 0, 0, 0];
          buf = buf @ be64 (uint64_of (r_Offset r));
          buf = buf @ be64 (uint64_of (r_Timestamp r));
          buf = appendBytes buf (gb (r_Key r));
          buf = appendBytes buf (gb (r_Value r));
          buf = buf @ be32 (uint32_len (r_Headers r));
          buf = foldl (\<lambda>buf h. appendBytes (appendBytes buf (bytes_of_string (h_Key h))) (gb (h_Value h)))
                  buf (r_Headers r);
          body = drop bodyStart buf;
          buf = take (bodyStart - 4) buf @ be32 (uint32_len body) @ drop bodyStart buf;
          crc = crc32c body
      in buf @ be32 crc)"

section \<open>Reader\<close>

definition readBytes :: "bytes \<Rightarrow> (gobytes \<times> nat) result" where
  "readBytes b =
     (if length b < 4 then Inl ErrUnexpectedEOF
      else let n = Uint32 (sl b 0 4) in
        if word_of_nat (length b - 4) < n then Inl ErrUnexpectedEOF
        else if n = 0 then Inr (None, 4)
        else if unat (4 + n) < 4 then Inl Panic
        else Inr (Some (sl b 4 (unat (4 + n))), 4 + unat n))"

primrec readHeaders :: "nat \<Rightarrow> bytes \<Rightarrow> nat \<Rightarrow> (Header list \<times> nat) result" where
  "readHeaders 0 body p = Inr ([], p)"
| "readHeaders (Suc k) body p =
     (case readBytes (drop p body) of
        Inl e \<Rightarrow> Inl (ErrWrap ''log: header key'' e)
      | Inr (hk, n) \<Rightarrow>
          (let p = p + n in
           case readBytes (drop p body) of
             Inl e \<Rightarrow> Inl (ErrWrap ''log: header value'' e)
           | Inr (hv, n) \<Rightarrow>
               (case readHeaders k body (p + n) of
                  Inl e \<Rightarrow> Inl e
                | Inr (hs, p) \<Rightarrow> Inr (\<lparr>h_Key = string_of_bytes (gb hk), h_Value = hv\<rparr> # hs, p))))"

definition decodeBody :: "bytes \<Rightarrow> Record result" where
  "decodeBody body =
     (if length body < 16 then Inl (ErrNew ''log: short body'')
      else let offset = int64_of (Uint64 (sl body 0 8)); ts = int64_of (Uint64 (sl body 8 16)); p = 16 in
        case readBytes (drop p body) of
          Inl e \<Rightarrow> Inl (ErrWrap ''log: key'' e)
        | Inr (key, n) \<Rightarrow>
            (let p = p + n in
             case readBytes (drop p body) of
               Inl e \<Rightarrow> Inl (ErrWrap ''log: value'' e)
             | Inr (val, n) \<Rightarrow>
                 (let p = p + n in
                  if length (drop p body) < 4 then Inl (ErrNew ''log: short header count'')
                  else let hdrCount = Uint32 (sl body p (p + 4)); p = p + 4 in
                    case readHeaders (unat hdrCount) body p of
                      Inl e \<Rightarrow> Inl e
                    | Inr (headers, _) \<Rightarrow>
                        Inr \<lparr>r_Offset = offset, r_Timestamp = ts, r_Key = key, r_Value = val,
                             r_Headers = headers\<rparr>)))"

text \<open>
  The byte count that accompanies an error is not used by any caller and is dropped. \<open>content\<close> is the
  content of the file behind the reader.
\<close>

definition readRecordFrom :: "bytes \<Rightarrow> bufio_reader \<Rightarrow> (Record \<times> nat) result \<times> bufio_reader" where
  "readRecordFrom content r =
     (case io_ReadFull content 4 r [] of
        (Inl err, r) \<Rightarrow>
          if errors_Is err EOF then (Inl EOF, r)
          else if errors_Is err ErrUnexpectedEOF then (Inl ErrUnexpectedEOF, r)
          else (Inl err, r)
      | (Inr lenBuf, r) \<Rightarrow>
          (let bodyLen = Uint32 lenBuf in
           case io_ReadFull content (unat bodyLen) r [] of
             (Inl err, r) \<Rightarrow> (Inl (if errors_Is err EOF then ErrUnexpectedEOF else err), r)
           | (Inr body, r) \<Rightarrow>
               (case io_ReadFull content 4 r [] of
                  (Inl err, r) \<Rightarrow> (Inl (if errors_Is err EOF then ErrUnexpectedEOF else err), r)
                | (Inr crcBuf, r) \<Rightarrow>
                    if crc32c body \<noteq> Uint32 crcBuf then (Inl ErrTornFrame, r)
                    else case decodeBody body of
                           Inl err \<Rightarrow> (Inl err, r)
                         | Inr rec \<Rightarrow> (Inr (rec, 4 + unat bodyLen + 4), r))))"

text \<open>The same on the stream behind the reader.\<close>

definition parse_frame :: "bytes \<Rightarrow> (Record \<times> nat) result" where
  "parse_frame s =
     (if s = [] then Inl EOF
      else if length s < 4 then Inl ErrUnexpectedEOF
      else let n = unat (Uint32 (take 4 s)) in
        if length s < 4 + n + 4 then Inl ErrUnexpectedEOF
        else let body = take n (drop 4 s) in
          if crc32c body \<noteq> Uint32 (take 4 (drop (4 + n) s)) then Inl ErrTornFrame
          else case decodeBody body of Inl err \<Rightarrow> Inl err | Inr rec \<Rightarrow> Inr (rec, 4 + n + 4))"

section \<open>The frame written is the frame of the wire\<close>

lemma appendBytes_eq: "appendBytes buf (gb b) = encodeBytes buf b"
  "appendBytes buf (bytes_of_string s) = encodeString buf s"
  by (simp_all add: appendBytes_def encodeBytes_def encodeString_def uint32_len_def)

lemma encode_headers_foldl:
  "foldl (\<lambda>buf h. encodeBytes (encodeString buf (h_Key h)) (h_Value h)) buf hs = encode_headers buf hs"
  by (induction hs arbitrary: buf) simp_all

lemma log_encodeRecord_eq: "log_encodeRecord buf r = encodeFramedRecord buf r"
  by (simp add: log_encodeRecord_def encodeFramedRecord_def encodeRecord_def appendBytes_eq
      encode_headers_foldl Let_def)

definition frame :: "Record \<Rightarrow> bytes" where
  "frame r = log_encodeRecord [] r"

lemma frame_eq:
  "frame r = be32 (uint32_len (encodeRecord [] r)) @ encodeRecord [] r @ be32 (crc32c (encodeRecord [] r))"
  by (simp add: frame_def log_encodeRecord_eq encodeFramedRecord_eq)

lemma length_frame: "length (frame r) = length (encodeRecord [] r) + 8"
  by (simp add: frame_eq)

lemma frame_nonempty [simp]: "frame r \<noteq> []" "0 < length (frame r)"
  by (simp_all add: frame_eq)

lemma frame_norm [simp]: "frame (norm_record r) = frame r"
  by (simp add: frame_eq)

section \<open>The reader on the stream\<close>

lemma readRecordFrom_stream:
  assumes run: "readRecordFrom content rd = (res, rd')"
  shows "(rd_ok content rd \<longrightarrow> rd_ok content rd') \<and> res = parse_frame (rd_rest content rd)
    \<and> (\<forall>rec n. res = Inr (rec, n) \<longrightarrow> rd_rest content rd' = drop n (rd_rest content rd))
    \<and> (rd_rest content rd = [] \<longrightarrow> rd_rest content rd' = [])"
proof -
  let ?s = "rd_rest content rd"
  obtain r1 rd1 where 1: "io_ReadFull content 4 rd [] = (r1, rd1)" by fastforce
  note s1 = io_ReadFull_stream [OF 1]
  show ?thesis
  proof (cases "length ?s < 4")
    case True
    with s1 run 1 show ?thesis by (auto simp: readRecordFrom_def parse_frame_def split: if_splits)
  next
    case l4: False
    define n where "n = unat (Uint32 (take 4 ?s))"
    from l4 s1 have r1: "r1 = Inr (take 4 ?s)" "rd_ok content rd \<longrightarrow> rd_ok content rd1" "rd_rest content rd1 = drop 4 ?s"
      by auto
    obtain r2 rd2 where 2: "io_ReadFull content n rd1 [] = (r2, rd2)" by fastforce
    note s2 = io_ReadFull_stream [OF 2, unfolded r1(3)]
    show ?thesis
    proof (cases "length ?s < 4 + n")
      case True
      with s2 run 1 2 r1 l4 show ?thesis
        by (auto simp: readRecordFrom_def parse_frame_def n_def Let_def split: if_splits)
    next
      case ln: False
      with s2 l4 have r2: "r2 = Inr (take n (drop 4 ?s))" "rd_ok content rd1 \<longrightarrow> rd_ok content rd2"
        "rd_rest content rd2 = drop (4 + n) ?s"
        by (auto simp: add.commute)
      obtain r3 rd3 where 3: "io_ReadFull content 4 rd2 [] = (r3, rd3)" by fastforce
      note s3 = io_ReadFull_stream [OF 3, unfolded r2(3)]
      show ?thesis
      proof (cases "length ?s < 4 + n + 4")
        case True
        with s3 run 1 2 3 r1 r2 l4 ln show ?thesis
          by (auto simp: readRecordFrom_def parse_frame_def n_def Let_def split: if_splits)
      next
        case False
        with s3 have r3: "r3 = Inr (take 4 (drop (4 + n) ?s))" "rd_ok content rd2 \<longrightarrow> rd_ok content rd3"
          "rd_rest content rd3 = drop (4 + n + 4) ?s"
          by (auto simp: add.commute add.left_commute)
        with run 1 2 3 r1 r2 l4 False show ?thesis
          by (auto simp: readRecordFrom_def parse_frame_def n_def Let_def split: if_splits sum.splits)
      qed
    qed
  qed
qed

section \<open>Bodies\<close>

lemma readBytes_eq: "readBytes = decodeBytes"
  by (rule ext) (simp add: readBytes_def decodeBytes_def)

lemma readBytes_string:
  "decodeString b = Inr (s, n) \<longleftrightarrow> (\<exists>k. readBytes b = Inr (k, n) \<and> s = string_of_bytes (gb k))"
  by (auto simp: decodeString_def readBytes_def Let_def sl_def string_of_bytes_def split: if_splits)

lemma readBytes_string_Inl: "decodeString b = Inl e \<Longrightarrow> readBytes b \<noteq> Inr x"
  using readBytes_string [of b "string_of_bytes (gb (fst x))" "snd x"] by (cases x) auto

lemma readHeaders_iff: "readHeaders k b p = Inr x \<longleftrightarrow> decode_headers k b p = Inr x"
proof (induction k arbitrary: p x)
  case (Suc k)
  have IH: "readHeaders k b p = Inr x \<Longrightarrow> decode_headers k b p = Inl e \<Longrightarrow> False" for p x e
    using Suc.IH [of p x] by simp
  show ?case
    apply (cases "readBytes (drop p b)"; cases "decodeString (drop p b)")
    by (auto simp: Let_def Suc.IH [symmetric] readBytes_string readBytes_eq [symmetric]
        dest: readBytes_string_Inl split: sum.splits) (use IH in blast)
qed simp

lemma decodeBody_iff: "decodeBody b = Inr r \<longleftrightarrow> (\<exists>n. decodeRecord b = Inr (r, n))"
proof -
  have hd: "decode_headers k b p = Inr x \<Longrightarrow> readHeaders k b p = Inl e \<Longrightarrow> False" for k b p x e
    using readHeaders_iff [of k b p x] by simp
  show ?thesis
    by (auto simp: decodeBody_def decodeRecord_def readBytes_eq Let_def readHeaders_iff
        dest: hd split: sum.splits prod.splits)
qed

lemma decodeBody_encode:
  "wf_record r \<Longrightarrow> buf32 (encodeRecord [] r) \<Longrightarrow> decodeBody (encodeRecord [] r) = Inr (norm_record r)"
  using decodeRecord_encode [of r "[]"] by (auto simp: decodeBody_iff)

section \<open>Frames in a stream\<close>

lemma parse_frame_consumes:
  "parse_frame s = Inr (rec, n) \<Longrightarrow> 8 \<le> n \<and> n \<le> length s"
  by (auto simp: parse_frame_def Let_def split: if_splits sum.splits)

lemma readRecordFrom_consumes:
  assumes "readRecordFrom content rd = (Inr (rec, n), rd')"
  shows "length (rd_rest content rd') < length (rd_rest content rd)"
  using readRecordFrom_stream [OF assms] parse_frame_consumes [of "rd_rest content rd" rec n] by auto

definition frame_fits :: "Record \<Rightarrow> bool" where
  "frame_fits r \<longleftrightarrow> wf_record r \<and> buf32 (encodeRecord [] r)"

lemma parse_frame_frame:
  assumes "frame_fits r"
  shows "parse_frame (frame r @ rest) = Inr (norm_record r, length (frame r))"
proof -
  have len: "unat (uint32_len (encodeRecord [] r)) = length (encodeRecord [] r)"
    using assms by (intro unat_uint32_len) (simp add: frame_fits_def buf32_def)
  then show ?thesis
    using assms decodeBody_encode [of r]
    by (simp add: parse_frame_def frame_eq len Uint32_be32 frame_fits_def Let_def)
qed

text \<open>A proper, non-empty prefix of a frame reads as an unexpected end of file, whatever its bytes.\<close>

lemma parse_frame_torn:
  assumes "frame_fits r" "0 < n" "n < length (frame r)"
  shows "parse_frame (take n (frame r)) = Inl ErrUnexpectedEOF"
proof -
  have len: "unat (uint32_len (encodeRecord [] r)) = length (encodeRecord [] r)"
    using assms by (intro unat_uint32_len) (simp add: frame_fits_def buf32_def)
  have "take 4 (take n (frame r)) = be32 (uint32_len (encodeRecord [] r))" if "4 \<le> n"
    using that by (simp add: frame_eq min_def)
  moreover have "take n (frame r) \<noteq> []"
    using assms(2) by simp
  ultimately show ?thesis
    using assms len by (auto simp: parse_frame_def Let_def length_frame Uint32_be32 not_less)
qed

end
