(* ===== verification/Log_Index.thy ===== *)
theory Log_Index
  imports Log_Frame
begin

text \<open>
  The sparse index of a segment, \<^verbatim>\<open>broker/internal/log/index.go\<close>: entries map offsets relative to the
  segment's base to byte positions, both kept in 32 bits. The lookup is a binary search; the lemmas
  give its result on sorted entries and the round trip through the \<^verbatim>\<open>.idx\<close> file.
\<close>

section \<open>Operations\<close>

definition indexEntrySize :: nat where
  "indexEntrySize = 8"

record indexEntry =
  ie_RelativeOffset :: "32 word"
  ie_Position :: "32 word"

type_synonym index = "indexEntry list"

definition newIndex :: index where
  "newIndex = []"

definition index_sizeBytes :: "index \<Rightarrow> nat" where
  "index_sizeBytes i = length i * indexEntrySize"

definition index_add :: "index \<Rightarrow> 32 word \<Rightarrow> 32 word \<Rightarrow> index" where
  "index_add i relOffset pos = i @ [\<lparr>ie_RelativeOffset = relOffset, ie_Position = pos\<rparr>]"

definition index_lookup :: "index \<Rightarrow> 32 word \<Rightarrow> 32 word" where
  "index_lookup i relOffset =
     (if length i = 0 then 0
      else let idx = sort_Search (length i) (\<lambda>j. relOffset < ie_RelativeOffset (i ! j)) in
        if idx = 0 then 0 else ie_Position (i ! (idx - 1)))"

definition indexEntry_bytes :: "indexEntry \<Rightarrow> bytes" where
  "indexEntry_bytes e = be32 (ie_RelativeOffset e) @ be32 (ie_Position e)"

definition index_writeTo :: "index \<Rightarrow> bytes" where
  "index_writeTo i = concat (map indexEntry_bytes i)"

primrec readEntries :: "nat \<Rightarrow> bytes \<Rightarrow> index result" where
  "readEntries 0 f = Inr []"
| "readEntries (Suc k) f =
     (case ReadFull indexEntrySize f of
        Inl e \<Rightarrow> Inl e
      | Inr (buf, f) \<Rightarrow>
          (case readEntries k f of
             Inl e \<Rightarrow> Inl e
           | Inr es \<Rightarrow> Inr (\<lparr>ie_RelativeOffset = Uint32 (sl buf 0 4), ie_Position = Uint32 (sl buf 4 8)\<rparr> # es)))"

definition readIndexFrom :: "dir \<Rightarrow> string \<Rightarrow> index result" where
  "readIndexFrom d path =
     (case map_of d path of
        None \<Rightarrow> Inr newIndex
      | Some f \<Rightarrow>
          if length (fl_data f) mod indexEntrySize \<noteq> 0 then Inl (ErrNew ''log: index has trailing bytes'')
          else readEntries (length (fl_data f) div indexEntrySize) (fl_data f))"

section \<open>Lookup\<close>

text \<open>On sorted entries the search finds the last entry at or below the target.\<close>

lemma index_lookup_sorted:
  assumes "sorted_wrt (\<lambda>a b. ie_RelativeOffset a < ie_RelativeOffset b) i"
  shows "index_lookup i t =
    (let es = filter (\<lambda>e. ie_RelativeOffset e \<le> t) i in if es = [] then 0 else ie_Position (last es))"
proof -
  let ?P = "\<lambda>j. t < ie_RelativeOffset (i ! j)"
  have mono: "\<And>k l. ?P k \<Longrightarrow> k \<le> l \<Longrightarrow> l < length i \<Longrightarrow> ?P l"
  proof -
    fix k l assume "?P k" "k \<le> l" "l < length i"
    then show "?P l"
      using sorted_wrt_nth_less [OF assms, of k l] by (cases "k = l") auto
  qed
  define n where "n = sort_Search (length i) ?P"
  have s: "n \<le> length i" "\<And>k. k < n \<Longrightarrow> \<not> ?P k" "\<And>k. n \<le> k \<Longrightarrow> k < length i \<Longrightarrow> ?P k"
    unfolding n_def
    by (rule sort_Search_correct(1), erule (2) mono, erule sort_Search_correct(2) [rotated], erule (2) mono,
        erule (1) sort_Search_correct(3) [rotated], erule (2) mono)
  have "ie_RelativeOffset (i ! j) \<le> t" if "j < n" for j
    using s(2) [OF that] by simp
  then have "\<forall>e \<in> set (take n i). ie_RelativeOffset e \<le> t"
    using s(1) by (simp add: all_set_conv_all_nth)
  then have "filter (\<lambda>e. ie_RelativeOffset e \<le> t) (take n i) = take n i"
    by (simp add: filter_id_conv)
  moreover have "t < ie_RelativeOffset (i ! (n + j))" if "j < length i - n" for j
    using that s(1) by (intro s(3)) simp_all
  then have "\<forall>e \<in> set (drop n i). \<not> ie_RelativeOffset e \<le> t"
    using s(1) by (simp add: all_set_conv_all_nth not_le)
  then have "filter (\<lambda>e. ie_RelativeOffset e \<le> t) (drop n i) = []"
    by (simp add: filter_empty_conv)
  ultimately have "filter (\<lambda>e. ie_RelativeOffset e \<le> t) (take n i @ drop n i) = take n i"
    unfolding filter_append by simp
  then have "filter (\<lambda>e. ie_RelativeOffset e \<le> t) i = take n i"
    by simp
  moreover have "last (take n i) = i ! (n - 1)" if "n \<noteq> 0"
    using that s(1) by (subst last_conv_nth) (auto simp: min_def)
  moreover have "take n i = [] \<longleftrightarrow> n = 0"
    using s(1) by (cases i) auto
  ultimately show ?thesis
    by (cases "n = 0") (auto simp: index_lookup_def Let_def n_def [symmetric])
qed

section \<open>The index file\<close>

lemma length_indexEntry_bytes [simp]: "length (indexEntry_bytes e) = 8"
  by (simp add: indexEntry_bytes_def)

lemma length_index_writeTo: "length (index_writeTo i) = index_sizeBytes i"
  by (induction i) (simp_all add: index_writeTo_def index_sizeBytes_def indexEntrySize_def)

lemma readEntries_writeTo: "readEntries (length i) (index_writeTo i) = Inr i"
proof (induction i)
  case (Cons e i)
  have "index_writeTo (e # i) = indexEntry_bytes e @ index_writeTo i"
    by (simp add: index_writeTo_def)
  with Cons show ?case
    by (simp add: indexEntrySize_def) (simp add: indexEntry_bytes_def sl_def Uint32_be32)
qed simp

lemma readIndexFrom_writeTo:
  assumes "map_of d path = Some f" "fl_data f = index_writeTo i"
  shows "readIndexFrom d path = Inr i"
  using assms readEntries_writeTo [of i] length_index_writeTo [of i]
  by (simp add: readIndexFrom_def index_sizeBytes_def indexEntrySize_def)

end
