(* ===== verification/Go_Strconv.thy ===== *)
theory Go_Strconv
  imports Holocron_Prelude
begin

text \<open>
  Decimal numbers as Go's \<^verbatim>\<open>fmt\<close> prints them (\<^verbatim>\<open>%d\<close> and the zero-padded \<^verbatim>\<open>%0*d\<close>) and \<^verbatim>\<open>strconv\<close> parses
  them (\<^verbatim>\<open>ParseUint\<close>, \<^verbatim>\<open>ParseInt\<close> with base 10 and 64 bits). Parsing inverts printing on the range of the
  type, so printing is injective.
\<close>

section \<open>Printing\<close>

definition digit :: "nat \<Rightarrow> char" where
  "digit d = char_of (48 + d)"

fun digits :: "nat \<Rightarrow> string" where
  "digits n = (if n < 10 then [digit n] else digits (n div 10) @ [digit (n mod 10)])"

declare digits.simps [simp del]

definition fmt_d :: "int \<Rightarrow> string" where
  "fmt_d i = (if i < 0 then CHR ''-'' # digits (nat (- i)) else digits (nat i))"

definition fmt_0d :: "nat \<Rightarrow> int \<Rightarrow> string" where
  "fmt_0d width i =
     (if i < 0 then CHR ''-'' # replicate (width - 1 - length (digits (nat (- i)))) CHR ''0'' @ digits (nat (- i))
      else replicate (width - length (digits (nat i))) CHR ''0'' @ digits (nat i))"

section \<open>Parsing\<close>

definition ErrSyntax :: go_error where
  "ErrSyntax = ErrNew ''invalid syntax''"

definition ErrRange :: go_error where
  "ErrRange = ErrNew ''value out of range''"

primrec parse_digits :: "nat \<Rightarrow> string \<Rightarrow> nat result" where
  "parse_digits n [] = Inr n"
| "parse_digits n (c # s) =
     (let d = of_char c :: nat in
      if 48 \<le> d \<and> d \<le> 57 then
        (let n1 = n * 10 + (d - 48) in if 2 ^ 64 \<le> n1 then Inl ErrRange else parse_digits n1 s)
      else Inl ErrSyntax)"

definition ParseUint :: "string \<Rightarrow> nat result" where
  "ParseUint s = (if s = [] then Inl ErrSyntax else parse_digits 0 s)"

definition ParseInt :: "string \<Rightarrow> int result" where
  "ParseInt s =
     (if s = [] then Inl ErrSyntax
      else let neg = (hd s = CHR ''-'');
               s = (if hd s = CHR ''-'' \<or> hd s = CHR ''+'' then tl s else s)
           in case ParseUint s of
                Inl e \<Rightarrow> Inl e
              | Inr un \<Rightarrow>
                  if \<not> neg \<and> 2 ^ 63 \<le> un then Inl ErrRange
                  else if neg \<and> 2 ^ 63 < un then Inl ErrRange
                  else Inr (if neg then - int un else int un))"

section \<open>Round trips\<close>

lemma of_char_digit: "d < 10 \<Longrightarrow> (of_char (digit d) :: nat) = 48 + d"
  by (simp add: digit_def)

lemma parse_digits_append:
  "parse_digits n (s @ t) = (case parse_digits n s of Inl e \<Rightarrow> Inl e | Inr m \<Rightarrow> parse_digits m t)"
  by (induction s arbitrary: n) (simp_all add: Let_def)

lemma parse_digits_zeros [simp]: "parse_digits 0 (replicate k CHR ''0'' @ s) = parse_digits 0 s"
  by (induction k) simp_all

lemma parse_digits_digits: "n < 2 ^ 64 \<Longrightarrow> parse_digits 0 (digits n) = Inr n"
proof (induction n rule: digits.induct)
  case (1 n)
  show ?case
  proof (cases "n < 10")
    case True
    then show ?thesis by (simp add: digits.simps [of n] of_char_digit Let_def)
  next
    case False
    with 1 have "parse_digits 0 (digits (n div 10)) = Inr (n div 10)" by simp
    with 1 False show ?thesis
      by (simp add: digits.simps [of n] parse_digits_append of_char_digit Let_def)
  qed
qed

lemma digits_nonempty [simp]: "digits n \<noteq> []"
  by (simp add: digits.simps)

lemma digits_chars: "c \<in> set (digits n) \<Longrightarrow> \<exists>d < 10. c = digit d"
proof (induction n rule: digits.induct)
  case (1 n)
  have "\<exists>d < 10. digit (n mod 10) = digit d"
    by (rule exI [of _ "n mod 10"]) simp
  with 1 show ?case by (cases "n < 10") (auto simp: digits.simps [of n])
qed

lemma digit_not_sign: "d < 10 \<Longrightarrow> digit d \<noteq> CHR ''-'' \<and> digit d \<noteq> CHR ''+'' \<and> digit d \<noteq> CHR ''.''"
  using of_char_digit [of d] by auto

lemma length_digits_le: "n < 10 ^ k \<Longrightarrow> 0 < k \<Longrightarrow> length (digits n) \<le> k"
proof (induction n arbitrary: k rule: digits.induct)
  case (1 n)
  show ?case
  proof (cases "n < 10")
    case True
    with "1.prems" show ?thesis by (simp add: digits.simps [of n] Suc_le_eq)
  next
    case False
    with "1.prems" obtain j where k: "k = Suc j" "0 < j"
      by (cases k; cases "k - 1") auto
    with "1.prems" have "n div 10 < 10 ^ j" by (simp add: div_less_iff_less_mult mult.commute)
    with "1.IH" [OF False this k(2)] False k show ?thesis
      by (simp add: digits.simps [of n])
  qed
qed

lemma fmt_0d_head:
  assumes "0 \<le> i" shows "hd (fmt_0d w i) \<noteq> CHR ''-'' \<and> hd (fmt_0d w i) \<noteq> CHR ''+''"
proof -
  have "hd (fmt_0d w i) \<in> set (fmt_0d w i)"
    by (rule hd_in_set) (simp add: fmt_0d_def)
  with assms show ?thesis
    using digits_chars [of _ "nat i"] digit_not_sign by (fastforce simp: fmt_0d_def)
qed

theorem ParseInt_fmt_0d:
  assumes "int64_ok i" shows "ParseInt (fmt_0d w i) = Inr i"
proof (cases "i < 0")
  case True
  with assms have "nat (- i) \<le> 2 ^ 63" by (simp add: int64_ok_def nat_le_iff)
  with True show ?thesis
    by (simp add: ParseInt_def ParseUint_def fmt_0d_def parse_digits_digits Let_def)
next
  case False
  with assms have n: "nat i < 2 ^ 63" by (simp add: int64_ok_def nat_less_iff)
  have "parse_digits 0 (fmt_0d w i) = Inr (nat i)"
    using False n by (simp add: fmt_0d_def parse_digits_digits)
  moreover have "fmt_0d w i \<noteq> []" by (simp add: fmt_0d_def)
  ultimately show ?thesis
    using False n fmt_0d_head [of i w] by (simp add: ParseInt_def ParseUint_def Let_def)
qed

lemma ParseUint_digits: "n < 2 ^ 64 \<Longrightarrow> ParseUint (digits n) = Inr n"
  by (simp add: ParseUint_def parse_digits_digits)

lemma fmt_d_eq: "fmt_d i = fmt_0d 0 i"
  by (simp add: fmt_d_def fmt_0d_def)

lemma fmt_0d_inject: "int64_ok i \<Longrightarrow> int64_ok j \<Longrightarrow> fmt_0d w i = fmt_0d w j \<longleftrightarrow> i = j"
  using ParseInt_fmt_0d by (metis sum.inject(2))

lemma length_fmt_0d:
  assumes "int64_ok i" shows "length (fmt_0d 20 i) = 20"
proof -
  have "length (digits (nat \<bar>i\<bar>)) \<le> 19"
    using assms by (intro length_digits_le) (auto simp: int64_ok_def)
  then show ?thesis by (auto simp: fmt_0d_def)
qed

lemma fmt_0d_no_dot: "CHR ''.'' \<notin> set (fmt_0d w i)"
proof -
  have "CHR ''.'' \<notin> set (digits n)" for n
    using digits_chars [of "CHR ''.''" n] digit_not_sign by metis
  then show ?thesis by (simp add: fmt_0d_def)
qed

end
