(* ===== verification/Log_Segment.thy ===== *)
theory Log_Segment
  imports Log_Index Go_Strconv
begin

text \<open>
  A segment of a partition log, \<^verbatim>\<open>broker/internal/log/segment.go\<close>: a \<^verbatim>\<open>.log\<close> file of frames, its open
  handle with the write buffer, and the sparse index. Operations thread the partition directory. A
  handle refers to the file under the segment's current name: the code renames a file only together
  with the segment that has it open (\<open>seg_finalize\<close>) and removes files only after closing them.
\<close>

section \<open>File names\<close>

definition indexIntervalBytes :: nat where
  "indexIntervalBytes = 4096"

definition segmentNameWidth :: nat where
  "segmentNameWidth = 20"

definition segmentLogName :: "int \<Rightarrow> string" where
  "segmentLogName baseOffset = fmt_0d segmentNameWidth baseOffset @ ''.log''"

definition segmentIndexName :: "int \<Rightarrow> string" where
  "segmentIndexName baseOffset = fmt_0d segmentNameWidth baseOffset @ ''.idx''"

definition SegmentLog :: byte where
  "SegmentLog = 0"

definition SegmentIdx :: byte where
  "SegmentIdx = 1"

definition SegmentFileName :: "int \<Rightarrow> byte \<Rightarrow> string" where
  "SegmentFileName base kind = (if kind = SegmentIdx then segmentIndexName base else segmentLogName base)"

text \<open>\<^verbatim>\<open>filepath.Ext\<close> of a name without separators: the suffix from the last dot on.\<close>

definition filepath_Ext :: "string \<Rightarrow> string" where
  "filepath_Ext name =
     (if CHR ''.'' \<in> set name then CHR ''.'' # rev (takeWhile (\<lambda>c. c \<noteq> CHR ''.'') (rev name)) else [])"

definition parseBaseOffset :: "string \<Rightarrow> int result" where
  "parseBaseOffset name =
     (let ext = filepath_Ext name;
          stem = (if ext \<noteq> [] then take (length name - length ext) name else name)
      in if length stem \<noteq> segmentNameWidth then Inl (ErrNew ''log: bad segment name'') else ParseInt stem)"

section \<open>State and construction\<close>

record segment =
  sg_baseOffset :: int
  sg_maxBytes :: int
  sg_nameSuffix :: string
  sg_logFile :: os_File
  sg_logBuf :: "bytes option"
  sg_idx :: index
  sg_size :: nat
  sg_bytesSinceIndex :: nat
  sg_highWater :: int

definition seg_logPath :: "segment \<Rightarrow> string" where
  "seg_logPath s = segmentLogName (sg_baseOffset s) @ sg_nameSuffix s"

definition seg_idxPath :: "segment \<Rightarrow> string" where
  "seg_idxPath s = segmentIndexName (sg_baseOffset s) @ sg_nameSuffix s"

text \<open>\<^verbatim>\<open>O_CREATE\<close> without \<^verbatim>\<open>O_TRUNC\<close>: the bytes of an existing file stay.\<close>

definition createSegmentWithSuffix :: "dir \<Rightarrow> int \<Rightarrow> int \<Rightarrow> string \<Rightarrow> dir \<times> segment" where
  "createSegmentWithSuffix d baseOffset maxBytes sfx =
     (let s = \<lparr>sg_baseOffset = baseOffset, sg_maxBytes = maxBytes, sg_nameSuffix = sfx,
               sg_logFile = \<lparr>f_pos = 0, f_append = True, f_rdonly = False\<rparr>, sg_logBuf = Some [],
               sg_idx = newIndex, sg_size = 0, sg_bytesSinceIndex = 0, sg_highWater = baseOffset\<rparr>
      in (set_data d (seg_logPath s) (file_data d (seg_logPath s)), s))"

definition createSegment :: "dir \<Rightarrow> int \<Rightarrow> int \<Rightarrow> dir \<times> segment" where
  "createSegment d baseOffset maxBytes = createSegmentWithSuffix d baseOffset maxBytes []"

section \<open>Recovery\<close>

text \<open>
  The replay loop of \<open>seg_recover\<close>. Its result is the index, the position after the last whole record,
  the bytes since the last index entry and the high water; the error that ended it; and the reader.
\<close>

function recover_loop ::
  "bytes \<Rightarrow> int \<Rightarrow> bufio_reader \<Rightarrow> index \<times> nat \<times> nat \<times> int \<Rightarrow> (index \<times> nat \<times> nat \<times> int) \<times> go_error \<times> bufio_reader"
where
  "recover_loop content base r (idx, pos, bsi, hw) =
     (case readRecordFrom content r of
        (Inl err, r) \<Rightarrow> ((idx, pos, bsi, hw), err, r)
      | (Inr (rec, n), r) \<Rightarrow>
          (let (idx, bsi) =
                 (if pos = 0 \<or> indexIntervalBytes \<le> bsi
                  then (index_add idx (uint32_of (r_Offset rec - base)) (word_of_nat pos), 0)
                  else (idx, bsi))
           in recover_loop content base r (idx, pos + n, bsi + n, r_Offset rec + 1)))"
  by pat_completeness auto
termination
  by (relation "measure (\<lambda>(content, base, r, st). length (rd_rest content r))")
    (auto dest: readRecordFrom_consumes [OF sym])

declare recover_loop.simps [simp del]

definition seg_recover :: "dir \<Rightarrow> segment \<Rightarrow> (dir \<times> segment) result" where
  "seg_recover d s =
     (let path = seg_logPath s;
          content = file_data d path;
          ((idx, pos, bsi, hw), err, r) =
            recover_loop content (sg_baseOffset s) \<lparr>rd_pos = 0, rd_buf = []\<rparr> (sg_idx s, 0, 0, sg_highWater s);
          s = s\<lparr>sg_idx := idx, sg_highWater := hw, sg_logFile := (sg_logFile s)\<lparr>f_pos := rd_pos r\<rparr>\<rparr>;
          s' = s\<lparr>sg_size := pos, sg_bytesSinceIndex := bsi\<rparr>
      in if errors_Is err EOF then Inr (d, s')
         else if errors_Is err ErrUnexpectedEOF \<or> errors_Is err ErrTornFrame then
           (case os_Truncate d path (sg_logFile s) pos of
              Inl e \<Rightarrow> Inl (ErrWrap ''log: truncate torn tail'' e)
            | Inr d \<Rightarrow> Inr (d, s'\<lparr>sg_logFile := (sg_logFile s)\<lparr>f_pos := pos\<rparr>\<rparr>))
         else Inl err)"

definition openSegment :: "dir \<Rightarrow> int \<Rightarrow> int \<Rightarrow> bool \<Rightarrow> (dir \<times> segment) result" where
  "openSegment d baseOffset maxBytes forAppend =
     (case map_of d (segmentLogName baseOffset) of
        None \<Rightarrow> Inl (ErrWrap ''log: open'' ErrNotExist)
      | Some _ \<Rightarrow>
          (let s = \<lparr>sg_baseOffset = baseOffset, sg_maxBytes = maxBytes, sg_nameSuffix = [],
                    sg_logFile = \<lparr>f_pos = 0, f_append = False, f_rdonly = \<not> forAppend\<rparr>, sg_logBuf = None,
                    sg_idx = newIndex, sg_size = 0, sg_bytesSinceIndex = 0, sg_highWater = baseOffset\<rparr>;
               s = (if forAppend then s\<lparr>sg_logBuf := Some []\<rparr> else s)
           in seg_recover d s))"

section \<open>Appends and reads\<close>

definition seg_write :: "dir \<Rightarrow> segment \<Rightarrow> bytes \<Rightarrow> dir \<times> segment" where
  "seg_write d s w =
     (if w = [] then (d, s)
      else let (d, f) = os_Write d (seg_logPath s) (sg_logFile s) w in (d, s\<lparr>sg_logFile := f\<rparr>))"

definition seg_append :: "dir \<Rightarrow> segment \<Rightarrow> Record \<Rightarrow> (dir \<times> segment \<times> int) result" where
  "seg_append d s r =
     (case sg_logBuf s of
        None \<Rightarrow> Inl (ErrNew ''log: segment is read-only'')
      | Some buf \<Rightarrow>
          (let fr = log_encodeRecord [] r;
               s = (if sg_bytesSinceIndex s = 0 \<or> indexIntervalBytes \<le> sg_bytesSinceIndex s
                    then s\<lparr>sg_idx := index_add (sg_idx s) (uint32_of (r_Offset r - sg_baseOffset s))
                             (word_of_nat (sg_size s)), sg_bytesSinceIndex := 0\<rparr>
                    else s);
               (w, buf) = bufio_Write buf fr;
               (d, s) = seg_write d s w;
               s = s\<lparr>sg_logBuf := Some buf, sg_size := sg_size s + length fr,
                     sg_bytesSinceIndex := sg_bytesSinceIndex s + length fr,
                     sg_highWater := r_Offset r + 1\<rparr>
           in Inr (d, s, r_Offset r)))"

definition seg_flushIfActive :: "dir \<Rightarrow> segment \<Rightarrow> dir \<times> segment" where
  "seg_flushIfActive d s =
     (case sg_logBuf s of
        None \<Rightarrow> (d, s)
      | Some buf \<Rightarrow> (let (d, s) = seg_write d s buf in (d, s\<lparr>sg_logBuf := Some []\<rparr>)))"

function read_loop :: "bytes \<Rightarrow> int \<Rightarrow> nat \<Rightarrow> bufio_reader \<Rightarrow> Record list \<Rightarrow> Record list result \<times> bufio_reader" where
  "read_loop content fromOffset n r out =
     (if n = 0 then (Inr out, r)
      else case readRecordFrom content r of
             (Inl err, r) \<Rightarrow>
               if errors_Is err EOF \<or> errors_Is err ErrUnexpectedEOF then (Inr out, r) else (Inl err, r)
           | (Inr (rec, _), r) \<Rightarrow>
               if r_Offset rec < fromOffset then read_loop content fromOffset n r out
               else read_loop content fromOffset (n - 1) r (out @ [rec]))"
  by pat_completeness auto
termination
  by (relation "measure (\<lambda>(content, from, n, r, out). length (rd_rest content r))")
    (auto dest: readRecordFrom_consumes [OF sym])

declare read_loop.simps [simp del]

definition seg_readFrom :: "dir \<Rightarrow> segment \<Rightarrow> int \<Rightarrow> int \<Rightarrow> dir \<times> segment \<times> Record list result" where
  "seg_readFrom d s fromOffset maxRecords =
     (if maxRecords \<le> 0 then (d, s, Inr [])
      else if sg_highWater s \<le> fromOffset then (d, s, Inr [])
      else let fromOffset = (if fromOffset < sg_baseOffset s then sg_baseOffset s else fromOffset);
               (d, s) = seg_flushIfActive d s;
               startPos = index_lookup (sg_idx s) (uint32_of (fromOffset - sg_baseOffset s));
               (out, r) = read_loop (file_data d (seg_logPath s)) fromOffset (nat maxRecords)
                            \<lparr>rd_pos = unat startPos, rd_buf = []\<rparr> []
           in (d, s\<lparr>sg_logFile := (sg_logFile s)\<lparr>f_pos := rd_pos r\<rparr>\<rparr>, out))"

section \<open>Sealing, closing and removing\<close>

definition seg_persistIndex :: "dir \<Rightarrow> segment \<Rightarrow> dir result" where
  "seg_persistIndex d s =
     (let path = seg_idxPath s;
          tmp = path @ ''.tmp'';
          d = AList.update tmp \<lparr>fl_data = index_writeTo (sg_idx s), fl_synced = 0\<rparr> d;
          d = os_Sync d tmp
      in os_Rename d tmp path)"

definition seg_snapshotSync :: "dir \<Rightarrow> segment \<Rightarrow> (dir \<times> segment) result" where
  "seg_snapshotSync d s =
     (let (d, s) = seg_flushIfActive d s;
          d = os_Sync d (seg_logPath s)
      in case seg_persistIndex d s of Inl e \<Rightarrow> Inl e | Inr d \<Rightarrow> Inr (d, s))"

definition seg_shouldRoll :: "segment \<Rightarrow> bool" where
  "seg_shouldRoll s \<longleftrightarrow> sg_maxBytes s \<le> int (sg_size s)"

definition seg_seal :: "dir \<Rightarrow> segment \<Rightarrow> (dir \<times> segment) result" where
  "seg_seal d s =
     (let (d, s) = seg_flushIfActive d s;
          d = os_Sync d (seg_logPath s)
      in case seg_persistIndex d s of Inl e \<Rightarrow> Inl e | Inr d \<Rightarrow> Inr (d, s\<lparr>sg_logBuf := None\<rparr>))"

definition seg_close :: "dir \<Rightarrow> segment \<Rightarrow> dir \<times> segment" where
  "seg_close d s = seg_flushIfActive d s"

definition seg_finalize :: "dir \<Rightarrow> segment \<Rightarrow> (dir \<times> segment) result" where
  "seg_finalize d s =
     (if sg_nameSuffix s = [] then Inr (d, s)
      else let oldLog = seg_logPath s; oldIdx = seg_idxPath s; s = s\<lparr>sg_nameSuffix := []\<rparr> in
        case os_Rename d oldLog (seg_logPath s) of
          Inl e \<Rightarrow> Inl (ErrWrap ''log: finalize log'' e)
        | Inr d \<Rightarrow>
            (case os_Rename d oldIdx (seg_idxPath s) of
               Inl e \<Rightarrow> Inl (ErrWrap ''log: finalize idx'' e)
             | Inr d \<Rightarrow> Inr (d, s)))"

definition seg_remove :: "dir \<Rightarrow> segment \<Rightarrow> dir \<times> unit result" where
  "seg_remove d s =
     (let (d, errLog) = os_Remove d (seg_logPath s);
          (d, errIdx) = os_Remove d (seg_idxPath s)
      in (d, case errLog of
               Inl e \<Rightarrow> if e \<noteq> ErrNotExist then Inl e else
                 (case errIdx of Inl e \<Rightarrow> if e \<noteq> ErrNotExist then Inl e else Inr () | Inr _ \<Rightarrow> Inr ())
             | Inr _ \<Rightarrow>
                 (case errIdx of Inl e \<Rightarrow> if e \<noteq> ErrNotExist then Inl e else Inr () | Inr _ \<Rightarrow> Inr ())))"

end
