(* ===== verification/Log_Segment_Inv.thy ===== *)
theory Log_Segment_Inv
  imports Log_Segment
begin

text \<open>
  The segment's invariant and what its operations do to the sequence of records it holds. \<open>seg_repr d s rs\<close>
  says that the segment's file followed by the write buffer is the frames of \<open>rs\<close>, and that the index,
  size, spacing counter and high water are those the records determine. \<open>at_end\<close> says that the next
  write lands behind the existing bytes: it holds for \<^verbatim>\<open>O_APPEND\<close> handles and for handles whose position
  is the end of the file.
\<close>

section \<open>Names and files\<close>

lemma map_of_update [simp]: "map_of (AList.update k v d) = (map_of d)(k \<mapsto> v)"
  by (rule update_conv')

lemma map_of_delete [simp]: "map_of (AList.delete k d) = (map_of d)(k := None)"
  by (rule delete_conv')

lemma map_of_set_data: "map_of (set_data d n b) m =
  (if m = n then Some (case map_of d n of None \<Rightarrow> \<lparr>fl_data = b, fl_synced = 0\<rparr> | Some f \<Rightarrow> f\<lparr>fl_data := b\<rparr>) else map_of d m)"
  by (simp add: set_data_def split: option.splits)

lemma file_data_set_data [simp]: "file_data (set_data d n b) m = (if m = n then b else file_data d m)"
  by (simp add: file_data_def map_of_set_data split: option.splits)

lemma map_of_os_Sync: "map_of (os_Sync d n) m =
  (if m = n then map_option (\<lambda>f. f\<lparr>fl_synced := length (fl_data f)\<rparr>) (map_of d n) else map_of d m)"
  by (simp add: os_Sync_def split: option.splits)

lemma file_data_os_Sync [simp]: "file_data (os_Sync d n) m = file_data d m"
  by (simp add: file_data_def map_of_os_Sync split: option.splits)

text \<open>Every file outside a set of names is as it was.\<close>

definition same_except :: "string set \<Rightarrow> dir \<Rightarrow> dir \<Rightarrow> bool" where
  "same_except ns d d' \<longleftrightarrow> (\<forall>m. m \<notin> ns \<longrightarrow> map_of d' m = map_of d m)"

lemma same_except_refl [simp]: "same_except ns d d"
  by (simp add: same_except_def)

lemma same_except_trans: "same_except ns d d' \<Longrightarrow> same_except ms d' d'' \<Longrightarrow> same_except (ns \<union> ms) d d''"
  by (simp add: same_except_def)

lemma same_except_mono: "same_except ns d d' \<Longrightarrow> ns \<subseteq> ms \<Longrightarrow> same_except ms d d'"
  by (auto simp: same_except_def)

lemma same_exceptD: "same_except ns d d' \<Longrightarrow> m \<notin> ns \<Longrightarrow> map_of d' m = map_of d m"
  by (simp add: same_except_def)

lemma same_except_set_data: "same_except {n} d (set_data d n b)"
  by (simp add: same_except_def map_of_set_data)

lemma segment_name_length:
  "int64_ok b \<Longrightarrow> length (segmentLogName b) = 24" "int64_ok b \<Longrightarrow> length (segmentIndexName b) = 24"
  by (simp_all add: segmentLogName_def segmentIndexName_def segmentNameWidth_def length_fmt_0d)

lemma segmentLogName_inject: "int64_ok a \<Longrightarrow> int64_ok b \<Longrightarrow> segmentLogName a = segmentLogName b \<longleftrightarrow> a = b"
  by (simp add: segmentLogName_def fmt_0d_inject)

lemma log_name_not_index_name:
  "int64_ok a \<Longrightarrow> int64_ok b \<Longrightarrow> segmentLogName a @ x \<noteq> segmentIndexName b @ y"
  by (simp add: segmentLogName_def segmentIndexName_def segmentNameWidth_def append_eq_append_conv length_fmt_0d)

lemma filepath_Ext_name: "CHR ''.'' \<notin> set s \<Longrightarrow> CHR ''.'' \<notin> set e \<Longrightarrow> filepath_Ext (s @ CHR ''.'' # e) = CHR ''.'' # e"
proof -
  assume e: "CHR ''.'' \<notin> set e"
  then have "takeWhile (\<lambda>c. c \<noteq> CHR ''.'') (rev e @ CHR ''.'' # rev s) = rev e"
    by (induction e rule: rev_induct) auto
  then show ?thesis by (simp add: filepath_Ext_def)
qed

lemma parseBaseOffset_segmentLogName:
  assumes "int64_ok b" shows "parseBaseOffset (segmentLogName b) = Inr b"
proof -
  have "filepath_Ext (segmentLogName b) = ''.log''"
    using filepath_Ext_name [of "fmt_0d 20 b" "''log''"] fmt_0d_no_dot
    by (simp add: segmentLogName_def segmentNameWidth_def)
  then show ?thesis
    using assms
    by (simp add: parseBaseOffset_def segment_name_length segmentNameWidth_def)
      (simp add: segmentLogName_def segmentNameWidth_def length_fmt_0d ParseInt_fmt_0d)
qed

section \<open>The records of a segment\<close>

definition frames :: "Record list \<Rightarrow> bytes" where
  "frames rs = concat (map frame rs)"

lemma frames_simps [simp]: "frames [] = []" "frames (r # rs) = frame r @ frames rs" "frames (rs @ ts) = frames rs @ frames ts"
  by (simp_all add: frames_def)

definition recs_ok :: "int \<Rightarrow> Record list \<Rightarrow> bool" where
  "recs_ok base rs \<longleftrightarrow> list_all frame_fits rs \<and> list_all (\<lambda>r. norm_record r = r) rs
     \<and> sorted_wrt (<) (map r_Offset rs) \<and> list_all (\<lambda>r. base \<le> r_Offset r) rs"

text \<open>The 32-bit positions and relative offsets of the index do not wrap.\<close>

definition fits32 :: "int \<Rightarrow> Record list \<Rightarrow> bool" where
  "fits32 base rs \<longleftrightarrow> length (frames rs) < 2 ^ 32 \<and> list_all (\<lambda>r. r_Offset r - base < 2 ^ 32) rs"

definition next_offset :: "int \<Rightarrow> Record list \<Rightarrow> int" where
  "next_offset base rs = (if rs = [] then base else r_Offset (last rs) + 1)"

text \<open>How one more record moves index, position, spacing counter and high water.\<close>

definition track :: "int \<Rightarrow> index \<times> nat \<times> nat \<times> int \<Rightarrow> Record \<Rightarrow> index \<times> nat \<times> nat \<times> int" where
  "track base st r =
     (case st of (idx, pos, bsi, hw) \<Rightarrow>
        let add = (bsi = 0 \<or> indexIntervalBytes \<le> bsi) in
        (if add then index_add idx (uint32_of (r_Offset r - base)) (word_of_nat pos) else idx,
         pos + length (frame r), (if add then 0 else bsi) + length (frame r), r_Offset r + 1))"

definition tracked :: "int \<Rightarrow> Record list \<Rightarrow> index \<times> nat \<times> nat \<times> int" where
  "tracked base rs = foldl (track base) ([], 0, 0, base) rs"

definition seg_repr :: "dir \<Rightarrow> segment \<Rightarrow> Record list \<Rightarrow> bool" where
  "seg_repr d s rs \<longleftrightarrow> map_of d (seg_logPath s) \<noteq> None
     \<and> file_data d (seg_logPath s) @ (case sg_logBuf s of None \<Rightarrow> [] | Some b \<Rightarrow> b) = frames rs
     \<and> (sg_idx s, sg_size s, sg_bytesSinceIndex s, sg_highWater s) = tracked (sg_baseOffset s) rs
     \<and> recs_ok (sg_baseOffset s) rs"

definition at_end :: "dir \<Rightarrow> segment \<Rightarrow> bool" where
  "at_end d s \<longleftrightarrow> sg_logBuf s = None \<or> f_append (sg_logFile s)
     \<or> f_pos (sg_logFile s) = length (file_data d (seg_logPath s))"

lemma tracked_Nil: "tracked base [] = ([], 0, 0, base)"
  by (simp add: tracked_def)

lemma tracked_snoc: "tracked base (rs @ [r]) = track base (tracked base rs) r"
  by (simp add: tracked_def)

lemma tracked_sums:
  "fst (snd (tracked base rs)) = length (frames rs)" "snd (snd (snd (tracked base rs))) = next_offset base rs"
  "fst (snd (snd (tracked base rs))) = 0 \<longleftrightarrow> rs = []"
  by (induction rs rule: rev_induct)
    (simp_all add: tracked_Nil tracked_snoc track_def next_offset_def Let_def case_prod_beta)

lemma seg_repr_sums:
  assumes "seg_repr d s rs"
  shows "sg_size s = length (frames rs)" "sg_highWater s = next_offset (sg_baseOffset s) rs"
    "sg_bytesSinceIndex s = 0 \<longleftrightarrow> rs = []"
  using assms tracked_sums [of "sg_baseOffset s" rs] unfolding seg_repr_def
  by (metis fst_conv snd_conv)+

lemma recs_ok_append: "recs_ok base (rs @ ts) \<Longrightarrow> recs_ok base rs \<and> recs_ok base ts"
  by (auto simp: recs_ok_def sorted_wrt_append)

lemma fits32_append: "fits32 base (rs @ ts) \<Longrightarrow> fits32 base rs"
  by (simp add: fits32_def)

lemma recs_ok_snoc:
  assumes "recs_ok base rs" "frame_fits r" "next_offset base rs \<le> r_Offset r"
  shows "recs_ok base (rs @ [norm_record r])"
proof -
  have "x < r_Offset r" if "x \<in> set (map r_Offset rs)" for x
  proof (cases rs rule: rev_cases)
    case (snoc ts t)
    with assms that show ?thesis
      by (auto simp: recs_ok_def next_offset_def sorted_wrt_append)
  qed (use that in simp)
  moreover have "base \<le> r_Offset r"
    using assms by (cases rs rule: rev_cases) (auto simp: recs_ok_def next_offset_def)
  ultimately show ?thesis
    using assms by (auto simp: recs_ok_def sorted_wrt_append frame_fits_def)
qed

section \<open>The index\<close>

text \<open>Each entry points at the frame of some record and carries that record's relative offset.\<close>

definition points_at :: "int \<Rightarrow> Record list \<Rightarrow> nat \<Rightarrow> indexEntry \<Rightarrow> bool" where
  "points_at base rs k e \<longleftrightarrow> k < length rs \<and> uint (ie_RelativeOffset e) = r_Offset (rs ! k) - base
     \<and> unat (ie_Position e) = length (frames (take k rs))"

lemma points_at_append: "points_at base rs k e \<Longrightarrow> points_at base (rs @ ts) k e"
  by (simp add: points_at_def nth_append)

lemma uint_uint32_of: "0 \<le> x \<Longrightarrow> x < 2 ^ 32 \<Longrightarrow> uint (uint32_of x) = x"
  by (simp add: uint32_of_def uint_word_of_int)

lemma new_entry_points_at:
  assumes "fits32 base (rs @ [r])" "base \<le> r_Offset r"
  shows "points_at base (rs @ [r]) (length rs)
    \<lparr>ie_RelativeOffset = uint32_of (r_Offset r - base), ie_Position = word_of_nat (length (frames rs))\<rparr>"
proof -
  from assms have "uint (uint32_of (r_Offset r - base)) = r_Offset r - base"
    by (intro uint_uint32_of) (simp_all add: fits32_def)
  moreover have "length (frames rs) < 2 ^ 32" using assms by (simp add: fits32_def)
  then have "unat (word_of_nat (length (frames rs)) :: 32 word) = length (frames rs)"
    by (simp add: unat_of_nat take_bit_nat_eq_self)
  ultimately show ?thesis by (simp add: points_at_def)
qed

lemma sorted_offsets_nth:
  "recs_ok base rs \<Longrightarrow> j < k \<Longrightarrow> k < length rs \<Longrightarrow> r_Offset (rs ! j) < r_Offset (rs ! k)"
  unfolding recs_ok_def using sorted_wrt_nth_less [of "(<)" "map r_Offset rs" j k] by simp

lemma tracked_index:
  assumes "recs_ok base rs" "fits32 base rs"
  shows "(\<forall>e \<in> set (fst (tracked base rs)). \<exists>k. points_at base rs k e)
    \<and> sorted_wrt (\<lambda>a b. ie_RelativeOffset a < ie_RelativeOffset b) (fst (tracked base rs))"
  using assms
proof (induction rs rule: rev_induct)
  case Nil
  then show ?case by (simp add: tracked_Nil)
next
  case (snoc r rs)
  obtain idx bsi hw where tr: "tracked base rs = (idx, length (frames rs), bsi, hw)"
    using tracked_sums(1) [of base rs] by (cases "tracked base rs") auto
  define e where "e = \<lparr>ie_RelativeOffset = uint32_of (r_Offset r - base),
    ie_Position = word_of_nat (length (frames rs))\<rparr>"
  have e: "points_at base (rs @ [r]) (length rs) e"
    using snoc.prems new_entry_points_at by (auto simp: e_def recs_ok_def)
  have IH: "\<forall>e \<in> set idx. \<exists>k. points_at base rs k e"
    "sorted_wrt (\<lambda>a b. ie_RelativeOffset a < ie_RelativeOffset b) idx"
    using snoc.IH recs_ok_append [OF snoc.prems(1)] fits32_append [OF snoc.prems(2)] tr by auto
  have "ie_RelativeOffset x < ie_RelativeOffset e" if x: "x \<in> set idx" for x
  proof -
    obtain k where "points_at base rs k x" using IH(1) x by blast
    then have k: "points_at base (rs @ [r]) k x" "k < length rs"
      using points_at_append by (simp_all add: points_at_def nth_append)
    then show ?thesis
      using e sorted_offsets_nth [OF snoc.prems(1), of k "length rs"]
      by (simp add: points_at_def word_less_def)
  qed
  moreover have "\<forall>x \<in> set idx. \<exists>k. points_at base (rs @ [r]) k x"
    using IH(1) points_at_append by meson
  moreover have "\<exists>k. points_at base (rs @ [r]) k e" using e by blast
  moreover have "fst (tracked base (rs @ [r])) = idx \<or> fst (tracked base (rs @ [r])) = idx @ [e]"
    by (simp add: tracked_snoc tr track_def Let_def index_add_def e_def)
  ultimately show ?case
    using IH(2) by (elim disjE) (simp_all add: sorted_wrt_append)
qed

text \<open>
  The position a lookup gives is the start of a frame, and every record before it is below the target.
\<close>

lemma index_lookup_frame:
  assumes ok: "recs_ok base rs" "fits32 base rs" and t: "base \<le> from" "from < next_offset base rs"
  shows "\<exists>k \<le> length rs. unat (index_lookup (fst (tracked base rs)) (uint32_of (from - base))) = length (frames (take k rs))
    \<and> (\<forall>r \<in> set (take k rs). r_Offset r < from)"
proof -
  let ?i = "fst (tracked base rs)" and ?t = "uint32_of (from - base)"
  let ?es = "filter (\<lambda>e. ie_RelativeOffset e \<le> ?t) ?i"
  note idx = tracked_index [OF ok]
  have "from - base < 2 ^ 32"
    using t ok(2) by (cases rs rule: rev_cases) (auto simp: next_offset_def fits32_def)
  then have ut: "uint ?t = from - base"
    using t(1) by (intro uint_uint32_of) simp_all
  have look: "index_lookup ?i ?t = (if ?es = [] then 0 else ie_Position (last ?es))"
    using index_lookup_sorted [of ?i ?t] idx by (simp add: Let_def)
  show ?thesis
  proof (cases "?es = []")
    case True
    with look show ?thesis by (intro exI [of _ 0]) simp
  next
    case False
    then have "last ?es \<in> set ?es" by (rule last_in_set)
    then obtain k where k: "points_at base rs k (last ?es)" "ie_RelativeOffset (last ?es) \<le> ?t"
      using idx by auto
    then have "r_Offset (rs ! k) \<le> from"
      using ut by (simp add: points_at_def word_le_def)
    then have "r_Offset r < from" if "r \<in> set (take k rs)" for r
      using that sorted_offsets_nth [OF ok(1)] k(1)
      by (fastforce simp: in_set_conv_nth points_at_def)
    with k(1) look False show ?thesis
      by (intro exI [of _ k]) (auto simp: points_at_def)
  qed
qed

section \<open>Reading frames\<close>

lemma read_loop_frames:
  assumes "rd_rest content rd = frames rs" "list_all frame_fits rs" "list_all (\<lambda>r. norm_record r = r) rs"
    "rd_ok content rd" "read_loop content fo n rd out = (res, rd')"
  shows "res = Inr (out @ take n (filter (\<lambda>r. fo \<le> r_Offset r) rs)) \<and> rd_ok content rd'
    \<and> (length (filter (\<lambda>r. fo \<le> r_Offset r) rs) < n \<longrightarrow> rd_rest content rd' = [])"
  using assms
proof (induction rs arbitrary: rd n out)
  case Nil
  obtain x rd1 where x: "readRecordFrom content rd = (x, rd1)" by fastforce
  with Nil readRecordFrom_stream [OF x] show ?case
    by (auto simp: read_loop.simps [of content fo _ rd] parse_frame_def split: if_splits)
next
  case (Cons r rs)
  obtain x rd1 where x: "readRecordFrom content rd = (x, rd1)" by fastforce
  note st = readRecordFrom_stream [OF x]
  have x1: "x = Inr (r, length (frame r))"
    using st Cons.prems parse_frame_frame [of r "frames rs"] by simp
  then have rest: "rd_rest content rd1 = frames rs" "rd_ok content rd1"
    using st Cons.prems by auto
  show ?case
  proof (cases "n = 0")
    case True
    with Cons.prems show ?thesis by (simp add: read_loop.simps [of content fo 0])
  next
    case n: False
    show ?thesis
    proof (cases "r_Offset r < fo")
      case True
      with n x x1 Cons.prems have "read_loop content fo n rd1 out = (res, rd')"
        by (simp add: read_loop.simps [of content fo n rd])
      from Cons.IH [OF rest(1) _ _ rest(2) this] Cons.prems True show ?thesis by simp
    next
      case False
      with n x x1 Cons.prems have "read_loop content fo (n - 1) rd1 (out @ [r]) = (res, rd')"
        by (simp add: read_loop.simps [of content fo n rd])
      from Cons.IH [OF rest(1) _ _ rest(2) this] Cons.prems False n show ?thesis
        by (cases n) auto
    qed
  qed
qed

section \<open>Writing\<close>

lemma seg_write_sel [simp]:
  "seg_logPath (snd (seg_write d s w)) = seg_logPath s" "sg_logBuf (snd (seg_write d s w)) = sg_logBuf s"
  "sg_idx (snd (seg_write d s w)) = sg_idx s" "sg_size (snd (seg_write d s w)) = sg_size s"
  "sg_bytesSinceIndex (snd (seg_write d s w)) = sg_bytesSinceIndex s"
  "sg_highWater (snd (seg_write d s w)) = sg_highWater s" "sg_baseOffset (snd (seg_write d s w)) = sg_baseOffset s"
  "sg_maxBytes (snd (seg_write d s w)) = sg_maxBytes s" "sg_nameSuffix (snd (seg_write d s w)) = sg_nameSuffix s"
  "f_append (sg_logFile (snd (seg_write d s w))) = f_append (sg_logFile s)"
  by (simp_all add: seg_write_def os_Write_def seg_logPath_def Let_def case_prod_beta)

lemma seg_write_end:
  assumes "f_append (sg_logFile s) \<or> f_pos (sg_logFile s) = length (file_data d (seg_logPath s))"
    "map_of d (seg_logPath s) \<noteq> None"
  shows "file_data (fst (seg_write d s w)) (seg_logPath s) = file_data d (seg_logPath s) @ w"
    "same_except {seg_logPath s} d (fst (seg_write d s w))"
    "map_of (fst (seg_write d s w)) (seg_logPath s) \<noteq> None"
    "f_append (sg_logFile s) \<or>
     f_pos (sg_logFile (snd (seg_write d s w))) = length (file_data (fst (seg_write d s w)) (seg_logPath s))"
  using assms
  by (auto simp: seg_write_def os_Write_def Let_def same_except_def map_of_set_data)

lemma flush_repr:
  assumes r: "seg_repr d s rs" and e: "at_end d s" and f: "seg_flushIfActive d s = (d', s')"
  shows "seg_repr d' s' rs" "at_end d' s'" "file_data d' (seg_logPath s) = frames rs"
    "same_except {seg_logPath s} d d'" "sg_logBuf s' = map_option (\<lambda>_. []) (sg_logBuf s)"
    "s' = s\<lparr>sg_logBuf := sg_logBuf s', sg_logFile := sg_logFile s'\<rparr>"
    "f_append (sg_logFile s') = f_append (sg_logFile s)"
    "f_rdonly (sg_logFile s') = f_rdonly (sg_logFile s)"
proof -
  have "seg_repr d' s' rs \<and> at_end d' s' \<and> file_data d' (seg_logPath s) = frames rs
    \<and> same_except {seg_logPath s} d d' \<and> sg_logBuf s' = map_option (\<lambda>_. []) (sg_logBuf s)
    \<and> s' = s\<lparr>sg_logBuf := sg_logBuf s', sg_logFile := sg_logFile s'\<rparr>
    \<and> f_append (sg_logFile s') = f_append (sg_logFile s) \<and> f_rdonly (sg_logFile s') = f_rdonly (sg_logFile s)"
  proof (cases "sg_logBuf s")
    case None
    with assms show ?thesis by (simp add: seg_flushIfActive_def seg_repr_def)
  next
    case (Some b)
    have d': "d' = fst (seg_write d s b)" "s' = (snd (seg_write d s b))\<lparr>sg_logBuf := Some []\<rparr>"
      using f Some by (auto simp: seg_flushIfActive_def split: prod.splits)
    have "f_append (sg_logFile s) \<or> f_pos (sg_logFile s) = length (file_data d (seg_logPath s))"
      "map_of d (seg_logPath s) \<noteq> None"
      using e r Some by (auto simp: at_end_def seg_repr_def)
    note w = seg_write_end [OF this, of b]
    have path: "seg_logPath (s''\<lparr>sg_logBuf := x\<rparr>) = seg_logPath s''" for s'' x
      by (simp add: seg_logPath_def)
    have s': "s' = s\<lparr>sg_logBuf := sg_logBuf s', sg_logFile := sg_logFile s'\<rparr>
        \<and> f_rdonly (sg_logFile s') = f_rdonly (sg_logFile s)"
      by (simp add: d' seg_write_def os_Write_def Let_def)
    show ?thesis
      using r w Some s' by (simp add: seg_repr_def at_end_def d' path)
  qed
  then show "seg_repr d' s' rs" "at_end d' s'" "file_data d' (seg_logPath s) = frames rs"
    "same_except {seg_logPath s} d d'" "sg_logBuf s' = map_option (\<lambda>_. []) (sg_logBuf s)"
    "s' = s\<lparr>sg_logBuf := sg_logBuf s', sg_logFile := sg_logFile s'\<rparr>"
    "f_append (sg_logFile s') = f_append (sg_logFile s)"
    "f_rdonly (sg_logFile s') = f_rdonly (sg_logFile s)"
    by blast+
qed

lemma append_repr:
  assumes r: "seg_repr d s rs" and e: "at_end d s" and buf: "sg_logBuf s = Some buf"
    and ok: "frame_fits r" "sg_highWater s \<le> r_Offset r"
  shows "\<exists>d' s'. seg_append d s r = Inr (d', s', r_Offset r) \<and> seg_repr d' s' (rs @ [norm_record r]) \<and> at_end d' s'
    \<and> same_except {seg_logPath s} d d' \<and> seg_logPath s' = seg_logPath s \<and> sg_baseOffset s' = sg_baseOffset s
    \<and> sg_maxBytes s' = sg_maxBytes s \<and> sg_nameSuffix s' = sg_nameSuffix s
    \<and> sg_logBuf s' \<noteq> None \<and> f_append (sg_logFile s') = f_append (sg_logFile s)"
proof -
  let ?add = "sg_bytesSinceIndex s = 0 \<or> indexIntervalBytes \<le> sg_bytesSinceIndex s"
  define s1 where "s1 = (if ?add then s\<lparr>sg_idx := index_add (sg_idx s) (uint32_of (r_Offset r - sg_baseOffset s))
      (word_of_nat (sg_size s)), sg_bytesSinceIndex := 0\<rparr> else s)"
  obtain w b where wb: "bufio_Write buf (frame r) = (w, b)" by fastforce
  have app: "w @ b = buf @ frame r" using bufio_Write_append [of buf "frame r"] wb by simp
  define s2 where "s2 = snd (seg_write d s1 w)"
  define s3 where "s3 = s2\<lparr>sg_logBuf := Some b, sg_size := sg_size s2 + length (frame r),
      sg_bytesSinceIndex := sg_bytesSinceIndex s2 + length (frame r), sg_highWater := r_Offset r + 1\<rparr>"
  have run: "seg_append d s r = Inr (fst (seg_write d s1 w), s3, r_Offset r)"
    by (simp add: seg_append_def buf s1_def s2_def s3_def wb [unfolded frame_def] frame_def Let_def
        case_prod_beta del: seg_write_sel)
  have s1: "seg_logPath s1 = seg_logPath s" "sg_logFile s1 = sg_logFile s" "sg_baseOffset s1 = sg_baseOffset s"
    "sg_maxBytes s1 = sg_maxBytes s" "sg_nameSuffix s1 = sg_nameSuffix s" "sg_size s1 = sg_size s"
    by (simp_all add: s1_def seg_logPath_def)
  have "f_append (sg_logFile s1) \<or> f_pos (sg_logFile s1) = length (file_data d (seg_logPath s1))"
    "map_of d (seg_logPath s1) \<noteq> None"
    using e r buf by (auto simp: at_end_def seg_repr_def s1)
  note w = seg_write_end [OF this, of w, unfolded s1, folded s2_def]
  have s3: "seg_logPath s3 = seg_logPath s" "sg_baseOffset s3 = sg_baseOffset s"
    by (simp_all add: s3_def seg_logPath_def s2_def s1 flip: seg_logPath_def)
      (simp add: seg_logPath_def s1)
  have tr: "tracked (sg_baseOffset s) rs = (sg_idx s, sg_size s, sg_bytesSinceIndex s, sg_highWater s)"
    using r by (simp add: seg_repr_def)
  have "tracked (sg_baseOffset s) (rs @ [r]) = (sg_idx s3, sg_size s3, sg_bytesSinceIndex s3, sg_highWater s3)"
    using tr by (auto simp: tracked_snoc track_def s3_def s2_def s1_def Let_def)
  moreover have "tracked b (rs @ [norm_record r]) = tracked b (rs @ [r])" for b
    by (simp add: tracked_snoc track_def Let_def cong: if_cong)
  moreover have "recs_ok (sg_baseOffset s) (rs @ [norm_record r])"
    using r ok seg_repr_sums(2) [OF r] by (intro recs_ok_snoc) (auto simp: seg_repr_def)
  ultimately have "seg_repr (fst (seg_write d s1 w)) s3 (rs @ [norm_record r])"
    using r buf w app by (simp add: seg_repr_def s3) (simp add: s3_def)
  moreover have "at_end (fst (seg_write d s1 w)) s3"
    using w by (simp add: at_end_def s3) (simp add: s3_def s2_def s1)
  ultimately show ?thesis
    using run w s1 s3 by (simp add: s3_def s2_def)
qed

lemma seg_repr_cong:
  assumes "seg_repr d s rs" "sg_logBuf s' = sg_logBuf s"
    "s' = s\<lparr>sg_logBuf := sg_logBuf s', sg_logFile := sg_logFile s'\<rparr>"
  shows "seg_repr d s' rs" "seg_logPath s' = seg_logPath s"
proof -
  have "seg_logPath s' = seg_logPath s \<and> sg_baseOffset s' = sg_baseOffset s \<and> sg_idx s' = sg_idx s
    \<and> sg_size s' = sg_size s \<and> sg_bytesSinceIndex s' = sg_bytesSinceIndex s \<and> sg_highWater s' = sg_highWater s"
    by (subst (1 2 3 4 5 6) assms(3)) (simp add: seg_logPath_def)
  with assms(1,2) show "seg_repr d s' rs" "seg_logPath s' = seg_logPath s"
    by (simp_all add: seg_repr_def)
qed

lemma recs_below_next: "recs_ok base rs \<Longrightarrow> t \<in> set rs \<Longrightarrow> r_Offset t < next_offset base rs"
  by (cases rs rule: rev_cases) (auto simp: next_offset_def recs_ok_def sorted_wrt_append)

text \<open>
  What a read leaves behind: the records, the other files, and all of the segment but its buffer and
  its handle's position. The next write is sure to be at the end only for an \<^verbatim>\<open>O_APPEND\<close> handle, for a
  sealed segment, or when the read ran to the end of the file.
\<close>

definition read_leaves :: "dir \<Rightarrow> segment \<Rightarrow> Record list \<Rightarrow> bool \<Rightarrow> dir \<Rightarrow> segment \<Rightarrow> bool" where
  "read_leaves d s rs drained d' s' \<longleftrightarrow> seg_repr d' s' rs \<and> same_except {seg_logPath s} d d'
     \<and> s' = s\<lparr>sg_logBuf := sg_logBuf s', sg_logFile := sg_logFile s'\<rparr>
     \<and> (sg_logBuf s' = None \<longleftrightarrow> sg_logBuf s = None)
     \<and> f_append (sg_logFile s') = f_append (sg_logFile s)
     \<and> (drained \<or> f_append (sg_logFile s) \<or> sg_logBuf s = None \<longrightarrow> at_end d' s')"

lemma readFrom_repr:
  assumes r: "seg_repr d s rs" and e: "at_end d s" and f: "fits32 (sg_baseOffset s) rs"
    and run: "seg_readFrom d s fo n = (d', s', res)"
  shows "res = Inr (take (nat n) (filter (\<lambda>r. fo \<le> r_Offset r) rs))
    \<and> read_leaves d s rs (length (filter (\<lambda>r. fo \<le> r_Offset r) rs) < nat n) d' s'"
proof -
  let ?base = "sg_baseOffset s"
  have hw: "sg_highWater s = next_offset ?base rs" by (rule seg_repr_sums(2) [OF r])
  have ok: "recs_ok ?base rs" using r by (simp add: seg_repr_def)
  have none: "filter (\<lambda>r. fo \<le> r_Offset r) rs = []" if "sg_highWater s \<le> fo"
    using that recs_below_next [OF ok] by (fastforce simp: hw filter_empty_conv)
  show ?thesis
  proof (cases "n \<le> 0 \<or> sg_highWater s \<le> fo")
    case True
    with run none r e show ?thesis by (auto simp: seg_readFrom_def read_leaves_def split: if_splits)
  next
    case False
    define fo' where "fo' = (if fo < ?base then ?base else fo)"
    obtain d1 s1 where fl: "seg_flushIfActive d s = (d1, s1)" by fastforce
    note fl1 = flush_repr [OF r e fl]
    have sel: "seg_logPath s1 = seg_logPath s" "sg_idx s1 = sg_idx s" "sg_baseOffset s1 = ?base"
      by (subst fl1(6), simp add: seg_logPath_def)+
    have idx: "sg_idx s = fst (tracked ?base rs)"
      using r unfolding seg_repr_def by (metis fst_conv)
    define p where "p = unat (index_lookup (sg_idx s) (uint32_of (fo' - ?base)))"
    have "\<exists>k \<le> length rs. p = length (frames (take k rs)) \<and> (\<forall>r \<in> set (take k rs). r_Offset r < fo')"
    proof (cases "rs = []")
      case True
      then show ?thesis by (simp add: p_def idx tracked_Nil index_lookup_def)
    next
      case rs: False
      then have "?base < next_offset ?base rs"
        using ok by (cases rs rule: rev_cases) (auto simp: next_offset_def recs_ok_def)
      then show ?thesis
        using index_lookup_frame [OF ok f, of fo'] False hw unfolding p_def idx fo'_def by auto
    qed
    then obtain k where k: "p = length (frames (take k rs))" "\<forall>r \<in> set (take k rs). r_Offset r < fo'"
      by blast
    have split: "rs = take k rs @ drop k rs" by simp
    have rest: "rd_rest (frames rs) \<lparr>rd_pos = p, rd_buf = []\<rparr> = frames (drop k rs)"
      "rd_ok (frames rs) \<lparr>rd_pos = p, rd_buf = []\<rparr>"
      unfolding k(1) by (subst split, simp add: rd_rest_def rd_ok_def del: append_take_drop_id)+
    obtain out rd where loop: "read_loop (frames rs) fo' (nat n) \<lparr>rd_pos = p, rd_buf = []\<rparr> [] = (out, rd)"
      by fastforce
    have "list_all frame_fits (drop k rs)" "list_all (\<lambda>r. norm_record r = r) (drop k rs)"
      using ok by (auto simp: recs_ok_def list_all_iff dest: in_set_dropD)
    note rl = read_loop_frames [OF rest(1) this rest(2) loop]
    have base: "?base \<le> r_Offset r" if "r \<in> set rs" for r
      using ok that by (auto simp: recs_ok_def list_all_iff)
    have "filter (\<lambda>r. fo \<le> r_Offset r) rs = filter (\<lambda>r. fo' \<le> r_Offset r) rs"
    proof (intro filter_cong refl)
      show "fo \<le> r_Offset x \<longleftrightarrow> fo' \<le> r_Offset x" if "x \<in> set rs" for x
        using base [OF that] by (auto simp: fo'_def)
    qed
    also have "\<dots> = filter (\<lambda>r. fo' \<le> r_Offset r) (drop k rs)"
      using k(2) by (subst split, subst filter_append) (auto simp: filter_empty_conv simp del: append_take_drop_id)
    finally have flt: "filter (\<lambda>r. fo' \<le> r_Offset r) (drop k rs) = filter (\<lambda>r. fo \<le> r_Offset r) rs" ..
    have res: "d' = d1" "s' = s1\<lparr>sg_logFile := (sg_logFile s1)\<lparr>f_pos := rd_pos rd\<rparr>\<rparr>" "res = out"
      using run False fl loop
      by (simp_all add: seg_readFrom_def Let_def sel fl1(3) p_def fo'_def [symmetric])
    have s': "s' = s\<lparr>sg_logBuf := sg_logBuf s', sg_logFile := sg_logFile s'\<rparr>"
      unfolding res(2) by (subst fl1(6)) simp
    have "seg_repr d1 s' rs"
      using res(2) by (intro seg_repr_cong(1) [OF fl1(1)]) simp_all
    moreover have path: "seg_logPath s' = seg_logPath s"
      unfolding res(2) using sel(1) by (simp add: seg_logPath_def)
    moreover have "at_end d1 s'" if "rd_rest (frames rs) rd = []"
      using that rl by (simp add: at_end_def path fl1(3)) (simp add: res(2) rd_rest_def rd_ok_def)
    ultimately show ?thesis
      using rl s' fl1(4,5,7) res by (auto simp: read_leaves_def flt at_end_def)
  qed
qed

section \<open>Sealing\<close>

lemma tmp_name [simp]: "n @ ''.tmp'' \<noteq> n" "n \<noteq> n @ ''.tmp''"
  by simp_all

lemma persistIndex_run:
  "\<exists>d'. seg_persistIndex d s = Inr d' \<and> same_except {seg_idxPath s, seg_idxPath s @ ''.tmp''} d d'
     \<and> map_of d' (seg_idxPath s)
        = Some \<lparr>fl_data = index_writeTo (sg_idx s), fl_synced = length (index_writeTo (sg_idx s))\<rparr>"
  by (simp add: seg_persistIndex_def os_Rename_def map_of_os_Sync Let_def same_except_def)

definition idx_names :: "segment \<Rightarrow> string set" where
  "idx_names s = {seg_idxPath s, seg_idxPath s @ ''.tmp''}"

lemma logPath_not_idx:
  assumes "int64_ok (sg_baseOffset s)" "int64_ok (sg_baseOffset t)"
  shows "seg_logPath s \<notin> idx_names t"
  using log_name_not_index_name [OF assms, of "sg_nameSuffix s" "sg_nameSuffix t"]
    log_name_not_index_name [OF assms, of "sg_nameSuffix s" "sg_nameSuffix t @ ''.tmp''"]
  by (simp add: idx_names_def seg_logPath_def seg_idxPath_def)

lemma seg_repr_same:
  assumes "seg_repr d s rs" "same_except ns d d'" "seg_logPath s \<notin> ns"
  shows "seg_repr d' s rs"
  using assms same_exceptD [OF assms(2,3)] by (simp add: seg_repr_def file_data_def)

lemma at_end_same:
  assumes "at_end d s" "same_except ns d d'" "seg_logPath s \<notin> ns"
  shows "at_end d' s"
  using assms same_exceptD [OF assms(2,3)] by (simp add: at_end_def file_data_def)

text \<open>A sealed segment is read-only, flushed and synced, and its index is on disk.\<close>

lemma seal_repr:
  assumes r: "seg_repr d s rs" and e: "at_end d s" and b: "int64_ok (sg_baseOffset s)"
  shows "\<exists>d' s'. seg_seal d s = Inr (d', s') \<and> seg_repr d' s' rs \<and> sg_logBuf s' = None
    \<and> s' = s\<lparr>sg_logBuf := None, sg_logFile := sg_logFile s'\<rparr>
    \<and> same_except (insert (seg_logPath s) (idx_names s)) d d'
    \<and> map_of d' (seg_logPath s) = Some \<lparr>fl_data = frames rs, fl_synced = length (frames rs)\<rparr>
    \<and> map_of d' (seg_idxPath s)
        = Some \<lparr>fl_data = index_writeTo (sg_idx s), fl_synced = length (index_writeTo (sg_idx s))\<rparr>"
proof -
  obtain d1 s1 where fl: "seg_flushIfActive d s = (d1, s1)" by fastforce
  note fl1 = flush_repr [OF r e fl]
  have sel: "seg_logPath s1 = seg_logPath s" "seg_idxPath s1 = seg_idxPath s" "sg_idx s1 = sg_idx s"
    by (subst fl1(6), simp add: seg_logPath_def seg_idxPath_def)+
  define d2 where "d2 = os_Sync d1 (seg_logPath s)"
  obtain d3 where d3: "seg_persistIndex d2 s1 = Inr d3" "same_except (idx_names s) d2 d3"
    "map_of d3 (seg_idxPath s)
      = Some \<lparr>fl_data = index_writeTo (sg_idx s), fl_synced = length (index_writeTo (sg_idx s))\<rparr>"
    using persistIndex_run [of d2 s1] by (auto simp: sel idx_names_def)
  obtain fl where f: "map_of d1 (seg_logPath s) = Some fl"
    using fl1(1) sel by (auto simp: seg_repr_def)
  have log: "seg_logPath s \<notin> idx_names s" by (rule logPath_not_idx [OF b b])
  have d12: "same_except {seg_logPath s} d d2"
    using fl1(4) by (simp add: same_except_def d2_def map_of_os_Sync)
  have m: "map_of d3 (seg_logPath s) = Some \<lparr>fl_data = frames rs, fl_synced = length (frames rs)\<rparr>"
    using same_exceptD [OF d3(2) log] f fl1(3) by (simp add: d2_def map_of_os_Sync file_data_def)
  define s2 where "s2 = s1\<lparr>sg_logBuf := None\<rparr>"
  have s2: "s2 = s\<lparr>sg_logBuf := None, sg_logFile := sg_logFile s2\<rparr>"
    unfolding s2_def by (subst fl1(6)) simp
  have "seg_repr d3 s2 rs"
    using r m unfolding seg_repr_def
    by (subst (1 2 3 4 5 6 7 8 9) s2) (simp add: seg_logPath_def file_data_def)
  moreover have "seg_seal d s = Inr (d3, s2)"
    by (simp add: seg_seal_def fl Let_def sel d2_def [symmetric] d3(1) s2_def)
  moreover have "same_except (insert (seg_logPath s) (idx_names s)) d d3"
    using same_except_trans [OF d12 d3(2)] by simp
  ultimately show ?thesis
    using s2 m d3(3) by (intro exI [of _ d3] exI [of _ s2]) (simp add: s2_def)
qed

section \<open>Creation and recovery\<close>

lemma createSegment_repr:
  assumes "map_of d (segmentLogName base @ sfx) = None"
    and run: "createSegmentWithSuffix d base mb sfx = (d', s)"
  shows "seg_repr d' s [] \<and> at_end d' s \<and> sg_logBuf s = Some [] \<and> f_append (sg_logFile s)
    \<and> same_except {segmentLogName base @ sfx} d d' \<and> sg_baseOffset s = base \<and> sg_nameSuffix s = sfx
    \<and> sg_maxBytes s = mb \<and> seg_logPath s = segmentLogName base @ sfx"
  using assms
  by (auto simp: createSegmentWithSuffix_def Let_def seg_repr_def at_end_def seg_logPath_def
      tracked_Nil newIndex_def recs_ok_def map_of_set_data same_except_def file_data_def)

text \<open>
  Replaying a file made of whole frames and a tail that does not parse finds exactly those frames.
\<close>

lemma recover_loop_frames:
  assumes "rd_rest content rd = frames rs @ tail" "list_all frame_fits rs" "list_all (\<lambda>r. norm_record r = r) rs"
    "parse_frame tail = Inl err" "rd_ok content rd"
    "fst (snd st) = 0 \<longleftrightarrow> fst (snd (snd st)) = 0"
    "recover_loop content base rd st = (st', err', rd')"
  shows "st' = foldl (track base) st rs \<and> err' = err \<and> rd_ok content rd'
    \<and> (tail = [] \<longrightarrow> rd_rest content rd' = [])"
  using assms
proof (induction rs arbitrary: rd st)
  case Nil
  obtain idx pos bsi hw where st: "st = (idx, pos, bsi, hw)" by (cases st)
  obtain x rd1 where x: "readRecordFrom content rd = (x, rd1)" by fastforce
  with Nil st readRecordFrom_stream [OF x] show ?case
    by (auto simp: recover_loop.simps [of content base rd])
next
  case (Cons r rs)
  obtain idx pos bsi hw where st: "st = (idx, pos, bsi, hw)" by (cases st)
  obtain x rd1 where x: "readRecordFrom content rd = (x, rd1)" by fastforce
  note str = readRecordFrom_stream [OF x]
  have x1: "x = Inr (r, length (frame r))"
    using str Cons.prems parse_frame_frame [of r "frames rs @ tail"] by simp
  then have rest: "rd_rest content rd1 = frames rs @ tail" "rd_ok content rd1"
    using str Cons.prems by auto
  have "recover_loop content base rd1 (track base st r) = (st', err', rd')"
    using Cons.prems x x1 st
    by (auto simp: recover_loop.simps [of content base rd] track_def Let_def split: if_splits)
  moreover have "fst (snd (track base st r)) = 0 \<longleftrightarrow> fst (snd (snd (track base st r))) = 0"
    using st by (simp add: track_def Let_def)
  ultimately show ?case
    using Cons.IH [OF rest(1) _ _ _ rest(2)] Cons.prems by simp
qed

lemma openSegment_repr:
  assumes f: "map_of d (segmentLogName base) = Some f" and data: "fl_data f = frames rs @ tail"
    and ok: "recs_ok base rs" and tail: "parse_frame tail = Inl err"
    and err: "tail \<noteq> [] \<Longrightarrow> errors_Is err ErrUnexpectedEOF \<or> errors_Is err ErrTornFrame"
    and eof: "tail \<noteq> [] \<Longrightarrow> \<not> errors_Is err EOF"
    and app: "tail = [] \<or> forAppend"
  shows "\<exists>d' s. openSegment d base mb forAppend = Inr (d', s) \<and> seg_repr d' s rs \<and> at_end d' s
    \<and> same_except {segmentLogName base} d d' \<and> (tail = [] \<longrightarrow> d' = d)
    \<and> map_of d' (segmentLogName base) = Some \<lparr>fl_data = frames rs,
          fl_synced = (if tail = [] then fl_synced f else min (length (frames rs)) (fl_synced f))\<rparr>
    \<and> sg_logBuf s = (if forAppend then Some [] else None) \<and> sg_baseOffset s = base \<and> sg_nameSuffix s = []
    \<and> sg_maxBytes s = mb"
proof -
  let ?n = "segmentLogName base"
  let ?f0 = "\<lparr>f_pos = 0, f_append = False, f_rdonly = \<not> forAppend\<rparr>"
  let ?rd0 = "\<lparr>rd_pos = 0, rd_buf = []\<rparr>"
  obtain st err' rd where loop: "recover_loop (frames rs @ tail) base ?rd0 ([], 0, 0, base) = (st, err', rd)"
    by (metis prod.collapse)
  have "list_all frame_fits rs" "list_all (\<lambda>r. norm_record r = r) rs"
    using ok by (auto simp: recs_ok_def)
  from recover_loop_frames [OF _ this tail _ _ loop]
  have st: "st = tracked base rs" "err' = err" "rd_ok (frames rs @ tail) rd"
    "tail = [] \<Longrightarrow> rd_rest (frames rs @ tail) rd = []"
    by (auto simp: rd_rest_def rd_ok_def tracked_def)
  obtain idx pos bsi hw where tr: "tracked base rs = (idx, pos, bsi, hw)" by (cases "tracked base rs")
  have pos: "pos = length (frames rs)" using tracked_sums(1) [of base rs] tr by simp
  have fd: "file_data d ?n = frames rs @ tail" using f data by (simp add: file_data_def)
  define s where "s = \<lparr>sg_baseOffset = base, sg_maxBytes = mb, sg_nameSuffix = [],
      sg_logFile = ?f0\<lparr>f_pos := pos\<rparr>, sg_logBuf = (if forAppend then Some [] else None),
      sg_idx = idx, sg_size = pos, sg_bytesSinceIndex = bsi, sg_highWater = hw\<rparr>"
  have path: "seg_logPath s = ?n" by (simp add: s_def seg_logPath_def)
  show ?thesis
  proof (cases "tail = []")
    case True
    then have "err = EOF" using tail by (simp add: parse_frame_def)
    moreover have "rd_pos rd = pos"
      using st(3,4) True by (simp add: rd_rest_def rd_ok_def pos)
    ultimately have "openSegment d base mb forAppend = Inr (d, s)"
      using f loop st tr fd
      by (simp add: openSegment_def seg_recover_def seg_logPath_def newIndex_def s_def Let_def)
    moreover have "seg_repr d s rs" "at_end d s"
      using f ok tr fd True by (simp_all add: seg_repr_def at_end_def path) (simp_all add: s_def pos)
    moreover have "f = \<lparr>fl_data = frames rs, fl_synced = fl_synced f\<rparr>"
      using data True by simp
    ultimately show ?thesis
      using True f by (intro exI [of _ d] exI [of _ s]) (simp add: s_def)
  next
    case False
    define d' where "d' = AList.update ?n \<lparr>fl_data = frames rs, fl_synced = min pos (fl_synced f)\<rparr> d"
    have "openSegment d base mb forAppend = Inr (d', s)"
      using f loop st tr fd err [OF False] eof [OF False] app False
      by (simp add: openSegment_def seg_recover_def seg_logPath_def newIndex_def s_def d'_def Let_def
          os_Truncate_def pos)
    moreover have "seg_repr d' s rs" "at_end d' s"
      using ok tr by (simp_all add: seg_repr_def at_end_def path file_data_def d'_def) (simp_all add: s_def pos)
    ultimately show ?thesis
      using False by (intro exI [of _ d'] exI [of _ s]) (simp add: s_def d'_def pos same_except_def)
  qed
qed

text \<open>What is left of a sequence of records when only the first \<open>n\<close> bytes of its frames are.\<close>

fun whole_frames :: "nat \<Rightarrow> Record list \<Rightarrow> Record list" where
  "whole_frames n [] = []"
| "whole_frames n (r # rs) =
     (if length (frame r) \<le> n then r # whole_frames (n - length (frame r)) rs else [])"

lemma whole_frames_prefix: "\<exists>k. whole_frames n rs = take k rs"
proof (induction rs arbitrary: n)
  case (Cons r rs)
  from Cons.IH [of "n - length (frame r)"] obtain k where "whole_frames (n - length (frame r)) rs = take k rs" ..
  then show ?case by (auto intro: exI [of _ 0] exI [of _ "Suc k"])
qed simp

lemma whole_frames_all: "length (frames rs) \<le> n \<Longrightarrow> whole_frames n rs = rs"
  by (induction rs arbitrary: n) auto

lemma whole_frames_ge: "length (frames ts) \<le> n \<Longrightarrow> whole_frames n (ts @ us) = ts @ whole_frames (n - length (frames ts)) us"
  by (induction ts arbitrary: n) auto

lemma take_frames:
  "list_all frame_fits rs \<Longrightarrow> \<exists>tail err. take n (frames rs) = frames (whole_frames n rs) @ tail
     \<and> parse_frame tail = Inl err \<and> (if tail = [] then err = EOF else err = ErrUnexpectedEOF)"
proof (induction rs arbitrary: n)
  case (Cons r rs)
  show ?case
  proof (cases "length (frame r) \<le> n")
    case True
    with Cons.IH [of "n - length (frame r)"] Cons.prems show ?thesis by simp
  next
    case False
    with Cons.prems show ?thesis
      using parse_frame_torn [of r n] by (cases "n = 0") (auto simp: parse_frame_def)
  qed
qed (simp add: parse_frame_def)

lemma openSegment_crash:
  assumes f: "map_of d (segmentLogName base) = Some f" and data: "fl_data f = take n (frames rs)"
    and ok: "recs_ok base rs" and app: "forAppend \<or> fl_data f = frames (whole_frames n rs)"
  shows "\<exists>d' s. openSegment d base mb forAppend = Inr (d', s) \<and> seg_repr d' s (whole_frames n rs) \<and> at_end d' s
    \<and> same_except {segmentLogName base} d d'
    \<and> sg_logBuf s = (if forAppend then Some [] else None) \<and> sg_baseOffset s = base \<and> sg_nameSuffix s = []
    \<and> sg_maxBytes s = mb"
proof -
  obtain tail err where t: "take n (frames rs) = frames (whole_frames n rs) @ tail" "parse_frame tail = Inl err"
    "if tail = [] then err = EOF else err = ErrUnexpectedEOF"
    using take_frames ok by (meson recs_ok_def)
  obtain k where "whole_frames n rs = take k rs" using whole_frames_prefix by blast
  then have "recs_ok base (whole_frames n rs)"
    using recs_ok_append [of base "take k rs" "drop k rs"] ok by simp
  from openSegment_repr [OF f _ this t(2), of forAppend mb] t data app show ?thesis
    by (auto split: if_splits)
qed

end
