(* ===== verification/Log_Partition.thy ===== *)
theory Log_Partition
  imports Log_Segment_Inv "HOL-Library.List_Lexorder" "HOL-Library.Char_ord"
begin

text \<open>
  The partition log of \<^verbatim>\<open>broker/internal/log/partition.go\<close> with the start-up part of
  \<^verbatim>\<open>compact.go\<close>: an ordered list of segments in one directory, the last of them active. Each operation
  runs under the partition's mutex and is one transition of directory and log. \<open>part_repr\<close> relates the
  state to the records the segments hold; the abstract log is their concatenation.
\<close>

section \<open>Opening\<close>

definition os_ReadDir :: "dir \<Rightarrow> string list" where
  "os_ReadDir d = sort (remdups (map fst d))"

definition compactingSuffix :: string where
  "compactingSuffix = ''.compacting''"

definition hasCompactingSuffix :: "string \<Rightarrow> bool" where
  "hasCompactingSuffix name \<longleftrightarrow> length compactingSuffix < length name
     \<and> drop (length name - length compactingSuffix) name = compactingSuffix"

primrec recover_compacting :: "string list \<Rightarrow> dir \<Rightarrow> dir result" where
  "recover_compacting [] d = Inr d"
| "recover_compacting (name # names) d =
     (if \<not> hasCompactingSuffix name then recover_compacting names d
      else let final = take (length name - length compactingSuffix) name in
        if map_of d final \<noteq> None then
          (case os_Remove d name of
             (_, Inl e) \<Rightarrow> Inl (ErrWrap ''log: remove stale'' e)
           | (d, Inr _) \<Rightarrow> recover_compacting names d)
        else
          (case os_Rename d name final of
             Inl e \<Rightarrow> Inl (ErrWrap ''log: finalize stale'' e)
           | Inr d \<Rightarrow> recover_compacting names d))"

definition recoverCompactingSegments :: "dir \<Rightarrow> dir result" where
  "recoverCompactingSegments d = recover_compacting (os_ReadDir d) d"

primrec collect_bases :: "string list \<Rightarrow> int list" where
  "collect_bases [] = []"
| "collect_bases (name # names) =
     (if \<not> suffix ''.log'' name then collect_bases names
      else case parseBaseOffset name of
             Inl _ \<Rightarrow> collect_bases names
           | Inr base \<Rightarrow> base # collect_bases names)"

definition discoverSegments :: "dir \<Rightarrow> int list" where
  "discoverSegments d = sort (collect_bases (os_ReadDir d))"

record PartitionLog =
  pl_maxBytes :: int
  pl_segments :: "segment list"

definition DefaultSegmentBytes :: int where
  "DefaultSegmentBytes = 2 ^ 30"

primrec open_segments :: "int \<Rightarrow> int list \<Rightarrow> dir \<Rightarrow> (dir \<times> segment list) result" where
  "open_segments maxBytes [] d = Inr (d, [])"
| "open_segments maxBytes (base # bases) d =
     (case openSegment d base maxBytes (bases = []) of
        Inl e \<Rightarrow> Inl e
      | Inr (d, s) \<Rightarrow>
          (case open_segments maxBytes bases d of
             Inl e \<Rightarrow> Inl e
           | Inr (d, ss) \<Rightarrow> Inr (d, s # ss)))"

definition OpenPartition :: "dir \<Rightarrow> int \<Rightarrow> (dir \<times> PartitionLog) result" where
  "OpenPartition d maxBytes =
     (let maxBytes = (if maxBytes \<le> 0 then DefaultSegmentBytes else maxBytes) in
      case recoverCompactingSegments d of
        Inl e \<Rightarrow> Inl (ErrWrap ''log: recover compaction state'' e)
      | Inr d \<Rightarrow>
          (let bases = discoverSegments d in
           if length bases = 0 then
             (let (d, first) = createSegment d 0 maxBytes
              in Inr (d, \<lparr>pl_maxBytes = maxBytes, pl_segments = [first]\<rparr>))
           else case open_segments maxBytes bases d of
                  Inl e \<Rightarrow> Inl e
                | Inr (d, ss) \<Rightarrow> Inr (d, \<lparr>pl_maxBytes = maxBytes, pl_segments = ss\<rparr>)))"

section \<open>Reads, appends, sync\<close>

definition part_HighWater :: "PartitionLog \<Rightarrow> int" where
  "part_HighWater p = (if pl_segments p = [] then 0 else sg_highWater (last (pl_segments p)))"

definition part_rollLocked :: "dir \<Rightarrow> PartitionLog \<Rightarrow> (dir \<times> PartitionLog) result" where
  "part_rollLocked d p =
     (let active = last (pl_segments p) in
      case seg_seal d active of
        Inl e \<Rightarrow> Inl e
      | Inr (d, sealed) \<Rightarrow>
          (let (d, next) = createSegment d (sg_highWater sealed) (pl_maxBytes p)
           in Inr (d, p\<lparr>pl_segments := butlast (pl_segments p) @ [sealed, next]\<rparr>)))"

definition part_Append :: "dir \<Rightarrow> PartitionLog \<Rightarrow> Record \<Rightarrow> (dir \<times> PartitionLog \<times> int) result" where
  "part_Append d p r =
     (if length (pl_segments p) = 0 then Inl (ErrNew ''log: no active segment'')
      else case seg_append d (last (pl_segments p)) r of
             Inl e \<Rightarrow> Inl e
           | Inr (d, active, off) \<Rightarrow>
               (let p = p\<lparr>pl_segments := butlast (pl_segments p) @ [active]\<rparr> in
                if seg_shouldRoll active then
                  (case part_rollLocked d p of
                     Inl e \<Rightarrow> Inl (ErrWrap ''log: rollover'' e)
                   | Inr (d, p) \<Rightarrow> Inr (d, p, off))
                else Inr (d, p, off)))"

primrec read_segments :: "segment list \<Rightarrow> dir \<Rightarrow> int \<Rightarrow> int \<Rightarrow> dir \<times> segment list \<times> Record list result" where
  "read_segments [] d fromOffset n = (d, [], Inr [])"
| "read_segments (s # ss) d fromOffset n =
     (if n \<le> 0 then (d, s # ss, Inr [])
      else case seg_readFrom d s fromOffset n of
             (d, s, Inl e) \<Rightarrow> (d, s # ss, Inl e)
           | (d, s, Inr records) \<Rightarrow>
               (let fromOffset = (if 0 < length records then r_Offset (last records) + 1 else fromOffset) in
                case read_segments ss d fromOffset (n - int (length records)) of
                  (d, ss, Inl e) \<Rightarrow> (d, s # ss, Inl e)
                | (d, ss, Inr out) \<Rightarrow> (d, s # ss, Inr (records @ out))))"

definition part_Read :: "dir \<Rightarrow> PartitionLog \<Rightarrow> int \<Rightarrow> int \<Rightarrow> dir \<times> PartitionLog \<times> Record list result" where
  "part_Read d p fromOffset maxRecords =
     (if maxRecords \<le> 0 then (d, p, Inr [])
      else if length (pl_segments p) = 0 then (d, p, Inr [])
      else let segs = pl_segments p;
               idx = sort_Search (length segs) (\<lambda>i. fromOffset < sg_baseOffset (segs ! i)) - 1;
               (d, ss, res) = read_segments (drop idx segs) d fromOffset maxRecords
           in (d, p\<lparr>pl_segments := take idx segs @ ss\<rparr>, res))"

definition part_Sync :: "dir \<Rightarrow> PartitionLog \<Rightarrow> dir \<times> PartitionLog" where
  "part_Sync d p =
     (if length (pl_segments p) = 0 then (d, p)
      else let (d, active) = seg_flushIfActive d (last (pl_segments p))
           in (os_Sync d (seg_logPath active), p\<lparr>pl_segments := butlast (pl_segments p) @ [active]\<rparr>))"

primrec close_segments :: "segment list \<Rightarrow> dir \<Rightarrow> dir \<times> segment list \<times> unit result" where
  "close_segments [] d = (d, [], Inr ())"
| "close_segments (s # ss) d =
     (let (d, s, err) =
            (if ss = [] then (case seg_seal d s of Inl e \<Rightarrow> (d, s, Inl e) | Inr (d, s) \<Rightarrow> (d, s, Inr ()))
             else (d, s, Inr ()));
          (d, s) = seg_close d s;
          (d, ss, err') = close_segments ss d
      in (d, s # ss, case err of Inl e \<Rightarrow> Inl e | Inr _ \<Rightarrow> err'))"

definition part_Close :: "dir \<Rightarrow> PartitionLog \<Rightarrow> dir \<times> PartitionLog \<times> unit result" where
  "part_Close d p =
     (let (d, ss, err) = close_segments (pl_segments p) d in (d, p\<lparr>pl_segments := ss\<rparr>, err))"

section \<open>Snapshots and segment transfer\<close>

record SegmentSnapshot =
  ss_Base :: int
  ss_LogSize :: nat
  ss_IdxSize :: nat

primrec sync_segments :: "segment list \<Rightarrow> dir \<Rightarrow> (dir \<times> segment list) result" where
  "sync_segments [] d = Inr (d, [])"
| "sync_segments (s # ss) d =
     (case seg_snapshotSync d s of
        Inl e \<Rightarrow> Inl (ErrWrap ''log: snapshot sync segment'' e)
      | Inr (d, s) \<Rightarrow>
          (case sync_segments ss d of Inl e \<Rightarrow> Inl e | Inr (d, ss) \<Rightarrow> Inr (d, s # ss)))"

definition part_Snapshot :: "dir \<Rightarrow> PartitionLog \<Rightarrow> (dir \<times> PartitionLog \<times> SegmentSnapshot list) result" where
  "part_Snapshot d p =
     (case sync_segments (pl_segments p) d of
        Inl e \<Rightarrow> Inl e
      | Inr (d, ss) \<Rightarrow>
          Inr (d, p\<lparr>pl_segments := ss\<rparr>,
            map (\<lambda>s. \<lparr>ss_Base = sg_baseOffset s, ss_LogSize = sg_size s, ss_IdxSize = index_sizeBytes (sg_idx s)\<rparr>) ss))"

definition part_ReadSegmentBytes ::
  "dir \<Rightarrow> PartitionLog \<Rightarrow> int \<Rightarrow> byte \<Rightarrow> int \<Rightarrow> int \<Rightarrow> bytes result" where
  "part_ReadSegmentBytes d p base kind offset maxBytes =
     (if maxBytes \<le> 0 then Inr []
      else case find (\<lambda>s. sg_baseOffset s = base) (pl_segments p) of
             None \<Rightarrow> Inl (ErrNew ''log: unknown segment base'')
           | Some s \<Rightarrow>
               (let path = (if kind = SegmentIdx then seg_idxPath s else seg_logPath s) in
                case map_of d path of
                  None \<Rightarrow> Inl ErrNotExist
                | Some f \<Rightarrow>
                    if offset < 0 then Inl (ErrNew ''seek: invalid argument'')
                    else Inr (take (nat maxBytes) (drop (nat offset) (fl_data f)))))"

section \<open>Retention\<close>

fun time_retention :: "segment list \<Rightarrow> dir \<Rightarrow> int \<Rightarrow> int \<Rightarrow> dir \<times> segment list \<times> int \<times> go_error option" where
  "time_retention (s # t # ss) d cutoff deleted =
     (case seg_readFrom d s (sg_highWater s - 1) 1 of
        (d, s, Inl e) \<Rightarrow> (d, s # t # ss, deleted, Some e)
      | (d, s, Inr recs) \<Rightarrow>
          if length recs = 0 \<or> cutoff \<le> r_Timestamp (recs ! 0) then (d, s # t # ss, deleted, None)
          else let (d, s) = seg_close d s in
            case seg_remove d s of
              (d, Inl e) \<Rightarrow> (d, s # t # ss, deleted, Some e)
            | (d, Inr _) \<Rightarrow> time_retention (t # ss) d cutoff (deleted + 1))"
| "time_retention ss d cutoff deleted = (d, ss, deleted, None)"

definition part_EnforceTimeRetention :: "dir \<Rightarrow> PartitionLog \<Rightarrow> int \<Rightarrow> dir \<times> PartitionLog \<times> int \<times> go_error option" where
  "part_EnforceTimeRetention d p cutoffNanos =
     (if length (pl_segments p) \<le> 1 then (d, p, 0, None)
      else let (d, ss, deleted, err) = time_retention (pl_segments p) d cutoffNanos 0
           in (d, p\<lparr>pl_segments := ss\<rparr>, deleted, err))"

fun size_retention :: "segment list \<Rightarrow> dir \<Rightarrow> int \<Rightarrow> int \<Rightarrow> int \<Rightarrow> dir \<times> segment list \<times> int \<times> go_error option" where
  "size_retention (s # t # ss) d totalBytes maxBytes deleted =
     (if maxBytes < totalBytes then
        (let dropped = int (sg_size s); (d, s) = seg_close d s in
         case seg_remove d s of
           (d, Inl e) \<Rightarrow> (d, s # t # ss, deleted, Some e)
         | (d, Inr _) \<Rightarrow> size_retention (t # ss) d (totalBytes - dropped) maxBytes (deleted + 1))
      else (d, s # t # ss, deleted, None))"
| "size_retention ss d totalBytes maxBytes deleted = (d, ss, deleted, None)"

definition part_EnforceSizeRetention :: "dir \<Rightarrow> PartitionLog \<Rightarrow> int \<Rightarrow> dir \<times> PartitionLog \<times> int \<times> go_error option" where
  "part_EnforceSizeRetention d p maxBytes =
     (if maxBytes \<le> 0 then (d, p, 0, None)
      else if length (pl_segments p) \<le> 1 then (d, p, 0, None)
      else let totalBytes = (\<Sum>s \<leftarrow> pl_segments p. int (sg_size s));
               (d, ss, deleted, err) = size_retention (pl_segments p) d totalBytes maxBytes 0
           in (d, p\<lparr>pl_segments := ss\<rparr>, deleted, err))"

end
