(* ===== verification/Log_Partition_Inv.thy ===== *)
theory Log_Partition_Inv
  imports Log_Partition
begin

text \<open>
  The partition log's invariant and what its operations do to the sequence of records. \<open>part_repr d p rss\<close>:
  segment by segment the records are \<open>rss\<close>, base offsets and high waters are ordered, all segments but
  the last are sealed and synced, and the directory holds no other segment file.
\<close>

section \<open>Invariant\<close>

definition seg_before :: "segment \<Rightarrow> segment \<Rightarrow> bool" where
  "seg_before s t \<longleftrightarrow> sg_baseOffset s < sg_baseOffset t \<and> sg_highWater s \<le> sg_baseOffset t"

definition seg_plain :: "segment \<Rightarrow> bool" where
  "seg_plain s \<longleftrightarrow> sg_nameSuffix s = [] \<and> int64_ok (sg_baseOffset s) \<and> int64_ok (sg_highWater s)"

definition sealed_on :: "dir \<Rightarrow> segment \<Rightarrow> bool" where
  "sealed_on d s \<longleftrightarrow> sg_logBuf s = None
     \<and> (\<exists>f. map_of d (seg_logPath s) = Some f \<and> fl_synced f = length (fl_data f))"

definition dir_clean :: "dir \<Rightarrow> int set \<Rightarrow> bool" where
  "dir_clean d bases \<longleftrightarrow> (\<forall>n. map_of d n \<noteq> None \<longrightarrow>
     (\<exists>b \<in> bases. n = segmentLogName b) \<or> (\<exists>b. int64_ok b \<and> (n = segmentIndexName b \<or> n = segmentIndexName b @ ''.tmp'')))"

definition segs_repr :: "dir \<Rightarrow> segment list \<Rightarrow> Record list list \<Rightarrow> bool" where
  "segs_repr d ss rss \<longleftrightarrow> list_all2 (seg_repr d) ss rss
     \<and> list_all2 (\<lambda>s rs. fits32 (sg_baseOffset s) rs) ss rss
     \<and> sorted_wrt seg_before ss \<and> list_all seg_plain ss"

definition part_repr :: "dir \<Rightarrow> PartitionLog \<Rightarrow> Record list list \<Rightarrow> bool" where
  "part_repr d p rss \<longleftrightarrow> pl_segments p \<noteq> [] \<and> segs_repr d (pl_segments p) rss
     \<and> list_all (sealed_on d) (butlast (pl_segments p)) \<and> sg_logBuf (last (pl_segments p)) \<noteq> None
     \<and> dir_clean d (set (map sg_baseOffset (pl_segments p)))"

abbreviation active :: "PartitionLog \<Rightarrow> segment" where
  "active p \<equiv> last (pl_segments p)"

lemma seg_plain_path: "seg_plain s \<Longrightarrow> seg_logPath s = segmentLogName (sg_baseOffset s)"
  "seg_plain s \<Longrightarrow> seg_idxPath s = segmentIndexName (sg_baseOffset s)"
  by (simp_all add: seg_plain_def seg_logPath_def seg_idxPath_def)

lemma seg_plain_path_inject:
  "seg_plain s \<Longrightarrow> seg_plain t \<Longrightarrow> sg_baseOffset s \<noteq> sg_baseOffset t \<Longrightarrow> seg_logPath s \<noteq> seg_logPath t"
  by (simp add: seg_plain_path segmentLogName_inject) (simp add: seg_plain_def segmentLogName_inject)

lemma seg_plain_log_not_idx: "seg_plain s \<Longrightarrow> seg_plain t \<Longrightarrow> seg_logPath s \<notin> idx_names t"
  by (simp add: logPath_not_idx seg_plain_def)

text \<open>A change confined to the files of one segment leaves every other segment as it is.\<close>

lemma segs_repr_same:
  assumes "segs_repr d ss rss" "same_except ns d d'" "\<And>s. s \<in> set ss \<Longrightarrow> seg_logPath s \<notin> ns"
  shows "segs_repr d' ss rss"
proof -
  have "list_all2 (seg_repr d') ss rss"
    using assms seg_repr_same unfolding segs_repr_def by (blast intro: list.rel_mono_strong)
  with assms(1) show ?thesis by (simp add: segs_repr_def)
qed

lemma sealed_same:
  assumes "list_all (sealed_on d) ss" "same_except ns d d'" "\<And>s. s \<in> set ss \<Longrightarrow> seg_logPath s \<notin> ns"
  shows "list_all (sealed_on d') ss"
  using assms same_exceptD [OF assms(2)] by (auto simp: list_all_iff sealed_on_def)

lemma list_all2_snoc [simp]: "list_all2 P (xs @ [x]) (ys @ [y]) \<longleftrightarrow> list_all2 P xs ys \<and> P x y"
  by (cases "length xs = length ys") (auto simp: list_all2_append dest: list_all2_lengthD)

lemma segs_repr_snoc:
  "segs_repr d (ss @ [a]) (rss @ [rs]) \<longleftrightarrow> segs_repr d ss rss \<and> seg_repr d a rs \<and> fits32 (sg_baseOffset a) rs
     \<and> seg_plain a \<and> list_all (\<lambda>s. seg_before s a) ss"
  by (auto simp: segs_repr_def sorted_wrt_append list_all_iff)

lemma segs_repr_Cons:
  "segs_repr d (a # ss) (rs # rss) \<longleftrightarrow> segs_repr d ss rss \<and> seg_repr d a rs \<and> fits32 (sg_baseOffset a) rs
     \<and> seg_plain a \<and> list_all (\<lambda>s. seg_before a s) ss"
  by (auto simp: segs_repr_def list_all_iff)

lemma part_repr_cases:
  assumes "part_repr d p rss"
  obtains ss a rss0 rs where "pl_segments p = ss @ [a]" "rss = rss0 @ [rs]" "segs_repr d ss rss0"
    "seg_repr d a rs" "fits32 (sg_baseOffset a) rs" "seg_plain a" "list_all (\<lambda>s. seg_before s a) ss"
    "list_all (sealed_on d) ss" "sg_logBuf a \<noteq> None"
    "dir_clean d (insert (sg_baseOffset a) (set (map sg_baseOffset ss)))"
proof -
  obtain ss a where sa: "pl_segments p = ss @ [a]"
    using assms by (cases "pl_segments p" rule: rev_cases) (auto simp: part_repr_def)
  have "length rss = Suc (length ss)"
    using assms by (auto simp: part_repr_def sa segs_repr_def dest: list_all2_lengthD)
  then obtain rss0 rs where "rss = rss0 @ [rs]" by (cases rss rule: rev_cases) auto
  with assms sa that [of ss a rss0 rs] show thesis
    by (auto simp: part_repr_def segs_repr_snoc)
qed

lemma part_reprI:
  assumes "pl_segments p = ss @ [a]" "segs_repr d ss rss0"
    "seg_repr d a rs" "fits32 (sg_baseOffset a) rs" "seg_plain a" "list_all (\<lambda>s. seg_before s a) ss"
    "list_all (sealed_on d) ss" "sg_logBuf a \<noteq> None"
    "dir_clean d (insert (sg_baseOffset a) (set (map sg_baseOffset ss)))"
  shows "part_repr d p (rss0 @ [rs])"
  using assms by (simp add: part_repr_def segs_repr_snoc)

lemma seg_before_paths:
  assumes "segs_repr d ss rss" "seg_plain a" "list_all (\<lambda>s. seg_before s a) ss" "s \<in> set ss"
  shows "seg_logPath s \<notin> insert (seg_logPath a) (idx_names a)"
proof -
  have "seg_plain s" "sg_baseOffset s \<noteq> sg_baseOffset a"
    using assms by (auto simp: segs_repr_def list_all_iff seg_before_def)
  then show ?thesis
    using assms(2) seg_plain_path_inject seg_plain_log_not_idx by blast
qed

lemma dir_clean_same:
  assumes "dir_clean d bases" "same_except (insert (seg_logPath a) (idx_names a)) d d'" "seg_plain a"
    "sg_baseOffset a \<in> bases"
  shows "dir_clean d' bases"
  unfolding dir_clean_def
proof (intro allI impI)
  fix n assume n: "map_of d' n \<noteq> None"
  show "(\<exists>b\<in>bases. n = segmentLogName b) \<or>
    (\<exists>b. int64_ok b \<and> (n = segmentIndexName b \<or> n = segmentIndexName b @ ''.tmp''))"
  proof (cases "n \<in> insert (seg_logPath a) (idx_names a)")
    case True
    with assms(3,4) show ?thesis
      by (auto simp: idx_names_def seg_plain_path) (auto simp: seg_plain_def)
  next
    case False
    with assms(1) n same_exceptD [OF assms(2)] show ?thesis by (simp add: dir_clean_def)
  qed
qed

text \<open>Exchanging the active segment for its next state.\<close>

lemma part_repr_active:
  assumes p: "part_repr d p (rss0 @ [rs])"
    and a: "seg_repr d' a rs'" "fits32 (sg_baseOffset a) rs'" "seg_plain a" "sg_logBuf a \<noteq> None"
      "sg_baseOffset a = sg_baseOffset (active p)"
    and same: "same_except (insert (seg_logPath a) (idx_names a)) d d'"
  shows "part_repr d' (p\<lparr>pl_segments := butlast (pl_segments p) @ [a]\<rparr>) (rss0 @ [rs'])"
proof -
  from p obtain ss b rs'' rss1 where sa: "pl_segments p = ss @ [b]" "rss0 @ [rs] = rss1 @ [rs'']"
    and r: "segs_repr d ss rss1" "list_all (\<lambda>s. seg_before s b) ss" "list_all (sealed_on d) ss"
      "dir_clean d (insert (sg_baseOffset b) (set (map sg_baseOffset ss)))"
    by (rule part_repr_cases)
  then have before: "list_all (\<lambda>s. seg_before s a) ss"
    using a(5) by (simp add: list_all_iff seg_before_def)
  note paths = seg_before_paths [OF r(1) a(3) before]
  show ?thesis
    using sa a before segs_repr_same [OF r(1) same paths] sealed_same [OF r(3) same paths]
      dir_clean_same [OF r(4) same a(3)]
    by (intro part_reprI [of _ ss a]) simp_all
qed

section \<open>Appending\<close>

lemma next_offset_gt: "recs_ok base rs \<Longrightarrow> rs \<noteq> [] \<Longrightarrow> base < next_offset base rs"
  by (cases rs rule: rev_cases) (auto simp: next_offset_def recs_ok_def)

lemma fresh_name:
  assumes "dir_clean d bases" "int64_ok b" "b \<notin> bases" "\<forall>x \<in> bases. int64_ok x"
  shows "map_of d (segmentLogName b) = None"
proof (rule ccontr)
  assume "map_of d (segmentLogName b) \<noteq> None"
  with assms(1) consider x where "x \<in> bases" "segmentLogName b = segmentLogName x"
    | x where "int64_ok x" "segmentLogName b = segmentIndexName x \<or> segmentLogName b = segmentIndexName x @ ''.tmp''"
    unfolding dir_clean_def by blast
  then show False
  proof cases
    case 1
    with assms segmentLogName_inject show False by metis
  next
    case 2
    with assms(2) log_name_not_index_name [of b x "[]" "[]"] log_name_not_index_name [of b x "[]" "''.tmp''"]
    show False by auto
  qed
qed

lemma roll_repr:
  assumes p: "part_repr d p (rss0 @ [rs])" and e: "at_end d (active p)" and ne: "rs \<noteq> []"
  shows "\<exists>d' p'. part_rollLocked d p = Inr (d', p') \<and> part_repr d' p' (rss0 @ [rs] @ [[]])
    \<and> at_end d' (active p') \<and> f_append (sg_logFile (active p')) \<and> pl_maxBytes p' = pl_maxBytes p
    \<and> sg_highWater (active p') = sg_highWater (active p)"
proof -
  from p obtain ss a where sa: "pl_segments p = ss @ [a]"
    and r: "segs_repr d ss rss0" "seg_repr d a rs" "fits32 (sg_baseOffset a) rs" "seg_plain a"
      "list_all (\<lambda>s. seg_before s a) ss" "list_all (sealed_on d) ss"
      "dir_clean d (insert (sg_baseOffset a) (set (map sg_baseOffset ss)))"
    by (rule part_repr_cases) auto
  let ?hw = "sg_highWater a"
  have e': "at_end d a" using e sa by simp
  have b: "int64_ok (sg_baseOffset a)" "int64_ok ?hw" using r(4) by (simp_all add: seg_plain_def)
  obtain d1 s1 where seal: "seg_seal d a = Inr (d1, s1)" "seg_repr d1 s1 rs" "sg_logBuf s1 = None"
    "s1 = a\<lparr>sg_logBuf := None, sg_logFile := sg_logFile s1\<rparr>"
    "same_except (insert (seg_logPath a) (idx_names a)) d d1"
    "map_of d1 (seg_logPath a) = Some \<lparr>fl_data = frames rs, fl_synced = length (frames rs)\<rparr>"
    using seal_repr [OF r(2) e' b(1)] by blast
  have s1: "sg_baseOffset s1 = sg_baseOffset a" "sg_highWater s1 = ?hw" "seg_logPath s1 = seg_logPath a" "seg_plain s1"
    using r(4) by (subst seal(4), simp add: seg_logPath_def seg_plain_def)+
  have gt: "sg_baseOffset a < ?hw"
    using seg_repr_sums(2) [OF r(2)] next_offset_gt ne r(2) by (simp add: seg_repr_def)
  note paths = seg_before_paths [OF r(1,4,5)]
  have clean1: "dir_clean d1 (insert (sg_baseOffset a) (set (map sg_baseOffset ss)))"
    by (rule dir_clean_same [OF r(7) seal(5) r(4)]) simp
  have old: "\<forall>x \<in> insert (sg_baseOffset a) (set (map sg_baseOffset ss)). int64_ok x \<and> x < ?hw"
    using r(1,5) b(1) gt by (auto simp: segs_repr_def list_all_iff seg_before_def seg_plain_def)
  then have new: "map_of d1 (segmentLogName ?hw) = None"
    by (intro fresh_name [OF clean1 b(2)]) auto
  obtain d2 n where create: "createSegment d1 ?hw (pl_maxBytes p) = (d2, n)" by fastforce
  note n = createSegment_repr [of d1 ?hw "[]" "pl_maxBytes p" d2 n, simplified, OF new create [unfolded createSegment_def]]
  have nplain: "seg_plain n" "sg_highWater n = ?hw"
    using b(2) n create by (auto simp: seg_plain_def createSegment_def createSegmentWithSuffix_def Let_def)
  have all1: "segs_repr d1 (ss @ [s1]) (rss0 @ [rs])"
    using segs_repr_same [OF r(1) seal(5) paths] seal(2) s1 r(3,5)
    by (simp add: segs_repr_snoc seg_before_def list_all_iff)
  have sealed1: "list_all (sealed_on d1) (ss @ [s1])"
    using sealed_same [OF r(6) seal(5) paths] seal(3,6) s1 by (simp add: sealed_on_def)
  have before: "list_all (\<lambda>s. seg_before s n) (ss @ [s1])"
    using old s1 gt n r(5) by (auto simp: list_all_iff seg_before_def)
  have paths2: "seg_logPath s \<notin> {segmentLogName ?hw}" if "s \<in> set (ss @ [s1])" for s
    using seg_before_paths [OF all1 nplain(1) before that] n by simp
  have same2: "same_except {segmentLogName ?hw} d1 d2" using n by blast
  have "dir_clean d2 (insert (sg_baseOffset n) (set (map sg_baseOffset (ss @ [s1]))))"
    using clean1 n s1 same_exceptD [OF same2] by (auto simp: dir_clean_def) metis
  then have "part_repr d2 (p\<lparr>pl_segments := (ss @ [s1]) @ [n]\<rparr>) ((rss0 @ [rs]) @ [[]])"
    using segs_repr_same [OF all1 same2 paths2] sealed_same [OF sealed1 same2 paths2] before nplain n
    by (intro part_reprI [of _ "ss @ [s1]" n]) (simp_all add: fits32_def)
  moreover have "part_rollLocked d p = Inr (d2, p\<lparr>pl_segments := (ss @ [s1]) @ [n]\<rparr>)"
    by (simp add: part_rollLocked_def sa seal(1) s1 create)
  ultimately show ?thesis
    using n nplain sa by (intro exI conjI) (assumption, simp_all)
qed

definition append_fits :: "PartitionLog \<Rightarrow> Record \<Rightarrow> bool" where
  "append_fits p r \<longleftrightarrow> frame_fits r \<and> part_HighWater p \<le> r_Offset r \<and> int64_ok (r_Offset r + 1)
     \<and> sg_size (active p) + length (frame r) < 2 ^ 32 \<and> r_Offset r - sg_baseOffset (active p) < 2 ^ 32"

lemma Append_repr:
  assumes p: "part_repr d p rss" and e: "at_end d (active p)" and ok: "append_fits p r"
  shows "\<exists>d' p' rss'. part_Append d p r = Inr (d', p', r_Offset r) \<and> part_repr d' p' rss'
    \<and> concat rss' = concat rss @ [norm_record r] \<and> at_end d' (active p')
    \<and> part_HighWater p' = r_Offset r + 1 \<and> pl_maxBytes p' = pl_maxBytes p
    \<and> (f_append (sg_logFile (active p)) \<longrightarrow> f_append (sg_logFile (active p')))"
proof -
  from p obtain ss a rss0 rs where sa: "pl_segments p = ss @ [a]" "rss = rss0 @ [rs]"
    and r: "seg_repr d a rs" "fits32 (sg_baseOffset a) rs" "seg_plain a" "sg_logBuf a \<noteq> None"
    by (rule part_repr_cases)
  obtain b where b: "sg_logBuf a = Some b" using r(4) by auto
  have "at_end d a" using e sa by simp
  moreover have hw: "part_HighWater p = sg_highWater a" by (simp add: part_HighWater_def sa)
  ultimately obtain d1 a1 where app: "seg_append d a r = Inr (d1, a1, r_Offset r)"
    "seg_repr d1 a1 (rs @ [norm_record r])" "at_end d1 a1" "same_except {seg_logPath a} d d1"
    "seg_logPath a1 = seg_logPath a" "sg_baseOffset a1 = sg_baseOffset a" "sg_nameSuffix a1 = sg_nameSuffix a"
    "sg_logBuf a1 \<noteq> None" "f_append (sg_logFile a1) = f_append (sg_logFile a)"
    using append_repr [OF r(1) _ b, of r] ok unfolding append_fits_def by auto
  have hw1: "sg_highWater a1 = r_Offset r + 1"
    using seg_repr_sums(2) [OF app(2)] by (simp add: next_offset_def)
  have plain1: "seg_plain a1"
    using r(3) ok app(6,7) hw1 by (simp add: seg_plain_def append_fits_def)
  have fits1: "fits32 (sg_baseOffset a1) (rs @ [norm_record r])"
    using r(2) ok seg_repr_sums(1) [OF r(1)] by (simp add: fits32_def append_fits_def sa app(6))
  define p1 where "p1 = p\<lparr>pl_segments := ss @ [a1]\<rparr>"
  have same1: "same_except (insert (seg_logPath a1) (idx_names a1)) d d1"
    by (rule same_except_mono [OF app(4)]) (simp add: app(5))
  have p1: "part_repr d1 p1 (rss0 @ [rs @ [norm_record r]])"
    using part_repr_active [OF p [unfolded sa(2)] app(2) fits1 plain1 app(8) _ same1] app(6)
    by (simp add: sa p1_def)
  show ?thesis
  proof (cases "seg_shouldRoll a1")
    case False
    then have "part_Append d p r = Inr (d1, p1, r_Offset r)"
      by (simp add: part_Append_def sa app(1) p1_def Let_def)
    moreover have "concat (rss0 @ [rs @ [norm_record r]]) = concat rss @ [norm_record r]"
      by (simp add: sa)
    ultimately show ?thesis
      using p1 app(3,9) hw1 sa
      by (intro exI [of _ d1] exI [of _ p1] exI [of _ "rss0 @ [rs @ [norm_record r]]"])
        (simp add: p1_def part_HighWater_def)
  next
    case True
    obtain d2 p2 where roll: "part_rollLocked d1 p1 = Inr (d2, p2)"
      "part_repr d2 p2 (rss0 @ [rs @ [norm_record r]] @ [[]])" "at_end d2 (active p2)"
      "f_append (sg_logFile (active p2))" "pl_maxBytes p2 = pl_maxBytes p1"
      "sg_highWater (active p2) = sg_highWater (active p1)"
      using roll_repr [OF p1] app(3) by (auto simp: p1_def)
    then have "part_Append d p r = Inr (d2, p2, r_Offset r)"
      using True by (simp add: part_Append_def sa app(1) p1_def [symmetric] Let_def)
    moreover have "concat (rss0 @ [rs @ [norm_record r]] @ [[]]) = concat rss @ [norm_record r]"
      by (simp add: sa)
    moreover have "part_HighWater p2 = r_Offset r + 1"
      using roll(2,6) hw1 by (auto simp: part_HighWater_def p1_def part_repr_def)
    ultimately show ?thesis
      using roll
      by (intro exI [of _ d2] exI [of _ p2] exI [of _ "rss0 @ [rs @ [norm_record r]] @ [[]]"])
        (simp add: p1_def)
  qed
qed

section \<open>Reading\<close>

text \<open>What a read may change of a segment: the buffer is flushed, the handle moves.\<close>

definition seg_moved :: "segment \<Rightarrow> segment \<Rightarrow> bool" where
  "seg_moved s s' \<longleftrightarrow> s' = s\<lparr>sg_logBuf := sg_logBuf s', sg_logFile := sg_logFile s'\<rparr>
     \<and> (sg_logBuf s' = None \<longleftrightarrow> sg_logBuf s = None) \<and> f_append (sg_logFile s') = f_append (sg_logFile s)"

lemma seg_moved_refl [simp]: "seg_moved s s"
  by (simp add: seg_moved_def)

lemma seg_moved_sel:
  assumes "seg_moved s s'"
  shows "sg_baseOffset s' = sg_baseOffset s" "sg_highWater s' = sg_highWater s" "sg_nameSuffix s' = sg_nameSuffix s"
    "seg_logPath s' = seg_logPath s" "seg_plain s' = seg_plain s" "seg_idxPath s' = seg_idxPath s"
    "sg_logBuf s' = None \<longleftrightarrow> sg_logBuf s = None" "f_append (sg_logFile s') = f_append (sg_logFile s)"
    "sg_size s' = sg_size s"
proof -
  have "s' = s\<lparr>sg_logBuf := sg_logBuf s', sg_logFile := sg_logFile s'\<rparr>"
    using assms by (simp add: seg_moved_def)
  then have "sg_baseOffset s' = sg_baseOffset s \<and> sg_highWater s' = sg_highWater s
      \<and> sg_nameSuffix s' = sg_nameSuffix s \<and> sg_size s' = sg_size s"
    by (cases s; cases s') simp
  then show "sg_baseOffset s' = sg_baseOffset s" "sg_highWater s' = sg_highWater s" "sg_nameSuffix s' = sg_nameSuffix s"
    "seg_logPath s' = seg_logPath s" "seg_plain s' = seg_plain s" "seg_idxPath s' = seg_idxPath s" "sg_size s' = sg_size s"
    by (simp_all add: seg_logPath_def seg_idxPath_def seg_plain_def)
  show "sg_logBuf s' = None \<longleftrightarrow> sg_logBuf s = None" "f_append (sg_logFile s') = f_append (sg_logFile s)"
    using assms by (simp_all add: seg_moved_def)
qed

lemma readFrom_sealed: "sg_logBuf s = None \<Longrightarrow> seg_readFrom d s fo n = (d', s', res) \<Longrightarrow> d' = d"
  by (auto simp: seg_readFrom_def seg_flushIfActive_def Let_def split: if_splits prod.splits)

definition open_paths :: "segment list \<Rightarrow> string set" where
  "open_paths ss = seg_logPath ` {s \<in> set ss. sg_logBuf s \<noteq> None}"

lemma open_paths_single: "open_paths [s] = (if sg_logBuf s = None then {} else {seg_logPath s})"
  by (auto simp: open_paths_def)

lemma segs_repr_moved:
  assumes "segs_repr d ss rss" "list_all2 seg_moved ss ss'" "list_all2 (seg_repr d') ss' rss"
  shows "segs_repr d' ss' rss"
proof -
  have len: "length ss' = length ss" "length rss = length ss" using assms(1,2)
    by (auto simp: segs_repr_def dest: list_all2_lengthD)
  have nth: "seg_moved (ss ! i) (ss' ! i)" if "i < length ss" for i
    using assms(2) that by (rule list_all2_nthD)
  have "list_all2 (\<lambda>s rs. fits32 (sg_baseOffset s) rs) ss' rss" "sorted_wrt seg_before ss'" "list_all seg_plain ss'"
    using assms(1) len seg_moved_sel [OF nth]
    by (auto simp: segs_repr_def list_all2_conv_all_nth sorted_wrt_iff_nth_less seg_before_def list_all_length)
  with assms(3) show ?thesis by (simp add: segs_repr_def)
qed

lemma seg_repr_bounds:
  assumes "seg_repr d s rs" "x \<in> set rs"
  shows "sg_baseOffset s \<le> r_Offset x" "r_Offset x < sg_highWater s"
proof -
  have "recs_ok (sg_baseOffset s) rs" using assms(1) by (simp add: seg_repr_def)
  then show "sg_baseOffset s \<le> r_Offset x" "r_Offset x < sg_highWater s"
    using recs_below_next assms(2) seg_repr_sums(2) [OF assms(1)] by (auto simp: recs_ok_def list_all_iff)
qed

lemma later_offsets:
  assumes "segs_repr d (s # ss) (rs # rss)" "x \<in> set rs" "y \<in> set (concat rss)"
  shows "r_Offset x < r_Offset y"
proof -
  from assms(3) obtain zs where "zs \<in> set rss" "y \<in> set zs" by auto
  then obtain i where i: "i < length rss" "y \<in> set (rss ! i)"
    by (metis in_set_conv_nth)
  have rs: "seg_repr d s rs" "list_all (seg_before s) ss" "segs_repr d ss rss"
    using assms(1) by (auto simp: segs_repr_Cons)
  then have "seg_repr d (ss ! i) (rss ! i)" "length ss = length rss"
    using i(1) by (auto simp: segs_repr_def list_all2_conv_all_nth)
  moreover have "seg_before s (ss ! i)"
    using rs(2) i(1) \<open>length ss = length rss\<close> by (simp add: list_all_length)
  ultimately show ?thesis
    using seg_repr_bounds [of d] i(2) rs(1) assms(2) by (fastforce simp: seg_before_def)
qed

lemma sorted_filter_next:
  assumes "sorted_wrt (<) (map r_Offset rs)" "xs = take n (filter (\<lambda>r. fo \<le> r_Offset r) rs)" "xs \<noteq> []"
    "\<forall>x \<in> set rs. \<forall>y \<in> set ys. r_Offset x < r_Offset y"
  shows "filter (\<lambda>r. r_Offset (last xs) + 1 \<le> r_Offset r) ys = filter (\<lambda>r. fo \<le> r_Offset r) ys"
proof -
  have "set xs \<subseteq> set (filter (\<lambda>r. fo \<le> r_Offset r) rs)"
    unfolding assms(2) by (rule set_take_subset)
  then have "last xs \<in> set rs" "fo \<le> r_Offset (last xs)"
    using last_in_set [OF assms(3)] by auto
  with assms(4) show ?thesis by (intro filter_cong refl) fastforce
qed

lemma read_segments_repr:
  assumes "segs_repr d ss rss" "\<forall>s \<in> set ss. at_end d s" "read_segments ss d fo n = (d', ss', res)"
  shows "res = Inr (take (nat n) (filter (\<lambda>r. fo \<le> r_Offset r) (concat rss))) \<and> segs_repr d' ss' rss
    \<and> same_except (open_paths ss) d d' \<and> list_all2 seg_moved ss ss'
    \<and> (\<forall>s \<in> set ss'. f_append (sg_logFile s) \<or> sg_logBuf s = None
          \<or> length (filter (\<lambda>r. fo \<le> r_Offset r) (concat rss)) < nat n \<longrightarrow> at_end d' s)"
  using assms
proof (induction ss arbitrary: d rss fo n d' ss' res)
  case Nil
  then show ?case by (auto simp: segs_repr_def)
next
  case (Cons s ss)
  obtain rs rss0 where rss: "rss = rs # rss0"
    using Cons.prems(1) by (cases rss) (auto simp: segs_repr_def)
  note sr = Cons.prems(1) [unfolded rss]
  have s: "seg_repr d s rs" "fits32 (sg_baseOffset s) rs" "segs_repr d ss rss0" "seg_plain s"
    "list_all (seg_before s) ss" using sr by (auto simp: segs_repr_Cons)
  show ?case
  proof (cases "n \<le> 0")
    case True
    with Cons.prems show ?thesis by (auto simp: list_all2_refl)
  next
    case n: False
    let ?P = "\<lambda>r. fo \<le> r_Offset r"
    obtain d1 s1 r1 where run1: "seg_readFrom d s fo n = (d1, s1, r1)" by (metis prod.collapse)
    have end0: "at_end d s" using Cons.prems(2) by simp
    note rd = readFrom_repr [OF s(1) end0 s(2) run1]
    define xs where "xs = take (nat n) (filter ?P rs)"
    have r1: "r1 = Inr xs" using rd by (simp add: xs_def)
    have moved: "seg_moved s s1" and repr1: "seg_repr d1 s1 rs" and same1: "same_except (open_paths [s]) d d1"
      using rd readFrom_sealed [OF _ run1] by (auto simp: read_leaves_def seg_moved_def open_paths_single)
    have paths: "seg_logPath t \<noteq> seg_logPath s" if "t \<in> set ss" for t
      using that s(3,4,5) seg_plain_path_inject [of t s]
      by (auto simp: segs_repr_def list_all_iff seg_before_def)
    then have out: "seg_logPath t \<notin> open_paths [s]" if "t \<in> set ss" for t
      using that by (auto simp: open_paths_def)
    have free: "seg_logPath s1 \<notin> open_paths ss"
      unfolding seg_moved_sel(4) [OF moved] open_paths_def using paths by (metis (no_types, lifting) imageE mem_Collect_eq)
    define fo' where "fo' = (if 0 < length xs then r_Offset (last xs) + 1 else fo)"
    define n' where "n' = n - int (length xs)"
    obtain d2 ss2 r2 where run2: "read_segments ss d1 fo' n' = (d2, ss2, r2)" by (metis prod.collapse)
    have "segs_repr d1 ss rss0" by (rule segs_repr_same [OF s(3) same1 out])
    moreover have "\<forall>t \<in> set ss. at_end d1 t"
      using Cons.prems(2) at_end_same [OF _ same1 out] by auto
    ultimately have IH: "r2 = Inr (take (nat n') (filter (\<lambda>r. fo' \<le> r_Offset r) (concat rss0)))" "segs_repr d2 ss2 rss0"
      "same_except (open_paths ss) d1 d2" "list_all2 seg_moved ss ss2"
      "\<forall>t \<in> set ss2. f_append (sg_logFile t) \<or> sg_logBuf t = None
          \<or> length (filter (\<lambda>r. fo' \<le> r_Offset r) (concat rss0)) < nat n' \<longrightarrow> at_end d2 t"
      using Cons.IH [OF _ _ run2] by blast+
    have res: "d' = d2" "ss' = s1 # ss2" "res = map_sum id ((@) xs) r2"
      using Cons.prems(3) n run1 r1 run2 IH(1) by (auto simp: fo'_def n'_def Let_def)
    have sorted: "sorted_wrt (<) (map r_Offset rs)" using s(1) by (simp add: seg_repr_def recs_ok_def)
    have flt: "filter (\<lambda>r. fo' \<le> r_Offset r) (concat rss0) = filter ?P (concat rss0)"
      using sorted_filter_next [OF sorted xs_def, of "concat rss0"] later_offsets [OF sr]
      by (auto simp: fo'_def)
    have n'eq: "nat n' = nat n - length (filter ?P rs)"
      using n by (auto simp: n'_def xs_def)
    have same2: "seg_repr d2 s1 rs"
      by (rule seg_repr_same [OF repr1 IH(3) free])
    have "list_all2 (seg_repr d2) (s1 # ss2) (rs # rss0)"
      using IH(2) same2 by (simp add: segs_repr_def)
    then have "segs_repr d2 (s1 # ss2) (rs # rss0)"
      using moved IH(4) by (intro segs_repr_moved [OF sr]) simp_all
    moreover have "same_except (open_paths (s # ss)) d d2"
      by (rule same_except_mono [OF same_except_trans [OF same1 IH(3)]]) (auto simp: open_paths_def)
    moreover have "at_end d2 s1" if "f_append (sg_logFile s1) \<or> sg_logBuf s1 = None
        \<or> length (filter ?P (concat rss)) < nat n"
    proof (rule at_end_same [OF _ IH(3) free])
      show "at_end d1 s1"
        using that rd seg_moved_sel(7,8) [OF moved] by (auto simp: read_leaves_def rss)
    qed
    moreover have "length (filter ?P (concat rss)) < nat n \<longleftrightarrow>
        length (filter ?P rs) + length (filter ?P (concat rss0)) < nat n"
      by (simp add: rss)
    ultimately show ?thesis
      using IH(1,4,5) moved n'eq by (auto simp: res rss flt xs_def)
  qed
qed

lemma part_repr_moved:
  assumes p: "part_repr d p rss" and m: "list_all2 seg_moved (pl_segments p) ss'"
    and r: "list_all2 (seg_repr d') ss' rss" and same: "same_except {seg_logPath (active p)} d d'"
  shows "part_repr d' (p\<lparr>pl_segments := ss'\<rparr>) rss"
proof -
  from p obtain ss a rss0 rs where sa: "pl_segments p = ss @ [a]" "rss = rss0 @ [rs]"
    and q: "segs_repr d ss rss0" "seg_plain a" "list_all (\<lambda>s. seg_before s a) ss" "list_all (sealed_on d) ss"
      "sg_logBuf a \<noteq> None" "dir_clean d (insert (sg_baseOffset a) (set (map sg_baseOffset ss)))"
    by (rule part_repr_cases)
  from m obtain ss1 a1 where ss': "ss' = ss1 @ [a1]" "list_all2 seg_moved ss ss1" "seg_moved a a1"
    by (cases ss' rule: rev_cases) (auto simp: sa)
  note a1 = seg_moved_sel [OF ss'(3)]
  have "segs_repr d (pl_segments p) rss" using p by (simp add: part_repr_def)
  note all = segs_repr_moved [OF this m r]
  have nth: "length ss1 = length ss" "\<And>i. i < length ss \<Longrightarrow> seg_moved (ss ! i) (ss1 ! i)"
    using ss'(2) by (auto simp: list_all2_conv_all_nth)
  have bases: "map sg_baseOffset ss1 = map sg_baseOffset ss"
    using nth(1) seg_moved_sel(1) [OF nth(2)] by (intro nth_equalityI) simp_all
  have "sealed_on d' (ss1 ! i)" if "i < length ss" for i
  proof -
    have "seg_logPath (ss ! i) \<notin> {seg_logPath a}"
      using seg_before_paths [OF q(1,2,3), of "ss ! i"] that by auto
    then have "map_of d' (seg_logPath (ss ! i)) = map_of d (seg_logPath (ss ! i))"
      by (intro same_exceptD [OF same]) (simp add: sa)
    then show ?thesis
      using that q(4) seg_moved_sel(4,7) [OF nth(2) [OF that]]
      by (simp add: sealed_on_def list_all_length)
  qed
  then have "list_all (sealed_on d') ss1" by (simp add: list_all_length nth(1))
  moreover have "dir_clean d' (insert (sg_baseOffset a) (set (map sg_baseOffset ss)))"
    by (rule dir_clean_same [OF q(6) same_except_mono [OF same] q(2)]) (simp_all add: sa)
  ultimately show ?thesis
    using all q(5) a1(1,7) unfolding bases [symmetric] by (simp add: part_repr_def ss'(1))
qed

lemma segs_repr_drop: "segs_repr d ss rss \<Longrightarrow> segs_repr d (drop k ss) (drop k rss)"
  by (auto simp: segs_repr_def sorted_wrt_drop list_all_iff dest: in_set_dropD intro: list_all2_dropI)

lemma skipped_segments:
  assumes r: "segs_repr d ss rss" and k: "k < length ss" "0 < k \<longrightarrow> sg_baseOffset (ss ! k) \<le> fo"
  shows "filter (\<lambda>r. fo \<le> r_Offset r) (concat (take k rss)) = []"
proof (clarsimp simp: filter_empty_conv)
  fix x rs assume rs: "rs \<in> set (take k rss)" and x: "x \<in> set rs" "fo \<le> r_Offset x"
  from rs obtain j where j: "j < k" "rs = rss ! j" by (auto simp: in_set_conv_nth)
  have "seg_repr d (ss ! j) rs" "seg_before (ss ! j) (ss ! k)"
    using r j k by (auto simp: segs_repr_def list_all2_conv_all_nth sorted_wrt_iff_nth_less)
  then have "r_Offset x < sg_highWater (ss ! j)" "sg_highWater (ss ! j) \<le> sg_baseOffset (ss ! k)"
    using seg_repr_bounds x(1) by (auto simp: seg_before_def)
  with k(2) j x(2) show False by simp
qed

lemma Read_repr:
  assumes p: "part_repr d p rss" and e: "at_end d (active p)" and run: "part_Read d p fo n = (d', p', res)"
  shows "res = Inr (take (nat n) (filter (\<lambda>r. fo \<le> r_Offset r) (concat rss))) \<and> part_repr d' p' rss
    \<and> part_HighWater p' = part_HighWater p \<and> pl_maxBytes p' = pl_maxBytes p
    \<and> sg_size (active p') = sg_size (active p) \<and> sg_baseOffset (active p') = sg_baseOffset (active p)
    \<and> f_append (sg_logFile (active p')) = f_append (sg_logFile (active p))
    \<and> (f_append (sg_logFile (active p)) \<or> length (filter (\<lambda>r. fo \<le> r_Offset r) (concat rss)) < nat n
         \<longrightarrow> at_end d' (active p'))"
proof (cases "n \<le> 0")
  case True
  with run p e show ?thesis by (auto simp: part_Read_def)
next
  case n: False
  let ?segs = "pl_segments p" and ?P = "\<lambda>r. fo \<le> r_Offset r"
  have ne: "?segs \<noteq> []" and sr: "segs_repr d ?segs rss" and sealed: "list_all (sealed_on d) (butlast ?segs)"
    using p by (auto simp: part_repr_def)
  define m where "m = sort_Search (length ?segs) (\<lambda>i. fo < sg_baseOffset (?segs ! i))"
  define k where "k = m - 1"
  have mono: "fo < sg_baseOffset (?segs ! i) \<Longrightarrow> i \<le> j \<Longrightarrow> j < length ?segs \<Longrightarrow> fo < sg_baseOffset (?segs ! j)" for i j
  proof -
    assume "fo < sg_baseOffset (?segs ! i)" "i \<le> j" "j < length ?segs"
    moreover have "seg_before (?segs ! i) (?segs ! j)" if "i < j" "j < length ?segs"
      using sr that by (simp add: segs_repr_def sorted_wrt_iff_nth_less)
    ultimately show ?thesis by (cases "i = j") (auto simp: seg_before_def)
  qed
  have m: "m \<le> length ?segs" "\<And>i. i < m \<Longrightarrow> \<not> fo < sg_baseOffset (?segs ! i)"
    unfolding m_def by (rule sort_Search_correct(1), erule (2) mono, erule sort_Search_correct(2) [rotated], erule (2) mono)
  have k: "k < length ?segs" "0 < k \<longrightarrow> sg_baseOffset (?segs ! k) \<le> fo"
    using m(1) m(2) [of k] ne length_greater_0_conv [of ?segs] unfolding k_def by linarith+
  obtain d1 ss1 r1 where run1: "read_segments (drop k ?segs) d fo n = (d1, ss1, r1)" by (metis prod.collapse)
  have res: "d' = d1" "p' = p\<lparr>pl_segments := take k ?segs @ ss1\<rparr>" "res = r1"
    using run n ne run1 by (auto simp: part_Read_def Let_def k_def m_def)
  have ends: "at_end d s" if "s \<in> set ?segs" for s
    using that sealed e by (cases ?segs rule: rev_cases) (auto simp: list_all_iff sealed_on_def at_end_def)
  have "\<forall>s \<in> set (drop k ?segs). at_end d s" using ends by (meson in_set_dropD)
  note rd = read_segments_repr [OF segs_repr_drop [OF sr] this run1]
  have split: "rss = take k rss @ drop k rss" by simp
  have flt: "filter ?P (concat rss) = filter ?P (concat (drop k rss))"
    using skipped_segments [OF sr k] by (subst split, subst concat_append, subst filter_append) simp
  have opn: "open_paths (drop k ?segs) \<subseteq> {seg_logPath (active p)}"
  proof -
    have "s = active p" if "s \<in> set ?segs" "sg_logBuf s \<noteq> None" for s
      using that sealed by (cases ?segs rule: rev_cases) (auto simp: list_all_iff sealed_on_def)
    then show ?thesis by (auto simp: open_paths_def dest: in_set_dropD)
  qed
  then have same: "same_except {seg_logPath (active p)} d d1"
    using rd by (blast intro: same_except_mono)
  have moved: "list_all2 seg_moved ?segs (take k ?segs @ ss1)"
  proof -
    have "list_all2 seg_moved (take k ?segs @ drop k ?segs) (take k ?segs @ ss1)"
      using rd by (intro list_all2_appendI list.rel_refl_strong) auto
    then show ?thesis by simp
  qed
  have "list_all2 (seg_repr d1) (take k ?segs) (take k rss)"
  proof (rule list.rel_mono_strong)
    show "list_all2 (seg_repr d) (take k ?segs) (take k rss)"
      using sr by (auto simp: segs_repr_def intro: list_all2_takeI)
    fix s rs assume s: "s \<in> set (take k ?segs)" "seg_repr d s rs"
    then obtain i where i: "i < k" "s = ?segs ! i" by (auto simp: in_set_conv_nth)
    have "seg_before s (active p)"
      using i k(1) sr ne by (auto simp: last_conv_nth segs_repr_def sorted_wrt_iff_nth_less)
    then have "seg_logPath s \<notin> {seg_logPath (active p)}"
      using sr s ne seg_plain_path_inject [of s "active p"]
      by (auto simp: segs_repr_def list_all_iff seg_before_def dest: in_set_takeD)
    then show "seg_repr d1 s rs" by (rule seg_repr_same [OF s(2) same])
  qed
  then have "list_all2 (seg_repr d1) (take k ?segs @ ss1) (take k rss @ drop k rss)"
    using rd by (intro list_all2_appendI) (auto simp: segs_repr_def)
  then have repr: "part_repr d1 p' rss"
    using part_repr_moved [OF p moved _ same] by (simp add: res(2))
  have ss1: "ss1 \<noteq> []" using rd k(1) by (auto dest: list_all2_lengthD)
  then have act: "active p' = last ss1" "active p' \<in> set ss1" "pl_segments p' \<noteq> []"
    by (simp_all add: res(2))
  have "list_all2 seg_moved (drop k ?segs) ss1" using rd by blast
  then have mv: "seg_moved (last (drop k ?segs)) (last ss1)"
    using ss1 by (cases "drop k ?segs" rule: rev_cases; cases ss1 rule: rev_cases) auto
  have "last (drop k ?segs) = active p" using k(1) by simp
  note sel = seg_moved_sel [OF mv [unfolded this]]
  have "\<forall>s \<in> set ss1. f_append (sg_logFile s) \<or> sg_logBuf s = None
      \<or> length (filter ?P (concat rss)) < nat n \<longrightarrow> at_end d1 s"
    using rd flt by simp
  with act(1,2) sel(8) have "f_append (sg_logFile (active p)) \<or> length (filter ?P (concat rss)) < nat n
      \<longrightarrow> at_end d1 (active p')"
    by simp
  moreover have "r1 = Inr (take (nat n) (filter ?P (concat rss)))"
    using rd flt by simp
  moreover have "part_HighWater p' = part_HighWater p"
    using act sel(2) ne by (simp add: part_HighWater_def)
  ultimately show ?thesis
    using repr sel act(1) by (simp add: res(1,3)) (simp add: res(2))
qed

end
