(* ===== verification/Log_Durability.thy ===== *)
theory Log_Durability
  imports Log_Partition_Inv
begin

text \<open>
  Sync, crash and reopening of a partition log. A crash keeps, of each file, a prefix that contains the
  synced bytes; \<^verbatim>\<open>OpenPartition\<close> then finds every sealed segment as it was and, of the active one, the
  whole frames of the surviving prefix. After \<^verbatim>\<open>Sync\<close> nothing is lost.
\<close>

section \<open>Sync\<close>

lemma Sync_repr:
  assumes p: "part_repr d p rss" and e: "at_end d (active p)" and run: "part_Sync d p = (d', p')"
  shows "part_repr d' p' rss \<and> at_end d' (active p') \<and> part_HighWater p' = part_HighWater p
    \<and> pl_maxBytes p' = pl_maxBytes p
    \<and> map_of d' (seg_logPath (active p')) = Some \<lparr>fl_data = frames (last rss), fl_synced = length (frames (last rss))\<rparr>"
proof -
  from p obtain ss a rss0 rs where sa: "pl_segments p = ss @ [a]" "rss = rss0 @ [rs]"
    and r: "seg_repr d a rs" "fits32 (sg_baseOffset a) rs" "seg_plain a" "sg_logBuf a \<noteq> None"
    by (rule part_repr_cases)
  obtain d1 a1 where fl: "seg_flushIfActive d a = (d1, a1)" by fastforce
  have "at_end d a" using e sa by simp
  note fl1 = flush_repr [OF r(1) this fl]
  have mv: "seg_moved a a1" using fl1(5,6,7) by (simp add: seg_moved_def)
  note sel = seg_moved_sel [OF mv]
  define d2 where "d2 = os_Sync d1 (seg_logPath a)"
  have same: "same_except {seg_logPath a} d d2"
    using fl1(4) by (simp add: d2_def same_except_def map_of_os_Sync)
  have res: "d' = d2" "p' = p\<lparr>pl_segments := ss @ [a1]\<rparr>"
    using run by (auto simp: part_Sync_def sa fl sel d2_def)
  obtain f where f: "map_of d1 (seg_logPath a) = Some f"
    using fl1(1) sel(4) by (auto simp: seg_repr_def)
  then have m: "map_of d2 (seg_logPath a) = Some \<lparr>fl_data = frames rs, fl_synced = length (frames rs)\<rparr>"
    using fl1(3) by (simp add: d2_def map_of_os_Sync file_data_def)
  have "seg_repr d2 a1 rs" "at_end d2 a1"
    using fl1(1,2) f by (simp_all add: seg_repr_def at_end_def d2_def map_of_os_Sync sel)
  moreover have "same_except (insert (seg_logPath a1) (idx_names a1)) d d2"
    by (rule same_except_mono [OF same]) (simp add: sel)
  ultimately have "part_repr d2 p' (rss0 @ [rs])"
    using part_repr_active [OF p [unfolded sa(2)], of d2 a1 rs] r sel by (simp add: sa res(2))
  with \<open>at_end d2 a1\<close> m show ?thesis
    by (simp add: res sa sel part_HighWater_def)
qed

section \<open>Crash\<close>

lemma crash_map_of:
  "crash d d' \<Longrightarrow> rel_option crash_file (map_of d n) (map_of d' n)"
proof (induction d arbitrary: d')
  case (Cons x d)
  obtain m f where x: "x = (m, f)" by (cases x)
  with Cons.prems obtain g d0 where d': "d' = (m, g) # d0" "crash_file f g" "crash d d0"
    by (auto simp: crash_def list_all2_Cons1)
  with Cons.IH [OF d'(3)] show ?case by (simp add: x)
qed (simp add: crash_def)

lemma crash_Some:
  assumes "crash d d'" "map_of d n = Some f"
  shows "\<exists>k \<ge> fl_synced f. map_of d' n = Some \<lparr>fl_data = take k (fl_data f), fl_synced = length (take k (fl_data f))\<rparr>"
  using crash_map_of [OF assms(1), of n] assms(2) by (auto simp: option_rel_Some1 crash_file_def)

lemma crash_None: "crash d d' \<Longrightarrow> map_of d' n = None \<longleftrightarrow> map_of d n = None"
  using crash_map_of [of d d' n] by (cases "map_of d n"; cases "map_of d' n") simp_all

lemma crash_dir_clean: "crash d d' \<Longrightarrow> dir_clean d bases \<Longrightarrow> dir_clean d' bases"
  by (simp add: dir_clean_def crash_None del: not_None_eq)

section \<open>Discovery\<close>

lemma suffix_iff_drop: "suffix xs ys \<longleftrightarrow> length xs \<le> length ys \<and> drop (length ys - length xs) ys = xs"
  by (auto simp: suffix_def intro: exI [of _ "take (length ys - length xs) ys"])
    (metis append_take_drop_id)

lemma names_not_log: "\<not> suffix ''.log'' (segmentIndexName b)" "\<not> suffix ''.log'' (segmentIndexName b @ ''.tmp'')"
  "suffix ''.log'' (segmentLogName b)"
  by (simp_all add: segmentIndexName_def segmentLogName_def suffix_iff_drop)

lemma names_not_compacting:
  "\<not> hasCompactingSuffix (segmentIndexName b)" "\<not> hasCompactingSuffix (segmentIndexName b @ ''.tmp'')"
  "\<not> hasCompactingSuffix (segmentLogName b)"
proof -
  have ting: "drop (length n - 4) n = ''ting''" if "hasCompactingSuffix n" for n
  proof -
    have "length compactingSuffix = 11" by (simp add: compactingSuffix_def)
    then have n: "11 < length n" "drop (length n - 11) n = compactingSuffix"
      using that by (simp_all add: hasCompactingSuffix_def)
    have "drop (length n - 4) n = drop 7 (drop (length n - 11) n)" using n(1) by simp
    then show ?thesis unfolding n(2) by (simp add: compactingSuffix_def)
  qed
  show "\<not> hasCompactingSuffix (segmentIndexName b)" "\<not> hasCompactingSuffix (segmentIndexName b @ ''.tmp'')"
    "\<not> hasCompactingSuffix (segmentLogName b)"
    by (rule notI, drule ting, simp add: segmentIndexName_def segmentLogName_def)+
qed

lemma no_compacting_left:
  assumes "dir_clean d bases" shows "recoverCompactingSegments d = Inr d"
proof -
  have none: "\<not> hasCompactingSuffix n" if "n \<in> set (os_ReadDir d)" for n
  proof -
    have "map_of d n \<noteq> None" using that by (auto simp: os_ReadDir_def map_of_eq_None_iff)
    with assms show ?thesis using names_not_compacting unfolding dir_clean_def by metis
  qed
  have "recover_compacting ns d = Inr d" if "\<forall>n \<in> set ns. \<not> hasCompactingSuffix n" for ns
    using that by (induction ns) simp_all
  with none show ?thesis by (simp add: recoverCompactingSegments_def)
qed

lemma set_collect_bases: "set (collect_bases ns) = {b. \<exists>n \<in> set ns. suffix ''.log'' n \<and> parseBaseOffset n = Inr b}"
  by (induction ns) (auto split: sum.splits)

lemma distinct_collect_bases:
  assumes "distinct ns" "\<forall>n \<in> set ns. suffix ''.log'' n \<longrightarrow> (\<exists>b. parseBaseOffset n = Inr b \<and> n = segmentLogName b)"
  shows "distinct (collect_bases ns)"
  using assms
proof (induction ns)
  case (Cons n ns)
  then show ?case by (auto simp: set_collect_bases split: sum.splits)
qed simp

lemma discoverSegments_clean:
  assumes clean: "dir_clean d (set bs)" and on: "\<forall>b \<in> set bs. int64_ok b \<and> map_of d (segmentLogName b) \<noteq> None"
    and "sorted_wrt (<) bs"
  shows "discoverSegments d = bs"
proof -
  let ?ns = "os_ReadDir d"
  have ns: "n \<in> set ?ns \<longleftrightarrow> map_of d n \<noteq> None" for n
    by (simp add: os_ReadDir_def map_of_eq_None_iff)
  have log: "n \<in> set ?ns \<Longrightarrow> suffix ''.log'' n \<Longrightarrow> \<exists>b \<in> set bs. n = segmentLogName b" for n
    using clean names_not_log unfolding dir_clean_def ns by metis
  have bs: "b \<in> set bs \<Longrightarrow> parseBaseOffset (segmentLogName b) = Inr b" for b
    using on parseBaseOffset_segmentLogName by blast
  have "set (collect_bases ?ns) = set bs"
  proof (intro set_eqI iffI)
    fix b assume "b \<in> set (collect_bases ?ns)"
    then obtain n where n: "n \<in> set ?ns" "suffix ''.log'' n" "parseBaseOffset n = Inr b"
      unfolding set_collect_bases by blast
    from log [OF n(1,2)] obtain c where "c \<in> set bs" "n = segmentLogName c" by blast
    with bs n(3) show "b \<in> set bs" by force
  next
    fix b assume "b \<in> set bs"
    then have "segmentLogName b \<in> set ?ns" "suffix ''.log'' (segmentLogName b)"
      "parseBaseOffset (segmentLogName b) = Inr b"
      using on bs names_not_log(3) by (simp_all add: ns)
    then show "b \<in> set (collect_bases ?ns)"
      unfolding set_collect_bases by blast
  qed
  moreover have "distinct (collect_bases ?ns)"
  proof (rule distinct_collect_bases)
    show "\<forall>n \<in> set ?ns. suffix ''.log'' n \<longrightarrow> (\<exists>b. parseBaseOffset n = Inr b \<and> n = segmentLogName b)"
      using log bs by blast
  qed (simp add: os_ReadDir_def)
  ultimately show ?thesis
    unfolding discoverSegments_def
    using assms(3) by (intro sorted_distinct_set_unique) (auto simp: strict_sorted_iff)
qed

section \<open>Reopening\<close>

definition on_disk :: "dir \<Rightarrow> int \<Rightarrow> Record list \<Rightarrow> bool" where
  "on_disk d b rs \<longleftrightarrow> (\<exists>f. map_of d (segmentLogName b) = Some f \<and> fl_data f = frames rs) \<and> recs_ok b rs"

lemma openSegment_sealed:
  assumes "on_disk d b rs"
  shows "\<exists>s. openSegment d b mb False = Inr (d, s) \<and> seg_repr d s rs \<and> sg_logBuf s = None
    \<and> sg_baseOffset s = b \<and> sg_nameSuffix s = []"
proof -
  from assms obtain f where f: "map_of d (segmentLogName b) = Some f" "fl_data f = frames rs @ []" "recs_ok b rs"
    by (auto simp: on_disk_def)
  have "parse_frame [] = Inl EOF" by (simp add: parse_frame_def)
  from openSegment_repr [OF f this, of False mb] show ?thesis by auto
qed

lemma open_segments_repr:
  assumes "list_all2 (on_disk d) bs rss"
    and f: "map_of d (segmentLogName b) = Some f" "fl_data f = take n (frames rs)" "recs_ok b rs"
  shows "\<exists>d' ss a. open_segments mb (bs @ [b]) d = Inr (d', ss @ [a]) \<and> list_all2 (seg_repr d) ss rss
    \<and> map sg_baseOffset ss = bs \<and> list_all (\<lambda>s. sg_logBuf s = None \<and> sg_nameSuffix s = []) ss
    \<and> seg_repr d' a (whole_frames n rs) \<and> at_end d' a \<and> sg_baseOffset a = b \<and> sg_nameSuffix a = []
    \<and> sg_logBuf a = Some [] \<and> same_except {segmentLogName b} d d'"
  using assms(1)
proof (induction bs rss rule: list_all2_induct)
  case Nil
  from openSegment_crash [OF f, of True mb] obtain d' a where "openSegment d b mb True = Inr (d', a)"
    "seg_repr d' a (whole_frames n rs)" "at_end d' a" "same_except {segmentLogName b} d d'"
    "sg_logBuf a = Some []" "sg_baseOffset a = b" "sg_nameSuffix a = []"
    by auto
  then show ?case by (intro exI [of _ d'] exI [of _ "[]"] exI [of _ a]) simp
next
  case (Cons c bs ts rss)
  from openSegment_sealed [OF Cons(1), of mb] obtain s where s: "openSegment d c mb False = Inr (d, s)"
    "seg_repr d s ts" "sg_logBuf s = None" "sg_baseOffset s = c" "sg_nameSuffix s = []"
    by blast
  from Cons.IH obtain d' ss a where IH: "open_segments mb (bs @ [b]) d = Inr (d', ss @ [a])" "list_all2 (seg_repr d) ss rss"
    "map sg_baseOffset ss = bs" "list_all (\<lambda>s. sg_logBuf s = None \<and> sg_nameSuffix s = []) ss"
    "seg_repr d' a (whole_frames n rs)" "at_end d' a" "sg_baseOffset a = b" "sg_nameSuffix a = []"
    "sg_logBuf a = Some []" "same_except {segmentLogName b} d d'"
    by blast
  then show ?case
    using s by (intro exI [of _ d'] exI [of _ "s # ss"] exI [of _ a]) simp
qed

lemma next_offset_whole:
  assumes "recs_ok base rs" "int64_ok base" "int64_ok (next_offset base rs)"
  shows "int64_ok (next_offset base (whole_frames n rs))" "recs_ok base (whole_frames n rs)"
    "fits32 base rs \<Longrightarrow> fits32 base (whole_frames n rs)"
proof -
  obtain k where k: "whole_frames n rs = take k rs" using whole_frames_prefix by blast
  show ok: "recs_ok base (whole_frames n rs)"
    using recs_ok_append [of base "take k rs" "drop k rs"] assms(1) by (simp add: k)
  show "fits32 base rs \<Longrightarrow> fits32 base (whole_frames n rs)"
    using fits32_append [of base "take k rs" "drop k rs"] by (simp add: k)
  show "int64_ok (next_offset base (whole_frames n rs))"
  proof (cases "whole_frames n rs = []")
    case False
    then have "last (whole_frames n rs) \<in> set (whole_frames n rs)" by (rule last_in_set)
    then have last: "last (whole_frames n rs) \<in> set rs" unfolding k by (rule in_set_takeD)
    then have "r_Offset (last (whole_frames n rs)) < next_offset base rs" "base \<le> r_Offset (last (whole_frames n rs))"
      using recs_below_next [OF assms(1)] assms(1) by (auto simp: recs_ok_def list_all_iff)
    with assms(2,3) False show ?thesis by (auto simp: next_offset_def int64_ok_def)
  qed (simp add: next_offset_def assms)
qed

text \<open>Sealed segments survive a crash whole.\<close>

lemma crash_sealed:
  assumes r: "segs_repr d ss rss" and sl: "list_all (sealed_on d) ss" and c: "crash d d'"
  shows "list_all2 (on_disk d') (map sg_baseOffset ss) rss"
  unfolding list_all2_map1
proof (rule list.rel_mono_strong)
  show "list_all2 (seg_repr d) ss rss" using r by (simp add: segs_repr_def)
  fix s ts assume s: "s \<in> set ss" "seg_repr d s ts"
  have sp: "seg_logPath s = segmentLogName (sg_baseOffset s)"
    using s(1) r by (auto simp: segs_repr_def list_all_iff seg_plain_path)
  obtain g where g: "map_of d (seg_logPath s) = Some g" "fl_synced g = length (fl_data g)" "sg_logBuf s = None"
    using sl s(1) by (auto simp: list_all_iff sealed_on_def)
  from crash_Some [OF c g(1)] g(2) have "map_of d' (seg_logPath s) = Some \<lparr>fl_data = fl_data g, fl_synced = fl_synced g\<rparr>"
    by auto
  then show "on_disk d' (sg_baseOffset s) ts"
    using s(2) g sp by (auto simp: on_disk_def seg_repr_def file_data_def)
qed

lemma segs_bases_sorted:
  assumes "segs_repr d ss rss" "list_all (\<lambda>s. seg_before s a) ss"
  shows "sorted_wrt (<) (map sg_baseOffset ss @ [sg_baseOffset a])"
proof -
  have "sorted_wrt seg_before ss" using assms(1) by (simp add: segs_repr_def)
  then have "sorted_wrt (\<lambda>s t. sg_baseOffset s < sg_baseOffset t) ss"
    by (rule sorted_wrt_mono_rel [rotated]) (simp add: seg_before_def)
  with assms(2) show ?thesis by (auto simp: sorted_wrt_append sorted_wrt_map list_all_iff seg_before_def)
qed

lemma segs_repr_reopened:
  assumes r: "segs_repr d ss rss" and b: "map sg_baseOffset ss2 = map sg_baseOffset ss"
    and q: "list_all2 (seg_repr d') ss2 rss" "list_all (\<lambda>s. sg_logBuf s = None \<and> sg_nameSuffix s = []) ss2"
  shows "segs_repr d' ss2 rss" "list_all (\<lambda>s. seg_before s a) ss \<Longrightarrow> sg_baseOffset a2 = sg_baseOffset a \<Longrightarrow>
    list_all (\<lambda>s. seg_before s a2) ss2"
proof -
  have len: "length ss2 = length ss" "length rss = length ss"
    using b r by (auto simp: segs_repr_def dest: map_eq_imp_length_eq list_all2_lengthD)
  have base: "sg_baseOffset (ss2 ! i) = sg_baseOffset (ss ! i)" if "i < length ss" for i
    using b that len by (metis nth_map)
  have hw: "sg_highWater (ss2 ! i) = sg_highWater (ss ! i)" if i: "i < length ss" for i
  proof -
    have "seg_repr d (ss ! i) (rss ! i)" "seg_repr d' (ss2 ! i) (rss ! i)"
      using r q(1) i len by (auto simp: segs_repr_def list_all2_conv_all_nth)
    then show ?thesis using seg_repr_sums(2) base [OF i] by metis
  qed
  show "segs_repr d' ss2 rss"
    using r q base hw len
    by (auto simp: segs_repr_def list_all2_conv_all_nth sorted_wrt_iff_nth_less seg_before_def list_all_length seg_plain_def)
  show "list_all (\<lambda>s. seg_before s a) ss \<Longrightarrow> sg_baseOffset a2 = sg_baseOffset a \<Longrightarrow>
      list_all (\<lambda>s. seg_before s a2) ss2"
    using base hw len by (simp add: list_all_length seg_before_def)
qed

text \<open>
  Opening a directory with whole sealed segments and the first \<open>n\<close> bytes of the active one's frames.
\<close>

lemma Open_repr:
  assumes r: "segs_repr d0 ss rss0" "list_all (\<lambda>s. seg_before s a) ss" "seg_plain a"
    and a: "recs_ok (sg_baseOffset a) rs" "fits32 (sg_baseOffset a) rs" "sg_highWater a = next_offset (sg_baseOffset a) rs"
    and disk: "list_all2 (on_disk d) (map sg_baseOffset ss) rss0"
      "map_of d (segmentLogName (sg_baseOffset a)) = Some f" "fl_data f = take n (frames rs)"
    and synced: "\<forall>s \<in> set ss. \<exists>g. map_of d (segmentLogName (sg_baseOffset s)) = Some g \<and> fl_synced g = length (fl_data g)"
    and clean: "dir_clean d (insert (sg_baseOffset a) (set (map sg_baseOffset ss)))"
  shows "\<exists>d' p. OpenPartition d mb = Inr (d', p) \<and> part_repr d' p (rss0 @ [whole_frames n rs]) \<and> at_end d' (active p)"
proof -
  let ?b = "sg_baseOffset a" and ?bs = "map sg_baseOffset ss"
  let ?mb = "if mb \<le> 0 then DefaultSegmentBytes else mb"
  from open_segments_repr [OF disk a(1), of ?mb]
  obtain d' ss2 a2 where op: "open_segments ?mb (?bs @ [?b]) d = Inr (d', ss2 @ [a2])"
    "list_all2 (seg_repr d) ss2 rss0" "map sg_baseOffset ss2 = ?bs"
    "list_all (\<lambda>s. sg_logBuf s = None \<and> sg_nameSuffix s = []) ss2" "seg_repr d' a2 (whole_frames n rs)" "at_end d' a2"
    "sg_baseOffset a2 = ?b" "sg_nameSuffix a2 = []" "sg_logBuf a2 = Some []" "same_except {segmentLogName ?b} d d'"
    by auto
  have ints: "int64_ok ?b" "int64_ok (next_offset ?b rs)" using r(3) a(3) by (simp_all add: seg_plain_def)
  have "\<forall>x \<in> set (?bs @ [?b]). int64_ok x \<and> map_of d (segmentLogName x) \<noteq> None"
    using synced disk(2) ints(1) r(1) by (auto simp: segs_repr_def list_all_iff seg_plain_def)
  then have disc: "discoverSegments d = ?bs @ [?b]"
    using clean segs_bases_sorted [OF r(1,2)] by (intro discoverSegments_clean) simp_all
  define p where "p = \<lparr>pl_maxBytes = ?mb, pl_segments = ss2 @ [a2]\<rparr>"
  have opn: "OpenPartition d mb = Inr (d', p)"
    using op(1) by (simp add: OpenPartition_def no_compacting_left [OF clean] disc Let_def p_def)
  note re = segs_repr_reopened [OF r(1) op(3,2,4)]
  have before: "list_all (\<lambda>s. seg_before s a2) ss2" by (rule re(2) [OF r(2) op(7)])
  have plain: "seg_plain a2"
    using next_offset_whole(1) [OF a(1) ints, of n] ints(1) op(7,8) seg_repr_sums(2) [OF op(5)]
    by (simp add: seg_plain_def)
  have same: "same_except (insert (seg_logPath a2) (idx_names a2)) d d'"
    using seg_plain_path(1) [OF plain] op(7) by (intro same_except_mono [OF op(10)]) simp
  note paths = seg_before_paths [OF re(1) plain before]
  have "list_all (sealed_on d) ss2"
  proof (clarsimp simp: list_all_iff)
    fix s assume s: "s \<in> set ss2"
    then have "sg_baseOffset s \<in> set ?bs" unfolding op(3) [symmetric] by simp
    moreover have "seg_plain s" using re(1) s by (simp add: segs_repr_def list_all_iff)
    ultimately show "sealed_on d s"
      using synced op(4) s by (auto simp: sealed_on_def seg_plain_path(1) list_all_iff)
  qed
  then have "part_repr d' p (rss0 @ [whole_frames n rs])"
    using segs_repr_same [OF re(1) same paths] sealed_same [OF _ same paths] op(5,7,9) plain before
      next_offset_whole(3) [OF a(1) ints a(2)] dir_clean_same [OF clean same plain] op(3)
    by (intro part_reprI [of p ss2 a2]) (simp_all add: p_def)
  with opn op(6) show ?thesis by (auto simp: p_def)
qed

lemma Open_after_crash:
  assumes p: "part_repr d p (rss0 @ [rs])" and f: "map_of d (seg_logPath (active p)) = Some f"
    and c: "crash d d'"
  shows "\<exists>n d'' p''. min (fl_synced f) (length (fl_data f)) \<le> n \<and> OpenPartition d' mb = Inr (d'', p'')
    \<and> part_repr d'' p'' (rss0 @ [whole_frames n rs]) \<and> at_end d'' (active p'')"
proof -
  from p obtain ss a where sa: "pl_segments p = ss @ [a]"
    and r: "segs_repr d ss rss0" "seg_repr d a rs" "fits32 (sg_baseOffset a) rs" "seg_plain a"
      "list_all (\<lambda>s. seg_before s a) ss" "list_all (sealed_on d) ss"
      "dir_clean d (insert (sg_baseOffset a) (set (map sg_baseOffset ss)))"
    by (rule part_repr_cases) auto
  let ?b = "sg_baseOffset a"
  have path: "seg_logPath a = segmentLogName ?b" using seg_plain_path [OF r(4)] by simp
  have f': "map_of d (segmentLogName ?b) = Some f" using f sa path by simp
  obtain k where k: "fl_synced f \<le> k" "map_of d' (segmentLogName ?b)
      = Some \<lparr>fl_data = take k (fl_data f), fl_synced = length (take k (fl_data f))\<rparr>"
    using crash_Some [OF c f'] by blast
  define n where "n = min k (length (fl_data f))"
  have "file_data d (seg_logPath a) = fl_data f" using f' path by (simp add: file_data_def)
  then have pre: "frames rs = fl_data f @ (case sg_logBuf a of None \<Rightarrow> [] | Some b \<Rightarrow> b)"
    using r(2) by (simp add: seg_repr_def)
  have data: "take k (fl_data f) = take n (frames rs)"
    unfolding pre by (simp add: n_def min_def)
  have synced: "\<exists>g. map_of d' (segmentLogName (sg_baseOffset s)) = Some g \<and> fl_synced g = length (fl_data g)"
    if s: "s \<in> set ss" for s
  proof -
    have "seg_plain s" using r(1) s by (simp add: segs_repr_def list_all_iff)
    then obtain g where "map_of d (segmentLogName (sg_baseOffset s)) = Some g"
      using r(6) s by (auto simp: sealed_on_def seg_plain_path(1) list_all_iff)
    from crash_Some [OF c this] show ?thesis by fastforce
  qed
  have "recs_ok ?b rs" "sg_highWater a = next_offset ?b rs"
    using r(2) seg_repr_sums(2) by (auto simp: seg_repr_def)
  from Open_repr [OF r(1,5,4) this(1) r(3) this(2) crash_sealed [OF r(1,6) c] k(2)] data synced
    crash_dir_clean [OF c r(7)]
  have "\<exists>d'' p''. OpenPartition d' mb = Inr (d'', p'') \<and> part_repr d'' p'' (rss0 @ [whole_frames n rs])
      \<and> at_end d'' (active p'')"
    by simp
  moreover have "min (fl_synced f) (length (fl_data f)) \<le> n" using k(1) by (simp add: n_def)
  ultimately show ?thesis by blast
qed

end
