(* ===== verification/Log_Retention.thy ===== *)
theory Log_Retention
  imports Log_Partition_Inv
begin

text \<open>
  Retention removes whole segments from the front of the log. \<open>expire\<close> and \<open>shrink\<close> say which, on the
  records alone: time retention drops leading segments whose newest record is older than the cutoff,
  size retention drops leading segments while the log is over budget; neither touches the last one.
\<close>

section \<open>Removing the oldest segment\<close>

lemma seg_remove_run:
  assumes "map_of d (seg_logPath s) \<noteq> None" "seg_logPath s \<noteq> seg_idxPath s"
  shows "\<exists>d'. seg_remove d s = (d', Inr ()) \<and> same_except {seg_logPath s, seg_idxPath s} d d'
    \<and> map_of d' (seg_logPath s) = None \<and> map_of d' (seg_idxPath s) = None"
  using assms by (auto simp: seg_remove_def os_Remove_def Let_def same_except_def split: option.splits)

lemma remove_first:
  assumes p: "part_repr d p (rs # rss)" and s: "pl_segments p = s # ss" "ss \<noteq> []" and e: "at_end d (active p)"
  shows "\<exists>d'. seg_remove d s = (d', Inr ()) \<and> part_repr d' (p\<lparr>pl_segments := ss\<rparr>) rss \<and> at_end d' (last ss)"
proof -
  have sr: "segs_repr d (s # ss) (rs # rss)" using p s by (simp add: part_repr_def)
  then have r: "segs_repr d ss rss" "seg_repr d s rs" "seg_plain s" "list_all (seg_before s) ss"
    by (auto simp: segs_repr_Cons)
  have "seg_logPath s \<noteq> seg_idxPath s" using seg_plain_log_not_idx [OF r(3) r(3)] by (auto simp: idx_names_def)
  then obtain d' where d': "seg_remove d s = (d', Inr ())" "same_except {seg_logPath s, seg_idxPath s} d d'"
    "map_of d' (seg_logPath s) = None"
    using seg_remove_run [of d s] r(2) by (auto simp: seg_repr_def)
  have paths: "seg_logPath t \<notin> {seg_logPath s, seg_idxPath s}" if "t \<in> set ss" for t
  proof -
    have t: "seg_plain t" "sg_baseOffset t \<noteq> sg_baseOffset s"
      using that r(1,4) by (auto simp: segs_repr_def list_all_iff seg_before_def)
    then show ?thesis
      using seg_plain_path_inject [OF t(1) r(3)] seg_plain_log_not_idx [OF t(1) r(3)] by (auto simp: idx_names_def)
  qed
  have "dir_clean d' (set (map sg_baseOffset ss))"
    unfolding dir_clean_def
  proof (intro allI impI)
    fix n assume n: "map_of d' n \<noteq> None"
    then have ne: "n \<noteq> segmentLogName (sg_baseOffset s)" using d'(3) seg_plain_path(1) [OF r(3)] by auto
    have "map_of d n \<noteq> None \<or> n = seg_idxPath s"
      using n same_exceptD [OF d'(2), of n] d'(3) by (metis insertE singletonD)
    then show "(\<exists>b\<in>set (map sg_baseOffset ss). n = segmentLogName b) \<or>
        (\<exists>b. int64_ok b \<and> (n = segmentIndexName b \<or> n = segmentIndexName b @ ''.tmp''))"
    proof
      assume "map_of d n \<noteq> None"
      with p s ne show ?thesis by (auto simp: part_repr_def dir_clean_def)
    next
      assume "n = seg_idxPath s"
      then show ?thesis using seg_plain_path(2) [OF r(3)] r(3) by (auto simp: seg_plain_def)
    qed
  qed
  moreover have "list_all (sealed_on d) (butlast ss)" using p s by (simp add: part_repr_def)
  then have "list_all (sealed_on d') (butlast ss)"
    by (rule sealed_same [OF _ d'(2)]) (auto dest: in_set_butlastD paths)
  moreover have "at_end d' (last ss)"
    using e s paths [of "last ss"] by (intro at_end_same [OF _ d'(2)]) auto
  ultimately show ?thesis
    using d'(1) segs_repr_same [OF r(1) d'(2) paths] p s by (simp add: part_repr_def)
qed

section \<open>Time retention\<close>

fun expire :: "int \<Rightarrow> Record list list \<Rightarrow> Record list list" where
  "expire cutoff (rs # rs' # rss) =
     (if rs = [] \<or> cutoff \<le> r_Timestamp (last rs) then rs # rs' # rss else expire cutoff (rs' # rss))"
| "expire cutoff [rs] = [rs]"
| "expire cutoff [] = []"

lemma read_last:
  assumes "seg_repr d s rs" "at_end d s" "fits32 (sg_baseOffset s) rs" "seg_readFrom d s (sg_highWater s - 1) 1 = (d', s', res)"
  shows "res = Inr (if rs = [] then [] else [last rs])"
proof -
  have hw: "sg_highWater s = next_offset (sg_baseOffset s) rs" by (rule seg_repr_sums(2) [OF assms(1)])
  have "filter (\<lambda>r. sg_highWater s - 1 \<le> r_Offset r) rs = (if rs = [] then [] else [last rs])"
  proof (cases rs rule: rev_cases)
    case (snoc ts t)
    have "\<forall>x \<in> set ts. r_Offset x < r_Offset t"
      using assms(1) snoc by (auto simp: seg_repr_def recs_ok_def sorted_wrt_append)
    then have "filter (\<lambda>r. r_Offset t \<le> r_Offset r) ts = []" by (auto simp: filter_empty_conv)
    then show ?thesis by (simp add: hw snoc next_offset_def)
  qed simp
  then show ?thesis using readFrom_repr [OF assms] by simp
qed

lemma expire_length: "length (expire cutoff rss) \<le> length rss"
  by (induction cutoff rss rule: expire.induct) auto

lemma part_repr_two:
  assumes "part_repr d p (rs # rs' # rss)"
  obtains s t ss where "pl_segments p = s # t # ss" "seg_repr d s rs" "fits32 (sg_baseOffset s) rs" "sealed_on d s"
    "list_all2 (seg_repr d) (t # ss) (rs' # rss)"
proof -
  have l: "list_all2 (seg_repr d) (pl_segments p) (rs # rs' # rss)"
    using assms by (simp add: part_repr_def segs_repr_def)
  then obtain s t ss where "pl_segments p = s # t # ss" by (auto simp: list_all2_Cons2)
  with assms l that [of s t ss] show thesis by (auto simp: part_repr_def segs_repr_def)
qed

lemma part_repr_one: "part_repr d p [rs] \<Longrightarrow> \<exists>s. pl_segments p = [s]"
  by (auto simp: part_repr_def segs_repr_def list_all2_Cons2)

lemma close_sealed: "sg_logBuf s = None \<Longrightarrow> seg_close d s = (d, s)"
  by (simp add: seg_close_def seg_flushIfActive_def)

lemma time_retention_repr:
  assumes "part_repr d p rss" "at_end d (active p)" "time_retention (pl_segments p) d cutoff deleted = (d', ss, n, err)"
  shows "err = None \<and> part_repr d' (p\<lparr>pl_segments := ss\<rparr>) (expire cutoff rss) \<and> at_end d' (last ss)
    \<and> n = deleted + int (length rss - length (expire cutoff rss))"
  using assms
proof (induction cutoff rss arbitrary: d p deleted rule: expire.induct)
  case (1 cutoff rs rs' rss)
  obtain s t ss0 where segs: "pl_segments p = s # t # ss0"
    and r: "seg_repr d s rs" "fits32 (sg_baseOffset s) rs" "sealed_on d s" "list_all2 (seg_repr d) (t # ss0) (rs' # rss)"
    by (rule part_repr_two [OF "1.prems"(1)])
  have e: "at_end d s" using r(3) by (simp add: sealed_on_def at_end_def)
  obtain d1 s1 res where run: "seg_readFrom d s (sg_highWater s - 1) 1 = (d1, s1, res)" by (metis prod.collapse)
  have d1: "d1 = d" using readFrom_sealed [OF _ run] r(3) by (simp add: sealed_on_def)
  have res: "res = Inr (if rs = [] then [] else [last rs])" by (rule read_last [OF r(1) e r(2) run])
  have s1: "seg_moved s s1" "seg_repr d s1 rs"
    using readFrom_repr [OF r(1) e r(2) run] d1 by (auto simp: read_leaves_def seg_moved_def)
  have p1: "part_repr d (p\<lparr>pl_segments := s1 # t # ss0\<rparr>) (rs # rs' # rss)"
    using s1 segs r(4) by (intro part_repr_moved [OF "1.prems"(1)]) (simp_all add: list.rel_refl)
  have e1: "at_end d (last (t # ss0))" using "1.prems"(2) segs by simp
  show ?case
  proof (cases "rs = [] \<or> cutoff \<le> r_Timestamp (last rs)")
    case True
    with "1.prems"(3) segs run d1 res have "d' = d" "ss = s1 # t # ss0" "n = deleted" "err = None"
      by (auto split: if_splits)
    with True p1 e1 show ?thesis by simp
  next
    case False
    have close: "seg_close d s1 = (d, s1)"
      using r(3) seg_moved_sel(7) [OF s1(1)] by (simp add: close_sealed sealed_on_def)
    let ?p2 = "p\<lparr>pl_segments := t # ss0\<rparr>"
    obtain d2 where d2: "seg_remove d s1 = (d2, Inr ())" "part_repr d2 ?p2 (rs' # rss)" "at_end d2 (last (t # ss0))"
      using remove_first [OF p1, of s1 "t # ss0"] e1 by auto
    with "1.prems"(3) segs run d1 res False close
    have rec: "time_retention (pl_segments ?p2) d2 cutoff (deleted + 1) = (d', ss, n, err)" by simp
    from "1.IH" [OF False d2(2) _ rec] d2(3) False expire_length [of cutoff "rs' # rss"] show ?thesis by auto
  qed
next
  case (2 cutoff rs)
  then obtain s where "pl_segments p = [s]" using part_repr_one by blast
  with "2.prems" have "d' = d" "ss = pl_segments p" "n = deleted" "err = None" by auto
  with "2.prems" show ?case by simp
qed (auto simp: part_repr_def segs_repr_def)

section \<open>Size retention\<close>

fun shrink :: "int \<Rightarrow> Record list list \<Rightarrow> Record list list" where
  "shrink maxBytes (rs # rs' # rss) =
     (if maxBytes < int (length (frames (concat (rs # rs' # rss)))) then shrink maxBytes (rs' # rss) else rs # rs' # rss)"
| "shrink maxBytes [rs] = [rs]"
| "shrink maxBytes [] = []"

lemma shrink_length: "length (shrink maxBytes rss) \<le> length rss"
  by (induction maxBytes rss rule: shrink.induct) auto

lemma total_size:
  "list_all2 (seg_repr d) ss rss \<Longrightarrow> (\<Sum>s \<leftarrow> ss. int (sg_size s)) = int (length (frames (concat rss)))"
  by (induction rule: list_all2_induct) (simp_all add: seg_repr_sums(1))

lemma size_retention_repr:
  assumes "part_repr d p rss" "at_end d (active p)" "t = int (length (frames (concat rss)))"
    "size_retention (pl_segments p) d t maxBytes deleted = (d', ss, n, err)"
  shows "err = None \<and> part_repr d' (p\<lparr>pl_segments := ss\<rparr>) (shrink maxBytes rss) \<and> at_end d' (last ss)
    \<and> n = deleted + int (length rss - length (shrink maxBytes rss))"
  using assms
proof (induction maxBytes rss arbitrary: d p deleted t rule: shrink.induct)
  case (1 maxBytes rs rs' rss)
  obtain s u ss0 where segs: "pl_segments p = s # u # ss0" and r: "seg_repr d s rs" "sealed_on d s"
    by (rule part_repr_two [OF "1.prems"(1)])
  show ?case
  proof (cases "maxBytes < t")
    case False
    with "1.prems"(4) segs have "d' = d" "ss = pl_segments p" "n = deleted" "err = None" by auto
    with "1.prems"(1-3) False show ?thesis by simp
  next
    case True
    let ?p2 = "p\<lparr>pl_segments := u # ss0\<rparr>"
    obtain d2 where d2: "seg_remove d s = (d2, Inr ())" "part_repr d2 ?p2 (rs' # rss)" "at_end d2 (last (u # ss0))"
      using remove_first [OF "1.prems"(1) segs] "1.prems"(2) segs by auto
    have "seg_close d s = (d, s)" using r(2) by (simp add: close_sealed sealed_on_def)
    with "1.prems"(4) segs True d2(1)
    have rec: "size_retention (pl_segments ?p2) d2 (t - int (sg_size s)) maxBytes (deleted + 1) = (d', ss, n, err)"
      by simp
    have "t - int (sg_size s) = int (length (frames (concat (rs' # rss))))"
      using "1.prems"(3) seg_repr_sums(1) [OF r(1)] by simp
    from "1.IH" [OF _ d2(2) _ this rec] d2(3) True "1.prems"(3) shrink_length [of maxBytes "rs' # rss"]
    show ?thesis by auto
  qed
next
  case (2 maxBytes rs)
  then obtain s where "pl_segments p = [s]" using part_repr_one by blast
  with "2.prems" have "d' = d" "ss = pl_segments p" "n = deleted" "err = None" by auto
  with "2.prems" show ?case by simp
qed (auto simp: part_repr_def segs_repr_def)

section \<open>The operations\<close>

lemma EnforceTimeRetention_repr:
  assumes p: "part_repr d p rss" "at_end d (active p)" and run: "part_EnforceTimeRetention d p cutoff = (d', p', n, err)"
  shows "err = None \<and> part_repr d' p' (expire cutoff rss) \<and> at_end d' (active p')
    \<and> n = int (length rss - length (expire cutoff rss)) \<and> pl_maxBytes p' = pl_maxBytes p"
proof (cases "length (pl_segments p) \<le> 1")
  case True
  then have "length rss \<le> 1" using p(1) by (auto simp: part_repr_def segs_repr_def dest: list_all2_lengthD)
  then have "expire cutoff rss = rss" by (cases "(cutoff, rss)" rule: expire.cases) auto
  with True run p show ?thesis by (auto simp: part_EnforceTimeRetention_def)
next
  case False
  obtain d1 ss n1 e1 where tr: "time_retention (pl_segments p) d cutoff 0 = (d1, ss, n1, e1)" by (metis prod.collapse)
  with False run have "d' = d1" "p' = p\<lparr>pl_segments := ss\<rparr>" "n = n1" "err = e1"
    by (auto simp: part_EnforceTimeRetention_def)
  with time_retention_repr [OF p tr] show ?thesis by auto
qed

lemma EnforceSizeRetention_repr:
  assumes p: "part_repr d p rss" "at_end d (active p)" and run: "part_EnforceSizeRetention d p maxBytes = (d', p', n, err)"
  shows "err = None \<and> part_repr d' p' (if maxBytes \<le> 0 then rss else shrink maxBytes rss) \<and> at_end d' (active p')
    \<and> n = int (length rss - length (if maxBytes \<le> 0 then rss else shrink maxBytes rss)) \<and> pl_maxBytes p' = pl_maxBytes p"
proof (cases "maxBytes \<le> 0 \<or> length (pl_segments p) \<le> 1")
  case True
  have "length rss = length (pl_segments p)" using p(1) by (auto simp: part_repr_def segs_repr_def dest: list_all2_lengthD)
  then have "length (pl_segments p) \<le> 1 \<Longrightarrow> shrink maxBytes rss = rss"
    by (cases "(maxBytes, rss)" rule: shrink.cases) auto
  with True run p show ?thesis by (auto simp: part_EnforceSizeRetention_def split: if_splits)
next
  case False
  have t: "(\<Sum>s \<leftarrow> pl_segments p. int (sg_size s)) = int (length (frames (concat rss)))"
    using p(1) by (intro total_size [of d]) (simp add: part_repr_def segs_repr_def)
  obtain d1 ss n1 e1 where tr: "size_retention (pl_segments p) d (int (length (frames (concat rss)))) maxBytes 0 = (d1, ss, n1, e1)"
    by (metis prod.collapse)
  with False run t have "d' = d1" "p' = p\<lparr>pl_segments := ss\<rparr>" "n = n1" "err = e1"
    by (auto simp: part_EnforceSizeRetention_def)
  with size_retention_repr [OF p refl tr] False show ?thesis by auto
qed

end
