(* ===== verification/Log_Compact.thy ===== *)
theory Log_Compact
  imports Log_Retention
begin

text \<open>
  Log compaction, \<^verbatim>\<open>broker/internal/log/compact.go\<close>: all sealed segments are rewritten into one that
  holds the latest record of each key. The model streams the sealed segments twice in batches, writes
  the survivors to a \<^verbatim>\<open>.compacting\<close> placeholder, removes the old segments and renames the placeholder.
  \<open>keep_latest\<close> is the meaning of compaction on the records alone.
\<close>

section \<open>Streaming\<close>

definition compactBatchSize :: int where
  "compactBatchSize = 256"

lemma read_loop_above:
  "read_loop content fo n r out = (Inr rs, r') \<Longrightarrow> \<forall>x \<in> set out. fo \<le> r_Offset x \<Longrightarrow> \<forall>x \<in> set rs. fo \<le> r_Offset x"
proof (induction content fo n r out rule: read_loop.induct)
  case (1 content fo n r out)
  show ?case
  proof (cases "n = 0")
    case True
    with "1.prems" show ?thesis by (simp add: read_loop.simps [of content fo 0])
  next
    case n: False
    obtain x r1 where x: "readRecordFrom content r = (x, r1)" by fastforce
    show ?thesis
    proof (cases x)
      case (Inl e)
      with "1.prems" x n show ?thesis
        by (auto simp: read_loop.simps [of content fo n r] split: if_splits)
    next
      case (Inr y)
      obtain rec m where y: "y = (rec, m)" by fastforce
      show ?thesis
      proof (cases "r_Offset rec < fo")
        case True
        with "1.prems" x n Inr y have "read_loop content fo n r1 out = (Inr rs, r')"
          by (simp add: read_loop.simps [of content fo n r])
        from "1.IH"(1) [OF n x [symmetric] Inr y [symmetric] True this] "1.prems"(2) show ?thesis by simp
      next
        case False
        with "1.prems" x n Inr y have "read_loop content fo (n - 1) r1 (out @ [rec]) = (Inr rs, r')"
          by (simp add: read_loop.simps [of content fo n r])
        from "1.IH"(2) [OF n x [symmetric] Inr y [symmetric] False this] "1.prems"(2) False show ?thesis by simp
      qed
    qed
  qed
qed

lemma readFrom_progress:
  assumes "seg_readFrom d s fo n = (d', s', Inr rs)" "rs \<noteq> []"
  shows "fo \<le> r_Offset (last rs)" "fo < sg_highWater s" "sg_highWater s' = sg_highWater s"
proof -
  have hw: "sg_highWater (snd (seg_flushIfActive d s)) = sg_highWater s"
    by (simp add: seg_flushIfActive_def case_prod_beta split: option.splits)
  define fo' where "fo' = (if fo < sg_baseOffset s then sg_baseOffset s else fo)"
  obtain d1 s1 where fl: "seg_flushIfActive d s = (d1, s1)" by fastforce
  from assms show "fo < sg_highWater s" by (auto simp: seg_readFrom_def split: if_splits)
  from assms fl obtain c k r r' where loop: "read_loop c fo' k r [] = (Inr rs, r')"
      "s' = s1\<lparr>sg_logFile := (sg_logFile s1)\<lparr>f_pos := rd_pos r'\<rparr>\<rparr>"
    by (auto simp: seg_readFrom_def fo'_def Let_def split: if_splits prod.splits)
  then show "sg_highWater s' = sg_highWater s" using hw fl by simp
  have "fo' \<le> r_Offset (last rs)" using read_loop_above [OF loop(1)] last_in_set [OF assms(2)] by simp
  then show "fo \<le> r_Offset (last rs)" by (simp add: fo'_def split: if_splits)
qed

lemma readFrom_decreases:
  assumes "(d', s', Inr rs) = seg_readFrom d s fo n" "rs \<noteq> []"
  shows "fo < sg_highWater s \<and> sg_highWater s' - (r_Offset (last rs) + 1) < sg_highWater s - fo"
  using readFrom_progress [OF assms(1) [symmetric] assms(2)] by simp

function stream_segment :: "(Record \<Rightarrow> dir \<times> 'a \<Rightarrow> dir \<times> 'a) \<Rightarrow> segment \<Rightarrow> int \<Rightarrow> dir \<times> 'a
    \<Rightarrow> (dir \<times> 'a) \<times> segment \<times> unit result" where
  "stream_segment fn s cursor (d, a) =
     (case seg_readFrom d s cursor compactBatchSize of
        (d, s, Inl e) \<Rightarrow> ((d, a), s, Inl (ErrWrap ''log: compact read segment'' e))
      | (d, s, Inr batch) \<Rightarrow>
          if length batch = 0 then ((d, a), s, Inr ())
          else stream_segment fn s (r_Offset (last batch) + 1) (foldl (\<lambda>st r. fn r st) (d, a) batch))"
  by pat_completeness auto
termination
  by (relation "measure (\<lambda>(fn, s, cursor, st). nat (sg_highWater s - cursor))")
    (auto dest!: readFrom_decreases)

declare stream_segment.simps [simp del]

primrec streamSealedRecords :: "segment list \<Rightarrow> (Record \<Rightarrow> dir \<times> 'a \<Rightarrow> dir \<times> 'a) \<Rightarrow> dir \<times> 'a
    \<Rightarrow> (dir \<times> 'a) \<times> segment list \<times> unit result" where
  "streamSealedRecords [] fn st = (st, [], Inr ())"
| "streamSealedRecords (s # ss) fn st =
     (case stream_segment fn s (sg_baseOffset s) st of
        (st, s, Inl e) \<Rightarrow> (st, s # ss, Inl e)
      | (st, s, Inr _) \<Rightarrow>
          (case streamSealedRecords ss fn st of (st, ss, res) \<Rightarrow> (st, s # ss, res)))"

section \<open>Compact\<close>

type_synonym latest = "(bytes \<times> int) list"

definition note_latest :: "Record \<Rightarrow> latest \<Rightarrow> latest" where
  "note_latest r latest =
     (if length (gb (r_Key r)) = 0 then latest
      else if r_Value r = None then AList.delete (gb (r_Key r)) latest
      else AList.update (gb (r_Key r)) (r_Offset r) latest)"

definition lowest_offset :: "latest \<Rightarrow> int" where
  "lowest_offset latest = foldl (\<lambda>newBase (_, off). if newBase < 0 \<or> off < newBase then off else newBase) (- 1) latest"

definition rewrite_record :: "latest \<Rightarrow> Record \<Rightarrow> dir \<times> segment \<times> go_error option \<Rightarrow> dir \<times> segment \<times> go_error option" where
  "rewrite_record latest r st =
     (case st of (d, newSeg, err) \<Rightarrow>
        if length (gb (r_Key r)) = 0 then st
        else case map_of latest (gb (r_Key r)) of
               None \<Rightarrow> st
             | Some want \<Rightarrow>
                 if want \<noteq> r_Offset r then st
                 else case seg_append d newSeg r of
                        Inl e \<Rightarrow> (d, newSeg, Some e)
                      | Inr (d, newSeg, _) \<Rightarrow> (d, newSeg, err))"

primrec drop_sealed :: "segment list \<Rightarrow> dir \<Rightarrow> dir \<times> unit result" where
  "drop_sealed [] d = (d, Inr ())"
| "drop_sealed (s # ss) d =
     (let (d, s) = seg_close d s in
      case seg_remove d s of
        (d, Inl e) \<Rightarrow> (d, Inl (ErrWrap ''log: compact remove segment'' e))
      | (d, Inr _) \<Rightarrow> drop_sealed ss d)"

primrec discard_sealed :: "segment list \<Rightarrow> dir \<Rightarrow> dir" where
  "discard_sealed [] d = d"
| "discard_sealed (s # ss) d = (let (d, s) = seg_close d s in discard_sealed ss (fst (seg_remove d s)))"

definition abandon :: "dir \<Rightarrow> segment \<Rightarrow> dir" where
  "abandon d newSeg = (let (d, newSeg) = seg_close d newSeg in fst (seg_remove d newSeg))"

definition part_Compact :: "dir \<Rightarrow> PartitionLog \<Rightarrow> dir \<times> PartitionLog \<times> unit result" where
  "part_Compact d p =
     (if length (pl_segments p) \<le> 1 then (d, p, Inr ())
      else let sealed = butlast (pl_segments p); act = last (pl_segments p) in
        case streamSealedRecords sealed (\<lambda>r (d, latest). (d, note_latest r latest)) (d, []) of
          ((d, _), sealed, Inl e) \<Rightarrow> (d, p\<lparr>pl_segments := sealed @ [act]\<rparr>, Inl e)
        | ((d, latest), sealed, Inr _) \<Rightarrow>
            if length latest = 0 then (discard_sealed sealed d, p\<lparr>pl_segments := [act]\<rparr>, Inr ())
            else let newBase = lowest_offset latest;
                     (d, newSeg) = createSegmentWithSuffix d newBase (pl_maxBytes p) compactingSuffix in
              case streamSealedRecords sealed (rewrite_record latest) (d, newSeg, None) of
                ((d, newSeg, _), sealed, Inl e) \<Rightarrow> (abandon d newSeg, p\<lparr>pl_segments := sealed @ [act]\<rparr>, Inl e)
              | ((d, newSeg, Some e), sealed, Inr _) \<Rightarrow>
                  (abandon d newSeg, p\<lparr>pl_segments := sealed @ [act]\<rparr>, Inl (ErrWrap ''log: compact append'' e))
              | ((d, newSeg, None), sealed, Inr _) \<Rightarrow>
                  (case seg_seal d newSeg of
                     Inl e \<Rightarrow> (abandon d newSeg, p\<lparr>pl_segments := sealed @ [act]\<rparr>, Inl (ErrWrap ''log: compact seal'' e))
                   | Inr (d, newSeg) \<Rightarrow>
                       (case drop_sealed sealed d of
                          (d, Inl e) \<Rightarrow> (d, p\<lparr>pl_segments := sealed @ [act]\<rparr>, Inl e)
                        | (d, Inr _) \<Rightarrow>
                            (case seg_finalize d newSeg of
                               Inl e \<Rightarrow> (d, p\<lparr>pl_segments := sealed @ [act]\<rparr>, Inl e)
                             | Inr (d, newSeg) \<Rightarrow> (d, p\<lparr>pl_segments := [newSeg, act]\<rparr>, Inr ())))))"

section \<open>The meaning of compaction\<close>

text \<open>The records with a key and a value that no later record with the same key follows.\<close>

primrec keep_latest :: "Record list \<Rightarrow> Record list" where
  "keep_latest [] = []"
| "keep_latest (r # rs) =
     (if gb (r_Key r) \<noteq> [] \<and> r_Value r \<noteq> None \<and> (\<forall>x \<in> set rs. gb (r_Key x) \<noteq> gb (r_Key r))
      then r # keep_latest rs else keep_latest rs)"

end
