(* ===== verification/Log_Compact_Inv.thy ===== *)
theory Log_Compact_Inv
  imports Log_Compact
begin

text \<open>
  Compaction keeps exactly the latest record of each key: the keep map of the first pass decides
  \<open>keep_latest\<close>, the second pass writes those records to the placeholder, and the swap leaves a partition
  whose records are the survivors followed by the untouched active segment.
\<close>

section \<open>The keep map\<close>

primrec last_with :: "bytes \<Rightarrow> Record list \<Rightarrow> Record option" where
  "last_with k [] = None"
| "last_with k (r # rs) =
     (case last_with k rs of None \<Rightarrow> if gb (r_Key r) = k then Some r else None | Some x \<Rightarrow> Some x)"

lemma last_with_snoc [simp]: "last_with k (rs @ [r]) = (if gb (r_Key r) = k then Some r else last_with k rs)"
  by (induction rs) auto

lemma last_with_None: "last_with k rs = None \<longleftrightarrow> (\<forall>x \<in> set rs. gb (r_Key x) \<noteq> k)"
  by (induction rs) (auto split: option.splits)

lemma last_with_Some: "last_with k rs = Some x \<Longrightarrow> x \<in> set rs \<and> gb (r_Key x) = k"
  by (induction rs) (auto split: option.splits if_splits)

definition latest_of :: "Record list \<Rightarrow> latest" where
  "latest_of rs = foldl (\<lambda>l r. note_latest r l) [] rs"

lemma map_of_latest_of:
  "k \<noteq> [] \<Longrightarrow> map_of (latest_of rs) k =
     (case last_with k rs of None \<Rightarrow> None | Some r \<Rightarrow> if r_Value r = None then None else Some (r_Offset r))"
  by (induction rs rule: rev_induct) (auto simp: latest_of_def note_latest_def)

lemma latest_of_nonempty_keys: "map_of (latest_of rs) [] = None"
  by (induction rs rule: rev_induct) (auto simp: latest_of_def note_latest_def)

lemma distinct_latest_of: "distinct (map fst (latest_of rs))"
  by (induction rs rule: rev_induct) (auto simp: latest_of_def note_latest_def distinct_update distinct_delete)

definition kept_by :: "latest \<Rightarrow> Record \<Rightarrow> bool" where
  "kept_by l r \<longleftrightarrow> gb (r_Key r) \<noteq> [] \<and> map_of l (gb (r_Key r)) = Some (r_Offset r)"

lemma filter_kept:
  "distinct (map r_Offset rs) \<Longrightarrow> filter (kept_by (latest_of rs)) rs = keep_latest rs"
proof (induction rs)
  case (Cons r rs)
  have "kept_by (latest_of (r # rs)) x \<longleftrightarrow> kept_by (latest_of rs) x" if "x \<in> set rs" for x
  proof -
    have "last_with (gb (r_Key x)) rs \<noteq> None" using that by (auto simp: last_with_None)
    then show ?thesis by (auto simp: kept_by_def map_of_latest_of split: option.splits)
  qed
  then have tl: "filter (kept_by (latest_of (r # rs))) rs = filter (kept_by (latest_of rs)) rs"
    by (intro filter_cong) auto
  have "kept_by (latest_of (r # rs)) r \<longleftrightarrow>
      gb (r_Key r) \<noteq> [] \<and> r_Value r \<noteq> None \<and> (\<forall>x \<in> set rs. gb (r_Key x) \<noteq> gb (r_Key r))"
  proof (cases "last_with (gb (r_Key r)) rs")
    case None
    moreover have "\<forall>x \<in> set rs. gb (r_Key x) \<noteq> gb (r_Key r)" using None by (simp add: last_with_None)
    ultimately show ?thesis by (auto simp: kept_by_def map_of_latest_of split: if_splits)
  next
    case (Some x)
    have x: "x \<in> set rs" "gb (r_Key x) = gb (r_Key r)" using last_with_Some [OF Some] by auto
    with Cons.prems have "r_Offset x \<noteq> r_Offset r" by (force simp: image_iff)
    with x Some show ?thesis by (auto simp: kept_by_def map_of_latest_of split: if_splits)
  qed
  with tl Cons show ?case by simp
qed simp

lemma keep_latest_subset: "set (keep_latest rs) \<subseteq> set rs"
  by (induction rs) auto

lemma set_latest_of:
  assumes "distinct (map r_Offset rs)"
  shows "snd ` set (latest_of rs) = r_Offset ` set (keep_latest rs)"
proof -
  have mem: "(k, v) \<in> set (latest_of rs) \<longleftrightarrow> map_of (latest_of rs) k = Some v" for k v
    using distinct_latest_of by (simp add: map_of_eq_Some_iff)
  have "\<exists>r \<in> set (keep_latest rs). r_Offset r = v" if kv: "(k, v) \<in> set (latest_of rs)" for k v
  proof -
    have k: "k \<noteq> []" using kv mem latest_of_nonempty_keys by fastforce
    then obtain r where r: "last_with k rs = Some r" "r_Offset r = v"
      using kv by (auto simp: mem map_of_latest_of split: option.splits if_splits)
    then have "kept_by (latest_of rs) r" "r \<in> set rs"
      using kv k last_with_Some [OF r(1)] by (auto simp: kept_by_def mem)
    then show ?thesis using r(2) unfolding filter_kept [OF assms, symmetric] by auto
  qed
  moreover have "\<exists>k. (k, r_Offset r) \<in> set (latest_of rs)" if "r \<in> set (keep_latest rs)" for r
    using that unfolding filter_kept [OF assms, symmetric] by (auto simp: mem kept_by_def)
  ultimately show ?thesis by (force simp: image_iff)
qed

lemma lowest_offset_Min:
  assumes "l \<noteq> []" "\<forall>v \<in> snd ` set l. 0 \<le> v"
  shows "lowest_offset l = Min (snd ` set l)"
proof -
  have "foldl (\<lambda>nb (_, off). if nb < 0 \<or> off < nb then off else nb) m l = Min (insert m (snd ` set l))"
    if "0 \<le> m" "\<forall>v \<in> snd ` set l. 0 \<le> v" for m and l :: latest
    using that
  proof (induction l arbitrary: m)
    case (Cons x l)
    have "(if m < 0 \<or> snd x < m then snd x else m) = min m (snd x)" using Cons.prems(1) by auto
    with Cons show ?case by (cases "l = []") (auto simp: case_prod_beta Min_insert min.assoc insert_commute)
  qed simp
  from this [of "snd (hd l)" "tl l"] assms show ?thesis
    by (cases l) (auto simp: lowest_offset_def case_prod_beta)
qed

lemma lowest_latest:
  assumes "sorted_wrt (<) (map r_Offset rs)" "\<forall>r \<in> set rs. 0 \<le> r_Offset r" "keep_latest rs \<noteq> []"
  shows "lowest_offset (latest_of rs) = r_Offset (hd (keep_latest rs))"
proof -
  have d: "distinct (map r_Offset rs)" using assms(1) strict_sorted_iff by auto
  note vals = set_latest_of [OF d]
  have ne: "latest_of rs \<noteq> []" using vals assms(3) by auto
  have "sorted_wrt (<) (map r_Offset (keep_latest rs))"
    unfolding filter_kept [OF d, symmetric] using assms(1) by (simp add: sorted_wrt_map sorted_wrt_filter)
  then have "r_Offset (hd (keep_latest rs)) \<le> r_Offset x" if "x \<in> set (keep_latest rs)" for x
    using that assms(3) by (cases "keep_latest rs") auto
  then have "Min (r_Offset ` set (keep_latest rs)) = r_Offset (hd (keep_latest rs))"
    using assms(3) by (intro Min_eqI) auto
  moreover have "\<forall>v \<in> snd ` set (latest_of rs). 0 \<le> v"
    unfolding vals using assms(2) keep_latest_subset by auto
  ultimately show ?thesis using lowest_offset_Min [OF ne] vals by simp
qed

section \<open>Streaming the sealed segments\<close>

lemma foldl_invariant: "Q st \<Longrightarrow> (\<And>r st. Q st \<Longrightarrow> Q (fn r st)) \<Longrightarrow> Q (foldl (\<lambda>st r. fn r st) st rs)"
  by (induction rs arbitrary: st) auto

lemma seg_moved_trans: "seg_moved s t \<Longrightarrow> seg_moved t u \<Longrightarrow> seg_moved s u"
  by (cases s; cases t; cases u) (simp add: seg_moved_def)

text \<open>
  A sealed segment streamed through \<open>fn\<close>: the fold of \<open>fn\<close> over its records, as long as \<open>fn\<close> leaves the
  segment's own file alone.
\<close>

lemma stream_segment_repr:
  assumes "seg_repr d0 s rs" "sg_logBuf s = None" "fits32 (sg_baseOffset s) rs" "Q (d, a)"
    and step: "\<And>r st. Q st \<Longrightarrow> Q (fn r st)"
    and keeps: "\<And>st. Q st \<Longrightarrow> map_of (fst st) (seg_logPath s) = map_of d0 (seg_logPath s)"
  shows "\<exists>s'. stream_segment fn s cursor (d, a)
      = (foldl (\<lambda>st r. fn r st) (d, a) (filter (\<lambda>r. cursor \<le> r_Offset r) rs), s', Inr ())
    \<and> seg_moved s s' \<and> seg_repr d0 s' rs"
  using assms(1-4) keeps
proof (induction "length (filter (\<lambda>r. cursor \<le> r_Offset r) rs)" arbitrary: s cursor d a rule: less_induct)
  case less
  let ?L = "filter (\<lambda>r. cursor \<le> r_Offset r) rs"
  have "seg_repr d s rs"
    using less.prems(1) less.prems(5) [OF less.prems(4)] by (simp add: seg_repr_def file_data_def)
  moreover have "at_end d s" using less.prems(2) by (simp add: at_end_def)
  moreover obtain d' s' res where run: "seg_readFrom d s cursor compactBatchSize = (d', s', res)"
    by (metis prod.collapse)
  ultimately have rd: "res = Inr (take 256 ?L)" "read_leaves d s rs (length ?L < 256) d' s'"
    using readFrom_repr [of d s rs cursor compactBatchSize] less.prems(3) by (auto simp: compactBatchSize_def)
  have d': "d' = d" by (rule readFrom_sealed [OF less.prems(2) run])
  have moved: "seg_moved s s'" using rd(2) by (simp add: read_leaves_def seg_moved_def)
  note sel = seg_moved_sel [OF moved]
  have buf: "sg_logBuf s' = None" using sel(7) less.prems(2) by simp
  have repr': "seg_repr d0 s' rs"
    using less.prems(1,2) buf moved seg_repr_cong(1) [of d0 s rs s'] by (simp add: seg_moved_def)
  show ?case
  proof (cases "?L = []")
    case True
    with run rd(1) d' moved repr' show ?thesis by (simp add: stream_segment.simps)
  next
    case False
    define n where "n = min 255 (length ?L - 1)"
    have n: "n < length ?L" "take 256 ?L = take (Suc n) ?L" using False by (auto simp: n_def min_def)
    have last: "last (take 256 ?L) = ?L ! n" unfolding n(2) using n(1) by (simp add: take_Suc_conv_app_nth)
    have sorted: "sorted_wrt (<) (map r_Offset rs)" using less.prems(1) by (simp add: seg_repr_def recs_ok_def)
    have rest: "filter (\<lambda>r. r_Offset (?L ! n) + 1 \<le> r_Offset r) rs = drop (Suc n) ?L"
      by (rule filter_after_batch [OF sorted n(1)])
    let ?st = "foldl (\<lambda>st r. fn r st) (d, a) (take (Suc n) ?L)"
    obtain d1 a1 where st: "?st = (d1, a1)" by fastforce
    have Q1: "Q (d1, a1)" using foldl_invariant [of Q, OF less.prems(4) step] unfolding st [symmetric] .
    have "length (drop (Suc n) ?L) < length ?L" using n(1) by simp
    with less.hyps [of "r_Offset (?L ! n) + 1" s' d1 a1] repr' buf less.prems(3) sel Q1 less.prems(5)
    obtain s2 where s2: "stream_segment fn s' (r_Offset (?L ! n) + 1) (d1, a1)
        = (foldl (\<lambda>st r. fn r st) (d1, a1) (drop (Suc n) ?L), s2, Inr ())" "seg_moved s' s2" "seg_repr d0 s2 rs"
      by (auto simp: rest)
    have "stream_segment fn s cursor (d, a) = (foldl (\<lambda>st r. fn r st) (d1, a1) (drop (Suc n) ?L), s2, Inr ())"
      using run rd(1) d' False n(2) last s2(1) st by (simp add: stream_segment.simps [of fn s])
    also have "foldl (\<lambda>st r. fn r st) (d1, a1) (drop (Suc n) ?L) = foldl (\<lambda>st r. fn r st) (d, a) ?L"
      unfolding st [symmetric] foldl_append [symmetric] append_take_drop_id ..
    finally show ?thesis using seg_moved_trans [OF moved s2(2)] s2(3) by auto
  qed
qed

lemma stream_sealed_repr:
  assumes "list_all2 (seg_repr d0) ss rss" "list_all2 (\<lambda>s rs. fits32 (sg_baseOffset s) rs) ss rss"
    "list_all (\<lambda>s. sg_logBuf s = None) ss" "Q st"
    and step: "\<And>r st. Q st \<Longrightarrow> Q (fn r st)"
    and keeps: "\<And>st s. Q st \<Longrightarrow> s \<in> set ss \<Longrightarrow> map_of (fst st) (seg_logPath s) = map_of d0 (seg_logPath s)"
  shows "\<exists>ss'. streamSealedRecords ss fn st = (foldl (\<lambda>st r. fn r st) st (concat rss), ss', Inr ())
    \<and> list_all2 seg_moved ss ss' \<and> list_all2 (seg_repr d0) ss' rss"
  using assms(1-4) keeps
proof (induction ss arbitrary: rss st)
  case (Cons s ss)
  from Cons.prems(1,2) obtain rs rss' where rss: "rss = rs # rss'" and s: "seg_repr d0 s rs" "fits32 (sg_baseOffset s) rs"
    and rest: "list_all2 (seg_repr d0) ss rss'" "list_all2 (\<lambda>s rs. fits32 (sg_baseOffset s) rs) ss rss'"
    by (auto simp: list_all2_Cons1)
  obtain d a where st: "st = (d, a)" by fastforce
  have "filter (\<lambda>r. sg_baseOffset s \<le> r_Offset r) rs = rs"
    using s(1) by (auto simp: seg_repr_def recs_ok_def list_all_iff intro: filter_True)
  moreover have "\<exists>s'. stream_segment fn s (sg_baseOffset s) (d, a)
      = (foldl (\<lambda>st r. fn r st) (d, a) (filter (\<lambda>r. sg_baseOffset s \<le> r_Offset r) rs), s', Inr ())
    \<and> seg_moved s s' \<and> seg_repr d0 s' rs"
    using Cons.prems(3,4,5) s st step by (intro stream_segment_repr [where Q = Q]) auto
  ultimately obtain s' where s': "stream_segment fn s (sg_baseOffset s) st = (foldl (\<lambda>st r. fn r st) st rs, s', Inr ())"
    "seg_moved s s'" "seg_repr d0 s' rs" unfolding st by auto
  have "Q (foldl (\<lambda>st r. fn r st) st rs)" by (rule foldl_invariant [of Q, OF Cons.prems(4) step])
  from Cons.IH [OF rest _ this] Cons.prems(3,5) obtain ss' where
    "streamSealedRecords ss fn (foldl (\<lambda>st r. fn r st) st rs)
       = (foldl (\<lambda>st r. fn r st) (foldl (\<lambda>st r. fn r st) st rs) (concat rss'), ss', Inr ())"
    "list_all2 seg_moved ss ss'" "list_all2 (seg_repr d0) ss' rss'" by auto
  with s' show ?case by (simp add: rss)
qed simp

section \<open>Writing the survivors\<close>

lemma seg_write_same: "same_except {seg_logPath s} d (fst (seg_write d s w))"
  by (simp add: seg_write_def os_Write_def Let_def case_prod_beta same_except_set_data)

lemma seg_append_same:
  assumes "seg_append d s r = Inr (d', s', off)"
  shows "same_except {seg_logPath s} d d' \<and> seg_logPath s' = seg_logPath s"
proof -
  define s1 where "s1 = (if sg_bytesSinceIndex s = 0 \<or> indexIntervalBytes \<le> sg_bytesSinceIndex s
    then s\<lparr>sg_idx := index_add (sg_idx s) (uint32_of (r_Offset r - sg_baseOffset s))
                             (word_of_nat (sg_size s)), sg_bytesSinceIndex := 0\<rparr> else s)"
  from assms obtain buf where buf: "sg_logBuf s = Some buf" by (auto simp: seg_append_def split: option.splits)
  define w where "w = fst (bufio_Write buf (log_encodeRecord [] r))"
  have s1: "seg_logPath s1 = seg_logPath s" by (simp add: s1_def seg_logPath_def)
  have "d' = fst (seg_write d s1 w)" "seg_logPath s' = seg_logPath (snd (seg_write d s1 w))"
    using assms unfolding seg_append_def buf s1_def [symmetric] w_def
    by (auto simp: Let_def case_prod_beta seg_logPath_def)
  then show ?thesis using seg_write_same [of s1 d w] s1 by simp
qed

lemma rewrite_record_kept:
  "rewrite_record l r (d, n, err) =
     (if kept_by l r
      then (case seg_append d n r of Inl e \<Rightarrow> (d, n, Some e) | Inr (d, n, _) \<Rightarrow> (d, n, err)) else (d, n, err))"
  by (auto simp: rewrite_record_def kept_by_def split: option.splits)

lemma rewrite_record_same:
  assumes "same_except {path} d0 (fst st)" "seg_logPath (fst (snd st)) = path"
  shows "same_except {path} d0 (fst (rewrite_record l r st)) \<and> seg_logPath (fst (snd (rewrite_record l r st))) = path"
proof -
  obtain d n err where st: "st = (d, n, err)" by (metis prod.collapse)
  show ?thesis
  proof (cases "seg_append d n r")
    case (Inl e)
    with assms st show ?thesis by (simp add: rewrite_record_kept)
  next
    case (Inr x)
    obtain d' n' off where x: "x = (d', n', off)" by (metis prod.collapse)
    have "same_except {path} d d'" "seg_logPath n' = path"
      using seg_append_same [of d n r d' n' off] Inr x assms(2) st by auto
    with assms st Inr x same_except_trans [of "{path}" d0 d "{path}" d'] show ?thesis
      by (simp add: rewrite_record_kept)
  qed
qed

lemma rewrite_repr:
  assumes "seg_repr d n ks" "at_end d n" "sg_logBuf n \<noteq> None" "list_all frame_fits rs"
    "list_all (\<lambda>r. norm_record r = r) rs" "sorted_wrt (<) (map r_Offset rs)"
    "list_all (\<lambda>r. kept_by l r \<longrightarrow> sg_highWater n \<le> r_Offset r) rs"
  shows "\<exists>d' n'. foldl (\<lambda>st r. rewrite_record l r st) (d, n, None) rs = (d', n', None)
    \<and> seg_repr d' n' (ks @ filter (kept_by l) rs) \<and> at_end d' n' \<and> sg_logBuf n' \<noteq> None
    \<and> same_except {seg_logPath n} d d' \<and> sg_baseOffset n' = sg_baseOffset n \<and> sg_nameSuffix n' = sg_nameSuffix n
    \<and> sg_maxBytes n' = sg_maxBytes n"
  using assms
proof (induction rs arbitrary: d n ks)
  case (Cons r rs)
  show ?case
  proof (cases "kept_by l r")
    case False
    with Cons show ?thesis by (auto simp: rewrite_record_kept)
  next
    case True
    with Cons.prems obtain buf where buf: "sg_logBuf n = Some buf" and f: "frame_fits r" "norm_record r = r"
      and hw: "sg_highWater n \<le> r_Offset r" by auto
    from append_repr [OF Cons.prems(1,2) buf f(1) hw] f(2) obtain d1 n1 where
      run: "seg_append d n r = Inr (d1, n1, r_Offset r)" and n1: "seg_repr d1 n1 (ks @ [r])" "at_end d1 n1"
        "sg_logBuf n1 \<noteq> None" "same_except {seg_logPath n} d d1" "seg_logPath n1 = seg_logPath n"
        "sg_baseOffset n1 = sg_baseOffset n" "sg_nameSuffix n1 = sg_nameSuffix n" "sg_maxBytes n1 = sg_maxBytes n"
      by auto
    have "sg_highWater n1 = r_Offset r + 1" using seg_repr_sums(2) [OF n1(1)] by (simp add: next_offset_def)
    then have "list_all (\<lambda>x. kept_by l x \<longrightarrow> sg_highWater n1 \<le> r_Offset x) rs"
      using Cons.prems(6) by (auto simp: list_all_iff)
    with Cons.IH [OF n1(1,2,3)] Cons.prems obtain d' n' where
      fold: "foldl (\<lambda>st r. rewrite_record l r st) (d1, n1, None) rs = (d', n', None)"
      and r: "seg_repr d' n' ((ks @ [r]) @ filter (kept_by l) rs)" "at_end d' n'" "sg_logBuf n' \<noteq> None"
        "same_except {seg_logPath n1} d1 d'" "sg_baseOffset n' = sg_baseOffset n1"
        "sg_nameSuffix n' = sg_nameSuffix n1" "sg_maxBytes n' = sg_maxBytes n1"
      by auto
    have "same_except {seg_logPath n} d d'"
      using same_except_trans [OF n1(4) r(4)] n1(5) by simp
    with True run fold r n1 show ?thesis
      by (intro exI [of _ d'] exI [of _ n']) (simp add: rewrite_record_kept)
  qed
qed simp

section \<open>The swap\<close>

lemma seal_no_tmp:
  assumes "seg_seal d s = Inr (d', s')" shows "map_of d' (seg_idxPath s @ ''.tmp'') = None"
proof -
  obtain d1 s1 where fl: "seg_flushIfActive d s = (d1, s1)" by fastforce
  have "seg_idxPath s1 = seg_idxPath s"
    using fl by (auto simp: seg_flushIfActive_def seg_idxPath_def Let_def case_prod_beta split: option.splits)
  with assms fl show ?thesis
    by (auto simp: seg_seal_def Let_def seg_persistIndex_def os_Rename_def split: sum.splits option.splits)
qed

definition seg_files :: "segment \<Rightarrow> string set" where
  "seg_files s = {seg_logPath s, seg_idxPath s}"

lemma seg_remove_map:
  "snd (seg_remove d s) = Inr () \<and> map_of (fst (seg_remove d s)) = (\<lambda>m. if m \<in> seg_files s then None else map_of d m)"
  by (auto simp: seg_remove_def os_Remove_def seg_files_def Let_def fun_eq_iff split: option.splits)

lemma discard_sealed_run:
  "list_all (\<lambda>s. sg_logBuf s = None) ss \<Longrightarrow>
   map_of (discard_sealed ss d) = (\<lambda>m. if m \<in> \<Union> (seg_files ` set ss) then None else map_of d m)"
  by (induction ss arbitrary: d) (auto simp: close_sealed seg_remove_map fun_eq_iff)

lemma drop_sealed_run:
  "list_all (\<lambda>s. sg_logBuf s = None) ss \<Longrightarrow> drop_sealed ss d = (discard_sealed ss d, Inr ())"
proof (induction ss arbitrary: d)
  case (Cons s ss)
  obtain d1 x where r: "seg_remove d s = (d1, x)" by fastforce
  with seg_remove_map [of d s] have "x = Inr ()" by simp
  with r Cons show ?case by (simp add: close_sealed)
qed simp

lemma finalize_run:
  assumes "sg_nameSuffix s \<noteq> []" "map_of d (seg_logPath s) = Some f" "map_of d (seg_idxPath s) = Some g"
    "int64_ok (sg_baseOffset s)" and s': "s' = s\<lparr>sg_nameSuffix := []\<rparr>"
  shows "\<exists>d'. seg_finalize d s = Inr (d', s')
    \<and> map_of d' = (\<lambda>m. if m = seg_logPath s' then Some f else if m = seg_idxPath s' then Some g
                        else if m \<in> seg_files s then None else map_of d m)"
proof -
  have ne: "seg_logPath s \<noteq> seg_logPath s'" "seg_idxPath s \<noteq> seg_idxPath s'"
    using assms(1) by (auto simp: s' seg_logPath_def seg_idxPath_def)
  note nm = log_name_not_index_name [OF assms(4) assms(4)]
  have "seg_idxPath s \<noteq> seg_logPath s'" "seg_idxPath s \<noteq> seg_logPath s" "seg_idxPath s' \<noteq> seg_logPath s'"
    "seg_idxPath s' \<noteq> seg_logPath s"
    using nm [of "[]" "sg_nameSuffix s"] nm [of "sg_nameSuffix s" "sg_nameSuffix s"] nm [of "[]" "[]"]
      nm [of "sg_nameSuffix s" "[]"]
    by (simp_all add: s' seg_logPath_def seg_idxPath_def not_sym)
  with assms(1,2,3) ne show ?thesis
    by (simp add: seg_finalize_def Let_def os_Rename_def s' [symmetric] seg_files_def fun_eq_iff)
qed

lemma segs_repr_concat:
  assumes "segs_repr d ss rss"
  shows "sorted_wrt (<) (map r_Offset (concat rss)) \<and> list_all frame_fits (concat rss)
    \<and> list_all (\<lambda>r. norm_record r = r) (concat rss)"
  using assms
proof (induction rss arbitrary: ss)
  case (Cons rs rss)
  then obtain s ss' where ss: "ss = s # ss'" by (auto simp: segs_repr_def list_all2_Cons2)
  note later = later_offsets [of d s ss' rs rss]
  have "recs_ok (sg_baseOffset s) rs" "segs_repr d ss' rss"
    using Cons.prems ss by (auto simp: segs_repr_Cons seg_repr_def)
  with Cons.IH [of ss'] Cons.prems ss later show ?case
    by (auto simp: recs_ok_def sorted_wrt_append)
qed simp

lemma sealed_bounds:
  assumes "segs_repr d ss rss" "list_all (\<lambda>s. seg_before s a) ss" "r \<in> set (concat rss)"
  shows "int64_ok (r_Offset r) \<and> r_Offset r < sg_baseOffset a"
proof -
  from assms(3) obtain zs where "zs \<in> set rss" "r \<in> set zs" by auto
  then obtain i where i: "i < length rss" "r \<in> set (rss ! i)" by (metis in_set_conv_nth)
  then have s: "seg_repr d (ss ! i) (rss ! i)" "i < length ss"
    using assms(1) by (auto simp: segs_repr_def list_all2_conv_all_nth)
  then have "seg_plain (ss ! i)" "seg_before (ss ! i) a" using assms(1,2) by (auto simp: segs_repr_def list_all_length)
  with seg_repr_bounds [OF s(1) i(2)] show ?thesis by (auto simp: seg_plain_def seg_before_def int64_ok_def)
qed

text \<open>
  Replacing the sealed segments \<open>ss\<close> by \<open>ns\<close> (none, or the compacted one) when the directory changes
  accordingly.
\<close>

lemma swap_repr:
  assumes p: "part_repr d p (rss0 @ [rs])" "at_end d (active p)" "pl_segments p = ss @ [a]"
    and ns: "segs_repr d' ns kss" "list_all (sealed_on d') ns" "list_all (\<lambda>s. seg_before s a) ns"
    and keep: "map_of d' (seg_logPath a) = map_of d (seg_logPath a)"
    and files: "\<And>m. map_of d' m \<noteq> None \<Longrightarrow>
      m \<in> \<Union> (seg_files ` set ns) \<or> map_of d m \<noteq> None \<and> m \<notin> \<Union> (seg_files ` set ss)"
  shows "part_repr d' (p\<lparr>pl_segments := ns @ [a]\<rparr>) (kss @ [rs]) \<and> at_end d' a"
proof -
  from p have q: "segs_repr d ss rss0" "seg_repr d a rs" "fits32 (sg_baseOffset a) rs" "seg_plain a"
      "sg_logBuf a \<noteq> None" "dir_clean d (insert (sg_baseOffset a) (set (map sg_baseOffset ss)))"
    by (simp_all add: part_repr_def segs_repr_snoc)
  have same: "same_except (- {seg_logPath a}) d d'" using keep by (simp add: same_except_def)
  have a': "seg_repr d' a rs" "at_end d' a"
    using seg_repr_same [OF q(2) same] at_end_same [OF _ same] p by auto
  have "dir_clean d' (insert (sg_baseOffset a) (set (map sg_baseOffset ns)))"
    unfolding dir_clean_def
  proof (intro allI impI)
    fix m assume m: "map_of d' m \<noteq> None"
    from files [OF m] show "(\<exists>b\<in>insert (sg_baseOffset a) (set (map sg_baseOffset ns)). m = segmentLogName b) \<or>
        (\<exists>b. int64_ok b \<and> (m = segmentIndexName b \<or> m = segmentIndexName b @ ''.tmp''))"
    proof
      assume "m \<in> \<Union> (seg_files ` set ns)"
      then obtain s where s: "s \<in> set ns" "m \<in> seg_files s" by auto
      with ns(1) have "seg_plain s" by (auto simp: segs_repr_def list_all_iff)
      with s show ?thesis by (auto simp: seg_files_def seg_plain_path) (auto simp: seg_plain_def)
    next
      assume m: "map_of d m \<noteq> None \<and> m \<notin> \<Union> (seg_files ` set ss)"
      have "m \<noteq> segmentLogName b" if "b \<in> set (map sg_baseOffset ss)" for b
      proof -
        from that obtain s where s: "s \<in> set ss" "b = sg_baseOffset s" by auto
        then have "seg_plain s" using q(1) by (auto simp: segs_repr_def list_all_iff)
        then show ?thesis using m s by (auto simp: seg_files_def seg_plain_path)
      qed
      moreover have "(\<exists>b\<in>insert (sg_baseOffset a) (set (map sg_baseOffset ss)). m = segmentLogName b) \<or>
          (\<exists>b. int64_ok b \<and> (m = segmentIndexName b \<or> m = segmentIndexName b @ ''.tmp''))"
        using q(6) m unfolding dir_clean_def by blast
      ultimately show ?thesis by blast
    qed
  qed
  then have "part_repr d' (p\<lparr>pl_segments := ns @ [a]\<rparr>) (kss @ [rs])"
    by (intro part_reprI [of _ ns a]) (simp_all add: ns a'(1) q(3,4,5))
  with a'(2) show ?thesis by simp
qed

section \<open>Compact\<close>

definition sealed_repr :: "dir \<Rightarrow> segment list \<Rightarrow> Record list list \<Rightarrow> bool" where
  "sealed_repr d ss rss \<longleftrightarrow> segs_repr d ss rss \<and> list_all (\<lambda>s. sg_logBuf s = None) ss"

lemma first_pass:
  assumes "sealed_repr d ss rss"
  shows "\<exists>ss'. streamSealedRecords ss (\<lambda>r (d, latest). (d, note_latest r latest)) (d, [])
      = ((d, latest_of (concat rss)), ss', Inr ()) \<and> list_all2 seg_moved ss ss' \<and> list_all2 (seg_repr d) ss' rss"
proof -
  let ?fn = "\<lambda>r (d :: dir, latest). (d, note_latest r latest)"
  have fold: "foldl (\<lambda>st r. ?fn r st) (d, l) rs = (d, foldl (\<lambda>l r. note_latest r l) l rs)" for l rs
    by (induction rs arbitrary: l) auto
  from assms have "\<exists>ss'. streamSealedRecords ss ?fn (d, [])
      = (foldl (\<lambda>st r. ?fn r st) (d, []) (concat rss), ss', Inr ())
      \<and> list_all2 seg_moved ss ss' \<and> list_all2 (seg_repr d) ss' rss"
    by (intro stream_sealed_repr [where Q = "\<lambda>st. fst st = d"])
      (auto simp: sealed_repr_def segs_repr_def case_prod_beta)
  then show ?thesis unfolding fold latest_of_def by simp
qed

lemma sealed_moved:
  assumes "sealed_repr d ss rss" "list_all2 seg_moved ss ss'" "list_all2 (seg_repr d) ss' rss"
  shows "sealed_repr d ss' rss" "map sg_baseOffset ss' = map sg_baseOffset ss"
    "\<Union> (seg_files ` set ss') = \<Union> (seg_files ` set ss)"
proof -
  have len: "length ss' = length ss" and nth: "\<And>i. i < length ss \<Longrightarrow> seg_moved (ss ! i) (ss' ! i)"
    using assms(2) by (auto simp: list_all2_conv_all_nth)
  show "sealed_repr d ss' rss"
    using assms segs_repr_moved [of d ss rss ss' d] len seg_moved_sel(7) [OF nth]
    by (auto simp: sealed_repr_def list_all_length)
  show "map sg_baseOffset ss' = map sg_baseOffset ss"
    using len seg_moved_sel(1) [OF nth] by (auto intro: nth_equalityI)
  have "map seg_files ss' = map seg_files ss"
    using len seg_moved_sel(4,6) [OF nth] by (auto intro!: nth_equalityI simp: seg_files_def)
  then have "set (map seg_files ss') = set (map seg_files ss)" by simp
  then show "\<Union> (seg_files ` set ss') = \<Union> (seg_files ` set ss)" by simp
qed

lemma second_pass:
  assumes s: "sealed_repr d ss rss" and l: "l = latest_of (concat rss)" and ks: "ks = keep_latest (concat rss)" "ks \<noteq> []"
    and pos: "\<forall>r \<in> set (concat rss). 0 \<le> r_Offset r" and sfx: "sfx \<noteq> []"
    and fresh: "map_of d (segmentLogName (r_Offset (hd ks)) @ sfx) = None"
    and ok: "int64_ok (r_Offset (hd ks))"
    and run: "createSegmentWithSuffix d (lowest_offset l) mb sfx = (d1, n)"
  shows "\<exists>d2 n2 ss'. streamSealedRecords ss (rewrite_record l) (d1, n, None) = ((d2, n2, None), ss', Inr ())
    \<and> list_all2 seg_moved ss ss' \<and> list_all2 (seg_repr d) ss' rss \<and> seg_repr d2 n2 ks \<and> at_end d2 n2
    \<and> sg_baseOffset n2 = r_Offset (hd ks) \<and> sg_nameSuffix n2 = sfx
    \<and> same_except {seg_logPath n2} d d2"
proof -
  from s have sr: "segs_repr d ss rss" by (simp add: sealed_repr_def)
  note all = segs_repr_concat [OF sr]
  then have dist: "distinct (map r_Offset (concat rss))" using strict_sorted_iff by auto
  have kept: "filter (kept_by l) (concat rss) = ks" unfolding l ks(1) by (rule filter_kept [OF dist])
  have base: "lowest_offset l = r_Offset (hd ks)" unfolding l ks(1)
    using all pos ks by (intro lowest_latest) auto
  from createSegment_repr [OF fresh run [unfolded base]] have n: "seg_repr d1 n []" "at_end d1 n" "sg_logBuf n \<noteq> None"
    "same_except {seg_logPath n} d d1" "sg_baseOffset n = r_Offset (hd ks)" "sg_nameSuffix n = sfx"
    by auto
  have "sorted_wrt (<) (map r_Offset ks)"
    unfolding kept [symmetric] using all by (simp add: sorted_wrt_map sorted_wrt_filter)
  then have low: "r_Offset (hd ks) \<le> r_Offset x" if "x \<in> set ks" for x
    using that by (cases ks) auto
  have "sg_highWater n = r_Offset (hd ks)" using seg_repr_sums(2) [OF n(1)] n(5) by (simp add: next_offset_def)
  with low have hw: "list_all (\<lambda>r. kept_by l r \<longrightarrow> sg_highWater n \<le> r_Offset r) (concat rss)"
    unfolding list_all_iff kept [symmetric] by auto
  from rewrite_repr [OF n(1,2,3) _ _ _ hw] all kept obtain d2 n2 where
    fold: "foldl (\<lambda>st r. rewrite_record l r st) (d1, n, None) (concat rss) = (d2, n2, None)"
    and n2: "seg_repr d2 n2 ks" "at_end d2 n2" "same_except {seg_logPath n} d1 d2"
      "sg_baseOffset n2 = sg_baseOffset n" "sg_nameSuffix n2 = sg_nameSuffix n" by auto
  have path: "seg_logPath n2 = seg_logPath n" using n2(4,5) by (simp add: seg_logPath_def)
  let ?Q = "\<lambda>st :: dir \<times> segment \<times> go_error option. same_except {seg_logPath n} d (fst st) \<and> seg_logPath (fst (snd st)) = seg_logPath n"
  have other: "seg_logPath t \<noteq> seg_logPath n" if "t \<in> set ss" for t
  proof -
    have t: "seg_plain t" using sr that by (auto simp: segs_repr_def list_all_iff)
    then have "length (seg_logPath t) = 24" "length (seg_logPath n) \<noteq> 24"
      using ok n(5,6) sfx by (auto simp: seg_plain_def seg_logPath_def segment_name_length)
    then show ?thesis by auto
  qed
  have "\<exists>ss'. streamSealedRecords ss (rewrite_record l) (d1, n, None)
      = (foldl (\<lambda>st r. rewrite_record l r st) (d1, n, None) (concat rss), ss', Inr ())
      \<and> list_all2 seg_moved ss ss' \<and> list_all2 (seg_repr d) ss' rss"
  proof (rule stream_sealed_repr [where Q = ?Q])
    show "?Q (rewrite_record l r st)" if "?Q st" for r st using that rewrite_record_same by blast
    show "map_of (fst st) (seg_logPath t) = map_of d (seg_logPath t)" if "?Q st" "t \<in> set ss" for st t
      using that other by (auto intro: same_exceptD)
  qed (use s n(4) in \<open>auto simp: sealed_repr_def segs_repr_def\<close>)
  with fold n2 n(5,6) path same_except_trans [OF n(4) n2(3)] show ?thesis by auto
qed

text \<open>The end of a successful rewrite: seal the placeholder, drop the old segments, rename.\<close>

lemma commit_compacted:
  assumes p: "part_repr d p (rss0 @ [rs])" "at_end d (active p)" "pl_segments p = ss0 @ [a]"
    and s: "sealed_repr d ss rss0" "map sg_baseOffset ss = map sg_baseOffset ss0"
      "\<Union> (seg_files ` set ss) = \<Union> (seg_files ` set ss0)"
    and n: "seg_repr d2 n ks" "at_end d2 n" "same_except {seg_logPath n} d d2" "sg_nameSuffix n = compactingSuffix"
      "ks \<noteq> []" "set ks \<subseteq> set (concat rss0)" "sg_baseOffset n = r_Offset (hd ks)" "fits32 (r_Offset (hd ks)) ks"
  shows "\<exists>d3 n3 d4 n4. seg_seal d2 n = Inr (d3, n3) \<and> seg_finalize (discard_sealed ss d3) n3 = Inr (d4, n4)
    \<and> part_repr d4 (p\<lparr>pl_segments := [n4] @ [a]\<rparr>) ([ks] @ [rs]) \<and> at_end d4 a"
proof -
  have q: "segs_repr d ss0 rss0" "seg_plain a" "list_all (\<lambda>s. seg_before s a) ss0" "dir_clean d (insert (sg_baseOffset a) (set (map sg_baseOffset ss0)))"
    using p by (simp_all add: part_repr_def segs_repr_snoc)
  have bnd: "int64_ok (r_Offset r) \<and> r_Offset r < sg_baseOffset a" if "r \<in> set ks" for r
    using sealed_bounds [OF q(1,3)] that n(6) by blast
  have b: "int64_ok (sg_baseOffset n)" using bnd [of "hd ks"] n(5,7) by simp
  obtain d3 n3 g where seal: "seg_seal d2 n = Inr (d3, n3)" and n3: "seg_repr d3 n3 ks" "sg_logBuf n3 = None"
      "n3 = n\<lparr>sg_logBuf := None, sg_logFile := sg_logFile n3\<rparr>" "same_except (insert (seg_logPath n) (idx_names n)) d2 d3"
      "map_of d3 (seg_logPath n) = Some \<lparr>fl_data = frames ks, fl_synced = length (frames ks)\<rparr>"
      "map_of d3 (seg_idxPath n) = Some g"
    using seal_repr [OF n(1,2) b] by auto
  have sel: "seg_logPath n3 = seg_logPath n" "seg_idxPath n3 = seg_idxPath n" "sg_baseOffset n3 = sg_baseOffset n"
      "sg_nameSuffix n3 = compactingSuffix" "seg_files n3 = seg_files n"
    using n(4) by (subst n3(3), simp add: seg_logPath_def seg_idxPath_def seg_files_def)+
  have names: "length (seg_logPath n) = 35" "length (seg_idxPath n) = 35"
    using b n(4) by (simp_all add: seg_logPath_def seg_idxPath_def segment_name_length compactingSuffix_def)
  have plen: "length (seg_logPath t) = 24 \<and> length (seg_idxPath t) = 24" if "seg_plain t" for t
    using that by (simp add: seg_plain_def seg_logPath_def seg_idxPath_def segment_name_length)
  have ssplain: "seg_plain t" if "t \<in> set ss" for t
    using s(1) that by (auto simp: sealed_repr_def segs_repr_def list_all_iff)
  have ph: "seg_files n \<inter> \<Union> (seg_files ` set ss) = {}"
    using names plen ssplain by (fastforce simp: seg_files_def)
  define d3' where "d3' = discard_sealed ss d3"
  have d3': "map_of d3' = (\<lambda>m. if m \<in> \<Union> (seg_files ` set ss) then None else map_of d3 m)"
    unfolding d3'_def using s(1) by (intro discard_sealed_run) (simp add: sealed_repr_def)
  have in_ph: "seg_logPath n \<in> seg_files n" "seg_idxPath n \<in> seg_files n" by (simp_all add: seg_files_def)
  have ph34: "map_of d3' (seg_logPath n) = Some \<lparr>fl_data = frames ks, fl_synced = length (frames ks)\<rparr>"
      "map_of d3' (seg_idxPath n) = Some g"
    using ph in_ph n3(5,6) unfolding d3' by auto
  define n4 where "n4 = n3\<lparr>sg_nameSuffix := []\<rparr>"
  have n4: "sg_baseOffset n4 = sg_baseOffset n" "sg_nameSuffix n4 = []" "sg_highWater n4 = sg_highWater n3"
      "sg_logBuf n4 = None" using sel n3(2) by (simp_all add: n4_def)
  have sfx: "sg_nameSuffix n3 \<noteq> []" by (simp add: sel compactingSuffix_def)
  obtain d4 where fin: "seg_finalize d3' n3 = Inr (d4, n4)"
    and d4: "map_of d4 = (\<lambda>m. if m = seg_logPath n4 then Some \<lparr>fl_data = frames ks, fl_synced = length (frames ks)\<rparr>
       else if m = seg_idxPath n4 then Some g else if m \<in> seg_files n then None else map_of d3' m)"
    using finalize_run [OF sfx ph34 [folded sel(1,2)] b [folded sel(3)] n4_def] unfolding sel(5) by blast
  have hw: "sg_highWater n3 = r_Offset (last ks) + 1"
    using seg_repr_sums(2) [OF n3(1)] n(5) by (simp add: next_offset_def)
  have last: "r_Offset (hd ks) \<le> r_Offset (last ks)"
    using n3(1) n(5,7) sel(3) by (auto simp: seg_repr_def recs_ok_def list_all_iff)
  have before: "seg_before n4 a" "seg_plain n4"
    using hw last bnd [of "last ks"] bnd [of "hd ks"] q(2) n(5,7) n4 by (auto simp: seg_before_def seg_plain_def int64_ok_def)
  have "seg_repr d4 n4 ks"
    using n3(1,2) n4(4) unfolding seg_repr_def d4 file_data_def by (simp add: n4_def file_data_def)
  then have ns: "segs_repr d4 [n4] [ks]" using before n(7,8) n4(1) by (simp add: segs_repr_def)
  have sealed: "list_all (sealed_on d4) [n4]" using n4(4) by (simp add: sealed_on_def d4)
  have tmp: "map_of d3 (seg_idxPath n @ ''.tmp'') = None" by (rule seal_no_tmp [OF seal])
  have old: "map_of d3 m = map_of d m" if "m \<notin> seg_files n" "m \<noteq> seg_idxPath n @ ''.tmp''" for m
    using that same_exceptD [OF n3(4), of m] same_exceptD [OF n(3), of m] by (simp add: seg_files_def idx_names_def)
  then have old': "map_of d m \<noteq> None" if "map_of d3 m \<noteq> None" "m \<notin> seg_files n" for m
    using that tmp by metis
  have alog: "seg_logPath a \<notin> seg_files n" "seg_logPath a \<noteq> seg_idxPath n @ ''.tmp''"
    using plen [OF q(2)] names by (auto simp: seg_files_def dest: arg_cong [where f = length])
  have "seg_logPath a \<noteq> seg_logPath n4" "seg_logPath a \<noteq> seg_idxPath n4"
    using seg_plain_path_inject [OF q(2) before(2)] seg_plain_log_not_idx [OF q(2) before(2)] before(1)
    by (auto simp: seg_before_def idx_names_def)
  moreover have "seg_logPath a \<notin> \<Union> (seg_files ` set ss)"
    unfolding s(3) using seg_before_paths [OF q(1,2,3)] q(1,2) seg_plain_log_not_idx
    by (fastforce simp: seg_files_def idx_names_def segs_repr_def list_all_iff)
  ultimately have keep: "map_of d4 (seg_logPath a) = map_of d (seg_logPath a)"
    using alog old by (simp add: d4 d3')
  have "part_repr d4 (p\<lparr>pl_segments := [n4] @ [a]\<rparr>) ([ks] @ [rs]) \<and> at_end d4 a"
  proof (rule swap_repr [OF p ns sealed _ keep])
    show "m \<in> \<Union> (seg_files ` set [n4]) \<or> map_of d m \<noteq> None \<and> m \<notin> \<Union> (seg_files ` set ss0)"
      if "map_of d4 m \<noteq> None" for m
      using that old' [of m] unfolding d4 d3' s(3) by (auto simp: seg_files_def split: if_splits)
  qed (simp add: before)
  with seal fin show ?thesis unfolding d3'_def by blast
qed

lemma Compact_repr:
  assumes p: "part_repr d p (rss0 @ [rs])" "at_end d (active p)"
    and pos: "\<forall>r \<in> set (concat rss0). 0 \<le> r_Offset r"
    and ks: "ks = keep_latest (concat rss0)" "ks \<noteq> [] \<Longrightarrow> fits32 (r_Offset (hd ks)) ks"
  shows "\<exists>d' p'. part_Compact d p = (d', p', Inr ()) \<and> part_repr d' p' ((if ks = [] then [] else [ks]) @ [rs])
    \<and> at_end d' (active p') \<and> active p' = active p \<and> pl_maxBytes p' = pl_maxBytes p"
proof -
  obtain ss a where sa: "pl_segments p = ss @ [a]"
    using p(1) by (cases "pl_segments p" rule: rev_cases) (auto simp: part_repr_def)
  have q: "segs_repr d ss rss0" "seg_plain a" "list_all (\<lambda>s. seg_before s a) ss" "list_all (sealed_on d) ss"
      "dir_clean d (insert (sg_baseOffset a) (set (map sg_baseOffset ss)))"
    using p(1) by (simp_all add: part_repr_def segs_repr_snoc sa)
  have sealed: "sealed_repr d ss rss0" using q by (auto simp: sealed_repr_def list_all_iff sealed_on_def)
  show ?thesis
  proof (cases "ss = []")
    case True
    with q(1) have "rss0 = []" by (simp add: segs_repr_def)
    with True p ks(1) sa show ?thesis by (simp add: part_Compact_def)
  next
    case False
    then have len: "\<not> length (pl_segments p) \<le> 1" using sa by (cases ss) auto
    obtain ss1 where one: "streamSealedRecords ss (\<lambda>r (d, latest). (d, note_latest r latest)) (d, [])
        = ((d, latest_of (concat rss0)), ss1, Inr ())" "list_all2 seg_moved ss ss1" "list_all2 (seg_repr d) ss1 rss0"
      using first_pass [OF sealed] by auto
    note m1 = sealed_moved [OF sealed one(2,3)]
    have dist: "distinct (map r_Offset (concat rss0))" using segs_repr_concat [OF q(1)] strict_sorted_iff by auto
    have empty: "latest_of (concat rss0) = [] \<longleftrightarrow> ks = []" using set_latest_of [OF dist] ks(1) by auto
    show ?thesis
    proof (cases "ks = []")
      case True
      let ?d = "discard_sealed ss1 d"
      have buf: "list_all (\<lambda>s. sg_logBuf s = None) ss1" using m1(1) by (simp add: sealed_repr_def)
      have "seg_logPath a \<notin> \<Union> (seg_files ` set ss)"
        using seg_before_paths [OF q(1,2,3)] q(1,2) seg_plain_log_not_idx
        by (fastforce simp: seg_files_def idx_names_def segs_repr_def list_all_iff)
      then have "part_repr ?d (p\<lparr>pl_segments := [] @ [a]\<rparr>) ([] @ [rs]) \<and> at_end ?d a"
        by (intro swap_repr [OF p sa])
          (auto simp: discard_sealed_run [OF buf] m1(3) segs_repr_def split: if_splits)
      moreover have "part_Compact d p = (?d, p\<lparr>pl_segments := [a]\<rparr>, Inr ())"
        using len sa one(1) True empty by (simp add: part_Compact_def)
      ultimately show ?thesis using True sa by simp
    next
      case kne: False
      have sub: "set ks \<subseteq> set (concat rss0)" using keep_latest_subset ks(1) by blast
      then have ok: "int64_ok (r_Offset (hd ks))" using sealed_bounds [OF q(1,3)] kne by (meson hd_in_set subsetD)
      have len35: "length (segmentLogName (r_Offset (hd ks)) @ compactingSuffix) = 35"
        using ok by (simp add: segment_name_length compactingSuffix_def)
      have fresh: "map_of d (segmentLogName (r_Offset (hd ks)) @ compactingSuffix) = None"
      proof (rule ccontr)
        assume "map_of d (segmentLogName (r_Offset (hd ks)) @ compactingSuffix) \<noteq> None"
        with q(5) obtain b where "segmentLogName (r_Offset (hd ks)) @ compactingSuffix \<in>
            {segmentLogName b, segmentIndexName b, segmentIndexName b @ ''.tmp''}" and "int64_ok b"
          using q(1,2) by (fastforce simp: dir_clean_def segs_repr_def list_all_iff seg_plain_def)
        with len35 show False by (auto simp: segment_name_length dest: arg_cong [where f = length])
      qed
      let ?l = "latest_of (concat rss0)"
      obtain d1 n where create: "createSegmentWithSuffix d (lowest_offset ?l) (pl_maxBytes p) compactingSuffix = (d1, n)"
        by fastforce
      have "compactingSuffix \<noteq> []" by (simp add: compactingSuffix_def)
      from second_pass [OF m1(1) refl ks(1) kne pos this fresh ok create] obtain d2 n2 ss2 where
        two: "streamSealedRecords ss1 (rewrite_record ?l) (d1, n, None) = ((d2, n2, None), ss2, Inr ())"
          "list_all2 seg_moved ss1 ss2" "list_all2 (seg_repr d) ss2 rss0"
        and n2: "seg_repr d2 n2 ks" "at_end d2 n2" "sg_baseOffset n2 = r_Offset (hd ks)"
          "sg_nameSuffix n2 = compactingSuffix" "same_except {seg_logPath n2} d d2"
        by auto
      note m2 = sealed_moved [OF m1(1) two(2,3)]
      from commit_compacted [OF p sa m2(1) _ _ n2(1,2,5,4) kne sub n2(3) ks(2) [OF kne]] m1 m2
      obtain d3 n3 d4 n4 where fin: "seg_seal d2 n2 = Inr (d3, n3)" "seg_finalize (discard_sealed ss2 d3) n3 = Inr (d4, n4)"
        "part_repr d4 (p\<lparr>pl_segments := [n4] @ [a]\<rparr>) ([ks] @ [rs])" "at_end d4 a" by auto
      have "drop_sealed ss2 d3 = (discard_sealed ss2 d3, Inr ())"
        using m2(1) by (intro drop_sealed_run) (simp add: sealed_repr_def)
      with len sa one(1) kne empty create two(1) fin(1,2)
      have "part_Compact d p = (d4, p\<lparr>pl_segments := [n4, a]\<rparr>, Inr ())" by (simp add: part_Compact_def)
      with fin(3,4) kne sa show ?thesis by simp
    qed
  qed
qed

end
