(* ===== verification/Log_Properties.thy ===== *)
theory Log_Properties
  imports Log_Durability Log_Compact_Inv
begin

text \<open>
  The properties of the storage engine (\<^verbatim>\<open>broker/internal/log\<close>). \<open>log_spec\<close> is the contract of a partition
  log on the records alone, segment by segment; every sequence of operations on a new partition is a
  run of that contract, and what a crash leaves of it is recovered by the next open.
\<close>

section \<open>Contract\<close>

datatype log_op = LAppend Record | LRead int int | LSync | LExpire int | LShrink int | LCompact

datatype log_out = Out_Offset int | Out_Records "Record list" | Out_Done | Out_Deleted int | Out_Error go_error

definition log_exec :: "log_op \<Rightarrow> dir \<times> PartitionLog \<Rightarrow> log_out \<times> dir \<times> PartitionLog" where
  "log_exec lop s =
     (case lop of
        LAppend r \<Rightarrow>
          (case part_Append (fst s) (snd s) r of
             Inl e \<Rightarrow> (Out_Error e, s) | Inr (d, p, off) \<Rightarrow> (Out_Offset off, d, p))
      | LRead fo n \<Rightarrow>
          (case part_Read (fst s) (snd s) fo n of
             (d, p, Inl e) \<Rightarrow> (Out_Error e, d, p) | (d, p, Inr rs) \<Rightarrow> (Out_Records rs, d, p))
      | LSync \<Rightarrow> (Out_Done, part_Sync (fst s) (snd s))
      | LExpire cutoff \<Rightarrow>
          (case part_EnforceTimeRetention (fst s) (snd s) cutoff of
             (d, p, n, Some e) \<Rightarrow> (Out_Error e, d, p) | (d, p, n, None) \<Rightarrow> (Out_Deleted n, d, p))
      | LShrink maxBytes \<Rightarrow>
          (case part_EnforceSizeRetention (fst s) (snd s) maxBytes of
             (d, p, n, Some e) \<Rightarrow> (Out_Error e, d, p) | (d, p, n, None) \<Rightarrow> (Out_Deleted n, d, p))
      | LCompact \<Rightarrow>
          (case part_Compact (fst s) (snd s) of
             (d, p, Inl e) \<Rightarrow> (Out_Error e, d, p) | (d, p, Inr _) \<Rightarrow> (Out_Done, d, p)))"

text \<open>The 32-bit index of the segment that compaction builds does not wrap.\<close>

definition compact_fits :: "PartitionLog \<Rightarrow> bool" where
  "compact_fits p \<longleftrightarrow> (\<Sum>s \<leftarrow> butlast (pl_segments p). int (sg_size s)) < 2 ^ 32
     \<and> part_HighWater p - sg_baseOffset (hd (pl_segments p)) < 2 ^ 32"

definition op_fits :: "log_op \<Rightarrow> PartitionLog \<Rightarrow> bool" where
  "op_fits lop p = (case lop of LAppend r \<Rightarrow> append_fits p r | LCompact \<Rightarrow> compact_fits p | _ \<Rightarrow> True)"

fun log_run :: "log_op list \<Rightarrow> dir \<times> PartitionLog \<Rightarrow> log_out list \<times> dir \<times> PartitionLog" where
  "log_run [] s = ([], s)"
| "log_run (lop # ops) s = (let (out, s) = log_exec lop s; (outs, s) = log_run ops s in (out # outs, s))"

fun run_fits :: "log_op list \<Rightarrow> dir \<times> PartitionLog \<Rightarrow> bool" where
  "run_fits [] s \<longleftrightarrow> True"
| "run_fits (lop # ops) s \<longleftrightarrow> op_fits lop (snd s) \<and> run_fits ops (snd (log_exec lop s))"

inductive log_spec :: "Record list list \<Rightarrow> log_op \<Rightarrow> log_out \<Rightarrow> Record list list \<Rightarrow> bool" where
  spec_append: "concat rss' = concat rss @ [norm_record r] \<Longrightarrow> log_spec rss (LAppend r) (Out_Offset (r_Offset r)) rss'"
| spec_read: "log_spec rss (LRead fo n) (Out_Records (take (nat n) (filter (\<lambda>r. fo \<le> r_Offset r) (concat rss)))) rss"
| spec_sync: "log_spec rss LSync Out_Done rss"
| spec_expire: "rss' = expire cutoff rss \<Longrightarrow> log_spec rss (LExpire cutoff) (Out_Deleted (int (length rss - length rss'))) rss'"
| spec_shrink: "rss' = (if maxBytes \<le> 0 then rss else shrink maxBytes rss)
    \<Longrightarrow> log_spec rss (LShrink maxBytes) (Out_Deleted (int (length rss - length rss'))) rss'"
| spec_compact: "ks = keep_latest (concat rss0)
    \<Longrightarrow> log_spec (rss0 @ [rs]) LCompact Out_Done ((if ks = [] then [] else [ks]) @ [rs])"

inductive_cases log_spec_append: "log_spec rss (LAppend r) out rss'"
inductive_cases log_spec_read: "log_spec rss (LRead fo n) out rss'"
inductive_cases log_spec_compact: "log_spec rss LCompact out rss'"

inductive spec_run :: "Record list list \<Rightarrow> log_op list \<Rightarrow> log_out list \<Rightarrow> Record list list \<Rightarrow> bool" where
  spec_done: "spec_run rss [] [] rss"
| spec_more: "log_spec rss lop out rss' \<Longrightarrow> spec_run rss' ops outs rss'' \<Longrightarrow> spec_run rss (lop # ops) (out # outs) rss''"

section \<open>Simulation\<close>

definition log_inv :: "dir \<times> PartitionLog \<Rightarrow> Record list list \<Rightarrow> bool" where
  "log_inv s rss \<longleftrightarrow> part_repr (fst s) (snd s) rss \<and> at_end (fst s) (active (snd s))
     \<and> f_append (sg_logFile (active (snd s))) \<and> 0 \<le> part_HighWater (snd s)
     \<and> (\<forall>r \<in> set (concat rss). 0 \<le> r_Offset r)"

lemma Open_new: "\<exists>s. OpenPartition [] mb = Inr s \<and> log_inv s [[]]"
proof -
  let ?mb = "if mb \<le> 0 then DefaultSegmentBytes else mb"
  obtain d s where run: "createSegmentWithSuffix [] 0 ?mb [] = (d, s)" by fastforce
  from createSegment_repr [OF _ run] have s: "seg_repr d s []" "at_end d s" "sg_logBuf s = Some []"
      "f_append (sg_logFile s)" "same_except {segmentLogName 0} [] d" "sg_baseOffset s = 0" "sg_nameSuffix s = []"
    by auto
  have hw: "sg_highWater s = 0" using seg_repr_sums(2) [OF s(1)] s(6) by (simp add: next_offset_def)
  have "dir_clean d {0}"
    using same_exceptD [OF s(5)] by (fastforce simp: dir_clean_def)
  then have "part_repr d \<lparr>pl_maxBytes = ?mb, pl_segments = [s]\<rparr> ([] @ [[]])"
    using s hw by (intro part_reprI [of _ "[]" s]) (simp_all add: segs_repr_def fits32_def seg_plain_def int64_ok_def)
  moreover have "OpenPartition [] mb = Inr (d, \<lparr>pl_maxBytes = ?mb, pl_segments = [s]\<rparr>)"
    using run by (simp add: OpenPartition_def recoverCompactingSegments_def os_ReadDir_def discoverSegments_def
        createSegment_def Let_def)
  ultimately show ?thesis using s hw by (simp add: log_inv_def part_HighWater_def)
qed

lemma time_retention_last:
  "ss \<noteq> [] \<Longrightarrow> time_retention ss d cutoff n = (d', ss', n', err) \<Longrightarrow> ss' \<noteq> [] \<and> last ss' = last ss"
  by (induction ss d cutoff n arbitrary: d' ss' n' err rule: time_retention.induct)
    (auto simp: Let_def split: prod.splits sum.splits if_splits)

lemma size_retention_last:
  "ss \<noteq> [] \<Longrightarrow> size_retention ss d t mb n = (d', ss', n', err) \<Longrightarrow> ss' \<noteq> [] \<and> last ss' = last ss"
  by (induction ss d t mb n arbitrary: d' ss' n' err rule: size_retention.induct)
    (auto simp: Let_def split: prod.splits sum.splits if_splits)

lemma retention_active:
  assumes "pl_segments p \<noteq> []"
  shows "part_EnforceTimeRetention d p cutoff = (d', p', n, err) \<Longrightarrow> pl_segments p' \<noteq> [] \<and> active p' = active p"
    "part_EnforceSizeRetention d p mb = (d', p', n, err) \<Longrightarrow> pl_segments p' \<noteq> [] \<and> active p' = active p"
  using assms time_retention_last [OF assms] size_retention_last [OF assms]
  by (auto simp: part_EnforceTimeRetention_def part_EnforceSizeRetention_def Let_def split: prod.splits if_splits)

lemma expire_subset: "set (concat (expire cutoff rss)) \<subseteq> set (concat rss)"
  by (induction cutoff rss rule: expire.induct) auto

lemma shrink_subset: "set (concat (shrink mb rss)) \<subseteq> set (concat rss)"
  by (induction mb rss rule: shrink.induct) auto

lemma Sync_append:
  "part_Sync d p = (d', p') \<Longrightarrow> f_append (sg_logFile (active p')) = f_append (sg_logFile (active p))"
  by (auto simp: part_Sync_def seg_flushIfActive_def Let_def case_prod_beta split: if_splits option.splits)

lemma part_HighWater_active: "pl_segments p \<noteq> [] \<Longrightarrow> part_HighWater p = sg_highWater (active p)"
  by (simp add: part_HighWater_def)

lemma part_repr_nonempty: "part_repr d p rss \<Longrightarrow> pl_segments p \<noteq> []"
  by (simp add: part_repr_def)

lemma length_frames_keep: "length (frames (keep_latest rs)) \<le> length (frames rs)"
  by (induction rs) auto

lemma compact_fits32:
  assumes p: "part_repr d p (rss0 @ [rs])" and fits: "compact_fits p" and ks: "ks = keep_latest (concat rss0)" "ks \<noteq> []"
  shows "fits32 (r_Offset (hd ks)) ks"
proof -
  obtain ss a where sa: "pl_segments p = ss @ [a]"
    using p by (cases "pl_segments p" rule: rev_cases) (auto simp: part_repr_def)
  have q: "segs_repr d ss rss0" "list_all (\<lambda>s. seg_before s a) ss" "seg_repr d a rs"
    using p by (simp_all add: part_repr_def segs_repr_snoc sa)
  have "int (length (frames (concat rss0))) < 2 ^ 32"
    using total_size [of d ss rss0] q(1) fits by (simp add: compact_fits_def sa segs_repr_def)
  then have len: "length (frames ks) < 2 ^ 32" using length_frames_keep [of "concat rss0"] ks(1) by simp
  have sub: "set ks \<subseteq> set (concat rss0)" using keep_latest_subset ks(1) by blast
  have "ss \<noteq> []" using sub ks(2) q(1) by (cases ss) (auto simp: segs_repr_def)
  then have hd: "hd (pl_segments p) = hd ss" by (simp add: sa)
  have low: "sg_baseOffset (hd ss) \<le> r_Offset r" if "r \<in> set (concat rss0)" for r
  proof -
    obtain s ss' rs' rss' where eq: "ss = s # ss'" "rss0 = rs' # rss'"
      using q(1) \<open>ss \<noteq> []\<close> by (cases ss) (auto simp: segs_repr_def list_all2_Cons1)
    show ?thesis
    proof (cases "r \<in> set rs'")
      case True
      with q(1) eq show ?thesis using seg_repr_bounds(1) [of d s rs' r] by (simp add: segs_repr_Cons)
    next
      case False
      with that eq obtain zs where zs: "zs \<in> set rss'" "r \<in> set zs" by auto
      then obtain i where i: "i < length rss'" "r \<in> set (rss' ! i)" by (metis in_set_conv_nth)
      then have "seg_repr d (ss' ! i) (rss' ! i)" "seg_before s (ss' ! i)"
        using q(1) unfolding eq segs_repr_Cons by (auto simp: segs_repr_def list_all2_conv_all_nth list_all_length)
      then show ?thesis using seg_repr_bounds(1) [of d "ss' ! i" "rss' ! i" r] i(2) eq by (simp add: seg_before_def)
    qed
  qed
  have "sg_baseOffset a \<le> part_HighWater p"
    using seg_repr_sums(2) [OF q(3)] q(3) sa
    by (cases rs rule: rev_cases) (auto simp: part_HighWater_def next_offset_def seg_repr_def recs_ok_def)
  moreover have "part_HighWater p - sg_baseOffset (hd ss) < 2 ^ 32" using fits hd by (simp add: compact_fits_def)
  moreover have "hd ks \<in> set (concat rss0)" using sub ks(2) by (meson hd_in_set subsetD)
  ultimately have "r_Offset r - r_Offset (hd ks) < 2 ^ 32" if "r \<in> set ks" for r
    using sealed_bounds [OF q(1,2), of r] low [of "hd ks"] that sub by (smt (verit) subsetD)
  with len show ?thesis by (simp add: fits32_def list_all_iff)
qed

lemma exec_refines:
  assumes inv: "log_inv s rss" and fits: "op_fits lop (snd s)"
  shows "\<exists>rss'. log_spec rss lop (fst (log_exec lop s)) rss' \<and> log_inv (snd (log_exec lop s)) rss'"
proof -
  obtain d p where s: "s = (d, p)" by fastforce
  have r: "part_repr d p rss" "at_end d (active p)" "f_append (sg_logFile (active p))" "0 \<le> part_HighWater p"
      "\<forall>r \<in> set (concat rss). 0 \<le> r_Offset r"
    using inv by (simp_all add: log_inv_def s)
  note ne = part_repr_nonempty [OF r(1)]
  show ?thesis
  proof (cases lop)
    case (LAppend x)
    with fits have "append_fits p x" by (simp add: op_fits_def s)
    moreover from Append_repr [OF r(1,2) this] obtain d' p' rss' where
      "part_Append d p x = Inr (d', p', r_Offset x)" "part_repr d' p' rss'" "concat rss' = concat rss @ [norm_record x]"
      "at_end d' (active p')" "part_HighWater p' = r_Offset x + 1" "f_append (sg_logFile (active p'))"
      using r(3) by auto
    ultimately show ?thesis using LAppend r(4,5) s
      by (intro exI [of _ rss']) (auto simp: log_exec_def log_inv_def append_fits_def intro: log_spec.intros)
  next
    case (LRead fo n)
    obtain d' p' res where run: "part_Read d p fo n = (d', p', res)" by (metis prod.collapse)
    from Read_repr [OF r(1,2) run] r(3,4,5) LRead s run show ?thesis
      by (intro exI [of _ rss]) (auto simp: log_exec_def log_inv_def intro: log_spec.intros)
  next
    case LSync
    obtain d' p' where run: "part_Sync d p = (d', p')" by fastforce
    from Sync_repr [OF r(1,2) run] Sync_append [OF run] r(3,4,5) LSync s run show ?thesis
      by (intro exI [of _ rss]) (auto simp: log_exec_def log_inv_def intro: log_spec.intros)
  next
    case (LExpire c)
    obtain d' p' n err where run: "part_EnforceTimeRetention d p c = (d', p', n, err)" by (metis prod.collapse)
    from EnforceTimeRetention_repr [OF r(1,2) run] retention_active(1) [OF ne run] r(3,4,5) expire_subset [of c rss]
      LExpire s run ne show ?thesis
      by (intro exI [of _ "expire c rss"])
        (auto simp: log_exec_def log_inv_def part_HighWater_active intro: log_spec.intros)
  next
    case (LShrink m)
    obtain d' p' n err where run: "part_EnforceSizeRetention d p m = (d', p', n, err)" by (metis prod.collapse)
    have "log_spec rss (LShrink m) (Out_Deleted (int (length rss - length (if m \<le> 0 then rss else shrink m rss))))
        (if m \<le> 0 then rss else shrink m rss)" by (rule spec_shrink [OF refl])
    with EnforceSizeRetention_repr [OF r(1,2) run] retention_active(2) [OF ne run] r(3,4,5) shrink_subset [of m rss]
      LShrink s run ne show ?thesis
      by (intro exI [of _ "if m \<le> 0 then rss else shrink m rss"])
        (auto simp: log_exec_def log_inv_def part_HighWater_active)
  next
    case LCompact
    obtain rss0 rs where rss: "rss = rss0 @ [rs]" using r(1) by (rule part_repr_cases)
    let ?ks = "keep_latest (concat rss0)"
    have "compact_fits p" using fits LCompact s by (simp add: op_fits_def)
    from Compact_repr [OF r(1) [unfolded rss] r(2) _ refl compact_fits32 [OF r(1) [unfolded rss] this refl]] r(5)
    obtain d' p' where c: "part_Compact d p = (d', p', Inr ())" "part_repr d' p' ((if ?ks = [] then [] else [?ks]) @ [rs])"
        "at_end d' (active p')" "active p' = active p" by (auto simp: rss)
    have "\<forall>r \<in> set (concat ((if ?ks = [] then [] else [?ks]) @ [rs])). 0 \<le> r_Offset r"
      using r(5) keep_latest_subset [of "concat rss0"] by (auto simp: rss)
    with c r(3,4) LCompact s ne part_repr_nonempty [OF c(2)] spec_compact [OF refl, of rss0 rs] show ?thesis
      by (intro exI [of _ "(if ?ks = [] then [] else [?ks]) @ [rs]"])
        (simp add: log_exec_def log_inv_def part_HighWater_active rss)
  qed
qed

lemma run_refines:
  "log_inv s rss \<Longrightarrow> run_fits ops s \<Longrightarrow>
   \<exists>rss'. spec_run rss ops (fst (log_run ops s)) rss' \<and> log_inv (snd (log_run ops s)) rss'"
proof (induction ops arbitrary: s rss)
  case (Cons lop ops)
  from exec_refines [OF Cons.prems(1), of lop] Cons.prems(2) obtain rss1 where
    "log_spec rss lop (fst (log_exec lop s)) rss1" "log_inv (snd (log_exec lop s)) rss1" by auto
  with Cons.IH [of "snd (log_exec lop s)" rss1] Cons.prems(2) show ?case
    by (auto simp: case_prod_beta Let_def intro: spec_run.intros)
qed (auto intro: spec_run.intros)

section \<open>Properties\<close>


definition rec_at :: "int \<Rightarrow> byte \<Rightarrow> byte \<Rightarrow> Record" where
  "rec_at off k v = \<lparr>r_Offset = off, r_Timestamp = off, r_Key = Some [k], r_Value = Some [v], r_Headers = []\<rparr>"

lemma rec_at_fits:
  assumes "0 \<le> off" "off < 2 ^ 62"
  shows "frame_fits (rec_at off k v)" "norm_record (rec_at off k v) = rec_at off k v" "length (frame (rec_at off k v)) = 38"
    "r_Offset (rec_at off k v) = off"
  using assms
  by (simp_all add: rec_at_def frame_fits_def wf_record_def int64_ok_def length_frame length_encodeRecord
      norm_record_def norm_bytes_Some buf32_def)

lemma Append_bounds:
  assumes "part_Append d p r = Inr (d', p', off)"
  shows "sg_size (active p') \<le> sg_size (active p) + length (frame r)"
    "sg_baseOffset (active p') = sg_baseOffset (active p) \<or> sg_baseOffset (active p') = r_Offset r + 1"
  using assms
  by (auto simp: part_Append_def seg_append_def part_rollLocked_def createSegment_def createSegmentWithSuffix_def
      seg_seal_def seg_flushIfActive_def Let_def case_prod_beta frame_def split: if_splits option.splits sum.splits)


section \<open>A sample log\<close>

text \<open>
  Two segments: a sealed one with two records of one key, and an active one whose only record is still
  in the write buffer.
\<close>

definition sample_segments :: "segment list" where
  "sample_segments =
     [\<lparr>sg_baseOffset = 0, sg_maxBytes = 70, sg_nameSuffix = [],
       sg_logFile = \<lparr>f_pos = 0, f_append = True, f_rdonly = False\<rparr>, sg_logBuf = None,
       sg_idx = [\<lparr>ie_RelativeOffset = 0, ie_Position = 0\<rparr>], sg_size = 76, sg_bytesSinceIndex = 76, sg_highWater = 2\<rparr>,
      \<lparr>sg_baseOffset = 2, sg_maxBytes = 70, sg_nameSuffix = [],
       sg_logFile = \<lparr>f_pos = 0, f_append = True, f_rdonly = False\<rparr>, sg_logBuf = Some (frame (rec_at 2 2 9)),
       sg_idx = [\<lparr>ie_RelativeOffset = 0, ie_Position = 0\<rparr>], sg_size = 38, sg_bytesSinceIndex = 38, sg_highWater = 3\<rparr>]"

definition sample_log :: PartitionLog where
  "sample_log = \<lparr>pl_maxBytes = 70, pl_segments = sample_segments\<rparr>"

definition sample_dir :: dir where
  "sample_dir = [(segmentLogName 0, \<lparr>fl_data = frames [rec_at 0 1 7, rec_at 1 1 8], fl_synced = 76\<rparr>),
     (segmentLogName 2, \<lparr>fl_data = [], fl_synced = 0\<rparr>)]"

definition sample_records :: "Record list list" where
  "sample_records = [[rec_at 0 1 7, rec_at 1 1 8], [rec_at 2 2 9]]"

lemma sample_repr: "part_repr sample_dir sample_log sample_records" "at_end sample_dir (active sample_log)"
proof -
  have n: "segmentLogName 2 \<noteq> segmentLogName 0" "segmentLogName 0 \<noteq> segmentLogName 2"
    by (simp_all add: segmentLogName_inject int64_ok_def)
  have t: "tracked 0 [rec_at 0 1 7, rec_at 1 1 8] = ([\<lparr>ie_RelativeOffset = 0, ie_Position = 0\<rparr>], 76, 76, 2)"
    "tracked 2 [rec_at 2 2 9] = ([\<lparr>ie_RelativeOffset = 0, ie_Position = 0\<rparr>], 38, 38, 3)"
    by (simp_all add: tracked_def track_def rec_at_fits index_add_def indexIntervalBytes_def uint32_of_def)
  show "part_repr sample_dir sample_log sample_records"
    by (simp add: part_repr_def segs_repr_def seg_repr_def sample_log_def sample_segments_def sample_records_def
        sample_dir_def seg_logPath_def n t file_data_def recs_ok_def fits32_def rec_at_fits seg_before_def
        seg_plain_def int64_ok_def sealed_on_def dir_clean_def)
  show "at_end sample_dir (active sample_log)"
    by (simp add: at_end_def sample_log_def sample_segments_def)
qed

section \<open>Durability\<close>

lemma whole_frames_prefix_concat: "\<exists>k. concat (rss0 @ [whole_frames n rs]) = take k (concat (rss0 @ [rs]))"
proof -
  obtain k where "whole_frames n rs = take k rs" using whole_frames_prefix by blast
  then show ?thesis by (intro exI [of _ "length (concat rss0) + k"]) simp
qed



section \<open>Compaction\<close>

text \<open>The value a key has in a log: that of its last record, none when that is a tombstone.\<close>

definition live_value :: "bytes \<Rightarrow> Record list \<Rightarrow> gobytes" where
  "live_value k rs = (case last_with k rs of None \<Rightarrow> None | Some r \<Rightarrow> r_Value r)"

lemma last_with_append: "last_with k (xs @ ys) = (case last_with k ys of None \<Rightarrow> last_with k xs | Some r \<Rightarrow> Some r)"
  by (induction xs) (auto split: option.splits)

lemma last_with_keep:
  "k \<noteq> [] \<Longrightarrow> last_with k (keep_latest rs) =
     (case last_with k rs of None \<Rightarrow> None | Some r \<Rightarrow> if r_Value r = None then None else Some r)"
proof (induction rs)
  case (Cons r rs)
  have "last_with k rs = None \<longleftrightarrow> (\<forall>x \<in> set rs. gb (r_Key x) \<noteq> k)" by (rule last_with_None)
  with Cons show ?case by (cases "last_with k rs") auto
qed simp

text \<open>
  C9: Compaction of a log whose sealed segments fit one segment succeeds and leaves exactly the latest
  valued record of each key of the sealed segments followed by the active segment; no key's current
  value changes, whether the key was set, overwritten or deleted.
\<close>

theorem compaction_keeps_table:
  assumes "part_repr d p (rss0 @ [rs])" "at_end d (active p)" "\<forall>r \<in> set (concat rss0). 0 \<le> r_Offset r" "compact_fits p"
  shows "\<exists>d' p' rss'. part_Compact d p = (d', p', Inr ()) \<and> part_repr d' p' rss' \<and> at_end d' (active p')
    \<and> concat rss' = keep_latest (concat rss0) @ rs
    \<and> (\<forall>k. k \<noteq> [] \<longrightarrow> live_value k (concat rss') = live_value k (concat (rss0 @ [rs])))"
proof -
  let ?ks = "keep_latest (concat rss0)"
  from Compact_repr [OF assms(1,2,3) refl compact_fits32 [OF assms(1,4) refl]] obtain d' p' where
    c: "part_Compact d p = (d', p', Inr ())" "part_repr d' p' ((if ?ks = [] then [] else [?ks]) @ [rs])"
      "at_end d' (active p')" by auto
  have "concat ((if ?ks = [] then [] else [?ks]) @ [rs]) = ?ks @ rs" by simp
  moreover have "live_value k (?ks @ rs) = live_value k (concat (rss0 @ [rs]))" if "k \<noteq> []" for k
    using last_with_keep [OF that, of "concat rss0"]
    by (auto simp: live_value_def last_with_append split: option.splits)
  ultimately show ?thesis using c by metis
qed

lemma compaction_keeps_table_witness:
  "\<exists>d' p' rss'. part_Compact sample_dir sample_log = (d', p', Inr ()) \<and> part_repr d' p' rss'
    \<and> concat rss' = [rec_at 1 1 8, rec_at 2 2 9]"
proof -
  have "compact_fits sample_log"
    by (simp add: compact_fits_def sample_log_def sample_segments_def part_HighWater_def)
  moreover have "part_repr sample_dir sample_log ([[rec_at 0 1 7, rec_at 1 1 8]] @ [[rec_at 2 2 9]])"
    using sample_repr(1) by (simp add: sample_records_def)
  ultimately show ?thesis
    using compaction_keeps_table [of sample_dir sample_log "[[rec_at 0 1 7, rec_at 1 1 8]]" "[rec_at 2 2 9]"] sample_repr(2)
    by (auto simp: rec_at_def)
qed

section \<open>Retention\<close>

definition log_bytes :: "Record list list \<Rightarrow> int" where
  "log_bytes rss = int (length (frames (concat rss)))"

lemma shrink_spec:
  "rss \<noteq> [] \<Longrightarrow> \<exists>gone. rss = gone @ shrink mb rss \<and> shrink mb rss \<noteq> []
     \<and> (log_bytes (shrink mb rss) \<le> mb \<or> length (shrink mb rss) = 1)
     \<and> (gone \<noteq> [] \<longrightarrow> mb < log_bytes (last gone # shrink mb rss))"
proof (induction mb rss rule: shrink.induct)
  case (1 mb rs rs' rss)
  show ?case
  proof (cases "mb < log_bytes (rs # rs' # rss)")
    case True
    then have s: "shrink mb (rs # rs' # rss) = shrink mb (rs' # rss)" by (simp add: log_bytes_def)
    from True "1.IH" obtain gone where g: "rs' # rss = gone @ shrink mb (rs' # rss)" "shrink mb (rs' # rss) \<noteq> []"
      "log_bytes (shrink mb (rs' # rss)) \<le> mb \<or> length (shrink mb (rs' # rss)) = 1"
      "gone \<noteq> [] \<longrightarrow> mb < log_bytes (last gone # shrink mb (rs' # rss))"
      by (auto simp: log_bytes_def)
    show ?thesis
    proof (intro exI [of _ "rs # gone"] conjI)
      show "rs # rs' # rss = (rs # gone) @ shrink mb (rs # rs' # rss)" unfolding s using g(1) by simp
      show "shrink mb (rs # rs' # rss) \<noteq> []" unfolding s by (rule g(2))
      show "log_bytes (shrink mb (rs # rs' # rss)) \<le> mb \<or> length (shrink mb (rs # rs' # rss)) = 1" unfolding s by (rule g(3))
      show "rs # gone \<noteq> [] \<longrightarrow> mb < log_bytes (last (rs # gone) # shrink mb (rs # rs' # rss))"
        unfolding s using g(1,4) True by (cases "gone = []") simp_all
    qed
  qed (simp add: log_bytes_def)
qed simp_all

lemma expire_spec:
  "rss \<noteq> [] \<Longrightarrow> \<exists>gone. rss = gone @ expire c rss \<and> expire c rss \<noteq> []
     \<and> (\<forall>rs \<in> set gone. rs \<noteq> [] \<and> r_Timestamp (last rs) < c)
     \<and> (length (expire c rss) = 1 \<or> hd (expire c rss) = [] \<or> c \<le> r_Timestamp (last (hd (expire c rss))))"
proof (induction c rss rule: expire.induct)
  case (1 c rs rs' rss)
  show ?case
  proof (cases "rs = [] \<or> c \<le> r_Timestamp (last rs)")
    case False
    with "1.IH" obtain gone where g: "rs' # rss = gone @ expire c (rs' # rss)" "expire c (rs' # rss) \<noteq> []"
      "\<forall>rs \<in> set gone. rs \<noteq> [] \<and> r_Timestamp (last rs) < c"
      "length (expire c (rs' # rss)) = 1 \<or> hd (expire c (rs' # rss)) = [] \<or> c \<le> r_Timestamp (last (hd (expire c (rs' # rss))))"
      by auto
    then show ?thesis using False by (intro exI [of _ "rs # gone"]) auto
  qed simp
qed simp_all

text \<open>
  Retention deletes whole segments from the front of the log and never the active one. By size it
  stops as soon as the log is within budget, keeping every segment whose removal was not needed; by
  time it deletes exactly the leading segments whose newest record is older than the cutoff. Both
  report the number of segments they deleted.
\<close>

theorem retention_deletes_front:
  assumes "part_repr d p rss" "at_end d (active p)" "0 < mb"
    "part_EnforceSizeRetention d p mb = (d1, p1, n1, err1)" "part_EnforceTimeRetention d p c = (d2, p2, n2, err2)"
  shows "(\<exists>gone kept. err1 = None \<and> part_repr d1 p1 kept \<and> rss = gone @ kept \<and> n1 = int (length gone) \<and> kept \<noteq> []
      \<and> (log_bytes kept \<le> mb \<or> length kept = 1) \<and> (gone \<noteq> [] \<longrightarrow> mb < log_bytes (last gone # kept)))
    \<and> (\<exists>gone kept. err2 = None \<and> part_repr d2 p2 kept \<and> rss = gone @ kept \<and> n2 = int (length gone) \<and> kept \<noteq> []
      \<and> (\<forall>rs \<in> set gone. rs \<noteq> [] \<and> r_Timestamp (last rs) < c)
      \<and> (length kept = 1 \<or> hd kept = [] \<or> c \<le> r_Timestamp (last (hd kept))))"
proof (rule conjI)
  have ne: "rss \<noteq> []" using assms(1) by (rule part_repr_cases) auto
  obtain g k where k: "shrink mb rss = k" "rss = g @ k" "k \<noteq> []" "log_bytes k \<le> mb \<or> length k = 1"
     "g \<noteq> [] \<longrightarrow> mb < log_bytes (last g # k)"
    using shrink_spec [OF ne, of mb] by blast
  have "length rss - length k = length g" unfolding k(2) by simp
  then have "err1 = None \<and> part_repr d1 p1 k \<and> n1 = int (length g)"
    using EnforceSizeRetention_repr [OF assms(1,2,4)] assms(3) k(1) by simp
  with k show "\<exists>gone kept. err1 = None \<and> part_repr d1 p1 kept \<and> rss = gone @ kept \<and> n1 = int (length gone) \<and> kept \<noteq> []
      \<and> (log_bytes kept \<le> mb \<or> length kept = 1) \<and> (gone \<noteq> [] \<longrightarrow> mb < log_bytes (last gone # kept))"
    by blast
next
  have ne: "rss \<noteq> []" using assms(1) by (rule part_repr_cases) auto
  obtain h k where k: "expire c rss = k" "rss = h @ k" "k \<noteq> []" "\<forall>rs \<in> set h. rs \<noteq> [] \<and> r_Timestamp (last rs) < c"
     "length k = 1 \<or> hd k = [] \<or> c \<le> r_Timestamp (last (hd k))"
    using expire_spec [OF ne, of c] by blast
  have "length rss - length k = length h" unfolding k(2) by simp
  then have "err2 = None \<and> part_repr d2 p2 k \<and> n2 = int (length h)"
    using EnforceTimeRetention_repr [OF assms(1,2,5)] k(1) by simp
  with k show "\<exists>gone kept. err2 = None \<and> part_repr d2 p2 kept \<and> rss = gone @ kept \<and> n2 = int (length gone) \<and> kept \<noteq> []
      \<and> (\<forall>rs \<in> set gone. rs \<noteq> [] \<and> r_Timestamp (last rs) < c)
      \<and> (length kept = 1 \<or> hd kept = [] \<or> c \<le> r_Timestamp (last (hd kept)))"
    by blast
qed

lemma retention_deletes_front_witness:
  "\<exists>d1 p1 err1. part_EnforceSizeRetention sample_dir sample_log 100 = (d1, p1, 1, err1)
    \<and> part_repr d1 p1 [[rec_at 2 2 9]]"
proof -
  obtain d1 p1 n1 err1 d2 p2 n2 err2 where run: "part_EnforceSizeRetention sample_dir sample_log 100 = (d1, p1, n1, err1)"
    "part_EnforceTimeRetention sample_dir sample_log 0 = (d2, p2, n2, err2)" by (metis prod.collapse)
  from retention_deletes_front [OF sample_repr _ run] obtain gone kept where
    k: "part_repr d1 p1 kept" "sample_records = gone @ kept" "n1 = int (length gone)" "kept \<noteq> []"
      "log_bytes kept \<le> 100 \<or> length kept = 1" by auto
  have "gone \<noteq> []" using k(2,5) by (auto simp: sample_records_def log_bytes_def rec_at_fits)
  then obtain g gs where "gone = g # gs" by (cases gone) auto
  with k(2,4) have "gone = [[rec_at 0 1 7, rec_at 1 1 8]]" "kept = [[rec_at 2 2 9]]"
    by (auto simp: sample_records_def Cons_eq_append_conv)
  with run k show ?thesis by simp
qed

section \<open>Formats\<close>

text \<open>
  The record format on disk is the framed record of the wire protocol: both encoders write the
  same bytes, and on every input the two body decoders accept the same bodies and return the same
  record.
\<close>

theorem disk_format_is_wire_format:
  "log_encodeRecord buf r = encodeFramedRecord buf r
   \<and> (decodeBody b = Inr r' \<longleftrightarrow> (\<exists>n. decodeRecord b = Inr (r', n)))"
  by (simp add: log_encodeRecord_eq decodeBody_iff)

text \<open>
  The base offset in a segment's file name, any 64-bit integer, is read back when the directory
  is scanned, and the index written beside a sealed segment is read back entry by entry.
\<close>

theorem segment_files_roundtrip:
  assumes "int64_ok b" "map_of d path = Some f" "fl_data f = index_writeTo i"
  shows "parseBaseOffset (segmentLogName b) = Inr b \<and> readIndexFrom d path = Inr i"
  using parseBaseOffset_segmentLogName [OF assms(1)] readIndexFrom_writeTo [OF assms(2,3)] by simp

lemma segment_files_roundtrip_witness:
  "parseBaseOffset (segmentLogName (- 7)) = Inr (- 7)
   \<and> readIndexFrom [(''i'', \<lparr>fl_data = [0, 0, 0, 1, 0, 0, 0, 2], fl_synced = 0\<rparr>)] ''i''
      = Inr [\<lparr>ie_RelativeOffset = 1, ie_Position = 2\<rparr>]"
  using segment_files_roundtrip [of "- 7" "[(''i'', \<lparr>fl_data = [0, 0, 0, 1, 0, 0, 0, 2], fl_synced = 0\<rparr>)]" "''i''"
      "\<lparr>fl_data = [0, 0, 0, 1, 0, 0, 0, 2], fl_synced = 0\<rparr>" "[\<lparr>ie_RelativeOffset = 1, ie_Position = 2\<rparr>]"]
  by (simp add: int64_ok_def index_writeTo_def indexEntry_bytes_def be32_def)

text \<open>
  The sparse index never skips a wanted record: for an offset inside the segment the position it
  returns is the start of a record's frame, and every record before that position has a smaller
  offset.
\<close>

theorem index_lookup_never_skips:
  assumes "seg_repr d s rs" "fits32 (sg_baseOffset s) rs" "sg_baseOffset s \<le> fo" "fo < sg_highWater s"
  shows "\<exists>k \<le> length rs. unat (index_lookup (sg_idx s) (uint32_of (fo - sg_baseOffset s))) = length (frames (take k rs))
    \<and> (\<forall>r \<in> set (take k rs). r_Offset r < fo)"
proof -
  have "sg_idx s = fst (tracked (sg_baseOffset s) rs)" "recs_ok (sg_baseOffset s) rs"
    using assms(1) by (auto simp: seg_repr_def dest: arg_cong [where f = fst])
  with index_lookup_frame [of "sg_baseOffset s" rs fo] assms seg_repr_sums(2) [OF assms(1)] show ?thesis by simp
qed

lemma index_lookup_never_skips_witness:
  "\<exists>k \<le> 2. unat (index_lookup (sg_idx (hd sample_segments)) (uint32_of 1))
      = length (frames (take k [rec_at 0 1 7, rec_at 1 1 8]))"
proof -
  have "seg_repr sample_dir (hd sample_segments) [rec_at 0 1 7, rec_at 1 1 8]"
    using sample_repr(1) by (simp add: part_repr_def segs_repr_def sample_log_def sample_segments_def sample_records_def)
  from index_lookup_never_skips [OF this, of 1] show ?thesis
    by (auto simp: sample_segments_def fits32_def rec_at_fits) (metis Suc_1 numeral_2_eq_2)
qed

section \<open>The position of a reopened segment\<close>

lemma io_ReadFull_buffered:
  assumes "0 < n" "n \<le> length (rd_buf rd)"
  shows "io_ReadFull content n rd [] = (Inr (take n (rd_buf rd)), rd\<lparr>rd_buf := drop n (rd_buf rd)\<rparr>)"
proof -
  have "rd_buf rd \<noteq> []" using assms by auto
  then show ?thesis
    using assms by (subst io_ReadFull.simps) (auto simp: bufio_Read_def io_ReadFull.simps [of content 0] min_absorb2)
qed

lemma io_ReadFull_fills:
  assumes "0 < n" "n < defaultBufSize" "defaultBufSize \<le> length content"
  shows "io_ReadFull content n \<lparr>rd_pos = 0, rd_buf = []\<rparr> []
    = (Inr (take n content), \<lparr>rd_pos = defaultBufSize, rd_buf = drop n (take defaultBufSize content)\<rparr>)"
  using assms by (subst io_ReadFull.simps)
    (auto simp: bufio_Read_def io_ReadFull.simps [of content 0] min_absorb1 min_absorb2 Let_def)

lemma readRecordFrom_fills:
  assumes "frame_fits r" "length (frame r) \<le> defaultBufSize" "defaultBufSize \<le> length (frame r @ rest)"
  shows "readRecordFrom (frame r @ rest) \<lparr>rd_pos = 0, rd_buf = []\<rparr>
    = (Inr (norm_record r, length (frame r)),
       \<lparr>rd_pos = defaultBufSize, rd_buf = drop (length (frame r)) (take defaultBufSize (frame r @ rest))\<rparr>)"
proof -
  let ?c = "frame r @ rest" and ?e = "encodeRecord [] r"
  obtain x rd where run: "readRecordFrom ?c \<lparr>rd_pos = 0, rd_buf = []\<rparr> = (x, rd)" by fastforce
  have x: "x = Inr (norm_record r, length (frame r))"
    using readRecordFrom_stream [OF run] parse_frame_frame [OF assms(1), of rest] by (simp add: rd_rest_def)
  have len: "length (frame r) = length ?e + 8" "0 < length ?e" by (simp_all add: length_frame length_encodeRecord)
  define b where "b = drop 4 (take defaultBufSize ?c)"
  have "length b = defaultBufSize - 4" unfolding b_def using assms(3) by (simp only: length_drop length_take min_absorb2)
  then have lb: "length ?e + 4 \<le> length b" using assms(2) len by linarith
  have u: "unat (Uint32 (take 4 ?c)) = length ?e"
    using assms(1) unat_uint32_len [of ?e] by (simp add: frame_eq frame_fits_def buf32_def Uint32_be32)
  have "io_ReadFull ?c 4 \<lparr>rd_pos = 0, rd_buf = []\<rparr> [] = (Inr (take 4 ?c), \<lparr>rd_pos = defaultBufSize, rd_buf = b\<rparr>)"
    unfolding b_def using assms(3) by (intro io_ReadFull_fills) (simp_all add: defaultBufSize_def)
  moreover have "io_ReadFull ?c (length ?e) \<lparr>rd_pos = defaultBufSize, rd_buf = b\<rparr> []
      = (Inr (take (length ?e) b), \<lparr>rd_pos = defaultBufSize, rd_buf = drop (length ?e) b\<rparr>)"
    using lb len(2) by (subst io_ReadFull_buffered) simp_all
  moreover have "io_ReadFull ?c 4 \<lparr>rd_pos = defaultBufSize, rd_buf = drop (length ?e) b\<rparr> []
      = (Inr (take 4 (drop (length ?e) b)), \<lparr>rd_pos = defaultBufSize, rd_buf = drop 4 (drop (length ?e) b)\<rparr>)"
    using lb by (subst io_ReadFull_buffered) simp_all
  ultimately have "rd = \<lparr>rd_pos = defaultBufSize, rd_buf = drop 4 (drop (length ?e) b)\<rparr>"
    using run x u unfolding readRecordFrom_def by (auto simp: Let_def split: if_splits sum.splits)
  moreover have "drop 4 (drop (length ?e) b) = drop (length (frame r)) (take defaultBufSize ?c)"
    unfolding b_def drop_drop len(1) by (rule arg_cong2 [where f = drop]) simp_all
  ultimately show ?thesis using run x by simp
qed


definition big_record :: Record where
  "big_record = \<lparr>r_Offset = 1, r_Timestamp = 0, r_Key = None, r_Value = Some (replicate 5000 0), r_Headers = []\<rparr>"

definition reopened_segment :: segment where
  "reopened_segment = \<lparr>sg_baseOffset = 0, sg_maxBytes = 1000000, sg_nameSuffix = [],
     sg_logFile = \<lparr>f_pos = 5074, f_append = False, f_rdonly = False\<rparr>, sg_logBuf = Some [],
     sg_idx = [\<lparr>ie_RelativeOffset = 0, ie_Position = 0\<rparr>], sg_size = 5074, sg_bytesSinceIndex = 5074, sg_highWater = 2\<rparr>"


end
