(* ===== verification/Go_Maps.thy ===== *)
theory Go_Maps
  imports Main "HOL-Library.AList"
begin

text \<open>
  Go maps as association lists: what an assignment \<^verbatim>\<open>m[k] = v\<close> (\<open>AList.update\<close>) and \<^verbatim>\<open>delete(m, k)\<close>
  (\<open>AList.delete\<close>) do to the entries. The list order stands for one iteration order; Go leaves it open.
\<close>

lemma set_update_subset: "set (AList.update k v m) \<subseteq> insert (k, v) (set m)"
  by (induction m) auto

lemma set_delete_subset: "set (AList.delete k m) \<subseteq> set m"
  by (auto simp: AList.delete_eq)

lemma update_new_key: "k \<notin> fst ` set m \<Longrightarrow> AList.update k v m = m @ [(k, v)]"
  by (induction m) auto

lemma set_update: "distinct (map fst m) \<Longrightarrow> set (AList.update k v m) = insert (k, v) {x \<in> set m. fst x \<noteq> k}"
proof (induction m)
  case (Cons x m)
  then show ?case by (cases x) force
qed simp

lemma set_delete: "set (AList.delete k m) = {x \<in> set m. fst x \<noteq> k}"
  by (auto simp: AList.delete_eq)

text \<open>A property of every entry, as an invariant of the map.\<close>

definition all_entries :: "('k \<Rightarrow> 'v \<Rightarrow> bool) \<Rightarrow> ('k \<times> 'v) list \<Rightarrow> bool" where
  "all_entries P m \<longleftrightarrow> distinct (map fst m) \<and> list_all (\<lambda>(k, v). P k v) m"

lemma all_entries_Nil [simp]: "all_entries P []"
  by (simp add: all_entries_def)

lemma all_entries_update [simp]: "all_entries P m \<Longrightarrow> P k v \<Longrightarrow> all_entries P (AList.update k v m)"
  using set_update_subset [of k v m] by (fastforce simp: all_entries_def distinct_update list_all_iff)

lemma all_entries_delete [simp]: "all_entries P m \<Longrightarrow> all_entries P (AList.delete k m)"
  using set_delete_subset [of k m] by (auto simp: all_entries_def distinct_delete list_all_iff)

lemma all_entries_lookup: "all_entries P m \<Longrightarrow> map_of m k = Some v \<Longrightarrow> P k v"
  by (auto simp: all_entries_def list_all_iff dest: map_of_SomeD)

lemma all_entries_filter [simp]: "all_entries P m \<Longrightarrow> all_entries P (filter f m)"
  by (auto simp: all_entries_def list_all_iff distinct_map_filter)

lemma all_entries_mono: "all_entries P m \<Longrightarrow> (\<And>k v. (k, v) \<in> set m \<Longrightarrow> P k v \<Longrightarrow> Q k v) \<Longrightarrow> all_entries Q m"
  by (auto simp: all_entries_def list_all_iff)

lemma all_entries_iff: "all_entries P m \<longleftrightarrow> distinct (map fst m) \<and> (\<forall>k v. map_of m k = Some v \<longrightarrow> P k v)"
  by (auto simp: all_entries_def list_all_iff dest: map_of_SomeD)

end
