(* ===== verification/Store_Contract.thy ===== *)
theory Store_Contract
  imports Wire_Primitives
begin

text \<open>
  The persistence boundary of the broker, the \<^verbatim>\<open>Store\<close> interface of
  \<^verbatim>\<open>broker/internal/storage/storage.go\<close>. \<open>store_ops\<close> is its method table, so that the components
  above it are written once for every store; the locale \<open>store\<close> is what they rely on. A context
  argument is the error \<^verbatim>\<open>ctx.Err()\<close> reports, none for a live context, and \<open>now\<close> is the clock.
\<close>

section \<open>Interface\<close>

record 'st store_ops =
  so_Append :: "go_error option \<Rightarrow> int \<Rightarrow> 'st \<Rightarrow> PartitionRef \<Rightarrow> Record \<Rightarrow> 'st \<times> int result"
  so_Read :: "go_error option \<Rightarrow> 'st \<Rightarrow> PartitionRef \<Rightarrow> int \<Rightarrow> int \<Rightarrow> 'st \<times> Record list result"
  so_HighWater :: "go_error option \<Rightarrow> 'st \<Rightarrow> PartitionRef \<Rightarrow> 'st \<times> int result"
  so_Sync :: "go_error option \<Rightarrow> 'st \<Rightarrow> PartitionRef \<Rightarrow> 'st \<times> unit result"
  so_DeleteTopic :: "go_error option \<Rightarrow> 'st \<Rightarrow> string \<Rightarrow> 'st \<times> unit result"

text \<open>The record as a store keeps it: offset assigned, a missing timestamp set from the clock.\<close>

definition stamp :: "int \<Rightarrow> int \<Rightarrow> Record \<Rightarrow> Record" where
  "stamp now off r = r\<lparr>r_Offset := off, r_Timestamp := (if r_Timestamp r = 0 then now else r_Timestamp r)\<rparr>"

lemma stamp_sel [simp]:
  "r_Offset (stamp now off r) = off" "r_Key (stamp now off r) = r_Key r" "r_Value (stamp now off r) = r_Value r"
  "r_Headers (stamp now off r) = r_Headers r"
  "r_Timestamp (stamp now off r) = (if r_Timestamp r = 0 then now else r_Timestamp r)"
  by (simp_all add: stamp_def)

text \<open>A log from which nothing was deleted: the offset of a record is its index.\<close>

definition dense :: "Record list \<Rightarrow> bool" where
  "dense L \<longleftrightarrow> map r_Offset L = map int [0..<length L]"

lemma dense_Nil [simp]: "dense []"
  by (simp add: dense_def)

lemma dense_nth: "dense L \<Longrightarrow> i < length L \<Longrightarrow> r_Offset (L ! i) = int i"
  unfolding dense_def by (metis add_0 length_map nth_map nth_upt)

lemma dense_snoc: "dense L \<Longrightarrow> r_Offset x = int (length L) \<Longrightarrow> dense (L @ [x])"
  by (simp add: dense_def)

lemma dense_filter:
  assumes "dense L" "0 \<le> c" shows "filter (\<lambda>r. c \<le> r_Offset r) L = drop (nat c) L"
  using assms(1)
proof (induction L rule: rev_induct)
  case (snoc x L)
  have x: "dense L" "r_Offset x = int (length L)" using snoc.prems by (simp_all add: dense_def)
  have "c \<le> int (length L) \<longleftrightarrow> nat c - length L = 0" using assms(2) by linarith
  with snoc.IH [OF x(1)] x(2) show ?case by (cases "nat c - length L") simp_all
qed simp

lemma dense_sorted: "dense rs \<Longrightarrow> sorted_wrt (<) (map r_Offset rs)"
  by (simp add: dense_def sorted_wrt_map)

section \<open>Contract\<close>

locale store =
  fixes ops :: "'st store_ops"
    and inv :: "'st \<Rightarrow> bool"
    and log_of :: "'st \<Rightarrow> PartitionRef \<Rightarrow> Record list"
    and hw_of :: "'st \<Rightarrow> PartitionRef \<Rightarrow> int"
    and fits :: "'st \<Rightarrow> PartitionRef \<Rightarrow> Record \<Rightarrow> bool"
    and addressable :: "PartitionRef \<Rightarrow> bool"
    and nrm :: "Record \<Rightarrow> Record"
  assumes append_law: "inv st \<Longrightarrow> addressable p \<Longrightarrow> fits st p r \<Longrightarrow> int64_ok now \<Longrightarrow>
      \<exists>st'. so_Append ops None now st p r = (st', Inr (hw_of st p)) \<and> inv st'
        \<and> log_of st' = (log_of st)(p := log_of st p @ [nrm (stamp now (hw_of st p) r)])
        \<and> hw_of st' = (hw_of st)(p := hw_of st p + 1)"
    and read_law: "inv st \<Longrightarrow> addressable p \<Longrightarrow> 0 \<le> fo \<Longrightarrow>
      \<exists>st'. so_Read ops None st p fo n = (st', Inr (take (nat n) (filter (\<lambda>r. fo \<le> r_Offset r) (log_of st p))))
        \<and> inv st' \<and> log_of st' = log_of st \<and> hw_of st' = hw_of st"
    and read_negative: "fo < 0 \<Longrightarrow> \<exists>e. so_Read ops None st p fo n = (st, Inl e)"
    and highwater_law: "inv st \<Longrightarrow> addressable p \<Longrightarrow>
      \<exists>st'. so_HighWater ops None st p = (st', Inr (hw_of st p)) \<and> inv st' \<and> log_of st' = log_of st \<and> hw_of st' = hw_of st"
    and sync_law: "inv st \<Longrightarrow>
      \<exists>st'. so_Sync ops None st p = (st', Inr ()) \<and> inv st' \<and> log_of st' = log_of st \<and> hw_of st' = hw_of st"
    and delete_law: "inv st \<Longrightarrow> addressable \<lparr>p_Topic = t, p_Index = 0\<rparr> \<Longrightarrow>
      \<exists>st'. so_DeleteTopic ops None st t = (st', Inr ()) \<and> inv st'
        \<and> log_of st' = (\<lambda>p. if p_Topic p = t then [] else log_of st p)
        \<and> hw_of st' = (\<lambda>p. if p_Topic p = t then 0 else hw_of st p)"
    and cancelled: "so_Append ops (Some e) now st p r = (st, Inl e)" "so_Read ops (Some e) st p fo n = (st, Inl e)"
      "so_HighWater ops (Some e) st p = (st, Inl e)" "so_Sync ops (Some e) st p = (st, Inl e)"
      "so_DeleteTopic ops (Some e) st t = (st, Inl e)"
    and log_sorted: "inv st \<Longrightarrow> sorted_wrt (<) (map r_Offset (log_of st p))"
    and log_bounds: "inv st \<Longrightarrow> r \<in> set (log_of st p) \<Longrightarrow> 0 \<le> r_Offset r \<and> r_Offset r < hw_of st p"
    and hw_nonneg: "inv st \<Longrightarrow> 0 \<le> hw_of st p"
    and nrm_keeps: "r_Offset (nrm r) = r_Offset r" "r_Timestamp (nrm r) = r_Timestamp r"
      "gb (r_Key (nrm r)) = gb (r_Key r)" "gb (r_Value (nrm r)) = gb (r_Value r)"
      "r_Value r = None \<Longrightarrow> r_Value (nrm r) = None"
    and nrm_norm: "norm_record (nrm r) = norm_record r"
begin

lemma read_at_end:
  assumes "inv st" "addressable p"
  shows "\<exists>st'. so_Read ops None st p (hw_of st p) n = (st', Inr [])"
proof -
  have "filter (\<lambda>r. hw_of st p \<le> r_Offset r) (log_of st p) = []"
    using log_bounds [OF assms(1)] by (force simp: filter_empty_conv)
  with read_law [OF assms hw_nonneg [OF assms(1)], of p n] show ?thesis by auto
qed

text \<open>An appended record is what a read at its offset returns.\<close>

lemma append_then_read:
  assumes "inv st" "addressable p" "fits st p r" "int64_ok now" "0 < n"
  shows "\<exists>st' st'' off. so_Append ops None now st p r = (st', Inr off)
    \<and> so_Read ops None st' p off n = (st'', Inr [nrm (stamp now off r)])"
proof -
  from append_law [OF assms(1-4)] obtain st' where
    a: "so_Append ops None now st p r = (st', Inr (hw_of st p))" "inv st'"
      "log_of st' p = log_of st p @ [nrm (stamp now (hw_of st p) r)]" by auto
  have "filter (\<lambda>x. hw_of st p \<le> r_Offset x) (log_of st p) = []"
    using log_bounds [OF assms(1)] by (force simp: filter_empty_conv)
  with read_law [OF a(2) assms(2) hw_nonneg [OF assms(1)], of p n] a(1,3) assms(5) show ?thesis
    by (auto simp: nrm_keeps)
qed

text \<open>Reading on from the offset behind the last record of a batch continues without gap or overlap.\<close>

lemma next_batch:
  assumes "inv st" "batch = take n (filter (\<lambda>r. fo \<le> r_Offset r) (log_of st p))" "batch \<noteq> []"
  shows "filter (\<lambda>r. r_Offset (last batch) + 1 \<le> r_Offset r) (log_of st p)
    = drop (length batch) (filter (\<lambda>r. fo \<le> r_Offset r) (log_of st p))"
proof -
  let ?L = "filter (\<lambda>r. fo \<le> r_Offset r) (log_of st p)"
  have l: "length batch - 1 < length ?L" "length batch \<le> n" "0 < length batch" "length batch \<le> length ?L"
    using assms(2,3) by (auto simp: min_def split: if_splits)
  have "last batch = batch ! (length batch - 1)" using assms(3) by (rule last_conv_nth)
  also have "\<dots> = take n ?L ! (length batch - 1)" by (simp only: assms(2) [symmetric])
  also have "\<dots> = ?L ! (length batch - 1)" using l by (intro nth_take) linarith
  finally have "last batch = ?L ! (length batch - 1)" .
  with filter_after_batch [OF log_sorted [OF assms(1)] l(1)] l(3) show ?thesis by simp
qed

text \<open>One round of a loop that reads a partition in batches: it is at the end, or the rest is shorter.\<close>

lemma read_batch:
  assumes "inv st" "addressable p" "0 \<le> cursor"
  defines "L \<equiv> filter (\<lambda>r. cursor \<le> r_Offset r) (log_of st p)"
  obtains st' where "so_Read ops None st p cursor 256 = (st', Inr [])" "L = []" "inv st'" "log_of st' = log_of st" "hw_of st' = hw_of st"
  | st' batch where "so_Read ops None st p cursor 256 = (st', Inr batch)" "batch \<noteq> []" "0 \<le> r_Offset (last batch) + 1"
    "batch @ filter (\<lambda>r. r_Offset (last batch) + 1 \<le> r_Offset r) (log_of st p) = L"
    "inv st'" "log_of st' = log_of st" "hw_of st' = hw_of st"
proof -
  define batch where "batch = take 256 L"
  obtain st' where rd: "so_Read ops None st p cursor 256 = (st', Inr batch)" "inv st'" "log_of st' = log_of st" "hw_of st' = hw_of st"
    using read_law [OF assms(1-3), of 256] by (auto simp: batch_def L_def)
  show ?thesis
  proof (cases "batch = []")
    case True
    with rd that(1) show ?thesis by (simp add: batch_def)
  next
    case False
    have "filter (\<lambda>r. r_Offset (last batch) + 1 \<le> r_Offset r) (log_of st p) = drop (length batch) L"
      unfolding L_def by (rule next_batch [OF assms(1) _ False]) (simp add: batch_def L_def)
    moreover have "batch @ drop (length batch) L = L" by (simp add: batch_def min_def)
    moreover have "last batch \<in> set (log_of st p)" using last_in_set [OF False] set_take_subset by (fastforce simp: batch_def L_def)
    ultimately show ?thesis using that(2) [OF rd(1) False _ _ rd(2-4)] log_bounds [OF assms(1)] by force
  qed
qed

end

end
