(* ===== verification/Store_Memory.thy ===== *)
theory Store_Memory
  imports Store_Contract "HOL-Library.AList"
begin

text \<open>
  The in-memory store, \<^verbatim>\<open>broker/internal/storage/memory.go\<close>: a map from partitions to record slices. Its
  partitions come into being with their first append, and an offset is an index.
\<close>

section \<open>Operations\<close>

type_synonym MemoryStore = "(PartitionRef \<times> Record list) list"

definition NewMemoryStore :: MemoryStore where
  "NewMemoryStore = []"

definition mem_get :: "MemoryStore \<Rightarrow> PartitionRef \<Rightarrow> Record list option" where
  "mem_get s p = map_of s p"

definition mem_getOrCreate :: "MemoryStore \<Rightarrow> PartitionRef \<Rightarrow> MemoryStore \<times> Record list" where
  "mem_getOrCreate s p =
     (case map_of s p of Some part \<Rightarrow> (s, part) | None \<Rightarrow> (AList.update p [] s, []))"

definition mem_Append :: "go_error option \<Rightarrow> int \<Rightarrow> MemoryStore \<Rightarrow> PartitionRef \<Rightarrow> Record \<Rightarrow> MemoryStore \<times> int result" where
  "mem_Append ctx now s p r =
     (case ctx of
        Some err \<Rightarrow> (s, Inl err)
      | None \<Rightarrow>
          (let (s, records) = mem_getOrCreate s p;
               r = r\<lparr>r_Offset := int (length records)\<rparr>;
               r = (if r_Timestamp r = 0 then r\<lparr>r_Timestamp := now\<rparr> else r)
           in (AList.update p (records @ [r]) s, Inr (r_Offset r))))"

definition mem_Read :: "go_error option \<Rightarrow> MemoryStore \<Rightarrow> PartitionRef \<Rightarrow> int \<Rightarrow> int \<Rightarrow> MemoryStore \<times> Record list result" where
  "mem_Read ctx s p fromOffset maxRecords =
     (case ctx of
        Some err \<Rightarrow> (s, Inl err)
      | None \<Rightarrow>
          if fromOffset < 0 then (s, Inl (ErrNew ''storage: negative offset''))
          else if maxRecords \<le> 0 then (s, Inr [])
          else case mem_get s p of
                 None \<Rightarrow> (s, Inr [])
               | Some records \<Rightarrow>
                   if int (length records) \<le> fromOffset then (s, Inr [])
                   else let fin = min (fromOffset + maxRecords) (int (length records))
                        in (s, Inr (sl records (nat fromOffset) (nat fin))))"

definition mem_HighWater :: "go_error option \<Rightarrow> MemoryStore \<Rightarrow> PartitionRef \<Rightarrow> MemoryStore \<times> int result" where
  "mem_HighWater ctx s p =
     (case ctx of
        Some err \<Rightarrow> (s, Inl err)
      | None \<Rightarrow> (case mem_get s p of None \<Rightarrow> (s, Inr 0) | Some records \<Rightarrow> (s, Inr (int (length records)))))"

definition mem_Sync :: "go_error option \<Rightarrow> MemoryStore \<Rightarrow> PartitionRef \<Rightarrow> MemoryStore \<times> unit result" where
  "mem_Sync ctx s p = (s, case ctx of Some err \<Rightarrow> Inl err | None \<Rightarrow> Inr ())"

definition mem_DeleteTopic :: "go_error option \<Rightarrow> MemoryStore \<Rightarrow> string \<Rightarrow> MemoryStore \<times> unit result" where
  "mem_DeleteTopic ctx s topic =
     (case ctx of
        Some err \<Rightarrow> (s, Inl err)
      | None \<Rightarrow> (filter (\<lambda>(p, _). p_Topic p \<noteq> topic) s, Inr ()))"

definition memory_ops :: "MemoryStore store_ops" where
  "memory_ops = \<lparr>so_Append = mem_Append, so_Read = mem_Read, so_HighWater = mem_HighWater, so_Sync = mem_Sync,
     so_DeleteTopic = mem_DeleteTopic\<rparr>"

section \<open>Contract\<close>

definition mem_log :: "MemoryStore \<Rightarrow> PartitionRef \<Rightarrow> Record list" where
  "mem_log s p = (case map_of s p of None \<Rightarrow> [] | Some records \<Rightarrow> records)"

definition mem_hw :: "MemoryStore \<Rightarrow> PartitionRef \<Rightarrow> int" where
  "mem_hw s p = int (length (mem_log s p))"

definition mem_inv :: "MemoryStore \<Rightarrow> bool" where
  "mem_inv s \<longleftrightarrow> (\<forall>p. dense (mem_log s p))"

lemma map_of_without_topic:
  "map_of (filter (\<lambda>(p, _). p_Topic p \<noteq> t) s) p = (if p_Topic p = t then None else map_of s p)"
  by (induction s) auto

lemma mem_log_update: "mem_log (AList.update p x s) = (mem_log s)(p := x)"
  by (auto simp: mem_log_def update_conv' fun_eq_iff)

lemma mem_Append_run:
  "mem_Append None now s p r = (AList.update p (mem_log s p @ [stamp now (mem_hw s p) r]) s, Inr (mem_hw s p))"
  by (cases r) (simp add: mem_Append_def mem_getOrCreate_def mem_hw_def mem_log_def Let_def stamp_def split: option.splits)

lemma mem_Append_inv:
  assumes "mem_inv s" shows "mem_inv (AList.update p (mem_log s p @ [stamp now (mem_hw s p) r]) s)"
  using assms by (simp add: mem_inv_def mem_log_update mem_hw_def dense_snoc)

lemma mem_Read_run:
  assumes "mem_inv s" "0 \<le> fo"
  shows "mem_Read None s p fo n = (s, Inr (take (nat n) (filter (\<lambda>r. fo \<le> r_Offset r) (mem_log s p))))"
proof -
  have flt: "filter (\<lambda>r. fo \<le> r_Offset r) (mem_log s p) = drop (nat fo) (mem_log s p)"
    using assms by (intro dense_filter) (simp_all add: mem_inv_def)
  have slice: "sl rs (nat fo) (nat (min (fo + n) (int (length rs)))) = take (nat n) (drop (nat fo) rs)" if "0 < n" for rs :: "Record list"
  proof (cases "fo + n \<le> int (length rs)")
    case True
    then have "nat (min (fo + n) (int (length rs))) - nat fo = nat n" using assms(2) that by linarith
    then show ?thesis by (simp only: sl_def)
  next
    case False
    then have "nat (min (fo + n) (int (length rs))) - nat fo = length rs - nat fo" "length rs - nat fo \<le> nat n"
      using assms(2) that by linarith+
    then show ?thesis by (simp only: sl_def) simp
  qed
  show ?thesis
  proof (cases "map_of s p")
    case None
    then show ?thesis using assms(2) by (simp add: flt mem_Read_def mem_get_def mem_log_def)
  next
    case (Some rs)
    then have log: "mem_log s p = rs" by (simp add: mem_log_def)
    note flt' = flt [unfolded log]
    show ?thesis
    proof (cases "n \<le> 0 \<or> int (length rs) \<le> fo")
      case True
      then have "take (nat n) (drop (nat fo) rs) = []" by auto
      with True assms(2) Some show ?thesis unfolding log flt' by (auto simp: mem_Read_def mem_get_def)
    next
      case False
      then have "mem_Read None s p fo n = (s, Inr (sl rs (nat fo) (nat (min (fo + n) (int (length rs))))))"
        using assms(2) Some by (simp add: mem_Read_def mem_get_def Let_def)
      then show ?thesis using False slice [of rs] unfolding log flt' by simp
    qed
  qed
qed

lemma mem_DeleteTopic_log:
  "mem_log (filter (\<lambda>(p, _). p_Topic p \<noteq> t) s) p = (if p_Topic p = t then [] else mem_log s p)"
  by (simp add: mem_log_def map_of_without_topic)

lemma mem_bounds:
  assumes "mem_inv s" "r \<in> set (mem_log s p)"
  shows "0 \<le> r_Offset r \<and> r_Offset r < mem_hw s p"
proof -
  from assms(2) obtain i where "i < length (mem_log s p)" "r = mem_log s p ! i" by (metis in_set_conv_nth)
  moreover have "dense (mem_log s p)" using assms(1) by (simp add: mem_inv_def)
  ultimately show ?thesis using dense_nth [of "mem_log s p" i] by (simp add: mem_hw_def)
qed

interpretation mem: store memory_ops mem_inv mem_log mem_hw "\<lambda>_ _ _. True" "\<lambda>_. True" "\<lambda>r. r"
proof (unfold_locales, goal_cases)
  case (1 s p r now)
  then show ?case using mem_Append_inv [of s p now r]
    by (simp add: memory_ops_def mem_Append_run mem_log_update mem_hw_def fun_eq_iff)
next
  case (2 s p fo n)
  then show ?case by (simp add: memory_ops_def mem_Read_run)
next
  case (6 s t)
  have "mem_inv (filter (\<lambda>(p, _). p_Topic p \<noteq> t) s)" using 6(1) by (simp add: mem_inv_def mem_DeleteTopic_log)
  then show ?case by (simp add: memory_ops_def mem_DeleteTopic_def mem_DeleteTopic_log mem_hw_def fun_eq_iff)
next
  case (12 s p)
  then show ?case by (intro dense_sorted) (simp add: mem_inv_def)
next
  case (13 s r p)
  then show ?case by (rule mem_bounds)
qed (simp_all add: memory_ops_def mem_Append_def mem_Read_def mem_HighWater_def mem_Sync_def mem_DeleteTopic_def
    mem_get_def mem_hw_def mem_log_def split: option.splits)

end
