(* ===== verification/Store_File.thy ===== *)
theory Store_File
  imports Store_Contract Log_Properties
begin

text \<open>
  The disk-backed store, \<^verbatim>\<open>broker/internal/storage/file.go\<close>: a map of lazily opened partition logs over a
  tree of directories, one per partition. A path is the list of components of the absolute path it
  denotes; \<open>fs_disk\<close> maps the directories that exist to their files. The map of open logs is gone
  after \<open>file_Close\<close>, and assigning into it then panics as in Go.
\<close>

section \<open>Paths\<close>

type_synonym path = "string list"

fun path_split :: "string \<Rightarrow> string list" where
  "path_split [] = [[]]"
| "path_split (c # cs) =
     (if c = CHR ''/'' then [] # path_split cs
      else case path_split cs of w # ws \<Rightarrow> (c # w) # ws | [] \<Rightarrow> [[c]])"

definition path_step :: "path \<Rightarrow> string \<Rightarrow> path" where
  "path_step acc c = (if c = [] \<or> c = ''.'' then acc else if c = ''..'' then butlast acc else acc @ [c])"

text \<open>\<^verbatim>\<open>filepath.Join\<close> with the cleaning of its result.\<close>

definition filepath_Join :: "path \<Rightarrow> string list \<Rightarrow> path" where
  "filepath_Join root elems = foldl path_step root (concat (map path_split elems))"

definition PartitionDir :: "path \<Rightarrow> PartitionRef \<Rightarrow> path" where
  "PartitionDir root p = filepath_Join root [p_Topic p, fmt_d (p_Index p)]"

definition os_RemoveAll :: "(path \<times> dir) list \<Rightarrow> path \<Rightarrow> (path \<times> dir) list" where
  "os_RemoveAll disk path = filter (\<lambda>(q, _). take (length path) q \<noteq> path) disk"

section \<open>State\<close>

record FileStore =
  fs_root :: path
  fs_segmentSize :: int
  fs_logs :: "(PartitionRef \<times> PartitionLog) list option"
  fs_disk :: "(path \<times> dir) list"

definition NewFileStore :: "path \<Rightarrow> int \<Rightarrow> FileStore" where
  "NewFileStore root segmentBytes = \<lparr>fs_root = root, fs_segmentSize = segmentBytes, fs_logs = Some [], fs_disk = []\<rparr>"

definition fs_lookup :: "FileStore \<Rightarrow> PartitionRef \<Rightarrow> PartitionLog option" where
  "fs_lookup s p = (case fs_logs s of None \<Rightarrow> None | Some logs \<Rightarrow> map_of logs p)"

definition fs_dir :: "FileStore \<Rightarrow> PartitionRef \<Rightarrow> dir" where
  "fs_dir s p = (case map_of (fs_disk s) (PartitionDir (fs_root s) p) of None \<Rightarrow> [] | Some d \<Rightarrow> d)"

text \<open>The effect of an operation on an open log: its directory and its handle change.\<close>

definition fs_put :: "FileStore \<Rightarrow> PartitionRef \<Rightarrow> dir \<Rightarrow> PartitionLog \<Rightarrow> FileStore" where
  "fs_put s p d l = s\<lparr>fs_logs := map_option (AList.update p l) (fs_logs s),
     fs_disk := AList.update (PartitionDir (fs_root s) p) d (fs_disk s)\<rparr>"

section \<open>Operations\<close>

definition openLog :: "FileStore \<Rightarrow> PartitionRef \<Rightarrow> FileStore \<times> PartitionLog result" where
  "openLog s p =
     (case fs_lookup s p of
        Some l \<Rightarrow> (s, Inr l)
      | None \<Rightarrow>
          (case OpenPartition (fs_dir s p) (fs_segmentSize s) of
             Inl err \<Rightarrow> (s, Inl (ErrWrap ''storage: open partition'' err))
           | Inr (d, l) \<Rightarrow>
               (case fs_logs s of
                  None \<Rightarrow> (fs_put s p d l, Inl Panic)
                | Some _ \<Rightarrow> (fs_put s p d l, Inr l))))"

definition file_Append :: "go_error option \<Rightarrow> int \<Rightarrow> FileStore \<Rightarrow> PartitionRef \<Rightarrow> Record \<Rightarrow> FileStore \<times> int result" where
  "file_Append ctx now s p r =
     (case ctx of
        Some err \<Rightarrow> (s, Inl err)
      | None \<Rightarrow>
          (case openLog s p of
             (s, Inl err) \<Rightarrow> (s, Inl err)
           | (s, Inr plog) \<Rightarrow>
               (let r = r\<lparr>r_Offset := part_HighWater plog\<rparr>;
                    r = (if r_Timestamp r = 0 then r\<lparr>r_Timestamp := now\<rparr> else r)
                in case part_Append (fs_dir s p) plog r of
                     Inl err \<Rightarrow> (s, Inl err)
                   | Inr (d, l, off) \<Rightarrow> (fs_put s p d l, Inr off))))"

definition file_Read :: "go_error option \<Rightarrow> FileStore \<Rightarrow> PartitionRef \<Rightarrow> int \<Rightarrow> int \<Rightarrow> FileStore \<times> Record list result" where
  "file_Read ctx s p fromOffset maxRecords =
     (case ctx of
        Some err \<Rightarrow> (s, Inl err)
      | None \<Rightarrow>
          if fromOffset < 0 then (s, Inl (ErrNew ''storage: negative offset''))
          else case openLog s p of
                 (s, Inl err) \<Rightarrow> (s, Inl err)
               | (s, Inr plog) \<Rightarrow>
                   (case part_Read (fs_dir s p) plog fromOffset maxRecords of
                      (d, l, res) \<Rightarrow> (fs_put s p d l, res)))"

definition file_HighWater :: "go_error option \<Rightarrow> FileStore \<Rightarrow> PartitionRef \<Rightarrow> FileStore \<times> int result" where
  "file_HighWater ctx s p =
     (case ctx of
        Some err \<Rightarrow> (s, Inl err)
      | None \<Rightarrow>
          (case openLog s p of
             (s, Inl err) \<Rightarrow> (s, Inl err)
           | (s, Inr plog) \<Rightarrow> (s, Inr (part_HighWater plog))))"

definition file_Sync :: "go_error option \<Rightarrow> FileStore \<Rightarrow> PartitionRef \<Rightarrow> FileStore \<times> unit result" where
  "file_Sync ctx s p =
     (case ctx of
        Some err \<Rightarrow> (s, Inl err)
      | None \<Rightarrow>
          (case fs_lookup s p of
             None \<Rightarrow> (s, Inr ())
           | Some plog \<Rightarrow> (let (d, l) = part_Sync (fs_dir s p) plog in (fs_put s p d l, Inr ()))))"

text \<open>
  A pass over a snapshot of the open logs that stops at the first error. The open logs are a Go map:
  its iteration order is unspecified, and the logs live in different directories.
\<close>

primrec each_log :: "(dir \<Rightarrow> PartitionLog \<Rightarrow> dir \<times> PartitionLog \<times> unit result)
    \<Rightarrow> (PartitionRef \<times> PartitionLog) list \<Rightarrow> FileStore \<Rightarrow> FileStore \<times> unit result" where
  "each_log f [] s = (s, Inr ())"
| "each_log f (pl # rest) s =
     (case f (fs_dir s (fst pl)) (snd pl) of
        (d, l, Inl err) \<Rightarrow> (fs_put s (fst pl) d l, Inl err)
      | (d, l, Inr _) \<Rightarrow> each_log f rest (fs_put s (fst pl) d l))"

definition snapshotLogs :: "FileStore \<Rightarrow> (PartitionRef \<times> PartitionLog) list" where
  "snapshotLogs s = (case fs_logs s of None \<Rightarrow> [] | Some logs \<Rightarrow> logs)"

definition time_pass :: "int \<Rightarrow> dir \<Rightarrow> PartitionLog \<Rightarrow> dir \<times> PartitionLog \<times> unit result" where
  "time_pass cutoff d l =
     (case part_EnforceTimeRetention d l cutoff of
        (d, l, _, Some err) \<Rightarrow> (d, l, Inl err) | (d, l, _, None) \<Rightarrow> (d, l, Inr ()))"

definition size_pass :: "int \<Rightarrow> dir \<Rightarrow> PartitionLog \<Rightarrow> dir \<times> PartitionLog \<times> unit result" where
  "size_pass maxBytes d l =
     (case part_EnforceSizeRetention d l maxBytes of
        (d, l, _, Some err) \<Rightarrow> (d, l, Inl err) | (d, l, _, None) \<Rightarrow> (d, l, Inr ()))"

definition file_EnforceRetention :: "int \<Rightarrow> FileStore \<Rightarrow> int \<Rightarrow> FileStore \<times> unit result" where
  "file_EnforceRetention now s retention =
     (if retention \<le> 0 then (s, Inr ()) else each_log (time_pass (now - retention)) (snapshotLogs s) s)"

definition file_EnforceSizeRetention :: "FileStore \<Rightarrow> int \<Rightarrow> FileStore \<times> unit result" where
  "file_EnforceSizeRetention s maxBytes =
     (if maxBytes \<le> 0 then (s, Inr ()) else each_log (size_pass maxBytes) (snapshotLogs s) s)"

definition file_Compact :: "FileStore \<Rightarrow> FileStore \<times> unit result" where
  "file_Compact s = each_log part_Compact (snapshotLogs s) s"

primrec close_topic :: "string \<Rightarrow> (PartitionRef \<times> PartitionLog) list \<Rightarrow> FileStore \<Rightarrow> FileStore" where
  "close_topic topic [] s = s"
| "close_topic topic (pl # rest) s =
     (if p_Topic (fst pl) \<noteq> topic then close_topic topic rest s
      else case part_Close (fs_dir s (fst pl)) (snd pl) of
             (d, _, _) \<Rightarrow>
               close_topic topic rest
                 (s\<lparr>fs_disk := AList.update (PartitionDir (fs_root s) (fst pl)) d (fs_disk s),
                    fs_logs := map_option (AList.delete (fst pl)) (fs_logs s)\<rparr>))"

definition file_DeleteTopic :: "go_error option \<Rightarrow> FileStore \<Rightarrow> string \<Rightarrow> FileStore \<times> unit result" where
  "file_DeleteTopic ctx s topic =
     (case ctx of
        Some err \<Rightarrow> (s, Inl err)
      | None \<Rightarrow>
          (let s = close_topic topic (snapshotLogs s) s
           in (s\<lparr>fs_disk := os_RemoveAll (fs_disk s) (filepath_Join (fs_root s) [topic])\<rparr>, Inr ())))"

definition file_ListSegments :: "go_error option \<Rightarrow> FileStore \<Rightarrow> PartitionRef \<Rightarrow> FileStore \<times> SegmentSnapshot list result" where
  "file_ListSegments ctx s p =
     (case ctx of
        Some err \<Rightarrow> (s, Inl err)
      | None \<Rightarrow>
          (case openLog s p of
             (s, Inl err) \<Rightarrow> (s, Inl err)
           | (s, Inr plog) \<Rightarrow>
               (case part_Snapshot (fs_dir s p) plog of
                  Inl err \<Rightarrow> (s, Inl err)
                | Inr (d, l, snaps) \<Rightarrow>
                    (fs_put s p d l,
                     Inr (map (\<lambda>sn. \<lparr>ss_Base = ss_Base sn, ss_LogSize = ss_LogSize sn, ss_IdxSize = ss_IdxSize sn\<rparr>) snaps)))))"

definition file_FetchSegmentChunk ::
  "go_error option \<Rightarrow> FileStore \<Rightarrow> PartitionRef \<Rightarrow> int \<Rightarrow> byte \<Rightarrow> int \<Rightarrow> int \<Rightarrow> FileStore \<times> bytes result" where
  "file_FetchSegmentChunk ctx s p base kind offset maxBytes =
     (case ctx of
        Some err \<Rightarrow> (s, Inl err)
      | None \<Rightarrow>
          (case openLog s p of
             (s, Inl err) \<Rightarrow> (s, Inl err)
           | (s, Inr plog) \<Rightarrow> (s, part_ReadSegmentBytes (fs_dir s p) plog base kind offset maxBytes)))"

primrec close_logs :: "(PartitionRef \<times> PartitionLog) list \<Rightarrow> FileStore \<Rightarrow> FileStore \<times> unit result" where
  "close_logs [] s = (s, Inr ())"
| "close_logs (pl # rest) s =
     (case part_Close (fs_dir s (fst pl)) (snd pl) of
        (d, _, err) \<Rightarrow>
          (case close_logs rest (s\<lparr>fs_disk := AList.update (PartitionDir (fs_root s) (fst pl)) d (fs_disk s)\<rparr>) of
             (s, err') \<Rightarrow> (s, case err of Inl e \<Rightarrow> Inl e | Inr _ \<Rightarrow> err')))"

definition file_Close :: "FileStore \<Rightarrow> FileStore \<times> unit result" where
  "file_Close s = (let (s, firstErr) = close_logs (snapshotLogs s) s in (s\<lparr>fs_logs := None\<rparr>, firstErr))"

definition file_ops :: "FileStore store_ops" where
  "file_ops = \<lparr>so_Append = file_Append, so_Read = file_Read, so_HighWater = file_HighWater, so_Sync = file_Sync,
     so_DeleteTopic = file_DeleteTopic\<rparr>"

section \<open>Partition directories\<close>

definition good_name :: "string \<Rightarrow> bool" where
  "good_name t \<longleftrightarrow> t \<noteq> [] \<and> t \<noteq> ''.'' \<and> t \<noteq> ''..'' \<and> CHR ''/'' \<notin> set t"

definition file_addressable :: "PartitionRef \<Rightarrow> bool" where
  "file_addressable p \<longleftrightarrow> good_name (p_Topic p) \<and> int64_ok (p_Index p)"

lemma path_split_no_slash: "CHR ''/'' \<notin> set t \<Longrightarrow> path_split t = [t]"
  by (induction t) auto

lemma path_step_good: "good_name t \<Longrightarrow> path_step acc t = acc @ [t]"
  by (simp add: good_name_def path_step_def)

lemma good_fmt_d: "good_name (fmt_d i)"
proof -
  have dg: "c \<noteq> CHR ''/'' \<and> c \<noteq> CHR ''.''" if c: "c \<in> set (digits n)" for c n
  proof -
    obtain d where d: "d < 10" "c = digit d" using digits_chars [OF c] by blast
    then have "(of_char c :: nat) = 48 + d" using of_char_digit by simp
    then show ?thesis using d(1) by auto
  qed
  have "c \<noteq> CHR ''/'' \<and> c \<noteq> CHR ''.''" if "c \<in> set (fmt_d i)" for c
    using that dg [of c "nat i"] dg [of c "nat (- i)"] by (auto simp: fmt_d_def split: if_splits)
  moreover have "fmt_d i \<noteq> []" by (simp add: fmt_d_def)
  ultimately show ?thesis by (auto simp: good_name_def)
qed

lemma Join_good: "good_name t \<Longrightarrow> filepath_Join root [t] = root @ [t]"
  by (simp add: filepath_Join_def good_name_def path_split_no_slash path_step_def)

lemma PartitionDir_good: "good_name (p_Topic p) \<Longrightarrow> PartitionDir root p = root @ [p_Topic p, fmt_d (p_Index p)]"
  using good_fmt_d [of "p_Index p"]
  by (simp add: PartitionDir_def filepath_Join_def path_split_no_slash path_step_good)
    (simp add: good_name_def path_split_no_slash path_step_def)

lemma fmt_d_inject: "int64_ok i \<Longrightarrow> int64_ok j \<Longrightarrow> fmt_d i = fmt_d j \<longleftrightarrow> i = j"
  by (simp add: fmt_d_eq fmt_0d_inject)

lemma PartitionDir_inject:
  assumes "file_addressable p" "file_addressable q"
  shows "PartitionDir root p = PartitionDir root q \<longleftrightarrow> p = q"
  using assms fmt_d_inject [of "p_Index p" "p_Index q"]
  by (cases p; cases q) (auto simp: file_addressable_def PartitionDir_good)

section \<open>Invariant\<close>

definition file_hw :: "FileStore \<Rightarrow> PartitionRef \<Rightarrow> int" where
  "file_hw s p = (case fs_lookup s p of None \<Rightarrow> 0 | Some l \<Rightarrow> part_HighWater l)"

definition file_log :: "FileStore \<Rightarrow> PartitionRef \<Rightarrow> Record list" where
  "file_log s p =
     (case fs_lookup s p of
        None \<Rightarrow> []
      | Some l \<Rightarrow> (case part_Read (fs_dir s p) l 0 (part_HighWater l) of (_, _, Inr rs) \<Rightarrow> rs | _ \<Rightarrow> []))"

text \<open>
  A store since its start on an empty tree: every open log is well-formed in its own directory, and a
  partition that is not open has no directory yet.
\<close>

definition file_inv :: "FileStore \<Rightarrow> bool" where
  "file_inv s \<longleftrightarrow> fs_logs s \<noteq> None \<and> distinct (map fst (snapshotLogs s))
     \<and> (\<forall>p l. fs_lookup s p = Some l \<longrightarrow> file_addressable p \<and> (\<exists>rss. log_inv (fs_dir s p, l) rss))
     \<and> (\<forall>p. file_addressable p \<and> fs_lookup s p = None \<longrightarrow> map_of (fs_disk s) (PartitionDir (fs_root s) p) = None)"

lemma length_bounded:
  fixes f :: "'a \<Rightarrow> int"
  assumes "sorted_wrt (<) (map f xs)" "\<forall>x \<in> set xs. 0 \<le> f x \<and> f x < h"
  shows "length xs \<le> nat h"
proof -
  have "distinct (map f xs)" using assms(1) strict_sorted_iff by auto
  then have "length xs = card (set (map f xs))" by (metis distinct_card length_map)
  also have "\<dots> \<le> card {0..<h}" using assms(2) by (intro card_mono) auto
  finally show ?thesis by simp
qed

lemma log_inv_bounds:
  assumes "log_inv (d, l) rss"
  shows "sorted_wrt (<) (map r_Offset (concat rss))" "\<forall>r \<in> set (concat rss). 0 \<le> r_Offset r \<and> r_Offset r < part_HighWater l"
proof -
  have p: "part_repr d l rss" "\<forall>r \<in> set (concat rss). 0 \<le> r_Offset r" using assms by (simp_all add: log_inv_def)
  then have sr: "segs_repr d (pl_segments l) rss" by (simp add: part_repr_def)
  then show "sorted_wrt (<) (map r_Offset (concat rss))" using segs_repr_concat by blast
  obtain ss a rss0 rs where q: "pl_segments l = ss @ [a]" "rss = rss0 @ [rs]" "segs_repr d ss rss0" "seg_repr d a rs"
      "list_all (\<lambda>s. seg_before s a) ss"
    using p(1) by (rule part_repr_cases)
  have hw: "part_HighWater l = sg_highWater a" by (simp add: part_HighWater_def q(1))
  have "sg_baseOffset a \<le> sg_highWater a"
    using seg_repr_sums(2) [OF q(4)] q(4) by (cases rs rule: rev_cases) (auto simp: next_offset_def seg_repr_def recs_ok_def)
  then show "\<forall>r \<in> set (concat rss). 0 \<le> r_Offset r \<and> r_Offset r < part_HighWater l"
    using p(2) sealed_bounds [OF q(3,5)] seg_repr_bounds(2) [OF q(4)] unfolding hw q(2) by fastforce
qed

lemma file_log_eq:
  assumes "fs_lookup s p = Some l" "log_inv (fs_dir s p, l) rss"
  shows "file_log s p = concat rss"
proof -
  obtain d' l' res where run: "part_Read (fs_dir s p) l 0 (part_HighWater l) = (d', l', res)" by (metis prod.collapse)
  have "part_repr (fs_dir s p) l rss" "at_end (fs_dir s p) (active l)" using assms(2) by (simp_all add: log_inv_def)
  from Read_repr [OF this run] have "res = Inr (take (nat (part_HighWater l)) (filter (\<lambda>r. 0 \<le> r_Offset r) (concat rss)))" by simp
  moreover have "filter (\<lambda>r. 0 \<le> r_Offset r) (concat rss) = concat rss"
    using log_inv_bounds(2) [OF assms(2)] by (auto intro: filter_True)
  moreover have "length (concat rss) \<le> nat (part_HighWater l)"
    using length_bounded [OF log_inv_bounds(1) [OF assms(2)] log_inv_bounds(2) [OF assms(2)]] .
  ultimately show ?thesis using assms(1) run by (simp add: file_log_def)
qed

lemma fs_put_sel:
  "fs_root (fs_put s p d l) = fs_root s" "fs_segmentSize (fs_put s p d l) = fs_segmentSize s"
  "fs_logs s \<noteq> None \<Longrightarrow> fs_lookup (fs_put s p d l) = (fs_lookup s)(p := Some l)"
  "fs_dir (fs_put s p d l) p = d"
  "file_addressable p \<Longrightarrow> file_addressable q \<Longrightarrow> q \<noteq> p \<Longrightarrow> fs_dir (fs_put s p d l) q = fs_dir s q"
  "(fs_logs (fs_put s p d l) = None) = (fs_logs s = None)"
  "distinct (map fst (snapshotLogs s)) \<Longrightarrow> distinct (map fst (snapshotLogs (fs_put s p d l)))"
  by (auto simp: fs_put_def fs_lookup_def fs_dir_def update_conv' fun_eq_iff PartitionDir_inject snapshotLogs_def
      distinct_update split: option.splits)

text \<open>Every operation on one partition leaves the others as they are.\<close>

lemma fs_put_inv:
  assumes s: "file_inv s" and p: "file_addressable p" and l: "log_inv (d, l) rss"
  shows "file_inv (fs_put s p d l)" "file_log (fs_put s p d l) = (file_log s)(p := concat rss)"
    "file_hw (fs_put s p d l) = (file_hw s)(p := part_HighWater l)"
proof -
  have logs: "fs_logs s \<noteq> None" using s by (simp add: file_inv_def)
  note sel = fs_put_sel(1,3-7) [where s = s and p = p and d = d and l = l]
  have "map_of (fs_disk (fs_put s p d l)) (PartitionDir (fs_root s) q) = map_of (fs_disk s) (PartitionDir (fs_root s) q)"
    if "file_addressable q" "q \<noteq> p" for q
    using that p by (simp add: fs_put_def update_conv' PartitionDir_inject)
  then show inv: "file_inv (fs_put s p d l)"
    using s p l sel logs by (auto simp: file_inv_def)
  show "file_hw (fs_put s p d l) = (file_hw s)(p := part_HighWater l)"
    using sel logs by (auto simp: file_hw_def fun_eq_iff)
  show "file_log (fs_put s p d l) = (file_log s)(p := concat rss)"
  proof (rule ext)
    fix q
    show "file_log (fs_put s p d l) q = ((file_log s)(p := concat rss)) q"
    proof (cases "q = p")
      case True
      then show ?thesis using file_log_eq [of "fs_put s p d l" p l rss] l sel logs by simp
    next
      case False
      have "file_addressable q" if "fs_lookup s q = Some x" for x using s that by (simp add: file_inv_def)
      with False sel logs p show ?thesis by (auto simp: file_log_def split: option.splits)
    qed
  qed
qed

lemma openLog_run:
  assumes s: "file_inv s" and p: "file_addressable p"
  shows "\<exists>s' l rss. openLog s p = (s', Inr l) \<and> file_inv s' \<and> fs_lookup s' p = Some l \<and> log_inv (fs_dir s' p, l) rss
    \<and> concat rss = file_log s p \<and> file_log s' = file_log s \<and> file_hw s' = file_hw s \<and> fs_segmentSize s' = fs_segmentSize s
    \<and> l = (case fs_lookup s p of Some l \<Rightarrow> l | None \<Rightarrow> snd (projr (OpenPartition [] (fs_segmentSize s))))"
proof (cases "fs_lookup s p")
  case (Some l)
  then obtain rss where "log_inv (fs_dir s p, l) rss" using s unfolding file_inv_def by blast
  with Some s file_log_eq [OF Some this] show ?thesis
    by (intro exI [of _ s] exI [of _ l] exI [of _ rss]) (simp add: openLog_def)
next
  case None
  then have "fs_dir s p = []" using s p by (simp add: file_inv_def fs_dir_def)
  moreover obtain d l where o: "OpenPartition [] (fs_segmentSize s) = Inr (d, l)" and inv: "log_inv (d, l) [[]]"
    using Open_new by (metis prod.collapse)
  ultimately have run: "openLog s p = (fs_put s p d l, Inr l)"
    using None s by (auto simp: openLog_def file_inv_def)
  have logs: "fs_logs s \<noteq> None" using s by (simp add: file_inv_def)
  have "file_log s p = []" "file_hw s p = 0" using None by (simp_all add: file_log_def file_hw_def)
  moreover have "part_HighWater l = 0"
    using o by (auto simp: OpenPartition_def recoverCompactingSegments_def os_ReadDir_def discoverSegments_def
        createSegment_def createSegmentWithSuffix_def Let_def part_HighWater_def)
  ultimately have "file_log (fs_put s p d l) = file_log s" "file_hw (fs_put s p d l) = file_hw s"
    using fs_put_inv(2,3) [OF s p inv] by (auto simp: fun_eq_iff)
  with run fs_put_inv(1) [OF s p inv] inv logs None o \<open>file_log s p = []\<close> show ?thesis
    by (intro exI [of _ "fs_put s p d l"] exI [of _ l] exI [of _ "[[]]"]) (simp add: fs_put_sel)
qed

section \<open>Contract\<close>

definition file_fits :: "FileStore \<Rightarrow> PartitionRef \<Rightarrow> Record \<Rightarrow> bool" where
  "file_fits s p r \<longleftrightarrow>
     (let l = (case fs_lookup s p of Some l \<Rightarrow> l | None \<Rightarrow> snd (projr (OpenPartition [] (fs_segmentSize s))))
      in append_fits l (stamp 1 (file_hw s p) r))"

lemma append_fits_now:
  assumes "append_fits l (stamp 1 off r)" "int64_ok now"
  shows "append_fits l (stamp now off r)"
proof -
  have "length (encodeRecord [] (stamp now off r)) = length (encodeRecord [] (stamp 1 off r))"
    by (simp add: length_encodeRecord)
  with assms show ?thesis by (auto simp: append_fits_def frame_fits_def wf_record_def buf32_def length_frame)
qed

lemma file_hw_lookup: "fs_lookup s p = Some l \<Longrightarrow> file_hw s p = part_HighWater l"
  by (simp add: file_hw_def)

lemma file_append_law:
  assumes s: "file_inv s" and p: "file_addressable p" and f: "file_fits s p r" and now: "int64_ok now"
  shows "\<exists>s'. file_Append None now s p r = (s', Inr (file_hw s p)) \<and> file_inv s'
    \<and> file_log s' = (file_log s)(p := file_log s p @ [norm_record (stamp now (file_hw s p) r)])
    \<and> file_hw s' = (file_hw s)(p := file_hw s p + 1)"
proof -
  obtain s1 l rss where o: "openLog s p = (s1, Inr l)" "file_inv s1" "fs_lookup s1 p = Some l" "log_inv (fs_dir s1 p, l) rss"
      "concat rss = file_log s p" "file_log s1 = file_log s" "file_hw s1 = file_hw s"
      "l = (case fs_lookup s p of Some l \<Rightarrow> l | None \<Rightarrow> snd (projr (OpenPartition [] (fs_segmentSize s))))"
    using openLog_run [OF s p] by blast
  have hw: "part_HighWater l = file_hw s p" using file_hw_lookup [OF o(3)] o(7) by simp
  let ?r = "stamp now (file_hw s p) r"
  have fits: "append_fits l ?r" using f o(8) append_fits_now [OF _ now] by (simp add: file_fits_def Let_def)
  have st: "(if r_Timestamp r = 0 then r\<lparr>r_Offset := file_hw s p, r_Timestamp := now\<rparr> else r\<lparr>r_Offset := file_hw s p\<rparr>) = ?r"
    by (cases r) (simp add: stamp_def)
  have i: "part_repr (fs_dir s1 p) l rss" "at_end (fs_dir s1 p) (active l)" "f_append (sg_logFile (active l))" "0 \<le> part_HighWater l"
      "\<forall>r \<in> set (concat rss). 0 \<le> r_Offset r" using o(4) by (simp_all add: log_inv_def)
  from Append_repr [OF i(1,2) fits] i(3) obtain d' l' rss' where
    a: "part_Append (fs_dir s1 p) l ?r = Inr (d', l', file_hw s p)" "part_repr d' l' rss'"
      "concat rss' = concat rss @ [norm_record ?r]" "at_end d' (active l')" "part_HighWater l' = file_hw s p + 1"
      "f_append (sg_logFile (active l'))" by auto
  have inv': "log_inv (d', l') rss'" using a i(4,5) hw by (auto simp: log_inv_def)
  have "file_Append None now s p r = (fs_put s1 p d' l', Inr (file_hw s p))"
    using o(1) a(1) [folded st] by (cases "r_Timestamp r = 0") (simp_all add: file_Append_def Let_def hw)
  moreover note fs_put_inv [OF o(2) p inv']
  ultimately show ?thesis using a(3,5) o(5,6,7) by (intro exI [of _ "fs_put s1 p d' l'"]) simp
qed

lemma file_read_law:
  assumes s: "file_inv s" and p: "file_addressable p" and fo: "0 \<le> fo"
  shows "\<exists>s'. file_Read None s p fo n = (s', Inr (take (nat n) (filter (\<lambda>r. fo \<le> r_Offset r) (file_log s p))))
    \<and> file_inv s' \<and> file_log s' = file_log s \<and> file_hw s' = file_hw s"
proof -
  obtain s1 l rss where o: "openLog s p = (s1, Inr l)" "file_inv s1" "fs_lookup s1 p = Some l" "log_inv (fs_dir s1 p, l) rss"
      "concat rss = file_log s p" "file_log s1 = file_log s" "file_hw s1 = file_hw s"
    using openLog_run [OF s p] by blast
  obtain d' l' res where run: "part_Read (fs_dir s1 p) l fo n = (d', l', res)" by (metis prod.collapse)
  have i: "part_repr (fs_dir s1 p) l rss" "at_end (fs_dir s1 p) (active l)" "f_append (sg_logFile (active l))" "0 \<le> part_HighWater l"
      "\<forall>r \<in> set (concat rss). 0 \<le> r_Offset r" using o(4) by (simp_all add: log_inv_def)
  note r = Read_repr [OF i(1,2) run]
  have inv': "log_inv (d', l') rss" using r i(3,4,5) by (simp add: log_inv_def)
  have "file_Read None s p fo n = (fs_put s1 p d' l', res)" using o(1) run fo by (simp add: file_Read_def)
  moreover have "file_hw s p = part_HighWater l'" using r file_hw_lookup [OF o(3)] o(7) by simp
  ultimately show ?thesis
    using r o(5,6,7) fs_put_inv [OF o(2) p inv'] by (intro exI [of _ "fs_put s1 p d' l'"]) (auto simp: fun_eq_iff)
qed

lemma file_sync_law:
  assumes s: "file_inv s"
  shows "\<exists>s'. file_Sync None s p = (s', Inr ()) \<and> file_inv s' \<and> file_log s' = file_log s \<and> file_hw s' = file_hw s"
proof (cases "fs_lookup s p")
  case (Some l)
  then obtain rss where p: "file_addressable p" and o: "log_inv (fs_dir s p, l) rss" using s unfolding file_inv_def by blast
  obtain d' l' where run: "part_Sync (fs_dir s p) l = (d', l')" by fastforce
  have i: "part_repr (fs_dir s p) l rss" "at_end (fs_dir s p) (active l)" "f_append (sg_logFile (active l))" "0 \<le> part_HighWater l"
      "\<forall>r \<in> set (concat rss). 0 \<le> r_Offset r" using o by (simp_all add: log_inv_def)
  note r = Sync_repr [OF i(1,2) run] Sync_append [OF run]
  have inv': "log_inv (d', l') rss" using r i(3,4,5) by (simp add: log_inv_def)
  have "file_Sync None s p = (fs_put s p d' l', Inr ())" using Some run by (simp add: file_Sync_def)
  with r file_log_eq [OF Some o] file_hw_lookup [OF Some] fs_put_inv [OF s p inv'] show ?thesis
    by (intro exI [of _ "fs_put s p d' l'"]) (auto simp: fun_eq_iff)
qed (use s in \<open>simp add: file_Sync_def\<close>)

text \<open>Closing the logs of one topic touches no other log and no directory of another topic.\<close>

lemma close_topic_run:
  assumes "\<forall>x \<in> set pls. file_addressable (fst x)"
  shows "fs_root (close_topic t pls s) = fs_root s"
    "\<And>p. fs_lookup (close_topic t pls s) p = (if p_Topic p = t \<and> p \<in> fst ` set pls then None else fs_lookup s p)"
    "\<And>q. take (length (fs_root s) + 1) q \<noteq> fs_root s @ [t] \<Longrightarrow> map_of (fs_disk (close_topic t pls s)) q = map_of (fs_disk s) q"
    "(fs_logs (close_topic t pls s) = None) = (fs_logs s = None)"
    "distinct (map fst (snapshotLogs s)) \<Longrightarrow> distinct (map fst (snapshotLogs (close_topic t pls s)))"
  using assms
proof (induction pls arbitrary: s)
  case (Cons x pls)
  {
    case 1 then show ?case using Cons.IH by (simp split: prod.splits)
  next
    case 2 then show ?case using Cons.IH(2)
      by (auto simp: fs_lookup_def delete_conv' split: prod.splits option.splits)
  next
    case (3 q)
    have "PartitionDir (fs_root s) (fst x) \<noteq> q" if "p_Topic (fst x) = t"
    proof -
      have "good_name (p_Topic (fst x))" using 3(2) by (simp add: file_addressable_def)
      then have "take (length (fs_root s) + 1) (PartitionDir (fs_root s) (fst x)) = fs_root s @ [t]"
        using that by (simp add: PartitionDir_good)
      with 3(1) show ?thesis by auto
    qed
    with 3 Cons.IH(3) show ?case by (auto simp: update_conv' split: prod.splits)
  next
    case 4 then show ?case using Cons.IH(4) by (simp split: prod.splits)
  next
    case 5
    then have "distinct (map fst (snapshotLogs (s\<lparr>fs_disk := D, fs_logs := map_option (AList.delete q) (fs_logs s)\<rparr>)))" for D q
      by (auto simp: snapshotLogs_def distinct_delete split: option.splits)
    with 5 show ?case using Cons.IH(5) by (simp split: prod.splits)
  }
qed simp_all

lemma file_delete_law:
  assumes s: "file_inv s" and t: "good_name t"
  shows "\<exists>s'. file_DeleteTopic None s t = (s', Inr ()) \<and> file_inv s'
    \<and> file_log s' = (\<lambda>p. if p_Topic p = t then [] else file_log s p)
    \<and> file_hw s' = (\<lambda>p. if p_Topic p = t then 0 else file_hw s p)"
proof -
  obtain logs where logs: "fs_logs s = Some logs" using s by (auto simp: file_inv_def)
  let ?s1 = "close_topic t logs s"
  have look: "fs_lookup s p = map_of logs p" for p by (simp add: fs_lookup_def logs)
  have "file_addressable (fst x)" if "x \<in> set logs" for x
  proof -
    have "map_of logs (fst x) \<noteq> None" using that by (auto simp: map_of_eq_None_iff)
    then show ?thesis using s look unfolding file_inv_def by fastforce
  qed
  then have ad: "\<forall>x \<in> set logs. file_addressable (fst x)" by blast
  note c = close_topic_run [where t = t and s = s, OF ad]
  define s' where "s' = ?s1\<lparr>fs_disk := os_RemoveAll (fs_disk ?s1) (filepath_Join (fs_root ?s1) [t])\<rparr>"
  have run: "file_DeleteTopic None s t = (s', Inr ())"
    by (simp add: file_DeleteTopic_def snapshotLogs_def logs s'_def Let_def)
  have l': "fs_lookup s' p = (if p_Topic p = t then None else fs_lookup s p)" for p
  proof -
    have "fs_lookup s' p = fs_lookup ?s1 p" by (simp add: s'_def fs_lookup_def)
    moreover have "p \<notin> fst ` set logs \<Longrightarrow> fs_lookup s p = None" by (simp add: look map_of_eq_None_iff)
    ultimately show ?thesis using c(2) [of p] by auto
  qed
  have disk: "map_of (fs_disk s') q = (if take (length (fs_root s) + 1) q = fs_root s @ [t] then None else map_of (fs_disk s) q)" for q
  proof -
    have "map_of (filter (\<lambda>(q, _). P q) xs) q = (if P q then map_of xs q else None)" for P and xs :: "(path \<times> dir) list"
      by (induction xs) auto
    then show ?thesis using c(1,3) t by (simp add: s'_def os_RemoveAll_def Join_good)
  qed
  have root: "fs_root s' = fs_root s" using c(1) by (simp add: s'_def)
  have mine: "take (length (fs_root s) + 1) (PartitionDir (fs_root s) p) = fs_root s @ [p_Topic p]" if "file_addressable p" for p
    using that by (simp add: file_addressable_def PartitionDir_good)
  have dir: "fs_dir s' p = fs_dir s p" if "file_addressable p" "p_Topic p \<noteq> t" for p
    using that mine [of p] disk root by (simp add: fs_dir_def)
  have "file_inv s'"
    using s c(4) c(5) l' dir disk mine root logs unfolding file_inv_def
    by (auto simp: s'_def snapshotLogs_def)
  moreover have "file_log s' p = (if p_Topic p = t then [] else file_log s p)" for p
  proof (cases "fs_lookup s' p")
    case (Some l)
    then have "fs_lookup s p = Some l" "p_Topic p \<noteq> t" using l' by (auto split: if_splits)
    moreover have "file_addressable p" using calculation s unfolding file_inv_def by blast
    ultimately show ?thesis using Some dir by (simp add: file_log_def)
  qed (use l' in \<open>auto simp: file_log_def split: if_splits\<close>)
  moreover have "file_hw s' p = (if p_Topic p = t then 0 else file_hw s p)" for p
    using l' by (simp add: file_hw_def)
  ultimately show ?thesis using run by auto
qed

interpretation fil: store file_ops file_inv file_log file_hw file_fits file_addressable norm_record
proof (unfold_locales, goal_cases)
  case (1 s p r now)
  then show ?case using file_append_law by (simp add: file_ops_def)
next
  case (2 s p fo n)
  then show ?case using file_read_law by (simp add: file_ops_def)
next
  case (4 s p)
  from openLog_run [OF 4] obtain s1 l where "openLog s p = (s1, Inr l)" "file_inv s1" "fs_lookup s1 p = Some l"
    "file_log s1 = file_log s" "file_hw s1 = file_hw s" by blast
  then show ?case using file_hw_lookup [of s1 p l] by (simp add: file_ops_def file_HighWater_def)
next
  case (5 s p)
  then show ?case using file_sync_law by (simp add: file_ops_def)
next
  case (6 s t)
  then show ?case using file_delete_law by (simp add: file_ops_def file_addressable_def)
next
  case (12 s p)
  show ?case
  proof (cases "fs_lookup s p")
    case (Some l)
    then obtain rss where o: "log_inv (fs_dir s p, l) rss" using 12 unfolding file_inv_def by blast
    then show ?thesis using log_inv_bounds(1) [OF o] file_log_eq [OF Some o] by simp
  qed (simp add: file_log_def)
next
  case (13 s r p)
  show ?case
  proof (cases "fs_lookup s p")
    case (Some l)
    then obtain rss where o: "log_inv (fs_dir s p, l) rss" using 13 unfolding file_inv_def by blast
    then show ?thesis using log_inv_bounds(2) [OF o] file_log_eq [OF Some o] file_hw_lookup [OF Some] 13(2) by auto
  qed (use 13(2) in \<open>simp add: file_log_def\<close>)
next
  case (14 s p)
  show ?case
  proof (cases "fs_lookup s p")
    case (Some l)
    then obtain rss where "log_inv (fs_dir s p, l) rss" using 14 unfolding file_inv_def by blast
    then show ?thesis using file_hw_lookup [OF Some] by (simp add: log_inv_def)
  qed (simp add: file_hw_def)
next
  case (20 r)
  show ?case by simp
qed (simp_all add: file_ops_def file_Append_def file_Read_def file_HighWater_def file_Sync_def file_DeleteTopic_def norm_record_def)

section \<open>Sweeps over all open logs\<close>

lemma each_log_run:
  assumes f: "\<And>d l rss. log_inv (d, l) rss \<Longrightarrow> ok l \<Longrightarrow> \<exists>d' l' rss'. f d l = (d', l', Inr ()) \<and> log_inv (d', l') rss'
      \<and> R (concat rss) (concat rss') \<and> part_HighWater l' = part_HighWater l"
    and "file_inv s" "distinct (map fst pls)" "\<forall>x \<in> set pls. fs_lookup s (fst x) = Some (snd x) \<and> ok (snd x)"
  shows "\<exists>s'. each_log f pls s = (s', Inr ()) \<and> file_inv s' \<and> file_hw s' = file_hw s
    \<and> (\<forall>p. if p \<in> fst ` set pls then R (file_log s p) (file_log s' p) else file_log s' p = file_log s p)"
  using assms(2-)
proof (induction pls arbitrary: s)
  case (Cons x pls)
  obtain p l where x: "x = (p, l)" by fastforce
  have look: "fs_lookup s p = Some l" using Cons.prems(3) x by simp
  then obtain rss where p: "file_addressable p" and inv: "log_inv (fs_dir s p, l) rss"
    using Cons.prems(1) unfolding file_inv_def by blast
  have "ok l" using Cons.prems(3) x by simp
  from f [OF inv this] obtain d' l' rss' where r: "f (fs_dir s p) l = (d', l', Inr ())" "log_inv (d', l') rss'"
    "R (concat rss) (concat rss')" "part_HighWater l' = part_HighWater l" by blast
  let ?s = "fs_put s p d' l'"
  note put = fs_put_inv [OF Cons.prems(1) p r(2)]
  have logs: "fs_logs s \<noteq> None" using Cons.prems(1) by (simp add: file_inv_def)
  have "\<forall>y \<in> set pls. fs_lookup ?s (fst y) = Some (snd y) \<and> ok (snd y)"
    using Cons.prems(2,3) x fs_put_sel(3) [OF logs, of p d' l'] by (auto simp: image_iff)
  with Cons.IH [OF put(1)] Cons.prems(2) obtain s' where s': "each_log f pls ?s = (s', Inr ())" "file_inv s'"
    "file_hw s' = file_hw ?s" "\<forall>q. if q \<in> fst ` set pls then R (file_log ?s q) (file_log s' q) else file_log s' q = file_log ?s q"
    by auto
  have "file_hw ?s = file_hw s" using put(3) r(4) file_hw_lookup [OF look] by (auto simp: fun_eq_iff)
  moreover have "p \<notin> fst ` set pls" using Cons.prems(2) x by simp
  ultimately show ?case
    using s' r(1,3) x put(2) file_log_eq [OF look inv]
    by (intro exI [of _ s']) (auto simp: fun_eq_iff split: if_splits)
qed simp

lemma sweep_all:
  assumes f: "\<And>d l rss. log_inv (d, l) rss \<Longrightarrow> ok l \<Longrightarrow> \<exists>d' l' rss'. f d l = (d', l', Inr ()) \<and> log_inv (d', l') rss'
      \<and> R (concat rss) (concat rss') \<and> part_HighWater l' = part_HighWater l"
    and s: "file_inv s" and refl: "R [] []" and ok: "\<forall>x \<in> set (snapshotLogs s). ok (snd x)"
  shows "\<exists>s'. each_log f (snapshotLogs s) s = (s', Inr ()) \<and> file_inv s' \<and> file_hw s' = file_hw s
    \<and> (\<forall>p. R (file_log s p) (file_log s' p))"
proof -
  obtain logs where logs: "fs_logs s = Some logs" "distinct (map fst logs)"
    using s by (auto simp: file_inv_def snapshotLogs_def)
  have "\<forall>x \<in> set logs. fs_lookup s (fst x) = Some (snd x) \<and> ok (snd x)"
    using logs ok by (simp add: fs_lookup_def snapshotLogs_def)
  from each_log_run [of ok f R, OF f s logs(2) this] obtain s' where
    s': "each_log f logs s = (s', Inr ())" "file_inv s'" "file_hw s' = file_hw s"
      "\<forall>p. if p \<in> fst ` set logs then R (file_log s p) (file_log s' p) else file_log s' p = file_log s p" by blast
  have "R (file_log s p) (file_log s' p)" for p
  proof (cases "p \<in> fst ` set logs")
    case False
    then have "fs_lookup s p = None" by (simp add: fs_lookup_def logs map_of_eq_None_iff)
    then have "file_log s p = []" by (simp add: file_log_def)
    with False s'(4) refl show ?thesis by metis
  qed (use s'(4) in metis)
  with s' logs show ?thesis by (auto simp: snapshotLogs_def)
qed

end
