(* ===== verification/Store_Properties.thy ===== *)
theory Store_Properties
  imports Go_Maps Store_Memory Store_File "HOL-Library.Sublist"
begin

text \<open>
  Properties of the stores of \<^verbatim>\<open>broker/internal/storage\<close>: the disk-backed store answers every sequence of
  operations as the in-memory store does, retention sweeps, and what topic deletion removes.
\<close>

section \<open>Sequences of store operations\<close>

datatype store_op = SAppend int PartitionRef Record | SRead PartitionRef int int | SHighWater PartitionRef
  | SSync PartitionRef | SDelete string

datatype store_out = SO_Offset int | SO_Records "Record list" | SO_Done | SO_Error

definition store_exec :: "'st store_ops \<Rightarrow> store_op \<Rightarrow> 'st \<Rightarrow> store_out \<times> 'st" where
  "store_exec ops sop st =
     (case sop of
        SAppend now p r \<Rightarrow> (case so_Append ops None now st p r of (st, Inr off) \<Rightarrow> (SO_Offset off, st) | (st, Inl _) \<Rightarrow> (SO_Error, st))
      | SRead p fo n \<Rightarrow> (case so_Read ops None st p fo n of (st, Inr rs) \<Rightarrow> (SO_Records rs, st) | (st, Inl _) \<Rightarrow> (SO_Error, st))
      | SHighWater p \<Rightarrow> (case so_HighWater ops None st p of (st, Inr off) \<Rightarrow> (SO_Offset off, st) | (st, Inl _) \<Rightarrow> (SO_Error, st))
      | SSync p \<Rightarrow> (case so_Sync ops None st p of (st, Inr _) \<Rightarrow> (SO_Done, st) | (st, Inl _) \<Rightarrow> (SO_Error, st))
      | SDelete t \<Rightarrow> (case so_DeleteTopic ops None st t of (st, Inr _) \<Rightarrow> (SO_Done, st) | (st, Inl _) \<Rightarrow> (SO_Error, st)))"

fun store_run :: "'st store_ops \<Rightarrow> store_op list \<Rightarrow> 'st \<Rightarrow> store_out list" where
  "store_run ops [] st = []"
| "store_run ops (sop # sops) st = (let (out, st) = store_exec ops sop st in out # store_run ops sops st)"

definition sop_ok :: "('st \<Rightarrow> PartitionRef \<Rightarrow> Record \<Rightarrow> bool) \<Rightarrow> (PartitionRef \<Rightarrow> bool) \<Rightarrow> store_op \<Rightarrow> 'st \<Rightarrow> bool" where
  "sop_ok fits addressable sop st =
     (case sop of
        SAppend now p r \<Rightarrow> addressable p \<and> fits st p r \<and> int64_ok now
      | SRead p fo n \<Rightarrow> addressable p
      | SHighWater p \<Rightarrow> addressable p
      | SSync p \<Rightarrow> True
      | SDelete t \<Rightarrow> addressable \<lparr>p_Topic = t, p_Index = 0\<rparr>)"

fun sops_ok :: "'st store_ops \<Rightarrow> ('st \<Rightarrow> PartitionRef \<Rightarrow> Record \<Rightarrow> bool) \<Rightarrow> (PartitionRef \<Rightarrow> bool)
    \<Rightarrow> store_op list \<Rightarrow> 'st \<Rightarrow> bool" where
  "sops_ok ops fits addressable [] st \<longleftrightarrow> True"
| "sops_ok ops fits addressable (sop # sops) st \<longleftrightarrow>
     sop_ok fits addressable sop st \<and> sops_ok ops fits addressable sops (snd (store_exec ops sop st))"

section \<open>The abstract store\<close>

type_synonym abstract_store = "(PartitionRef \<Rightarrow> Record list) \<times> (PartitionRef \<Rightarrow> int)"

definition spec_exec :: "(Record \<Rightarrow> Record) \<Rightarrow> store_op \<Rightarrow> abstract_store \<Rightarrow> store_out \<times> abstract_store" where
  "spec_exec nrm sop st =
     (case sop of
        SAppend now p r \<Rightarrow>
          (SO_Offset (snd st p), (fst st)(p := fst st p @ [nrm (stamp now (snd st p) r)]), (snd st)(p := snd st p + 1))
      | SRead p fo n \<Rightarrow>
          (if fo < 0 then SO_Error else SO_Records (take (nat n) (filter (\<lambda>r. fo \<le> r_Offset r) (fst st p))), st)
      | SHighWater p \<Rightarrow> (SO_Offset (snd st p), st)
      | SSync p \<Rightarrow> (SO_Done, st)
      | SDelete t \<Rightarrow>
          (SO_Done, (\<lambda>p. if p_Topic p = t then [] else fst st p), (\<lambda>p. if p_Topic p = t then 0 else snd st p)))"

fun spec_store_run :: "(Record \<Rightarrow> Record) \<Rightarrow> store_op list \<Rightarrow> abstract_store \<Rightarrow> store_out list" where
  "spec_store_run nrm [] st = []"
| "spec_store_run nrm (sop # sops) st = (let (out, st) = spec_exec nrm sop st in out # spec_store_run nrm sops st)"

context store
begin

lemma exec_matches:
  assumes "inv st" "sop_ok fits addressable sop st"
  shows "\<exists>st'. store_exec ops sop st = (fst (spec_exec nrm sop (log_of st, hw_of st)), st') \<and> inv st'
    \<and> (log_of st', hw_of st') = snd (spec_exec nrm sop (log_of st, hw_of st))"
proof (cases sop)
  case (SAppend now p r)
  with assms append_law [of st p r now] show ?thesis
    by (auto simp: sop_ok_def store_exec_def spec_exec_def)
next
  case (SRead p fo n)
  show ?thesis
  proof (cases "fo < 0")
    case True
    with SRead assms read_negative [OF True, of st p n] show ?thesis by (auto simp: store_exec_def spec_exec_def)
  next
    case False
    with SRead assms read_law [of st p fo n] show ?thesis by (auto simp: sop_ok_def store_exec_def spec_exec_def)
  qed
next
  case (SHighWater p)
  with assms highwater_law [of st p] show ?thesis by (auto simp: sop_ok_def store_exec_def spec_exec_def)
next
  case (SSync p)
  with assms sync_law [of st p] show ?thesis by (auto simp: store_exec_def spec_exec_def)
next
  case (SDelete t)
  with assms delete_law [of st t] show ?thesis by (auto simp: sop_ok_def store_exec_def spec_exec_def fun_eq_iff)
qed

lemma run_matches:
  assumes "inv st" "sops_ok ops fits addressable sops st"
  shows "store_run ops sops st = spec_store_run nrm sops (log_of st, hw_of st)"
  using assms
proof (induction sops arbitrary: st)
  case (Cons sop sops)
  from exec_matches [OF Cons.prems(1), of sop] Cons.prems(2) obtain st' where
    s: "store_exec ops sop st = (fst (spec_exec nrm sop (log_of st, hw_of st)), st')" "inv st'"
      "snd (spec_exec nrm sop (log_of st, hw_of st)) = (log_of st', hw_of st')" by auto
  with Cons.IH [OF s(2)] Cons.prems(2) show ?case by (simp add: case_prod_beta)
qed simp

end

definition out_map :: "(Record \<Rightarrow> Record) \<Rightarrow> store_out \<Rightarrow> store_out" where
  "out_map f out = (case out of SO_Records rs \<Rightarrow> SO_Records (map f rs) | _ \<Rightarrow> out)"

lemma filter_map_offset:
  "(\<And>r. r_Offset (f r) = r_Offset r) \<Longrightarrow>
   filter (\<lambda>r. fo \<le> r_Offset r) (map f rs) = map f (filter (\<lambda>r. fo \<le> r_Offset r) rs)"
  by (induction rs) auto

lemma spec_exec_map:
  assumes "\<And>r. r_Offset (f r) = r_Offset r"
  shows "spec_exec f sop (\<lambda>p. map f (l p), h) =
    (let (out, l', h') = spec_exec (\<lambda>r. r) sop (l, h) in (out_map f out, \<lambda>p. map f (l' p), h'))"
  using filter_map_offset [OF assms]
  by (cases sop) (auto simp: spec_exec_def out_map_def fun_eq_iff take_map)

lemma spec_run_map:
  assumes "\<And>r. r_Offset (f r) = r_Offset r"
  shows "spec_store_run f sops (\<lambda>p. map f (l p), h) = map (out_map f) (spec_store_run (\<lambda>r. r) sops (l, h))"
proof (induction sops arbitrary: l h)
  case (Cons sop sops)
  obtain out l' h' where "spec_exec (\<lambda>r. r) sop (l, h) = (out, l', h')" by (metis prod.collapse)
  with Cons.IH [of l' h'] spec_exec_map [OF assms, of sop l h] show ?case by simp
qed simp

section \<open>Properties\<close>

lemma new_file_store: "file_inv (NewFileStore root n)" "file_log (NewFileStore root n) = (\<lambda>_. [])"
  "file_hw (NewFileStore root n) = (\<lambda>_. 0)"
  by (simp_all add: file_inv_def NewFileStore_def snapshotLogs_def fs_lookup_def file_log_def file_hw_def fun_eq_iff)

lemma sops_ok_memory:
  "sops_ok ops fits addressable sops st \<Longrightarrow> sops_ok memory_ops (\<lambda>_ _ _. True) (\<lambda>_. True) sops s"
  by (induction sops arbitrary: st s) (auto simp: sop_ok_def split: store_op.splits)

text \<open>
  C2: The disk-backed store and the in-memory store, both new, answer every sequence of appends, reads,
  high-water queries, syncs and topic deletions alike, for any topics and partitions and any segment
  size, except that the disk store returns records with nil and empty byte slices identified.
\<close>

theorem file_store_equals_memory_store:
  assumes "sops_ok file_ops file_fits file_addressable sops (NewFileStore root segmentBytes)"
  shows "store_run file_ops sops (NewFileStore root segmentBytes)
    = map (out_map norm_record) (store_run memory_ops sops NewMemoryStore)"
proof -
  have "store_run memory_ops sops NewMemoryStore = spec_store_run (\<lambda>r. r) sops (\<lambda>_. [], \<lambda>_. 0)"
  proof -
    have l: "mem_inv NewMemoryStore" "mem_log NewMemoryStore = (\<lambda>_. [])" "mem_hw NewMemoryStore = (\<lambda>_. 0)"
      by (simp_all add: NewMemoryStore_def mem_inv_def mem_log_def mem_hw_def fun_eq_iff)
    show ?thesis using mem.run_matches [OF l(1) sops_ok_memory [OF assms]] by (simp add: l(2,3))
  qed
  moreover have "store_run file_ops sops (NewFileStore root segmentBytes) = spec_store_run norm_record sops (\<lambda>_. [], \<lambda>_. 0)"
    using fil.run_matches [OF new_file_store(1) assms] by (simp add: new_file_store)
  ultimately show ?thesis
    using spec_run_map [of norm_record sops "\<lambda>_. []" "\<lambda>_. 0"] by (simp add: norm_record_def)
qed

lemma file_store_equals_memory_store_witness:
  "store_run file_ops [SAppend 5 \<lparr>p_Topic = ''t'', p_Index = 0\<rparr> (rec_at 0 1 2), SRead \<lparr>p_Topic = ''t'', p_Index = 0\<rparr> 0 10,
      SDelete ''t'', SHighWater \<lparr>p_Topic = ''t'', p_Index = 0\<rparr>] (NewFileStore [''data''] 100)
    = [SO_Offset 0, SO_Records [stamp 5 0 (rec_at 0 1 2)], SO_Done, SO_Offset 0]"
proof -
  let ?p = "\<lparr>p_Topic = ''t'', p_Index = 0\<rparr>"
  let ?ops = "[SAppend 5 ?p (rec_at 0 1 2), SRead ?p 0 10, SDelete ''t'', SHighWater ?p]"
  have "file_addressable ?p" by (simp add: file_addressable_def good_name_def int64_ok_def)
  moreover have "file_fits (NewFileStore [''data''] 100) ?p (rec_at 0 1 2)"
    by (simp add: file_fits_def NewFileStore_def fs_lookup_def file_hw_def OpenPartition_def recoverCompactingSegments_def
        os_ReadDir_def discoverSegments_def createSegment_def createSegmentWithSuffix_def Let_def append_fits_def
        part_HighWater_def int64_ok_def frame_fits_def wf_record_def buf32_def length_frame length_encodeRecord rec_at_def)
  ultimately have "sops_ok file_ops file_fits file_addressable ?ops (NewFileStore [''data''] 100)"
    by (simp add: sop_ok_def int64_ok_def)
  then show ?thesis
    using file_store_equals_memory_store [of ?ops "[''data'']" 100]
    by (simp add: store_exec_def memory_ops_def mem_Append_run mem_Read_def mem_DeleteTopic_def mem_HighWater_def
        mem_get_def NewMemoryStore_def mem_log_def mem_hw_def sl_def out_map_def norm_record_def stamp_def rec_at_def
        norm_bytes_Some)
qed

section \<open>Retention sweeps\<close>

lemma size_pass_run:
  assumes "0 < mb" "log_inv (d, l) rss"
  shows "\<exists>d' l' rss'. size_pass mb d l = (d', l', Inr ()) \<and> log_inv (d', l') rss'
    \<and> suffix (concat rss') (concat rss) \<and> part_HighWater l' = part_HighWater l"
proof -
  obtain d' l' n err where run: "part_EnforceSizeRetention d l mb = (d', l', n, err)" by (metis prod.collapse)
  have i: "part_repr d l rss" "at_end d (active l)" "f_append (sg_logFile (active l))" "0 \<le> part_HighWater l"
      "\<forall>r \<in> set (concat rss). 0 \<le> r_Offset r" using assms(2) by (simp_all add: log_inv_def)
  note ne = part_repr_nonempty [OF i(1)]
  have r: "err = None" "part_repr d' l' (shrink mb rss)" "at_end d' (active l')"
    using EnforceSizeRetention_repr [OF i(1,2) run] assms(1) by auto
  have a: "pl_segments l' \<noteq> []" "active l' = active l" using retention_active(2) [OF ne run] by auto
  have "rss \<noteq> []" using i(1) by (rule part_repr_cases) auto
  then obtain gone where g: "rss = gone @ shrink mb rss" using shrink_spec by blast
  then have "concat rss = concat gone @ concat (shrink mb rss)" by (metis concat_append)
  then have "suffix (concat (shrink mb rss)) (concat rss)" by (auto simp: suffix_def)
  moreover have "log_inv (d', l') (shrink mb rss)"
    using r a i ne shrink_subset [of mb rss] by (auto simp: log_inv_def part_HighWater_active)
  ultimately show ?thesis using run r(1) a ne by (auto simp: size_pass_def part_HighWater_active)
qed

lemma time_pass_run:
  assumes "log_inv (d, l) rss"
  shows "\<exists>d' l' rss'. time_pass c d l = (d', l', Inr ()) \<and> log_inv (d', l') rss'
    \<and> suffix (concat rss') (concat rss) \<and> part_HighWater l' = part_HighWater l"
proof -
  obtain d' l' n err where run: "part_EnforceTimeRetention d l c = (d', l', n, err)" by (metis prod.collapse)
  have i: "part_repr d l rss" "at_end d (active l)" "f_append (sg_logFile (active l))" "0 \<le> part_HighWater l"
      "\<forall>r \<in> set (concat rss). 0 \<le> r_Offset r" using assms by (simp_all add: log_inv_def)
  note ne = part_repr_nonempty [OF i(1)]
  have r: "err = None" "part_repr d' l' (expire c rss)" "at_end d' (active l')"
    using EnforceTimeRetention_repr [OF i(1,2) run] by auto
  have a: "pl_segments l' \<noteq> []" "active l' = active l" using retention_active(1) [OF ne run] by auto
  have "rss \<noteq> []" using i(1) by (rule part_repr_cases) auto
  then obtain gone where g: "rss = gone @ expire c rss" using expire_spec by blast
  then have "concat rss = concat gone @ concat (expire c rss)" by (metis concat_append)
  then have "suffix (concat (expire c rss)) (concat rss)" by (auto simp: suffix_def)
  moreover have "log_inv (d', l') (expire c rss)"
    using r a i ne expire_subset [of c rss] by (auto simp: log_inv_def part_HighWater_active)
  ultimately show ?thesis using run r(1) a ne by (auto simp: time_pass_def part_HighWater_active)
qed

text \<open>
  A retention sweep over the store succeeds, keeps the store well-formed, and leaves of every
  partition a suffix of its records; the offset of the next append does not move.
\<close>

theorem retention_sweep:
  assumes "file_inv s"
  shows "\<exists>s1 s2. file_EnforceRetention now s retention = (s1, Inr ()) \<and> file_EnforceSizeRetention s1 maxBytes = (s2, Inr ())
    \<and> file_inv s2 \<and> file_hw s2 = file_hw s \<and> (\<forall>p. suffix (file_log s2 p) (file_log s p))"
proof -
  have "\<exists>s1. file_EnforceRetention now s retention = (s1, Inr ()) \<and> file_inv s1 \<and> file_hw s1 = file_hw s
      \<and> (\<forall>p. suffix (file_log s1 p) (file_log s p))"
    using sweep_all [of "\<lambda>_. True" "time_pass (now - retention)" "\<lambda>old new. suffix new old", OF time_pass_run assms] assms
    by (auto simp: file_EnforceRetention_def)
  then obtain s1 where s1: "file_EnforceRetention now s retention = (s1, Inr ())" "file_inv s1" "file_hw s1 = file_hw s"
    "\<forall>p. suffix (file_log s1 p) (file_log s p)" by blast
  have "\<exists>s2. file_EnforceSizeRetention s1 maxBytes = (s2, Inr ()) \<and> file_inv s2 \<and> file_hw s2 = file_hw s1
      \<and> (\<forall>p. suffix (file_log s2 p) (file_log s1 p))"
  proof (cases "0 < maxBytes")
    case True
    then show ?thesis
      using sweep_all [of "\<lambda>_. True" "size_pass maxBytes" "\<lambda>old new. suffix new old", OF size_pass_run [OF True] s1(2)]
      by (auto simp: file_EnforceSizeRetention_def)
  qed (use s1(2) in \<open>simp add: file_EnforceSizeRetention_def\<close>)
  with s1 show ?thesis using suffix_order.trans by metis
qed

lemma retention_sweep_witness:
  "\<exists>s1 s2. file_EnforceRetention 100 (NewFileStore [''data''] 10) 5 = (s1, Inr ())
    \<and> file_EnforceSizeRetention s1 7 = (s2, Inr ()) \<and> file_inv s2"
  using retention_sweep [OF new_file_store(1), of 100 "[''data'']" 10 5 7] by blast

section \<open>Compaction sweeps\<close>

definition compacted :: "Record list \<Rightarrow> Record list \<Rightarrow> bool" where
  "compacted old new \<longleftrightarrow> (\<exists>k \<le> length old. new = keep_latest (take k old) @ drop k old)"

lemma compact_pass_run:
  assumes "log_inv (d, l) rss" "compact_fits l"
  shows "\<exists>d' l' rss'. part_Compact d l = (d', l', Inr ()) \<and> log_inv (d', l') rss'
    \<and> compacted (concat rss) (concat rss') \<and> part_HighWater l' = part_HighWater l"
proof -
  have i: "part_repr d l rss" "at_end d (active l)" "f_append (sg_logFile (active l))" "0 \<le> part_HighWater l"
      "\<forall>r \<in> set (concat rss). 0 \<le> r_Offset r" using assms(1) by (simp_all add: log_inv_def)
  note ne = part_repr_nonempty [OF i(1)]
  obtain rss0 rs where rss: "rss = rss0 @ [rs]" using i(1) by (rule part_repr_cases)
  let ?ks = "keep_latest (concat rss0)" and ?rss' = "(if keep_latest (concat rss0) = [] then [] else [keep_latest (concat rss0)]) @ [rs]"
  from Compact_repr [OF i(1) [unfolded rss] i(2) _ refl compact_fits32 [OF i(1) [unfolded rss] assms(2) refl]] i(5)
  obtain d' l' where c: "part_Compact d l = (d', l', Inr ())" "part_repr d' l' ?rss'" "at_end d' (active l')" "active l' = active l"
    by (auto simp: rss)
  have "concat ?rss' = keep_latest (take (length (concat rss0)) (concat rss)) @ drop (length (concat rss0)) (concat rss)"
    by (simp add: rss)
  then have "compacted (concat rss) (concat ?rss')" unfolding compacted_def by (metis concat_append length_append le_add1 rss)
  moreover have "log_inv (d', l') ?rss'"
    using c i ne part_repr_nonempty [OF c(2)] keep_latest_subset [of "concat rss0"]
    by (auto simp: log_inv_def part_HighWater_active rss)
  ultimately show ?thesis using c ne part_repr_nonempty [OF c(2)] by (auto simp: part_HighWater_active)
qed

lemma file_Compact_run:
  assumes "file_inv s" "\<forall>x \<in> set (snapshotLogs s). compact_fits (snd x)"
  shows "\<exists>s'. file_Compact s = (s', Inr ()) \<and> file_inv s' \<and> file_hw s' = file_hw s
    \<and> (\<forall>p. compacted (file_log s p) (file_log s' p))"
  using sweep_all [of compact_fits part_Compact compacted, OF compact_pass_run assms(1) _ assms(2)]
  by (auto simp: file_Compact_def compacted_def)

section \<open>The first records of a new partition\<close>

lemma Search_single: "sort_Search (Suc 0) f = (if f 0 then 0 else 1)"
  by (simp add: sort_Search_def search_loop.simps [of f 0 "Suc 0"] search_loop.simps [of f 0 0] search_loop.simps [of f "Suc 0" "Suc 0"])

lemma Open_fresh:
  assumes "0 < mb"
  shows "\<exists>d l a. OpenPartition [] mb = Inr (d, l) \<and> pl_segments l = [a] \<and> sg_baseOffset a = 0 \<and> sg_size a = 0
    \<and> sg_highWater a = 0 \<and> sg_maxBytes a = mb \<and> part_Read d l 0 256 = (d, l, Inr [])"
  using assms by (simp add: OpenPartition_def recoverCompactingSegments_def os_ReadDir_def discoverSegments_def
      createSegment_def createSegmentWithSuffix_def Let_def part_Read_def Search_single seg_readFrom_def)

lemma Append_single:
  assumes "part_Append d l r = Inr (d', l', off)" "pl_segments l = [a]" "int (sg_size a + length (frame r)) < sg_maxBytes a"
  shows "\<exists>a'. pl_segments l' = [a'] \<and> sg_baseOffset a' = sg_baseOffset a \<and> sg_highWater a' = r_Offset r + 1"
  using assms
  by (auto simp: part_Append_def seg_append_def seg_write_def seg_shouldRoll_def Let_def case_prod_beta frame_def
      split: if_splits option.splits sum.splits)

text \<open>A partition nothing has been written to takes any record that fits a frame.\<close>

lemma file_fits_empty:
  assumes "file_inv s" "file_addressable p" "file_hw s p = 0" "frame_fits (stamp 1 0 r)" "length (frame (stamp 1 0 r)) < 2 ^ 32"
  shows "file_fits s p r"
proof -
  obtain s' l rss where o: "log_inv (fs_dir s' p, l) rss" "concat rss = file_log s p" "fs_lookup s' p = Some l" "file_hw s' = file_hw s"
    "l = (case fs_lookup s p of Some l \<Rightarrow> l | None \<Rightarrow> snd (projr (OpenPartition [] (fs_segmentSize s))))"
    using openLog_run [OF assms(1,2)] by metis
  have "file_log s p = []"
    using fil.log_bounds [OF assms(1), of _ p] assms(3) by (metis all_not_in_conv leD set_empty)
  then have rs: "concat rss = []" using o(2) by simp
  have pr: "part_repr (fs_dir s' p) l rss" using o(1) by (simp add: log_inv_def)
  then obtain ss a rss0 rs where q: "pl_segments l = ss @ [a]" "rss = rss0 @ [rs]" "seg_repr (fs_dir s' p) a rs"
    by (rule part_repr_cases)
  have "rs = []" using rs q(2) by simp
  then have a: "sg_size a = 0" "sg_highWater a = sg_baseOffset a"
    using seg_repr_sums [OF q(3)] by (simp_all add: next_offset_def)
  have "part_HighWater l = 0" using file_hw_lookup [OF o(3)] o(4) assms(3) by simp
  then have "sg_highWater a = 0" using q(1) by (simp add: part_HighWater_def)
  with a q(1) assms(3-5) show ?thesis
    by (simp add: file_fits_def o(5) [symmetric] append_fits_def part_HighWater_def int64_ok_def)
qed

text \<open>The first record of a partition leaves its log in one segment, which a compaction sweep can take.\<close>

lemma fresh_append:
  assumes "file_inv s" "file_addressable p" "fs_lookup s p = None" "0 < fs_segmentSize s" "int64_ok now"
    and "frame_fits (stamp now 0 r)" "int (length (frame (stamp now 0 r))) < fs_segmentSize s" "length (frame (stamp now 0 r)) < 2 ^ 32"
    and "\<forall>x \<in> set (snapshotLogs s). compact_fits (snd x)"
  obtains s' l where "file_Append None now s p r = (s', Inr 0)" "\<forall>x \<in> set (snapshotLogs s'). compact_fits (snd x)"
    "fs_segmentSize s' = fs_segmentSize s" "fs_lookup s' = (fs_lookup s)(p := Some l)"
proof -
  obtain d l a where o: "OpenPartition [] (fs_segmentSize s) = Inr (d, l)" "pl_segments l = [a]" "sg_baseOffset a = 0" "sg_size a = 0"
    "sg_highWater a = 0" "sg_maxBytes a = fs_segmentSize s" using Open_fresh [OF assms(4)] by auto
  have dir: "fs_dir s p = []" and logs: "fs_logs s \<noteq> None" using assms(1-3) by (simp_all add: file_inv_def fs_dir_def)
  have opn: "openLog s p = (fs_put s p d l, Inr l)" using assms(3) o(1) dir logs by (auto simp: openLog_def)
  have "log_inv (d, l) [[]]" using Open_new [of "fs_segmentSize s"] o(1) by simp
  moreover have "append_fits l (stamp now 0 r)" using assms(6,8) by (simp add: append_fits_def o part_HighWater_def int64_ok_def)
  ultimately obtain d' l' where ap: "part_Append d l (stamp now 0 r) = Inr (d', l', 0)"
    using Append_repr [of d l "[[]]" "stamp now 0 r"] by (auto simp: log_inv_def)
  have st: "(if r_Timestamp r = 0 then r\<lparr>r_Offset := 0, r_Timestamp := now\<rparr> else r\<lparr>r_Offset := 0\<rparr>) = stamp now 0 r"
    by (cases r) (simp add: stamp_def)
  have run: "file_Append None now s p r = (fs_put (fs_put s p d l) p d' l', Inr 0)"
    using opn ap [folded st] o(2,5) by (cases "r_Timestamp r = 0") (simp_all add: file_Append_def Let_def part_HighWater_def fs_put_sel)
  have "compact_fits l'"
    using Append_single [OF ap o(2)] assms(7) o by (auto simp: compact_fits_def part_HighWater_def)
  then have "\<forall>x \<in> set (snapshotLogs (fs_put (fs_put s p d l) p d' l')). compact_fits (snd x)"
    using assms(9) logs by (auto simp: snapshotLogs_def fs_put_def dest: set_update_subset [THEN subsetD])
  with run that show ?thesis using logs by (auto simp: fs_put_sel)
qed

end
