(* ===== verification/Group_Assign.thy ===== *)
theory Group_Assign
  imports Wire_Primitives "HOL-Library.AList" "HOL-Library.List_Lexorder" "HOL-Library.Char_ord" "HOL-Library.Multiset"
begin

text \<open>
  The partition-assignment strategies of \<^verbatim>\<open>broker/internal/groups/assign.go\<close>. A Go map from members to
  partitions is an association list; \<open>aget\<close> is its lookup, empty for a missing member. Every strategy
  hands each partition of the subscribed topics to exactly one member.
\<close>

section \<open>Strategies\<close>

type_synonym assignment = "(string \<times> PartitionRef list) list"

type_synonym PartitionsForFunc = "string \<Rightarrow> int result"

definition aget :: "assignment \<Rightarrow> string \<Rightarrow> PartitionRef list" where
  "aget m k = (case map_of m k of None \<Rightarrow> [] | Some parts \<Rightarrow> parts)"

definition pref :: "string \<Rightarrow> int \<Rightarrow> PartitionRef" where
  "pref topic i = \<lparr>p_Topic = topic, p_Index = i\<rparr>"

fun range_loop :: "string \<Rightarrow> int \<Rightarrow> int \<Rightarrow> int \<Rightarrow> int \<Rightarrow> string list \<Rightarrow> assignment \<Rightarrow> assignment" where
  "range_loop topic base extra i cursor [] out = out"
| "range_loop topic base extra i cursor (mid # ids) out =
     (let count = (if i < extra then base + 1 else base);
          parts = map (\<lambda>j. pref topic (cursor + j)) [0..count - 1]
      in range_loop topic base extra (i + 1) (cursor + count) ids (AList.update mid parts out))"

definition rangeAssign :: "string list \<Rightarrow> string \<Rightarrow> int \<Rightarrow> assignment" where
  "rangeAssign memberIDs topic partitionCount =
     (if partitionCount \<le> 0 \<or> length memberIDs = 0 then []
      else let sorted = sort memberIDs;
               n = int (length sorted);
               base = partitionCount div n;
               extra = partitionCount mod n
           in range_loop topic base extra 0 0 sorted [])"

definition roundRobinAssign :: "string list \<Rightarrow> string \<Rightarrow> int \<Rightarrow> assignment" where
  "roundRobinAssign memberIDs topic partitionCount =
     (if partitionCount \<le> 0 \<or> length memberIDs = 0 then []
      else let sorted = sort memberIDs;
               out = foldl (\<lambda>out mid. AList.update mid [] out) [] sorted;
               n = int (length sorted)
           in foldl (\<lambda>out j. let owner = sorted ! nat (j mod n)
                             in AList.update owner (aget out owner @ [pref topic j]) out) out [0..partitionCount - 1])"

text \<open>The loop over the topics that \<open>group_assign\<close> and \<open>assignRoundRobin\<close> share.\<close>

definition merge_assignment :: "assignment \<Rightarrow> assignment \<Rightarrow> assignment" where
  "merge_assignment out perMember =
     foldl (\<lambda>out (mid, parts). AList.update mid (aget out mid @ parts) out) out perMember"

fun assign_topics :: "(string \<Rightarrow> int \<Rightarrow> assignment) \<Rightarrow> PartitionsForFunc \<Rightarrow> string list \<Rightarrow> assignment \<Rightarrow> assignment result" where
  "assign_topics one partitionsFor [] out = Inr out"
| "assign_topics one partitionsFor (topic # topics) out =
     (case partitionsFor topic of
        Inl err \<Rightarrow> Inl err
      | Inr n \<Rightarrow> assign_topics one partitionsFor topics (merge_assignment out (one topic n)))"

definition no_parts :: "string list \<Rightarrow> assignment" where
  "no_parts memberIDs = foldl (\<lambda>out mid. AList.update mid [] out) [] memberIDs"

definition group_assign :: "string list \<Rightarrow> string list \<Rightarrow> PartitionsForFunc \<Rightarrow> assignment result" where
  "group_assign memberIDs topics partitionsFor =
     assign_topics (rangeAssign memberIDs) partitionsFor topics (no_parts memberIDs)"

definition assignRoundRobin :: "string list \<Rightarrow> string list \<Rightarrow> PartitionsForFunc \<Rightarrow> assignment result" where
  "assignRoundRobin memberIDs topics partitionsFor =
     assign_topics (roundRobinAssign memberIDs) partitionsFor topics (no_parts memberIDs)"

fun allPartitions :: "string list \<Rightarrow> PartitionsForFunc \<Rightarrow> PartitionRef list result" where
  "allPartitions [] partitionsFor = Inr []"
| "allPartitions (topic # topics) partitionsFor =
     (case partitionsFor topic of
        Inl err \<Rightarrow> Inl err
      | Inr n \<Rightarrow>
          (case allPartitions topics partitionsFor of
             Inl err \<Rightarrow> Inl err
           | Inr out \<Rightarrow> Inr (map (pref topic) [0..n - 1] @ out)))"

text \<open>Step 1 of \<open>assignSticky\<close>, the target counts; step 2, what a member retains; step 4, a free partition.\<close>

fun sticky_targets :: "int \<Rightarrow> int \<Rightarrow> int \<Rightarrow> string list \<Rightarrow> (string \<times> int) list \<Rightarrow> (string \<times> int) list" where
  "sticky_targets base extras i [] target = target"
| "sticky_targets base extras i (mid # ids) target =
     sticky_targets base extras (i + 1) ids (AList.update mid (if i < extras then base + 1 else base) target)"

definition target_of :: "(string \<times> int) list \<Rightarrow> string \<Rightarrow> int" where
  "target_of target mid = (case map_of target mid of None \<Rightarrow> 0 | Some t \<Rightarrow> t)"

fun retain_parts :: "int \<Rightarrow> PartitionRef list \<Rightarrow> PartitionRef list \<Rightarrow> PartitionRef list \<Rightarrow> PartitionRef list
    \<Rightarrow> PartitionRef list \<times> PartitionRef list" where
  "retain_parts target valid [] own taken = (own, taken)"
| "retain_parts target valid (p # ps) own taken =
     (if target \<le> int (length own) then (own, taken)
      else if p \<notin> set valid \<or> p \<in> set taken then retain_parts target valid ps own taken
      else retain_parts target valid ps (own @ [p]) (p # taken))"

fun retain_prior :: "(string \<Rightarrow> int) \<Rightarrow> PartitionRef list \<Rightarrow> assignment \<Rightarrow> string list \<Rightarrow> assignment \<Rightarrow> PartitionRef list
    \<Rightarrow> assignment \<times> PartitionRef list" where
  "retain_prior target valid prior [] out taken = (out, taken)"
| "retain_prior target valid prior (mid # ids) out taken =
     (let (own, taken) = retain_parts (target mid) valid (aget prior mid) (aget out mid) taken
      in retain_prior target valid prior ids (AList.update mid own out) taken)"

definition give_free :: "(string \<Rightarrow> int) \<Rightarrow> string list \<Rightarrow> assignment \<Rightarrow> PartitionRef \<Rightarrow> assignment" where
  "give_free target ids out p =
     (case find (\<lambda>mid. int (length (aget out mid)) < target mid) ids of
        None \<Rightarrow> out
      | Some mid \<Rightarrow> AList.update mid (aget out mid @ [p]) out)"

definition assignSticky :: "string list \<Rightarrow> string list \<Rightarrow> PartitionsForFunc \<Rightarrow> assignment \<Rightarrow> assignment result" where
  "assignSticky memberIDs topics partitionsFor prior =
     (case allPartitions topics partitionsFor of
        Inl err \<Rightarrow> Inl err
      | Inr all \<Rightarrow>
          (let out = no_parts memberIDs in
           if length memberIDs = 0 \<or> length all = 0 then Inr out
           else let sorted = sort memberIDs;
                    n = int (length sorted);
                    base = int (length all) div n;
                    extras = int (length all) mod n;
                    target = target_of (sticky_targets base extras 0 sorted []);
                    (out, taken) = retain_prior target all prior sorted out [];
                    free = filter (\<lambda>p. p \<notin> set taken) all
                in Inr (foldl (give_free target sorted) out free)))"

section \<open>What members own\<close>

definition owned :: "assignment \<Rightarrow> string list \<Rightarrow> PartitionRef list" where
  "owned out ids = concat (map (aget out) ids)"

lemma aget_update [simp]: "aget (AList.update k v m) j = (if j = k then v else aget m j)"
  by (simp add: aget_def update_conv')

lemma owned_simps [simp]: "owned out [] = []" "owned out (k # ids) = aget out k @ owned out ids"
  by (simp_all add: owned_def)

lemma owned_update_other [simp]: "k \<notin> set ids \<Longrightarrow> owned (AList.update k v m) ids = owned m ids"
  by (induction ids) auto

lemma owned_snoc:
  "distinct ids \<Longrightarrow> k \<in> set ids \<Longrightarrow>
   mset (owned (AList.update k (aget m k @ ps) m) ids) = mset (owned m ids) + mset ps"
  by (induction ids) auto

lemma aget_no_parts [simp]: "aget (no_parts ids) k = []"
proof -
  have "aget (foldl (\<lambda>out mid. AList.update mid [] out) m ids) k = []" if "aget m k = []" for m
    using that by (induction ids arbitrary: m) auto
  then show ?thesis by (simp add: no_parts_def aget_def)
qed

lemma owned_no_parts [simp]: "owned (no_parts ids) js = []"
  by (induction js) auto

lemma keys_no_parts: "fst ` set (no_parts ids) = set ids" "distinct (map fst (no_parts ids))"
proof -
  have "fst ` set (foldl (\<lambda>out mid. AList.update mid [] out) m ids) = fst ` set m \<union> set ids" for m :: assignment
    by (induction ids arbitrary: m) (auto simp: dom_update)
  then show "fst ` set (no_parts ids) = set ids" by (simp add: no_parts_def)
  have "distinct (map fst (foldl (\<lambda>out mid. AList.update mid [] out) m ids))" if "distinct (map fst m)" for m :: assignment
    using that by (induction ids arbitrary: m) (auto simp: distinct_update)
  then show "distinct (map fst (no_parts ids))" by (simp add: no_parts_def)
qed

section \<open>Range\<close>

lemma range_loop_other: "k \<notin> set ids \<Longrightarrow> aget (range_loop topic base extra i cursor ids out) k = aget out k"
  by (induction ids arbitrary: i cursor out) (auto simp: Let_def)

definition range_count :: "int \<Rightarrow> int \<Rightarrow> int \<Rightarrow> int" where
  "range_count base extra i = (if i < extra then base + 1 else base)"

lemma range_loop_owned:
  assumes "distinct ids" "0 \<le> base"
  shows "owned (range_loop topic base extra i cursor ids out) ids
    = map (pref topic) [cursor..cursor + (\<Sum>k < length ids. range_count base extra (i + int k)) - 1]"
  using assms(1)
proof (induction ids arbitrary: i cursor out)
  case (Cons k ids)
  let ?c = "range_count base extra i" and ?s = "\<Sum>j < length ids. range_count base extra (i + 1 + int j)"
  have s: "(\<Sum>j < length (k # ids). range_count base extra (i + int j)) = ?c + ?s"
    by (simp add: sum.lessThan_Suc_shift add.assoc del: sum.lessThan_Suc)
  have "0 \<le> ?c" "0 \<le> ?s" using assms(2) by (auto simp: range_count_def intro!: sum_nonneg)
  then have "[a..a + (?c + ?s) - 1] = [a..a + ?c - 1] @ [a + ?c..a + ?c + ?s - 1]" for a
    using upto_split1 [of a "a + ?c" "a + ?c + ?s - 1"] by (cases "?s = 0") (auto simp: add.assoc)
  moreover have "map (\<lambda>j. pref topic (cursor + j)) [0..?c - 1] = map (pref topic) [cursor..cursor + ?c - 1]"
    by (rule nth_equalityI) auto
  ultimately show ?case
    using Cons range_loop_other [of k ids] unfolding s
    by (simp add: Let_def range_count_def [symmetric] add.assoc)
qed simp

lemma sort_empty [simp]: "sort xs = [] \<longleftrightarrow> xs = []"
  by (metis length_0_conv length_sort)

lemma sum_range_count:
  assumes "0 \<le> extra" "extra \<le> int n"
  shows "(\<Sum>k < n. range_count base extra (int k)) = int n * base + extra"
proof -
  have "(\<Sum>k < n. range_count base extra (int k)) = int n * base + min (int n) extra" if "0 \<le> extra" for n
    using that by (induction n) (auto simp: range_count_def algebra_simps)
  with assms show ?thesis by simp
qed

lemma sum_counts:
  assumes "0 < pc" "ids \<noteq> []"
  shows "(\<Sum>k < length ids. range_count (pc div int (length ids)) (pc mod int (length ids)) (int k)) = pc"
proof -
  let ?n = "int (length ids)"
  have n: "0 < ?n" using assms(2) by simp
  then have "0 \<le> pc mod ?n" "pc mod ?n \<le> ?n" by (simp_all add: order.strict_implies_order)
  from sum_range_count [OF this] show ?thesis by (simp add: mult_div_mod_eq)
qed

lemma rangeAssign_owned:
  assumes "distinct memberIDs" "memberIDs \<noteq> []"
  shows "owned (rangeAssign memberIDs topic pc) (sort memberIDs) = map (pref topic) [0..pc - 1]"
proof (cases "0 < pc")
  case True
  let ?ids = "sort memberIDs"
  have "distinct ?ids" "?ids \<noteq> []" using assms by auto
  moreover have "0 \<le> pc div int (length ?ids)" using True by (simp add: pos_imp_zdiv_nonneg_iff assms(2))
  ultimately show ?thesis
    using True assms(2) range_loop_owned [of ?ids "pc div int (length ?ids)" topic "pc mod int (length ?ids)" 0 0 "[]"]
      sum_counts [OF True, of ?ids]
    by (simp add: rangeAssign_def Let_def)
next
  case False
  have "owned [] ids = []" for ids by (induction ids) (auto simp: aget_def)
  with False show ?thesis by (simp add: rangeAssign_def)
qed

lemma range_loop_length:
  assumes "distinct ids" "k < length ids" "0 \<le> base"
  shows "int (length (aget (range_loop topic base extra i cursor ids out) (ids ! k))) = range_count base extra (i + int k)"
  using assms(1,2)
proof (induction ids arbitrary: i cursor out k)
  case (Cons x ids)
  show ?case
  proof (cases k)
    case 0
    have "x \<notin> set ids" using Cons.prems(1) by simp
    with 0 assms(3) range_loop_other [of x ids] show ?thesis by (simp add: Let_def range_count_def)
  next
    case (Suc j)
    with Cons.IH [of j] Cons.prems show ?thesis by (simp add: Let_def add.assoc)
  qed
qed simp

section \<open>Round robin\<close>

lemma count_mod: "0 < n \<Longrightarrow> k < n \<Longrightarrow> length (filter (\<lambda>j. j mod n = k) [0..<m]) = m div n + (if k < m mod n then 1 else (0 :: nat))"
proof (induction m)
  case (Suc m)
  have "Suc m div n = (if Suc (m mod n) = n then Suc (m div n) else m div n)"
    "Suc m mod n = (if Suc (m mod n) = n then 0 else Suc (m mod n))"
    using Suc.prems(1) by (simp_all add: div_Suc mod_Suc)
  with Suc show ?case using mod_less_divisor [OF Suc.prems(1), of m] by (auto simp: less_Suc_eq)
qed simp

definition rr_step :: "string list \<Rightarrow> string \<Rightarrow> assignment \<Rightarrow> int \<Rightarrow> assignment" where
  "rr_step ids topic out j = (let owner = ids ! nat (j mod int (length ids)) in AList.update owner (aget out owner @ [pref topic j]) out)"

lemma rr_fold:
  assumes "distinct ids" "ids \<noteq> []" "\<forall>k. aget out k = []"
  shows "mset (owned (foldl (rr_step ids topic) out (map int [0..<m])) ids) = mset (map (pref topic) (map int [0..<m]))
    \<and> (\<forall>k < length ids. aget (foldl (rr_step ids topic) out (map int [0..<m])) (ids ! k)
        = map (\<lambda>j. pref topic (int j)) (filter (\<lambda>j. j mod length ids = k) [0..<m]))"
proof (induction m)
  case 0
  have "owned out js = []" for js using assms(3) by (induction js) auto
  with assms(3) show ?case by simp
next
  case (Suc m)
  let ?k = "m mod length ids"
  have k: "?k < length ids" using assms(2) by simp
  have own: "ids ! nat (int m mod int (length ids)) = ids ! ?k" by (simp flip: zmod_int)
  let ?o = "foldl (rr_step ids topic) out (map int [0..<m])"
  have st: "rr_step ids topic ?o (int m) = AList.update (ids ! ?k) (aget ?o (ids ! ?k) @ [pref topic (int m)]) ?o"
    by (simp add: rr_step_def Let_def own)
  have "ids ! j = ids ! ?k \<longleftrightarrow> j = ?k" if "j < length ids" for j
    using that k assms(1) by (simp add: nth_eq_iff_index_eq)
  moreover have "mset (owned (AList.update (ids ! ?k) (aget ?o (ids ! ?k) @ [pref topic (int m)]) ?o) ids)
      = mset (owned ?o ids) + {#pref topic (int m)#}"
    using owned_snoc [OF assms(1) nth_mem [OF k], of ?o "[pref topic (int m)]"] by simp
  ultimately show ?case using Suc k by (auto simp: st)
qed

lemma roundRobin_eq:
  assumes "0 < pc" "memberIDs \<noteq> []"
  shows "roundRobinAssign memberIDs topic pc
    = foldl (rr_step (sort memberIDs) topic) (no_parts (sort memberIDs)) (map int [0..<nat pc])"
proof -
  have "[0..pc - 1] = map int [0..<nat pc]"
    using assms(1) by (intro nth_equalityI) auto
  moreover have "(\<lambda>out j. let owner = sort memberIDs ! nat (j mod int (length (sort memberIDs)))
      in AList.update owner (aget out owner @ [pref topic j]) out) = rr_step (sort memberIDs) topic"
    by (simp add: fun_eq_iff rr_step_def)
  ultimately show ?thesis using assms by (simp add: roundRobinAssign_def Let_def no_parts_def)
qed

lemma roundRobinAssign_owned:
  assumes "distinct memberIDs" "memberIDs \<noteq> []"
  shows "mset (owned (roundRobinAssign memberIDs topic pc) (sort memberIDs)) = mset (map (pref topic) [0..pc - 1])"
proof (cases "0 < pc")
  case True
  have "map int [0..<nat pc] = [0..pc - 1]" using True by (intro nth_equalityI) auto
  with rr_fold [of "sort memberIDs" "no_parts (sort memberIDs)" topic "nat pc"] assms True show ?thesis
    by (simp add: roundRobin_eq)
next
  case False
  have "owned [] ids = []" for ids by (induction ids) (auto simp: aget_def)
  with False show ?thesis by (simp add: roundRobinAssign_def)
qed

section \<open>All topics\<close>

definition wf_assignment :: "string list \<Rightarrow> assignment \<Rightarrow> bool" where
  "wf_assignment ids m \<longleftrightarrow> distinct (map fst m) \<and> fst ` set m \<subseteq> set ids"

lemma wf_update: "wf_assignment ids m \<Longrightarrow> k \<in> set ids \<Longrightarrow> wf_assignment ids (AList.update k v m)"
  by (auto simp: wf_assignment_def distinct_update dom_update)

lemma wf_rangeAssign: "wf_assignment memberIDs (rangeAssign memberIDs topic pc)"
proof -
  have "wf_assignment memberIDs (range_loop topic base extra i cursor ids m)"
    if "wf_assignment memberIDs m" "set ids \<subseteq> set memberIDs" for ids base extra i cursor m
    using that by (induction ids arbitrary: i cursor m) (auto simp: Let_def wf_update)
  then show ?thesis by (simp add: rangeAssign_def wf_assignment_def Let_def)
qed

lemma wf_no_parts: "wf_assignment ids (no_parts ids)"
  using keys_no_parts [of ids] by (simp add: wf_assignment_def)

lemma wf_roundRobinAssign: "wf_assignment memberIDs (roundRobinAssign memberIDs topic pc)"
proof (cases "0 < pc \<and> memberIDs \<noteq> []")
  case True
  have "wf_assignment memberIDs (foldl (rr_step (sort memberIDs) topic) m js)" if "wf_assignment memberIDs m" for js m
    using that
  proof (induction js arbitrary: m)
    case (Cons j js)
    have "sort memberIDs ! nat (j mod int (length memberIDs)) \<in> set memberIDs"
    proof -
      have "nat (j mod int (length memberIDs)) < length memberIDs" using True by (simp add: nat_less_iff)
      then show ?thesis using nth_mem [of "nat (j mod int (length memberIDs))" "sort memberIDs"] by simp
    qed
    with Cons show ?case by (simp add: rr_step_def Let_def wf_update)
  qed simp
  moreover have "wf_assignment memberIDs (no_parts (sort memberIDs))"
    using wf_no_parts [of "sort memberIDs"] by (simp add: wf_assignment_def)
  ultimately show ?thesis using True by (simp add: roundRobin_eq)
qed (auto simp: roundRobinAssign_def wf_assignment_def)

lemma owned_cong: "(\<And>k. k \<in> set ids \<Longrightarrow> aget m k = aget m' k) \<Longrightarrow> owned m ids = owned m' ids"
  by (induction ids) auto

lemma aget_Cons: "aget ((k, v) # m) j = (if j = k then v else aget m j)"
  by (simp add: aget_def)

lemma owned_values:
  "wf_assignment ids m \<Longrightarrow> distinct ids \<Longrightarrow> mset (owned m ids) = mset (concat (map snd m))"
proof (induction m)
  case Nil
  have "owned [] ids = []" by (induction ids) (auto simp: aget_def)
  then show ?case by simp
next
  case (Cons x m)
  obtain k v where x: "x = (k, v)" by fastforce
  have "k \<in> set ids" "map_of m k = None" using Cons.prems(1) x by (auto simp: wf_assignment_def map_of_eq_None_iff)
  then have k: "k \<in> set ids" "aget m k = []" by (simp_all add: aget_def)
  have "owned ((k, v) # m) ids = owned (AList.update k (aget m k @ v) m) ids"
    by (rule owned_cong) (auto simp: aget_Cons k(2))
  with owned_snoc [OF Cons.prems(2) k(1), of m v] Cons x show ?case by (simp add: wf_assignment_def)
qed

lemma merge_owned:
  assumes "distinct ids" "fst ` set pm \<subseteq> set ids" "wf_assignment ids out"
  shows "mset (owned (merge_assignment out pm) ids) = mset (owned out ids) + mset (concat (map snd pm))
    \<and> wf_assignment ids (merge_assignment out pm)"
  using assms(2,3)
proof (induction pm arbitrary: out)
  case (Cons x pm)
  obtain k v where x: "x = (k, v)" by fastforce
  with Cons.prems have k: "k \<in> set ids" by simp
  from Cons.IH [of "AList.update k (aget out k @ v) out"] owned_snoc [OF assms(1) k, of out v] Cons.prems x wf_update [OF Cons.prems(2) k]
  show ?case by (simp add: merge_assignment_def)
qed (simp add: merge_assignment_def)

lemma assign_topics_cover:
  assumes ids: "distinct ids"
    and one: "\<And>topic n. wf_assignment ids (one topic n) \<and> mset (owned (one topic n) ids) = mset (map (pref topic) [0..n - 1])"
    and run: "allPartitions topics pf = Inr all" "wf_assignment ids out"
  shows "\<exists>m. assign_topics one pf topics out = Inr m \<and> wf_assignment ids m
    \<and> mset (owned m ids) = mset (owned out ids) + mset all"
  using run
proof (induction topics arbitrary: out all)
  case (Cons t ts)
  from Cons.prems(1) obtain n rest where n: "pf t = Inr n" "allPartitions ts pf = Inr rest" "all = map (pref t) [0..n - 1] @ rest"
    by (auto split: sum.splits)
  have o: "wf_assignment ids (one t n)" "mset (concat (map snd (one t n))) = mset (map (pref t) [0..n - 1])"
    using one [of t n] owned_values [of ids "one t n"] ids by auto
  have mg: "mset (owned (merge_assignment out (one t n)) ids) = mset (owned out ids) + mset (map (pref t) [0..n - 1])"
    "wf_assignment ids (merge_assignment out (one t n))"
    using merge_owned [OF ids _ Cons.prems(2), of "one t n"] o by (auto simp: wf_assignment_def)
  from Cons.IH [OF n(2) mg(2)] mg(1) n show ?case by auto
qed simp

lemma assign_topics_error: "allPartitions topics pf = Inl e \<Longrightarrow> assign_topics one pf topics out = Inl e"
  by (induction topics arbitrary: out) (auto split: sum.splits)

section \<open>Sticky\<close>

lemma sticky_targets_other: "k \<notin> set ids \<Longrightarrow> target_of (sticky_targets base extras i ids t) k = target_of t k"
  by (induction ids arbitrary: i t) (auto simp: target_of_def update_conv')

lemma sticky_targets_nth:
  "distinct ids \<Longrightarrow> k < length ids \<Longrightarrow> target_of (sticky_targets base extras i ids t) (ids ! k) = range_count base extras (i + int k)"
proof (induction ids arbitrary: i t k)
  case (Cons x ids)
  show ?case
  proof (cases k)
    case 0
    with Cons.prems sticky_targets_other [of x ids] show ?thesis by (simp add: target_of_def update_conv' range_count_def)
  next
    case (Suc j)
    with Cons.IH [of j] Cons.prems show ?thesis by (simp add: add.assoc)
  qed
qed simp

lemma retain_parts_run:
  assumes "retain_parts t valid ps own taken = (own', taken')" "distinct taken"
  shows "\<exists>new. own' = own @ new \<and> mset taken' = mset new + mset taken \<and> distinct taken' \<and> set new \<subseteq> set valid
    \<and> (int (length own) \<le> t \<longrightarrow> int (length own') \<le> t)"
  using assms
proof (induction t valid ps own taken rule: retain_parts.induct)
  case (2 t valid p ps own taken)
  show ?case
  proof (cases "t \<le> int (length own) \<or> p \<notin> set valid \<or> p \<in> set taken")
    case True
    with 2 show ?thesis by (auto split: if_splits)
  next
    case False
    with "2.IH"(2) "2.prems" obtain new where n: "own' = (own @ [p]) @ new" "mset taken' = mset new + mset (p # taken)"
      "distinct taken'" "set new \<subseteq> set valid" "int (length (own @ [p])) \<le> t \<longrightarrow> int (length own') \<le> t" by auto
    with False show ?thesis by (intro exI [of _ "p # new"]) auto
  qed
qed auto

definition retained :: "(string \<Rightarrow> int) \<Rightarrow> PartitionRef list \<Rightarrow> string list \<Rightarrow> assignment \<Rightarrow> PartitionRef list \<Rightarrow> bool" where
  "retained target valid ids out taken \<longleftrightarrow> wf_assignment ids out \<and> mset (owned out ids) = mset taken \<and> distinct taken
     \<and> set taken \<subseteq> set valid \<and> (\<forall>k \<in> set ids. int (length (aget out k)) \<le> target k)"

lemma retain_prior_run:
  assumes "distinct ids" "retained target valid ids out taken" "set js \<subseteq> set ids"
    "retain_prior target valid prior js out taken = (out', taken')"
  shows "retained target valid ids out' taken'"
  using assms(2-)
proof (induction js arbitrary: out taken)
  case (Cons j js)
  obtain own tk where r: "retain_parts (target j) valid (aget prior j) (aget out j) taken = (own, tk)" by fastforce
  have ret: "distinct taken" "wf_assignment ids out" "mset (owned out ids) = mset taken" "set taken \<subseteq> set valid"
      "\<forall>k \<in> set ids. int (length (aget out k)) \<le> target k" and j: "j \<in> set ids"
    using Cons.prems by (auto simp: retained_def)
  from retain_parts_run [OF r ret(1)] obtain new where n: "own = aget out j @ new" "mset tk = mset new + mset taken"
    "distinct tk" "set new \<subseteq> set valid" "int (length (aget out j)) \<le> target j \<longrightarrow> int (length own) \<le> target j" by blast
  have "set tk = set new \<union> set taken" using n(2) by (metis set_mset_mset set_mset_union)
  then have "retained target valid ids (AList.update j own out) tk"
    using ret j n wf_update [OF ret(2) j] owned_snoc [OF assms(1) j, of out new] by (auto simp: retained_def)
  from Cons.IH [OF this] Cons.prems(2,3) r show ?case by simp
qed simp

lemma give_free_run:
  assumes "distinct ids" "wf_assignment ids out" "\<forall>k \<in> set ids. int (length (aget out k)) \<le> target k"
    "int (length (owned out ids)) + int (length free) = (\<Sum>k \<leftarrow> ids. target k)"
  shows "wf_assignment ids (foldl (give_free target ids) out free)
    \<and> mset (owned (foldl (give_free target ids) out free) ids) = mset (owned out ids) + mset free
    \<and> (\<forall>k \<in> set ids. int (length (aget (foldl (give_free target ids) out free) k)) \<le> target k)
    \<and> (\<forall>k. \<exists>more. aget (foldl (give_free target ids) out free) k = aget out k @ more)"
  using assms(2-)
proof (induction free arbitrary: out)
  case (Cons p free)
  have len: "int (length (owned out js)) = (\<Sum>k \<leftarrow> js. int (length (aget out k)))" for js by (induction js) auto
  have "\<exists>k \<in> set ids. int (length (aget out k)) < target k"
  proof (rule ccontr)
    assume "\<not> ?thesis"
    then have "\<forall>k \<in> set ids. int (length (aget out k)) = target k" using Cons.prems(2) by force
    then have "(\<Sum>k \<leftarrow> ids. int (length (aget out k))) = (\<Sum>k \<leftarrow> ids. target k)" by (metis (no_types, lifting) map_cong)
    with len [of ids] Cons.prems(3) show False by simp
  qed
  then have "find (\<lambda>k. int (length (aget out k)) < target k) ids \<noteq> None" by (auto simp: find_None_iff)
  then obtain k where k: "find (\<lambda>k. int (length (aget out k)) < target k) ids = Some k" by auto
  then have kk: "k \<in> set ids" "int (length (aget out k)) < target k"
    by (auto simp: find_Some_iff)
  let ?o = "AList.update k (aget out k @ [p]) out"
  have g: "give_free target ids out p = ?o" by (simp add: give_free_def k)
  have m: "mset (owned ?o ids) = mset (owned out ids) + {#p#}" using owned_snoc [OF assms(1) kk(1), of out "[p]"] by simp
  then have "length (owned ?o ids) = length (owned out ids) + 1" by (metis size_mset size_single size_union)
  with Cons.IH [of ?o] Cons.prems kk wf_update [OF Cons.prems(1) kk(1)] have
    IH: "wf_assignment ids (foldl (give_free target ids) ?o free)"
      "mset (owned (foldl (give_free target ids) ?o free) ids) = mset (owned ?o ids) + mset free"
      "\<forall>k \<in> set ids. int (length (aget (foldl (give_free target ids) ?o free) k)) \<le> target k"
      "\<forall>k. \<exists>more. aget (foldl (give_free target ids) ?o free) k = aget ?o k @ more" by auto
  have "\<exists>more. aget (foldl (give_free target ids) ?o free) j = aget out j @ more" for j
    using IH(4) [rule_format, of j] by (cases "j = k") auto
  with IH m g show ?case by simp
qed auto

lemma allPartitions_distinct:
  "distinct topics \<Longrightarrow> allPartitions topics pf = Inr all \<Longrightarrow> distinct all \<and> (\<forall>p \<in> set all. p_Topic p \<in> set topics)"
proof (induction topics arbitrary: all)
  case (Cons t ts)
  then obtain n rest where n: "allPartitions ts pf = Inr rest" "all = map (pref t) [0..n - 1] @ rest"
    by (auto split: sum.splits)
  from Cons.IH [OF _ n(1)] Cons.prems(1) have "distinct rest" "\<forall>p \<in> set rest. p_Topic p \<in> set ts" by auto
  then show ?case using Cons.prems(1) n(2) by (auto simp: distinct_map inj_on_def pref_def)
qed simp

lemma sticky_run:
  assumes ids: "distinct memberIDs" "memberIDs \<noteq> []" and all: "allPartitions topics pf = Inr all" "distinct all" "all \<noteq> []"
  defines "n \<equiv> int (length memberIDs)"
  defines "target \<equiv> target_of (sticky_targets (int (length all) div n) (int (length all) mod n) 0 (sort memberIDs) [])"
  shows "\<exists>m out taken. assignSticky memberIDs topics pf prior = Inr m \<and> wf_assignment memberIDs m
    \<and> mset (owned m (sort memberIDs)) = mset all
    \<and> (\<forall>k \<in> set memberIDs. int (length (aget m k)) = target k)
    \<and> retain_prior target all prior (sort memberIDs) (no_parts memberIDs) [] = (out, taken)
    \<and> (\<forall>k. \<exists>more. aget m k = aget out k @ more)"
proof -
  let ?ids = "sort memberIDs"
  have d: "distinct ?ids" "?ids \<noteq> []" "length ?ids = length memberIDs" "set ?ids = set memberIDs" using ids by auto
  have n: "n = int (length ?ids)" "0 < int (length all)" using all(3) by (simp_all add: n_def)
  have tk: "target (?ids ! k) = range_count (int (length all) div n) (int (length all) mod n) (int k)" if "k < length ?ids" for k
    using sticky_targets_nth [OF d(1) that, of _ _ 0] by (simp add: target_def)
  have nonneg: "0 \<le> target k" if "k \<in> set ?ids" for k
  proof -
    from that obtain i where "i < length ?ids" "k = ?ids ! i" by (metis in_set_conv_nth)
    moreover have "0 \<le> int (length all) div n" using ids(2) by (simp add: n_def pos_imp_zdiv_nonneg_iff)
    ultimately show ?thesis using tk [of i] by (simp add: range_count_def)
  qed
  have "(\<Sum>k \<leftarrow> ?ids. target k) = (\<Sum>k < length ?ids. target (?ids ! k))" by (simp add: sum_list_sum_nth atLeast0LessThan)
  also have "\<dots> = (\<Sum>k < length ?ids. range_count (int (length all) div n) (int (length all) mod n) (int k))"
    by (rule sum.cong) (use tk in auto)
  also have "\<dots> = int (length all)" using sum_counts [OF n(2) d(2)] unfolding n(1) .
  finally have total: "(\<Sum>k \<leftarrow> ?ids. target k) = int (length all)" .
  obtain out taken where r: "retain_prior target all prior ?ids (no_parts memberIDs) [] = (out, taken)" by fastforce
  have "retained target all ?ids (no_parts memberIDs) []"
    using wf_no_parts [of memberIDs] nonneg by (simp add: retained_def wf_assignment_def)
  from retain_prior_run [OF d(1) this _ r] have ret: "wf_assignment ?ids out" "mset (owned out ?ids) = mset taken" "distinct taken"
      "set taken \<subseteq> set all" "\<forall>k \<in> set ?ids. int (length (aget out k)) \<le> target k"
    by (simp_all add: retained_def)
  let ?free = "filter (\<lambda>p. p \<notin> set taken) all"
  have "mset taken = mset (filter (\<lambda>p. p \<in> set taken) all)"
  proof -
    have "set taken = set (filter (\<lambda>p. p \<in> set taken) all)" using ret(4) by auto
    then show ?thesis using ret(3) all(2) by (metis distinct_filter set_eq_iff_mset_eq_distinct)
  qed
  then have part: "mset taken + mset ?free = mset all" by (metis mset_filter multiset_partition)
  have "length (owned out ?ids) + length ?free = length all" using part ret(2) by (metis size_mset size_union)
  then have g: "int (length (owned out ?ids)) + int (length ?free) = (\<Sum>k \<leftarrow> ?ids. target k)" using total by linarith
  let ?m = "foldl (give_free target ?ids) out ?free"
  note m = give_free_run [OF d(1) ret(1,5) g]
  have run: "assignSticky memberIDs topics pf prior = Inr ?m"
    using all(1,3) ids(2) r by (simp add: assignSticky_def Let_def target_def n_def)
  have cover: "mset (owned ?m ?ids) = mset all" using m ret(2) part by simp
  have "int (length (aget ?m k)) = target k" if "k \<in> set ?ids" for k
  proof -
    have le: "\<forall>k \<in> set ?ids. int (length (aget ?m k)) \<le> target k" using m by simp
    have "int (length (owned ?m js)) = (\<Sum>k \<leftarrow> js. int (length (aget ?m k)))" for js by (induction js) auto
    then have "(\<Sum>k \<leftarrow> ?ids. int (length (aget ?m k))) = int (length all)" using cover by (metis size_mset)
    then have "(\<Sum>k \<in> set ?ids. int (length (aget ?m k))) = (\<Sum>k \<in> set ?ids. target k)"
      using total d(1) by (simp add: sum_list_distinct_conv_sum_set)
    with le have "\<forall>k \<in> set ?ids. int (length (aget ?m k)) = target k"
      using sum_mono_inv [of "\<lambda>k. int (length (aget ?m k))" "set ?ids" target] by auto
    then show ?thesis using that by blast
  qed
  then show ?thesis using run m cover r d(4) by (auto simp: wf_assignment_def)
qed

section \<open>Properties\<close>

definition exact_cover :: "string list \<Rightarrow> PartitionRef list \<Rightarrow> assignment result \<Rightarrow> bool" where
  "exact_cover memberIDs all res \<longleftrightarrow> (\<exists>m. res = Inr m \<and> wf_assignment memberIDs m \<and> mset (concat (map snd m)) = mset all)"

lemma strategies_cover:
  assumes "distinct memberIDs" "memberIDs \<noteq> []" "distinct topics" "allPartitions topics pf = Inr all"
  shows "distinct all \<and> exact_cover memberIDs all (group_assign memberIDs topics pf)
    \<and> exact_cover memberIDs all (assignRoundRobin memberIDs topics pf)
    \<and> exact_cover memberIDs all (assignSticky memberIDs topics pf prior)"
proof -
  let ?ids = "sort memberIDs"
  have d: "distinct ?ids" "set ?ids = set memberIDs" using assms(1) by auto
  have wf: "wf_assignment ?ids m \<longleftrightarrow> wf_assignment memberIDs m" for m by (simp add: wf_assignment_def)
  have dist: "distinct all" using allPartitions_distinct [OF assms(3,4)] by simp
  have "exact_cover memberIDs all (assign_topics one pf topics (no_parts memberIDs))"
    if "\<And>t n. wf_assignment ?ids (one t n) \<and> mset (owned (one t n) ?ids) = mset (map (pref t) [0..n - 1])" for one
    using assign_topics_cover [OF d(1) that assms(4), of "no_parts memberIDs"] wf_no_parts [of memberIDs] owned_values [OF _ d(1)]
    by (auto simp: exact_cover_def wf)
  moreover have "exact_cover memberIDs all (assignSticky memberIDs topics pf prior)"
  proof (cases "all = []")
    case True
    have "concat (map snd (no_parts memberIDs)) = []"
      using owned_values [OF wf_no_parts assms(1)] by simp
    then show ?thesis using True assms(4) wf_no_parts by (auto simp: exact_cover_def assignSticky_def Let_def)
  next
    case False
    from sticky_run [OF assms(1,2,4) dist False, of prior] obtain m where
      "assignSticky memberIDs topics pf prior = Inr m" "wf_assignment memberIDs m" "mset (owned m ?ids) = mset all" by blast
    then show ?thesis using owned_values [OF _ d(1), of m] by (auto simp: exact_cover_def wf)
  qed
  ultimately show ?thesis
    using wf_rangeAssign rangeAssign_owned [OF assms(1,2)] wf_roundRobinAssign roundRobinAssign_owned [OF assms(1,2)] dist
    by (simp add: group_assign_def assignRoundRobin_def wf)
qed

text \<open>
  C21: For any non-empty set of members and any topics, each of the three strategies hands out every
  partition of every topic exactly once and to members only, whatever the prior assignment was.
\<close>

theorem assignment_exact_cover:
  assumes "distinct memberIDs" "memberIDs \<noteq> []" "distinct topics" "allPartitions topics pf = Inr all"
  shows "distinct all \<and> exact_cover memberIDs all (group_assign memberIDs topics pf)
    \<and> exact_cover memberIDs all (assignRoundRobin memberIDs topics pf)
    \<and> exact_cover memberIDs all (assignSticky memberIDs topics pf prior)"
  by (rule strategies_cover [OF assms])

lemma assignment_exact_cover_witness:
  "distinct [pref ''a'' 0, pref ''a'' 1, pref ''a'' 2]
   \<and> exact_cover [''x'', ''y''] [pref ''a'' 0, pref ''a'' 1, pref ''a'' 2] (assignSticky [''x'', ''y''] [''a''] (\<lambda>_. Inr 3) [])"
proof -
  have "allPartitions [''a''] (\<lambda>_. Inr 3) = Inr [pref ''a'' 0, pref ''a'' 1, pref ''a'' 2]"
    by (simp add: upto.simps)
  from assignment_exact_cover [OF _ _ _ this, of "[''x'', ''y'']" "[]"] show ?thesis by simp
qed

text \<open>
  C25: No strategy loads one member more than another by more than one partition: range and round-robin
  within each topic, sticky over all topics together.
\<close>

theorem assignment_balanced:
  assumes "distinct memberIDs" "k \<in> set memberIDs" "0 \<le> pc" "distinct topics" "allPartitions topics pf = Inr all"
  shows "int (length (aget (rangeAssign memberIDs topic pc) k)) - pc div int (length memberIDs) \<in> {0, 1}
    \<and> int (length (aget (roundRobinAssign memberIDs topic pc) k)) - pc div int (length memberIDs) \<in> {0, 1}
    \<and> (\<forall>m. assignSticky memberIDs topics pf prior = Inr m \<longrightarrow>
        int (length (aget m k)) - int (length all) div int (length memberIDs) \<in> {0, 1})"
proof -
  let ?ids = "sort memberIDs"
  have ne: "memberIDs \<noteq> []" using assms(2) by auto
  have d: "distinct ?ids" using assms(1) by simp
  have "k \<in> set ?ids" using assms(2) by simp
  then obtain i where i: "i < length ?ids" "k = ?ids ! i" by (metis in_set_conv_nth)
  have rc: "range_count b e j - b \<in> {0, 1}" for b e j by (simp add: range_count_def)
  have "int (length (aget (rangeAssign memberIDs topic pc) k)) - pc div int (length memberIDs) \<in> {0, 1}"
  proof (cases "pc = 0")
    case False
    have "0 \<le> pc div int (length memberIDs)" using assms(3) ne by (simp add: pos_imp_zdiv_nonneg_iff)
    then show ?thesis
      using False assms(3) ne i(2) range_loop_length [OF d i(1), of "pc div int (length memberIDs)" topic "pc mod int (length memberIDs)" 0 0 "[]"] rc
      by (simp add: rangeAssign_def Let_def)
  qed (simp add: rangeAssign_def aget_def)
  moreover have "int (length (aget (roundRobinAssign memberIDs topic pc) k)) - pc div int (length memberIDs) \<in> {0, 1}"
  proof (cases "pc = 0")
    case False
    have "aget (roundRobinAssign memberIDs topic pc) k
        = map (\<lambda>j. pref topic (int j)) (filter (\<lambda>j. j mod length ?ids = i) [0..<nat pc])"
      using rr_fold [OF d _ , of "no_parts ?ids" topic "nat pc"] False assms(3) ne i by (simp add: roundRobin_eq)
    moreover have "0 < length ?ids" "i < length ?ids" using ne i(1) by auto
    ultimately have "length (aget (roundRobinAssign memberIDs topic pc) k) = nat pc div length ?ids + (if i < nat pc mod length ?ids then 1 else 0)"
      using count_mod [of "length ?ids" i "nat pc"] by simp
    moreover have "int (nat pc div length ?ids) = pc div int (length memberIDs)" using assms(3) by (simp add: zdiv_int)
    ultimately show ?thesis by auto
  qed (simp add: roundRobinAssign_def aget_def)
  moreover have "int (length (aget m k)) - int (length all) div int (length memberIDs) \<in> {0, 1}"
    if run: "assignSticky memberIDs topics pf prior = Inr m" for m
  proof (cases "all = []")
    case True
    with run assms(5) ne show ?thesis by (auto simp: assignSticky_def Let_def)
  next
    case False
    have "distinct all" using allPartitions_distinct [OF assms(4,5)] by simp
    from sticky_run [OF assms(1) ne assms(5) this False, of prior] run assms(2)
    have "int (length (aget m k)) = target_of (sticky_targets (int (length all) div int (length memberIDs))
        (int (length all) mod int (length memberIDs)) 0 ?ids []) k" by auto
    then show ?thesis using sticky_targets_nth [OF d i(1)] i(2) rc by simp
  qed
  ultimately show ?thesis by blast
qed

lemma assignment_balanced_witness:
  "int (length (aget (rangeAssign [''x'', ''y''] ''a'' 3) ''y'')) - 3 div 2 \<in> {0, 1}"
proof -
  have "allPartitions [''a''] (\<lambda>_. Inr 3) = Inr [pref ''a'' 0, pref ''a'' 1, pref ''a'' 2]"
    by (simp add: upto.simps)
  from assignment_balanced [OF _ _ _ _ this, of "[''x'', ''y'']" "''y''" 3 "''a''" "[]"] show ?thesis by simp
qed

text \<open>What a member had before and still may have: sticky retains it up to the member's fair share.\<close>

lemma retain_parts_all:
  assumes "set ps \<subseteq> set valid" "distinct ps" "set ps \<inter> set taken = {}"
  shows "fst (retain_parts t valid ps own taken) = own @ take (nat (t - int (length own))) ps"
    "set (snd (retain_parts t valid ps own taken)) \<subseteq> set ps \<union> set taken"
  using assms
proof (induction t valid ps own taken rule: retain_parts.induct)
  case (2 t valid p ps own taken)
  {
    case 1
    then show ?case
      using "2.IH"(3) by (cases "nat (t - int (length own))") (auto simp: nat_eq_iff nat_add_distrib algebra_simps)
  next
    case 2
    then show ?case using "2.IH"(4) by auto
  }
qed auto

lemma retain_prior_all:
  assumes "distinct js" "distinct (owned prior js)" "set (owned prior js) \<subseteq> set valid"
    "set taken \<inter> set (owned prior js) = {}" "\<forall>j \<in> set js. aget out j = []"
  shows "(\<forall>j \<in> set js. aget (fst (retain_prior target valid prior js out taken)) j = take (nat (target j)) (aget prior j))
    \<and> (\<forall>j. j \<notin> set js \<longrightarrow> aget (fst (retain_prior target valid prior js out taken)) j = aget out j)"
  using assms
proof (induction js arbitrary: out taken)
  case (Cons j js)
  obtain own tk where r: "retain_parts (target j) valid (aget prior j) (aget out j) taken = (own, tk)" by fastforce
  have p: "set (aget prior j) \<subseteq> set valid" "distinct (aget prior j)" "set (aget prior j) \<inter> set taken = {}"
    using Cons.prems by auto
  have own: "own = take (nat (target j)) (aget prior j)" "set tk \<subseteq> set (aget prior j) \<union> set taken"
    using retain_parts_all [OF p, of "target j" "aget out j"] r Cons.prems(5) by auto
  have "set tk \<inter> set (owned prior js) = {}" using own(2) Cons.prems(2,4) by auto
  with Cons.IH [of tk "AList.update j own out"] Cons.prems r own(1) show ?case by auto
qed simp

text \<open>
  Sticky assignment moves as little as balance allows. If the prior assignment gave valid
  partitions to one member each, every remaining member keeps its first partitions up to its target
  count, and a group whose members already hold their target counts gets its assignment back.
\<close>

theorem sticky_keeps_prior:
  assumes "distinct memberIDs" "memberIDs \<noteq> []" "distinct topics" "allPartitions topics pf = Inr all" "all \<noteq> []"
    "distinct (owned prior (sort memberIDs))" "set (owned prior (sort memberIDs)) \<subseteq> set all"
  shows "\<exists>m. assignSticky memberIDs topics pf prior = Inr m
    \<and> (\<forall>k \<in> set memberIDs. \<exists>more. aget m k = take (length (aget m k)) (aget prior k) @ more)
    \<and> ((\<forall>k \<in> set memberIDs. length (aget prior k) = length (aget m k)) \<longrightarrow> (\<forall>k \<in> set memberIDs. aget m k = aget prior k))"
proof -
  have dist: "distinct all" using allPartitions_distinct [OF assms(3,4)] by simp
  let ?t = "target_of (sticky_targets (int (length all) div int (length memberIDs)) (int (length all) mod int (length memberIDs)) 0 (sort memberIDs) [])"
  from sticky_run [OF assms(1,2,4) dist assms(5), of prior] obtain m out taken where
    m: "assignSticky memberIDs topics pf prior = Inr m" "\<forall>k \<in> set memberIDs. int (length (aget m k)) = ?t k"
      "retain_prior ?t all prior (sort memberIDs) (no_parts memberIDs) [] = (out, taken)"
      "\<forall>k. \<exists>more. aget m k = aget out k @ more" by blast
  have out: "aget out k = take (nat (?t k)) (aget prior k)" if "k \<in> set memberIDs" for k
    using retain_prior_all [of "sort memberIDs" prior all "[]" "no_parts memberIDs" ?t] assms(1,6,7) m(3) that by simp
  have keep: "\<exists>more. aget m k = take (length (aget m k)) (aget prior k) @ more" if "k \<in> set memberIDs" for k
  proof -
    have "nat (?t k) = length (aget m k)" using m(2) that by (metis nat_int)
    then show ?thesis using out [OF that] m(4) by metis
  qed
  moreover have "aget m k = aget prior k" if k: "k \<in> set memberIDs" "length (aget prior k) = length (aget m k)" for k
  proof -
    from keep [OF k(1)] obtain more where "aget m k = aget prior k @ more" using k(2) by auto
    then show ?thesis using k(2) by simp
  qed
  ultimately show ?thesis using m(1) by blast
qed

lemma sticky_keeps_prior_witness:
  "\<exists>m. assignSticky [''x'', ''y''] [''a''] (\<lambda>_. Inr 3) [(''y'', [pref ''a'' 2, pref ''a'' 0])] = Inr m
    \<and> (\<exists>more. aget m ''y'' = take (length (aget m ''y'')) [pref ''a'' 2, pref ''a'' 0] @ more)"
proof -
  have a: "allPartitions [''a''] (\<lambda>_. Inr 3) = Inr [pref ''a'' 0, pref ''a'' 1, pref ''a'' 2]"
    by (simp add: upto.simps)
  have s: "sort [''x'', ''y''] = [''x'', ''y'']" by (simp add: sort_key_def)
  have "set (owned [(''y'', [pref ''a'' 2, pref ''a'' 0])] (sort [''x'', ''y''])) \<subseteq> set [pref ''a'' 0, pref ''a'' 1, pref ''a'' 2]"
      "distinct (owned [(''y'', [pref ''a'' 2, pref ''a'' 0])] (sort [''x'', ''y'']))"
    unfolding s by (simp_all add: aget_def pref_def)
  from sticky_keeps_prior [OF _ _ _ a _ this(2,1)] show ?thesis by (auto simp: aget_def)
qed

end
