(* ===== verification/Group_Offsets.thy ===== *)
theory Group_Offsets
  imports Store_Contract Go_Strconv "HOL-Library.AList"
begin

text \<open>
  Committed consumer-group offsets: the key format and the in-memory and JSON-file stores of
  \<^verbatim>\<open>broker/internal/groups/offsets.go\<close> and the store on an internal topic of
  \<^verbatim>\<open>broker/internal/groups/topic_offsets.go\<close>. The locale \<open>offset_store\<close> is the contract of the
  \<^verbatim>\<open>OffsetStore\<close> interface. A JSON document is represented by the value it encodes.
\<close>

section \<open>Keys\<close>

definition NoOffset :: int where
  "NoOffset = - 1"

record OffsetEntry =
  oe_Topic :: string
  oe_Partition :: int
  oe_Offset :: int

record offsetKey =
  ok_Group :: string
  ok_Topic :: string
  ok_Partition :: int
  ok_Offset :: int

definition NUL :: char where
  "NUL = CHR 0x00"

definition joinKey :: "string \<Rightarrow> string \<Rightarrow> int \<Rightarrow> string" where
  "joinKey grp topic part = grp @ [NUL] @ topic @ [NUL] @ fmt_d part"

fun splitNUL :: "string \<Rightarrow> string list" where
  "splitNUL [] = [[]]"
| "splitNUL (c # s) =
     (if c = NUL then [] # splitNUL s else case splitNUL s of w # ws \<Rightarrow> (c # w) # ws | [] \<Rightarrow> [[c]])"

text \<open>
  \<^verbatim>\<open>fmt.Sscanf(s, "%d", &p)\<close> into an int32: blanks, a sign and digits; \<open>p\<close> keeps its zero on any error.
\<close>

definition is_digit :: "char \<Rightarrow> bool" where
  "is_digit c \<longleftrightarrow> 48 \<le> (of_char c :: nat) \<and> (of_char c :: nat) \<le> 57"

definition is_blank :: "char \<Rightarrow> bool" where
  "is_blank c \<longleftrightarrow> (of_char c :: nat) \<in> {9, 11, 12, 13, 32}"

definition sscan_int32 :: "string \<Rightarrow> int" where
  "sscan_int32 s =
     (let s = dropWhile is_blank s;
          sign = takeWhile (\<lambda>c. c = CHR ''-'' \<or> c = CHR ''+'') (take 1 s);
          tok = sign @ takeWhile is_digit (drop (length sign) s)
      in case ParseInt tok of Inr v \<Rightarrow> if int32_ok v then v else 0 | Inl _ \<Rightarrow> 0)"

text \<open>
  \<^verbatim>\<open>fmt.Sscanf(k, "%s\x00%s\x00%d", ...)\<close> reads a blank-delimited word and then fails on the separator, which
  a word cannot be followed by; ASCII blanks.
\<close>

definition sscan_word :: "string \<Rightarrow> string" where
  "sscan_word s = takeWhile (\<lambda>c. \<not> is_blank c \<and> of_char c \<noteq> (10 :: nat)) (dropWhile is_blank s)"

definition splitKey :: "string \<Rightarrow> string \<times> string \<times> int" where
  "splitKey k =
     (let grp = sscan_word k; parts = splitNUL k
      in if length parts = 3 then (parts ! 0, parts ! 1, sscan_int32 (parts ! 2)) else (grp, [], 0))"

lemma splitNUL_nonempty [simp]: "splitNUL s \<noteq> []"
  by (cases s) (auto split: list.splits)

lemma splitNUL_plain: "NUL \<notin> set s \<Longrightarrow> splitNUL s = [s]"
  by (induction s) auto

lemma splitNUL_append: "NUL \<notin> set s \<Longrightarrow> splitNUL (s @ NUL # t) = s # splitNUL t"
  by (induction s) auto

lemma is_digit_digit: "d < 10 \<Longrightarrow> is_digit (digit d) \<and> \<not> is_blank (digit d) \<and> digit d \<noteq> NUL"
  using of_char_digit [of d] by (auto simp: is_digit_def is_blank_def NUL_def)

lemma digits_plain: "c \<in> set (digits n) \<Longrightarrow> is_digit c \<and> \<not> is_blank c \<and> c \<noteq> NUL \<and> c \<noteq> CHR ''-'' \<and> c \<noteq> CHR ''+''"
  using digits_chars is_digit_digit digit_not_sign by metis

lemma fmt_d_plain: "NUL \<notin> set (fmt_d i)"
  using digits_plain by (auto simp: fmt_d_def NUL_def)

lemma sscan_fmt_d:
  assumes "int32_ok i" shows "sscan_int32 (fmt_d i) = i"
proof -
  have p: "ParseInt (fmt_d i) = Inr i"
    using assms ParseInt_fmt_0d [of i 0] by (simp add: fmt_d_eq int32_ok_def int64_ok_def)
  have all: "takeWhile is_digit (digits n) = digits n" for n using digits_plain by (simp add: takeWhile_eq_all_conv)
  show ?thesis
  proof (cases "i < 0")
    case True
    then show ?thesis using p assms
      by (simp add: sscan_int32_def fmt_d_def is_blank_def Let_def all)
  next
    case False
    obtain c cs where d: "digits (nat i) = c # cs" by (cases "digits (nat i)") auto
    then have "\<not> is_blank c" "c \<noteq> CHR ''-''" "c \<noteq> CHR ''+''" using digits_plain [of c "nat i"] by auto
    with d have "dropWhile is_blank (digits (nat i)) = digits (nat i)"
      "takeWhile (\<lambda>c. c = CHR ''-'' \<or> c = CHR ''+'') (take 1 (digits (nat i))) = []" by simp_all
    with False p assms show ?thesis by (simp add: sscan_int32_def fmt_d_def Let_def all)
  qed
qed

definition plain_key :: "string \<Rightarrow> string \<Rightarrow> int \<Rightarrow> bool" where
  "plain_key grp topic part \<longleftrightarrow> NUL \<notin> set grp \<and> NUL \<notin> set topic \<and> int32_ok part"

lemma splitKey_joinKey: "plain_key grp topic part \<Longrightarrow> splitKey (joinKey grp topic part) = (grp, topic, part)"
  by (simp add: plain_key_def splitKey_def joinKey_def splitNUL_append splitNUL_plain fmt_d_plain sscan_fmt_d)

lemma joinKey_inject:
  "plain_key g t p \<Longrightarrow> plain_key g' t' p' \<Longrightarrow> joinKey g t p = joinKey g' t' p' \<longleftrightarrow> g = g' \<and> t = t' \<and> p = p'"
  by (metis splitKey_joinKey prod.inject)

section \<open>Operations on the entry map\<close>

type_synonym entries = "(string \<times> int) list"

definition entries_lookup :: "entries \<Rightarrow> string \<Rightarrow> string \<Rightarrow> int \<Rightarrow> int" where
  "entries_lookup entries grp topic part =
     (case map_of entries (joinKey grp topic part) of Some v \<Rightarrow> v | None \<Rightarrow> NoOffset)"

definition deleteGroupEntries :: "entries \<Rightarrow> string \<Rightarrow> entries" where
  "deleteGroupEntries entries grp = filter (\<lambda>(k, _). fst (splitKey k) \<noteq> grp) entries"

definition listEntries :: "entries \<Rightarrow> string \<Rightarrow> OffsetEntry list" where
  "listEntries entries grp =
     map (\<lambda>(k, off). case splitKey k of (_, topic, part) \<Rightarrow> \<lparr>oe_Topic = topic, oe_Partition = part, oe_Offset = off\<rparr>)
       (filter (\<lambda>(k, _). fst (splitKey k) = grp) entries)"

section \<open>In-memory store\<close>

definition mos_Commit :: "entries \<Rightarrow> string \<Rightarrow> string \<Rightarrow> int \<Rightarrow> int \<Rightarrow> entries \<times> unit result" where
  "mos_Commit m grp topic part offset = (AList.update (joinKey grp topic part) offset m, Inr ())"

definition mos_Lookup :: "entries \<Rightarrow> string \<Rightarrow> string \<Rightarrow> int \<Rightarrow> int result" where
  "mos_Lookup m grp topic part = Inr (entries_lookup m grp topic part)"

definition mos_List :: "entries \<Rightarrow> string \<Rightarrow> OffsetEntry list" where
  "mos_List m grp = listEntries m grp"

definition mos_DeleteGroup :: "entries \<Rightarrow> string \<Rightarrow> entries \<times> unit result" where
  "mos_DeleteGroup m grp = (deleteGroupEntries m grp, Inr ())"

section \<open>JSON-file store\<close>

text \<open>\<open>js_file\<close> is the document in the file, none when the file does not exist.\<close>

record JSONOffsetStore =
  js_entries :: entries
  js_file :: "offsetKey list option"

definition js_load :: "offsetKey list option \<Rightarrow> entries" where
  "js_load doc =
     (case doc of
        None \<Rightarrow> []
      | Some ks \<Rightarrow> foldl (\<lambda>m e. AList.update (joinKey (ok_Group e) (ok_Topic e) (ok_Partition e)) (ok_Offset e) m) [] ks)"

definition OpenJSONOffsetStore :: "offsetKey list option \<Rightarrow> JSONOffsetStore" where
  "OpenJSONOffsetStore doc = \<lparr>js_entries = js_load doc, js_file = doc\<rparr>"

definition js_snapshotLocked :: "entries \<Rightarrow> offsetKey list" where
  "js_snapshotLocked m =
     map (\<lambda>(k, off). case splitKey k of (grp, topic, part) \<Rightarrow>
       \<lparr>ok_Group = grp, ok_Topic = topic, ok_Partition = part, ok_Offset = off\<rparr>) m"

definition js_persist :: "JSONOffsetStore \<Rightarrow> offsetKey list \<Rightarrow> JSONOffsetStore" where
  "js_persist s snapshot = s\<lparr>js_file := Some snapshot\<rparr>"

definition js_Commit :: "JSONOffsetStore \<Rightarrow> string \<Rightarrow> string \<Rightarrow> int \<Rightarrow> int \<Rightarrow> JSONOffsetStore \<times> unit result" where
  "js_Commit s grp topic part offset =
     (let s = s\<lparr>js_entries := AList.update (joinKey grp topic part) offset (js_entries s)\<rparr>
      in (js_persist s (js_snapshotLocked (js_entries s)), Inr ()))"

definition js_Lookup :: "JSONOffsetStore \<Rightarrow> string \<Rightarrow> string \<Rightarrow> int \<Rightarrow> int result" where
  "js_Lookup s grp topic part = Inr (entries_lookup (js_entries s) grp topic part)"

definition js_List :: "JSONOffsetStore \<Rightarrow> string \<Rightarrow> OffsetEntry list" where
  "js_List s grp = listEntries (js_entries s) grp"

definition js_DeleteGroup :: "JSONOffsetStore \<Rightarrow> string \<Rightarrow> JSONOffsetStore \<times> unit result" where
  "js_DeleteGroup s grp =
     (let s = s\<lparr>js_entries := deleteGroupEntries (js_entries s) grp\<rparr>
      in (js_persist s (js_snapshotLocked (js_entries s)), Inr ()))"

section \<open>Internal-topic store\<close>

definition encodeOffsetValue :: "int \<Rightarrow> bytes" where
  "encodeOffsetValue offset = be64 (uint64_of offset)"

definition decodeOffsetValue :: "bytes \<Rightarrow> int" where
  "decodeOffsetValue b = (if length b \<noteq> 8 then NoOffset else int64_of (Uint64 b))"

definition replay_record :: "entries \<Rightarrow> Record \<Rightarrow> entries" where
  "replay_record m r =
     (case r_Value r of
        None \<Rightarrow> AList.delete (string_of_bytes (gb (r_Key r))) m
      | Some v \<Rightarrow> AList.update (string_of_bytes (gb (r_Key r))) (decodeOffsetValue v) m)"

partial_function (option) replay_loop ::
  "'st store_ops \<Rightarrow> PartitionRef \<Rightarrow> int \<Rightarrow> 'st \<Rightarrow> entries \<Rightarrow> ('st \<times> entries \<times> unit result) option" where
  "replay_loop ops pr cursor st m =
     (case so_Read ops None st pr cursor 256 of
        (st, Inl err) \<Rightarrow> Some (st, m, Inl err)
      | (st, Inr records) \<Rightarrow>
          if length records = 0 then Some (st, m, Inr ())
          else replay_loop ops pr (r_Offset (last records) + 1) st (foldl replay_record m records))"

record TopicOffsetStore =
  to_pref :: PartitionRef
  to_entries :: entries

definition DefaultOffsetsTopic :: string where
  "DefaultOffsetsTopic = ''__holocron_offsets''"

definition OpenTopicOffsetStore :: "'st store_ops \<Rightarrow> 'st \<Rightarrow> string \<Rightarrow> ('st \<times> TopicOffsetStore result) option" where
  "OpenTopicOffsetStore ops st topic =
     (let pr = \<lparr>p_Topic = (if topic = [] then DefaultOffsetsTopic else topic), p_Index = 0\<rparr>
      in case replay_loop ops pr 0 st [] of
           None \<Rightarrow> None
         | Some (st, m, Inl err) \<Rightarrow> Some (st, Inl (ErrWrap ''groups: replay offsets topic'' err))
         | Some (st, m, Inr _) \<Rightarrow> Some (st, Inr \<lparr>to_pref = pr, to_entries = m\<rparr>))"

definition offset_record :: "string \<Rightarrow> gobytes \<Rightarrow> Record" where
  "offset_record key v = \<lparr>r_Offset = 0, r_Timestamp = 0, r_Key = Some (bytes_of_string key), r_Value = v, r_Headers = []\<rparr>"

definition to_Commit :: "'st store_ops \<Rightarrow> int \<Rightarrow> 'st \<times> TopicOffsetStore \<Rightarrow> string \<Rightarrow> string \<Rightarrow> int \<Rightarrow> int
    \<Rightarrow> ('st \<times> TopicOffsetStore) \<times> unit result" where
  "to_Commit ops now s grp topic part offset =
     (let key = joinKey grp topic part in
      case so_Append ops None now (fst s) (to_pref (snd s)) (offset_record key (Some (encodeOffsetValue offset))) of
        (st, Inl err) \<Rightarrow> ((st, snd s), Inl err)
      | (st, Inr _) \<Rightarrow> ((st, (snd s)\<lparr>to_entries := AList.update key offset (to_entries (snd s))\<rparr>), Inr ()))"

definition to_Lookup :: "'st \<times> TopicOffsetStore \<Rightarrow> string \<Rightarrow> string \<Rightarrow> int \<Rightarrow> int result" where
  "to_Lookup s grp topic part = Inr (entries_lookup (to_entries (snd s)) grp topic part)"

definition to_List :: "'st \<times> TopicOffsetStore \<Rightarrow> string \<Rightarrow> OffsetEntry list" where
  "to_List s grp = listEntries (to_entries (snd s)) grp"

primrec to_tombstones :: "'st store_ops \<Rightarrow> int \<Rightarrow> PartitionRef \<Rightarrow> string list \<Rightarrow> 'st \<Rightarrow> 'st \<times> unit result" where
  "to_tombstones ops now pr [] st = (st, Inr ())"
| "to_tombstones ops now pr (k # ks) st =
     (case so_Append ops None now st pr (offset_record k None) of
        (st, Inl err) \<Rightarrow> (st, Inl err)
      | (st, Inr _) \<Rightarrow> to_tombstones ops now pr ks st)"

definition to_DeleteGroup :: "'st store_ops \<Rightarrow> int \<Rightarrow> 'st \<times> TopicOffsetStore \<Rightarrow> string
    \<Rightarrow> ('st \<times> TopicOffsetStore) \<times> unit result" where
  "to_DeleteGroup ops now s grp =
     (let keys = map fst (filter (\<lambda>(k, _). fst (splitKey k) = grp) (to_entries (snd s))) in
      case to_tombstones ops now (to_pref (snd s)) keys (fst s) of
        (st, Inl err) \<Rightarrow> ((st, snd s), Inl err)
      | (st, Inr _) \<Rightarrow> ((st, (snd s)\<lparr>to_entries := foldl (\<lambda>m k. AList.delete k m) (to_entries (snd s)) keys\<rparr>), Inr ()))"

end
