(* ===== verification/Group_Offset_Props.thy ===== *)
theory Group_Offset_Props
  imports Group_Offsets Store_Properties
begin

text \<open>
  The three offset stores keep one contract: a lookup returns the last commit, deletion of a group
  removes exactly its entries. The store on an internal topic moreover finds the same offsets again
  when it is reopened, also after its topic has been compacted.
\<close>

section \<open>Contract\<close>

locale offset_store =
  fixes Commit :: "'st \<Rightarrow> string \<Rightarrow> string \<Rightarrow> int \<Rightarrow> int \<Rightarrow> 'st \<times> unit result"
    and Lookup :: "'st \<Rightarrow> string \<Rightarrow> string \<Rightarrow> int \<Rightarrow> int result"
    and Entries :: "'st \<Rightarrow> string \<Rightarrow> OffsetEntry list"
    and DeleteGroup :: "'st \<Rightarrow> string \<Rightarrow> 'st \<times> unit result"
    and inv :: "'st \<Rightarrow> bool"
    and ready :: "'st \<Rightarrow> string \<Rightarrow> string \<Rightarrow> int \<Rightarrow> int \<Rightarrow> bool"
    and ready_delete :: "'st \<Rightarrow> string \<Rightarrow> bool"
    and committed :: "'st \<Rightarrow> string \<Rightarrow> string \<Rightarrow> int \<Rightarrow> int option"
  assumes commit_law: "inv s \<Longrightarrow> plain_key g t p \<Longrightarrow> ready s g t p off \<Longrightarrow>
      \<exists>s'. Commit s g t p off = (s', Inr ()) \<and> inv s'
        \<and> (\<forall>g' t' p'. plain_key g' t' p' \<longrightarrow>
             committed s' g' t' p' = (if g' = g \<and> t' = t \<and> p' = p then Some off else committed s g' t' p'))"
    and lookup_law: "inv s \<Longrightarrow> plain_key g t p \<Longrightarrow>
      Lookup s g t p = Inr (case committed s g t p of None \<Rightarrow> NoOffset | Some off \<Rightarrow> off)"
    and list_law: "inv s \<Longrightarrow> e \<in> set (Entries s g) \<longleftrightarrow>
      plain_key g (oe_Topic e) (oe_Partition e) \<and> committed s g (oe_Topic e) (oe_Partition e) = Some (oe_Offset e)"
    and delete_law: "inv s \<Longrightarrow> ready_delete s g \<Longrightarrow>
      \<exists>s'. DeleteGroup s g = (s', Inr ()) \<and> inv s'
        \<and> (\<forall>g' t' p'. plain_key g' t' p' \<longrightarrow> committed s' g' t' p' = (if g' = g then None else committed s g' t' p'))"
begin

lemma commit_then_lookup:
  assumes "inv s" "plain_key g t p" "ready s g t p off" "Commit s g t p off = (s', res)"
  shows "Lookup s' g t p = Inr off"
  using commit_law [OF assms(1-3)] assms(2,4) lookup_law [of s' g t p] by auto

lemma delete_then_empty:
  assumes "inv s" "ready_delete s g" "DeleteGroup s g = (s', res)"
  shows "Entries s' g = []" "plain_key g t p \<Longrightarrow> Lookup s' g t p = Inr NoOffset"
proof -
  have s': "inv s'" "\<And>t' p'. plain_key g t' p' \<Longrightarrow> committed s' g t' p' = None"
    using delete_law [OF assms(1,2)] assms(3) by auto
  have "e \<notin> set (Entries s' g)" for e using list_law [OF s'(1), of e g] s'(2) by auto
  then show "Entries s' g = []" by (meson last_in_set)
  show "plain_key g t p \<Longrightarrow> Lookup s' g t p = Inr NoOffset" using lookup_law [OF s'(1)] s'(2) by simp
qed

end

section \<open>The entry map\<close>

definition entries_inv :: "entries \<Rightarrow> bool" where
  "entries_inv m \<longleftrightarrow> distinct (map fst m) \<and> (\<forall>k \<in> fst ` set m. \<exists>g t p. plain_key g t p \<and> k = joinKey g t p)"

definition entries_committed :: "entries \<Rightarrow> string \<Rightarrow> string \<Rightarrow> int \<Rightarrow> int option" where
  "entries_committed m g t p = map_of m (joinKey g t p)"

lemma entries_inv_update: "entries_inv m \<Longrightarrow> plain_key g t p \<Longrightarrow> entries_inv (AList.update (joinKey g t p) off m)"
  unfolding entries_inv_def by (auto simp: distinct_update dom_update)

lemma entries_committed_update:
  "plain_key g t p \<Longrightarrow> plain_key g' t' p' \<Longrightarrow> entries_committed (AList.update (joinKey g t p) off m) g' t' p'
    = (if g' = g \<and> t' = t \<and> p' = p then Some off else entries_committed m g' t' p')"
  by (auto simp: entries_committed_def update_conv' joinKey_inject)

lemma entries_lookup_eq: "entries_lookup m g t p = (case entries_committed m g t p of None \<Rightarrow> NoOffset | Some off \<Rightarrow> off)"
  by (simp add: entries_lookup_def entries_committed_def split: option.splits)

lemma map_of_filter_key: "map_of (filter (\<lambda>(k, _). P k) m) k = (if P k then map_of m k else None)"
  by (induction m) auto

lemma delete_entries:
  assumes "entries_inv m"
  shows "entries_inv (deleteGroupEntries m g)"
    "plain_key g' t p \<Longrightarrow> entries_committed (deleteGroupEntries m g) g' t p = (if g' = g then None else entries_committed m g' t p)"
proof -
  show "entries_inv (deleteGroupEntries m g)"
    using assms unfolding entries_inv_def deleteGroupEntries_def by (auto simp: distinct_map filter_set inj_on_def)
  show "plain_key g' t p \<Longrightarrow> entries_committed (deleteGroupEntries m g) g' t p = (if g' = g then None else entries_committed m g' t p)"
    using map_of_filter_key [of "\<lambda>k. fst (splitKey k) \<noteq> g" m]
    by (simp add: entries_committed_def deleteGroupEntries_def splitKey_joinKey)
qed

lemma list_entries:
  assumes "entries_inv m"
  shows "e \<in> set (listEntries m g) \<longleftrightarrow>
    plain_key g (oe_Topic e) (oe_Partition e) \<and> entries_committed m g (oe_Topic e) (oe_Partition e) = Some (oe_Offset e)"
proof
  assume "e \<in> set (listEntries m g)"
  then obtain k off where k: "(k, off) \<in> set m" "fst (splitKey k) = g"
    "e = (case splitKey k of (_, topic, part) \<Rightarrow> \<lparr>oe_Topic = topic, oe_Partition = part, oe_Offset = off\<rparr>)"
    by (auto simp: listEntries_def)
  obtain g' t p where p: "plain_key g' t p" "k = joinKey g' t p" using assms k(1) unfolding entries_inv_def by force
  then have "map_of m (joinKey g' t p) = Some off" using k(1) assms by (simp add: entries_inv_def)
  with p k show "plain_key g (oe_Topic e) (oe_Partition e) \<and> entries_committed m g (oe_Topic e) (oe_Partition e) = Some (oe_Offset e)"
    by (simp add: splitKey_joinKey entries_committed_def)
next
  assume e: "plain_key g (oe_Topic e) (oe_Partition e) \<and> entries_committed m g (oe_Topic e) (oe_Partition e) = Some (oe_Offset e)"
  then have "(joinKey g (oe_Topic e) (oe_Partition e), oe_Offset e) \<in> set m"
    by (simp add: entries_committed_def map_of_SomeD)
  with e show "e \<in> set (listEntries m g)" by (force simp: listEntries_def splitKey_joinKey)
qed

lemmas entries_laws = entries_inv_update entries_committed_update entries_lookup_eq delete_entries list_entries

interpretation mos: offset_store mos_Commit mos_Lookup mos_List mos_DeleteGroup entries_inv
  "\<lambda>_ _ _ _ _. True" "\<lambda>_ _. True" entries_committed
  by unfold_locales (auto simp: mos_Commit_def mos_Lookup_def mos_List_def mos_DeleteGroup_def entries_laws)

section \<open>The JSON file\<close>

definition js_inv :: "JSONOffsetStore \<Rightarrow> bool" where
  "js_inv s \<longleftrightarrow> entries_inv (js_entries s) \<and> map_of (js_load (js_file s)) = map_of (js_entries s)"

lemma js_load_snapshot:
  assumes "entries_inv m" shows "map_of (js_load (Some (js_snapshotLocked m))) = map_of m"
proof -
  let ?F = "\<lambda>m e. AList.update (joinKey (ok_Group e) (ok_Topic e) (ok_Partition e)) (ok_Offset e) m"
  have "map_of (foldl ?F acc (js_snapshotLocked m)) = map_of acc ++ map_of m"
    if "\<forall>k \<in> fst ` set m. \<exists>g t p. plain_key g t p \<and> k = joinKey g t p" "distinct (map fst m)" for acc m
    using that
  proof (induction m arbitrary: acc)
    case (Cons x m)
    obtain k v where x: "x = (k, v)" by fastforce
    then obtain g t p where k: "plain_key g t p" "k = joinKey g t p" using Cons.prems(1) by auto
    have "map_of (foldl ?F acc (js_snapshotLocked (x # m))) = map_of (AList.update k v acc) ++ map_of m"
      using Cons.IH [of "AList.update k v acc"] Cons.prems k x by (simp add: js_snapshotLocked_def splitKey_joinKey fun_upd_def)
    also have "\<dots> = map_of acc ++ map_of (x # m)"
    proof -
      have "map_of m k = None" using Cons.prems(2) x by (auto simp: map_of_eq_None_iff)
      then show ?thesis by (auto simp: fun_eq_iff update_conv' map_add_def x split: option.splits)
    qed
    finally show ?case .
  qed (simp add: js_snapshotLocked_def)
  from this [of m "[]"] assms show ?thesis by (simp add: js_load_def entries_inv_def)
qed

interpretation js: offset_store js_Commit js_Lookup js_List js_DeleteGroup js_inv
  "\<lambda>_ _ _ _ _. True" "\<lambda>_ _. True" "\<lambda>s. entries_committed (js_entries s)"
  by unfold_locales (auto simp: js_Commit_def js_Lookup_def js_List_def js_DeleteGroup_def js_inv_def js_persist_def
      js_load_snapshot entries_laws Let_def)

section \<open>The internal topic\<close>

text \<open>The table a replay of records builds: the last record of each key decides.\<close>

lemma string_of_bytes_eq: "string_of_bytes b = k \<longleftrightarrow> b = bytes_of_string k"
  by (metis string_of_bytes_of_string bytes_of_string_of_bytes)

lemma distinct_replay: "distinct (map fst m) \<Longrightarrow> distinct (map fst (foldl replay_record m rs))"
  by (induction rs arbitrary: m) (simp_all add: replay_record_def distinct_update distinct_delete split: option.split)

lemma replay_table:
  "map_of (foldl replay_record m rs) k =
     (case last_with (bytes_of_string k) rs of None \<Rightarrow> map_of m k | Some r \<Rightarrow> map_option decodeOffsetValue (r_Value r))"
  by (induction rs rule: rev_induct)
    (auto simp: replay_record_def update_conv' delete_conv' string_of_bytes_eq [symmetric] split: option.splits)

lemma replay_compacted:
  assumes "compacted rs rs'" "k \<noteq> []"
  shows "map_of (foldl replay_record [] rs') k = map_of (foldl replay_record [] rs) k"
proof -
  obtain n where n: "rs' = keep_latest (take n rs) @ drop n rs" using assms(1) by (auto simp: compacted_def)
  have "bytes_of_string k \<noteq> []" using assms(2) by simp
  note keep = last_with_keep [OF this, of "take n rs"]
  have "map_of (foldl replay_record [] (keep_latest (take n rs) @ drop n rs)) k
      = map_of (foldl replay_record [] (take n rs @ drop n rs)) k"
    unfolding replay_table last_with_append keep by (auto split: option.splits)
  then show ?thesis by (simp add: n)
qed

definition table_of :: "Record list \<Rightarrow> entries" where
  "table_of rs = foldl replay_record [] rs"

definition tos_inv :: "('st \<Rightarrow> bool) \<Rightarrow> ('st \<Rightarrow> PartitionRef \<Rightarrow> Record list) \<Rightarrow> (PartitionRef \<Rightarrow> bool)
    \<Rightarrow> 'st \<times> TopicOffsetStore \<Rightarrow> bool" where
  "tos_inv good log_of addressable s \<longleftrightarrow> good (fst s) \<and> addressable (to_pref (snd s)) \<and> p_Index (to_pref (snd s)) = 0
     \<and> p_Topic (to_pref (snd s)) \<noteq> [] \<and> entries_inv (to_entries (snd s))
     \<and> map_of (to_entries (snd s)) = map_of (table_of (log_of (fst s) (to_pref (snd s))))"

primrec tombstones_fit :: "'st store_ops \<Rightarrow> ('st \<Rightarrow> PartitionRef \<Rightarrow> Record \<Rightarrow> bool) \<Rightarrow> int \<Rightarrow> PartitionRef
    \<Rightarrow> string list \<Rightarrow> 'st \<Rightarrow> bool" where
  "tombstones_fit ops fits now pr [] st = True"
| "tombstones_fit ops fits now pr (k # ks) st \<longleftrightarrow> fits st pr (offset_record k None)
     \<and> tombstones_fit ops fits now pr ks (fst (so_Append ops None now st pr (offset_record k None)))"

definition group_keys :: "entries \<Rightarrow> string \<Rightarrow> string list" where
  "group_keys m g = map fst (filter (\<lambda>(k, _). fst (splitKey k) = g) m)"

lemma foldl_delete: "map_of (foldl (\<lambda>m k. AList.delete k m) m ks) k = (if k \<in> set ks then None else map_of m k)"
  by (induction ks arbitrary: m) (simp_all add: delete_conv')

lemma foldl_delete_inv: "entries_inv m \<Longrightarrow> entries_inv (foldl (\<lambda>m k. AList.delete k m) m ks)"
proof (induction ks arbitrary: m)
  case (Cons k ks)
  have "set (AList.delete k m) \<subseteq> set m" by (auto simp: AList.delete_eq)
  then have "entries_inv (AList.delete k m)" using Cons.prems unfolding entries_inv_def by (auto simp: distinct_delete)
  then show ?case using Cons.IH by simp
qed simp

lemma decode_encode: "int64_ok off \<Longrightarrow> decodeOffsetValue (encodeOffsetValue off) = off" "length (encodeOffsetValue off) = 8"
  by (simp_all add: decodeOffsetValue_def encodeOffsetValue_def codec_simps)

lemma table_of_snoc: "map_of (table_of (rs @ [r])) =
    (map_of (table_of rs))(string_of_bytes (gb (r_Key r)) := map_option decodeOffsetValue (r_Value r))"
  by (auto simp: table_of_def replay_record_def update_conv' delete_conv' fun_eq_iff split: option.split)

lemma joinKey_nonempty [simp]: "joinKey g t p \<noteq> []"
  by (simp add: joinKey_def)

context store
begin

lemma replay_run:
  assumes "inv st" "addressable pr" "0 \<le> cursor"
  shows "\<exists>st'. replay_loop ops pr cursor st m
      = Some (st', foldl replay_record m (filter (\<lambda>r. cursor \<le> r_Offset r) (log_of st pr)), Inr ())
    \<and> inv st' \<and> log_of st' = log_of st \<and> hw_of st' = hw_of st"
  using assms
proof (induction "length (filter (\<lambda>r. cursor \<le> r_Offset r) (log_of st pr))" arbitrary: cursor st m rule: less_induct)
  case less
  let ?L = "filter (\<lambda>r. cursor \<le> r_Offset r) (log_of st pr)"
  show ?case
  proof (cases rule: read_batch [OF less.prems])
    case (1 st1)
    then show ?thesis by (subst replay_loop.simps) simp
  next
    case (2 st1 batch)
    let ?c = "r_Offset (last batch) + 1"
    have shorter: "length (filter (\<lambda>r. ?c \<le> r_Offset r) (log_of st1 pr)) < length ?L"
      using arg_cong [OF 2(4), of length] 2(2,6) by (simp flip: length_greater_0_conv)
    from less.hyps [OF shorter 2(5) less.prems(2) 2(3), of "foldl replay_record m batch"] obtain st2 where
      st2: "replay_loop ops pr ?c st1 (foldl replay_record m batch)
        = Some (st2, foldl replay_record (foldl replay_record m batch) (filter (\<lambda>r. ?c \<le> r_Offset r) (log_of st1 pr)), Inr ())"
      "inv st2" "log_of st2 = log_of st1" "hw_of st2 = hw_of st1" by auto
    have "foldl replay_record (foldl replay_record m batch) (filter (\<lambda>r. ?c \<le> r_Offset r) (log_of st1 pr)) = foldl replay_record m ?L"
      using arg_cong [OF 2(4), of "foldl replay_record m"] 2(6) by simp
    with st2 2 show ?thesis by (subst replay_loop.simps) simp
  qed
qed

lemma open_topic_run:
  assumes "inv st" "addressable \<lparr>p_Topic = t, p_Index = 0\<rparr>" "t \<noteq> []"
  shows "\<exists>st'. OpenTopicOffsetStore ops st t
      = Some (st', Inr \<lparr>to_pref = \<lparr>p_Topic = t, p_Index = 0\<rparr>, to_entries = table_of (log_of st \<lparr>p_Topic = t, p_Index = 0\<rparr>)\<rparr>)
    \<and> inv st' \<and> log_of st' = log_of st \<and> hw_of st' = hw_of st"
proof -
  let ?p = "\<lparr>p_Topic = t, p_Index = 0\<rparr>"
  have "filter (\<lambda>r. 0 \<le> r_Offset r) (log_of st ?p) = log_of st ?p"
    using log_bounds [OF assms(1)] by (auto intro: filter_True)
  with replay_run [OF assms(1,2), of 0 "[]"] assms(3) show ?thesis
    by (auto simp: OpenTopicOffsetStore_def table_of_def Let_def)
qed

lemma tombstones_run:
  assumes "inv st" "addressable pr" "int64_ok now" "tombstones_fit ops fits now pr ks st"
  shows "\<exists>st'. to_tombstones ops now pr ks st = (st', Inr ()) \<and> inv st'
    \<and> map_of (table_of (log_of st' pr)) = (\<lambda>k. if k \<in> set ks then None else map_of (table_of (log_of st pr)) k)"
  using assms(1,4)
proof (induction ks arbitrary: st)
  case (Cons k ks)
  let ?r = "offset_record k None"
  from append_law [OF Cons.prems(1) assms(2) _ assms(3), of ?r] Cons.prems(2) obtain st1 where
    a: "so_Append ops None now st pr ?r = (st1, Inr (hw_of st pr))" "inv st1"
      "log_of st1 pr = log_of st pr @ [nrm (stamp now (hw_of st pr) ?r)]" by auto
  from Cons.IH [OF a(2)] a(1) Cons.prems(2) obtain st2 where
    b: "to_tombstones ops now pr ks st1 = (st2, Inr ())" "inv st2"
      "map_of (table_of (log_of st2 pr)) = (\<lambda>k. if k \<in> set ks then None else map_of (table_of (log_of st1 pr)) k)" by auto
  show ?case using a b by (auto simp: table_of_snoc nrm_keeps offset_record_def fun_eq_iff)
qed simp

lemma commit_run:
  assumes "tos_inv inv log_of addressable s" "plain_key g t p" "int64_ok now" "int64_ok off"
    and "fits (fst s) (to_pref (snd s)) (offset_record (joinKey g t p) (Some (encodeOffsetValue off)))"
  shows "\<exists>s'. to_Commit ops now s g t p off = (s', Inr ()) \<and> tos_inv inv log_of addressable s'
    \<and> to_entries (snd s') = AList.update (joinKey g t p) off (to_entries (snd s))"
proof -
  let ?r = "offset_record (joinKey g t p) (Some (encodeOffsetValue off))" and ?pr = "to_pref (snd s)"
  have i: "inv (fst s)" "addressable ?pr" using assms(1) by (simp_all add: tos_inv_def)
  from append_law [OF i assms(5,3)] obtain st1 where
    a: "so_Append ops None now (fst s) ?pr ?r = (st1, Inr (hw_of (fst s) ?pr))" "inv st1"
      "log_of st1 ?pr = log_of (fst s) ?pr @ [nrm (stamp now (hw_of (fst s) ?pr) ?r)]" by auto
  let ?n = "nrm (stamp now (hw_of (fst s) ?pr) ?r)"
  have "gb (r_Value ?n) = encodeOffsetValue off" "gb (r_Key ?n) = bytes_of_string (joinKey g t p)"
    by (simp_all add: nrm_keeps offset_record_def)
  moreover have "encodeOffsetValue off \<noteq> []" using decode_encode(2) [of off] by auto
  ultimately have n: "r_Value ?n = Some (encodeOffsetValue off)" "string_of_bytes (gb (r_Key ?n)) = joinKey g t p"
    by (cases "r_Value ?n"; simp)+
  then have "map_of (table_of (log_of st1 ?pr)) = (map_of (to_entries (snd s)))(joinKey g t p := Some off)"
    using assms(1) by (simp add: a(3) table_of_snoc decode_encode(1) [OF assms(4)] tos_inv_def)
  with a assms(1,2) show ?thesis
    by (auto simp: to_Commit_def tos_inv_def entries_inv_update update_conv')
qed

lemma delete_run:
  assumes "tos_inv inv log_of addressable s" "int64_ok now"
    and "tombstones_fit ops fits now (to_pref (snd s)) (group_keys (to_entries (snd s)) g) (fst s)"
  shows "\<exists>s'. to_DeleteGroup ops now s g = (s', Inr ()) \<and> tos_inv inv log_of addressable s'
    \<and> map_of (to_entries (snd s')) = (\<lambda>k. if k \<in> set (group_keys (to_entries (snd s)) g) then None else map_of (to_entries (snd s)) k)"
proof -
  have i: "inv (fst s)" "addressable (to_pref (snd s))" using assms(1) by (simp_all add: tos_inv_def)
  from tombstones_run [OF i assms(2,3)] assms(1) show ?thesis
    by (auto simp: to_DeleteGroup_def group_keys_def [symmetric] tos_inv_def foldl_delete foldl_delete_inv fun_eq_iff)
qed

lemma topic_offset_store:
  assumes "int64_ok now"
  shows "offset_store (to_Commit ops now) to_Lookup to_List (to_DeleteGroup ops now) (tos_inv inv log_of addressable)
    (\<lambda>s g t p off. int64_ok off \<and> fits (fst s) (to_pref (snd s)) (offset_record (joinKey g t p) (Some (encodeOffsetValue off))))
    (\<lambda>s g. tombstones_fit ops fits now (to_pref (snd s)) (group_keys (to_entries (snd s)) g) (fst s))
    (\<lambda>s. entries_committed (to_entries (snd s)))"
proof (unfold_locales, goal_cases)
  case (1 s g t p off)
  then show ?case using commit_run [OF 1(1,2) assms, of off] by (auto simp: entries_committed_update)
next
  case (2 s g t p)
  then show ?case by (simp add: to_Lookup_def entries_lookup_eq)
next
  case (3 s e g)
  then show ?case by (simp add: to_List_def list_entries tos_inv_def)
next
  case (4 s g)
  have "joinKey g' t p \<in> set (group_keys (to_entries (snd s)) g) \<longleftrightarrow> g' = g \<and> joinKey g' t p \<in> fst ` set (to_entries (snd s))"
    if "plain_key g' t p" for g' t p
    using that by (force simp: group_keys_def splitKey_joinKey)
  then have "(if joinKey g' t p \<in> set (group_keys (to_entries (snd s)) g) then None else map_of (to_entries (snd s)) (joinKey g' t p))
      = (if g' = g then None else map_of (to_entries (snd s)) (joinKey g' t p))" if "plain_key g' t p" for g' t p
    using that by (auto simp: map_of_eq_None_iff)
  then show ?case using delete_run [OF 4(1) assms 4(2)] by (auto simp: entries_committed_def)
qed

end

section \<open>Sequences of commits and deletions\<close>

datatype offset_op = OCommit string string int int | ODelete string

fun mos_run :: "offset_op list \<Rightarrow> entries \<Rightarrow> entries" where
  "mos_run [] m = m"
| "mos_run (OCommit g t p off # xs) m = mos_run xs (fst (mos_Commit m g t p off))"
| "mos_run (ODelete g # xs) m = mos_run xs (fst (mos_DeleteGroup m g))"

fun to_run :: "'st store_ops \<Rightarrow> int \<Rightarrow> offset_op list \<Rightarrow> 'st \<times> TopicOffsetStore \<Rightarrow> 'st \<times> TopicOffsetStore" where
  "to_run ops now [] s = s"
| "to_run ops now (OCommit g t p off # xs) s = to_run ops now xs (fst (to_Commit ops now s g t p off))"
| "to_run ops now (ODelete g # xs) s = to_run ops now xs (fst (to_DeleteGroup ops now s g))"

fun offset_ops_ok :: "'st store_ops \<Rightarrow> ('st \<Rightarrow> PartitionRef \<Rightarrow> Record \<Rightarrow> bool) \<Rightarrow> int \<Rightarrow> offset_op list
    \<Rightarrow> 'st \<times> TopicOffsetStore \<Rightarrow> bool" where
  "offset_ops_ok ops fits now [] s = True"
| "offset_ops_ok ops fits now (OCommit g t p off # xs) s \<longleftrightarrow> plain_key g t p \<and> int64_ok off
     \<and> fits (fst s) (to_pref (snd s)) (offset_record (joinKey g t p) (Some (encodeOffsetValue off)))
     \<and> offset_ops_ok ops fits now xs (fst (to_Commit ops now s g t p off))"
| "offset_ops_ok ops fits now (ODelete g # xs) s \<longleftrightarrow>
     tombstones_fit ops fits now (to_pref (snd s)) (group_keys (to_entries (snd s)) g) (fst s)
     \<and> offset_ops_ok ops fits now xs (fst (to_DeleteGroup ops now s g))"

lemma to_Commit_pref: "to_pref (snd (fst (to_Commit ops now s g t p off))) = to_pref (snd s)"
  by (auto simp: to_Commit_def Let_def split: prod.splits sum.splits)

lemma to_DeleteGroup_pref: "to_pref (snd (fst (to_DeleteGroup ops now s g))) = to_pref (snd s)"
  by (auto simp: to_DeleteGroup_def Let_def split: prod.splits sum.splits)

lemma to_run_pref: "to_pref (snd (to_run ops now xs s)) = to_pref (snd s)"
  by (induction ops now xs s rule: to_run.induct) (simp_all add: to_Commit_pref to_DeleteGroup_pref)

context store
begin

lemma to_run_matches:
  assumes "tos_inv inv log_of addressable s" "entries_inv m" "int64_ok now" "offset_ops_ok ops fits now xs s"
    and "\<And>g t p. plain_key g t p \<Longrightarrow> entries_committed (to_entries (snd s)) g t p = entries_committed m g t p"
  shows "tos_inv inv log_of addressable (to_run ops now xs s)
    \<and> (\<forall>g t p. plain_key g t p \<longrightarrow>
         entries_committed (to_entries (snd (to_run ops now xs s))) g t p = entries_committed (mos_run xs m) g t p)"
  using assms(1,2,4,5)
proof (induction xs arbitrary: s m)
  case (Cons x xs)
  note laws = offset_store.commit_law [OF topic_offset_store [OF assms(3)]] offset_store.delete_law [OF topic_offset_store [OF assms(3)]]
  show ?case
  proof (cases x)
    case (OCommit g t p off)
    obtain s' where "to_Commit ops now s g t p off = (s', Inr ())" "tos_inv inv log_of addressable s'"
      "\<forall>g' t' p'. plain_key g' t' p' \<longrightarrow> entries_committed (to_entries (snd s')) g' t' p'
        = (if g' = g \<and> t' = t \<and> p' = p then Some off else entries_committed (to_entries (snd s)) g' t' p')"
      using laws(1) [OF Cons.prems(1), of g t p off] Cons.prems(3) OCommit by auto
    with Cons.IH [of s' "fst (mos_Commit m g t p off)"] Cons.prems OCommit show ?thesis
      by (simp add: mos_Commit_def entries_inv_update entries_committed_update)
  next
    case (ODelete g)
    obtain s' where "to_DeleteGroup ops now s g = (s', Inr ())" "tos_inv inv log_of addressable s'"
      "\<forall>g' t' p'. plain_key g' t' p' \<longrightarrow> entries_committed (to_entries (snd s')) g' t' p'
        = (if g' = g then None else entries_committed (to_entries (snd s)) g' t' p')"
      using laws(2) [OF Cons.prems(1), of g] Cons.prems(3) ODelete by auto
    with Cons.IH [of s' "fst (mos_DeleteGroup m g)"] Cons.prems ODelete show ?thesis
      by (simp add: mos_DeleteGroup_def delete_entries)
  qed
qed simp

lemma open_topic_new:
  assumes "inv st" "addressable \<lparr>p_Topic = t, p_Index = 0\<rparr>" "t \<noteq> []" "log_of st = (\<lambda>_. [])"
    and "OpenTopicOffsetStore ops st t = Some (st', Inr s)"
  shows "tos_inv inv log_of addressable (st', s)" "to_entries s = []" "to_pref s = \<lparr>p_Topic = t, p_Index = 0\<rparr>"
  using open_topic_run [OF assms(1-3)] assms(2-5) by (auto simp: tos_inv_def table_of_def entries_inv_def)

end

section \<open>Properties\<close>

text \<open>
  C13: Committed offsets on an internal topic of the disk store are durable. Whatever commits and group
  deletions are made, after a compaction of the store the offset store can be reopened (the replay
  loop ends), and every lookup then answers as the plain in-memory offset store does after the same
  operations.
\<close>

theorem topic_offsets_durable:
  assumes "OpenTopicOffsetStore file_ops (NewFileStore root segmentBytes) topic = Some (s0, Inr t0)"
    and "good_name topic" "int64_ok now" "offset_ops_ok file_ops file_fits now xs (s0, t0)"
    and "to_run file_ops now xs (s0, t0) = (s1, t1)" "\<forall>x \<in> set (snapshotLogs s1). compact_fits (snd x)"
  shows "\<exists>s2 s3 t3. file_Compact s1 = (s2, Inr ()) \<and> OpenTopicOffsetStore file_ops s2 topic = Some (s3, Inr t3)
    \<and> (\<forall>g t p. plain_key g t p \<longrightarrow> to_Lookup (s3, t3) g t p = mos_Lookup (mos_run xs []) g t p)"
proof -
  let ?p = "\<lparr>p_Topic = topic, p_Index = 0\<rparr>"
  have t: "topic \<noteq> []" "file_addressable ?p" using assms(2) by (simp_all add: good_name_def file_addressable_def int64_ok_def)
  note new = fil.open_topic_new [OF new_file_store(1) t(2,1) new_file_store(2) assms(1)]
  have "entries_inv []" by (simp add: entries_inv_def)
  from fil.to_run_matches [OF new(1) this assms(3,4)] new(2) assms(5)
  have s1: "tos_inv file_inv file_log file_addressable (s1, t1)"
    "\<And>g t p. plain_key g t p \<Longrightarrow> entries_committed (to_entries t1) g t p = entries_committed (mos_run xs []) g t p" by auto
  have pr: "to_pref t1 = ?p" using to_run_pref [of file_ops now xs "(s0, t0)"] new(3) assms(5) by simp
  have inv1: "file_inv s1" using s1(1) by (simp add: tos_inv_def)
  from file_Compact_run [OF inv1 assms(6)] obtain s2 where s2: "file_Compact s1 = (s2, Inr ())" "file_inv s2"
    "\<forall>p. compacted (file_log s1 p) (file_log s2 p)" by auto
  from fil.open_topic_run [OF s2(2) t(2,1)] obtain s3 where
    s3: "OpenTopicOffsetStore file_ops s2 topic = Some (s3, Inr \<lparr>to_pref = ?p, to_entries = table_of (file_log s2 ?p)\<rparr>)" by auto
  have "entries_committed (table_of (file_log s2 ?p)) g t p = entries_committed (mos_run xs []) g t p" if "plain_key g t p" for g t p
    using replay_compacted [OF s2(3) [rule_format, of ?p], of "joinKey g t p"] s1(1) s1(2) [OF that] pr
    by (simp add: entries_committed_def table_of_def tos_inv_def)
  with s2(1) s3 show ?thesis by (auto simp: to_Lookup_def mos_Lookup_def entries_lookup_eq)
qed

lemma topic_offsets_durable_witness:
  "\<exists>s0 t0 s1 t1 s2 s3 t3. OpenTopicOffsetStore file_ops (NewFileStore [''data''] 1000) ''offsets'' = Some (s0, Inr t0)
    \<and> to_Commit file_ops 5 (s0, t0) ''g'' ''t'' 0 7 = ((s1, t1), Inr ()) \<and> file_Compact s1 = (s2, Inr ())
    \<and> OpenTopicOffsetStore file_ops s2 ''offsets'' = Some (s3, Inr t3) \<and> to_Lookup (s3, t3) ''g'' ''t'' 0 = Inr 7"
proof -
  let ?p = "\<lparr>p_Topic = ''offsets'', p_Index = 0\<rparr>" and ?n = "NewFileStore [''data''] 1000"
  let ?r = "offset_record (joinKey ''g'' ''t'' 0) (Some (encodeOffsetValue 7))"
  obtain d l a where o: "OpenPartition [] 1000 = Inr (d, l)" "pl_segments l = [a]" "sg_baseOffset a = 0" "sg_size a = 0"
    "sg_highWater a = 0" "sg_maxBytes a = 1000" "part_Read d l 0 256 = (d, l, Inr [])"
    using Open_fresh [of 1000] by auto
  define s0 where "s0 = fs_put (fs_put ?n ?p d l) ?p d l"
  define t0 where "t0 = \<lparr>to_pref = ?p, to_entries = []\<rparr>"
  have opn: "OpenTopicOffsetStore file_ops ?n ''offsets'' = Some (s0, Inr t0)"
  proof -
    have "file_Read None ?n ?p 0 256 = (s0, Inr [])"
      by (simp add: file_Read_def openLog_def NewFileStore_def fs_lookup_def fs_dir_def o fs_put_def s0_def update_conv')
    then have "replay_loop file_ops ?p 0 ?n [] = Some (s0, [], Inr ())" by (subst replay_loop.simps) (simp add: file_ops_def)
    then show ?thesis by (simp add: OpenTopicOffsetStore_def t0_def)
  qed
  have p: "file_addressable ?p" "plain_key ''g'' ''t'' 0"
    by (simp_all add: file_addressable_def good_name_def int64_ok_def plain_key_def NUL_def int32_ok_def)
  have good: "good_name ''offsets''" "int64_ok 5" by (simp_all add: good_name_def int64_ok_def)
  have key: "length (joinKey ''g'' ''t'' 0) = 5" by code_simp
  have sz: "length (encodeRecord [] (stamp w 0 ?r)) = 41" for w
    by (simp add: length_encodeRecord offset_record_def decode_encode key)
  have fr: "frame_fits (stamp w 0 ?r)" if "int64_ok w" for w
    using sz that by (simp add: frame_fits_def wf_record_def buf32_def int64_ok_def offset_record_def decode_encode key)
  have look: "fs_lookup s0 ?p = Some l" "snapshotLogs s0 = [(?p, l)]"
    by (simp_all add: s0_def fs_put_def fs_lookup_def NewFileStore_def snapshotLogs_def)
  then have hw: "file_hw s0 ?p = 0" using o by (simp add: file_hw_lookup part_HighWater_def)
  have fits: "file_fits s0 ?p ?r"
    using fr [of 1] sz [of 1] by (simp add: file_fits_def look hw append_fits_def o part_HighWater_def int64_ok_def length_frame)
  obtain d' l' where ap: "part_Append d l (stamp 5 0 ?r) = Inr (d', l', 0)"
  proof -
    have "log_inv (d, l) [[]]" using Open_new [of 1000] o(1) by simp
    moreover have "append_fits l (stamp 5 0 ?r)"
      using fr [of 5] sz [of 5] by (simp add: append_fits_def o part_HighWater_def int64_ok_def length_frame)
    ultimately show ?thesis using Append_repr [of d l "[[]]" "stamp 5 0 ?r"] that by (auto simp: log_inv_def)
  qed
  define s1 where "s1 = fs_put s0 ?p d' l'"
  define t1 where "t1 = t0\<lparr>to_entries := [(joinKey ''g'' ''t'' 0, 7)]\<rparr>"
  have c: "to_Commit file_ops 5 (s0, t0) ''g'' ''t'' 0 7 = ((s1, t1), Inr ())"
  proof -
    have "fs_dir s0 ?p = d" by (simp add: s0_def fs_put_sel)
    then have "file_Append None 5 s0 ?p ?r = (s1, Inr 0)"
      using ap by (simp add: file_Append_def openLog_def look o part_HighWater_def s1_def offset_record_def stamp_def)
    then show ?thesis by (simp add: to_Commit_def file_ops_def t0_def t1_def)
  qed
  have cf: "\<forall>x \<in> set (snapshotLogs s1). compact_fits (snd x)"
    using Append_single [OF ap o(2)] sz [of 5] look(2)
    by (auto simp: s1_def fs_put_def snapshotLogs_def compact_fits_def o length_frame part_HighWater_def split: option.splits)
  have "to_run file_ops 5 [OCommit ''g'' ''t'' 0 7] (s0, t0) = (s1, t1)" using c by simp
  moreover have "offset_ops_ok file_ops file_fits 5 [OCommit ''g'' ''t'' 0 7] (s0, t0)"
    using p(2) fits by (simp add: t0_def int64_ok_def)
  moreover have "mos_Lookup (mos_run [OCommit ''g'' ''t'' 0 7] []) ''g'' ''t'' 0 = Inr 7"
    by (simp add: mos_Commit_def mos_Lookup_def entries_lookup_def)
  ultimately show ?thesis
    using topic_offsets_durable [OF opn _ _ _ _ cf, of 5 "[OCommit ''g'' ''t'' 0 7]" t1] opn c p(2)
    by (metis (no_types, lifting) good)
qed

section \<open>Reopening the JSON file\<close>

fun js_run :: "offset_op list \<Rightarrow> JSONOffsetStore \<Rightarrow> JSONOffsetStore" where
  "js_run [] s = s"
| "js_run (OCommit g t p off # xs) s = js_run xs (fst (js_Commit s g t p off))"
| "js_run (ODelete g # xs) s = js_run xs (fst (js_DeleteGroup s g))"

fun plain_op :: "offset_op \<Rightarrow> bool" where
  "plain_op (OCommit g t p off) = plain_key g t p"
| "plain_op (ODelete g) = True"

lemma js_run_entries: "js_entries (js_run xs s) = mos_run xs (js_entries s)"
  by (induction xs s rule: js_run.induct)
    (simp_all add: js_Commit_def js_DeleteGroup_def mos_Commit_def mos_DeleteGroup_def js_persist_def Let_def)

lemma js_run_inv: "js_inv s \<Longrightarrow> list_all plain_op xs \<Longrightarrow> js_inv (js_run xs s)"
proof (induction xs s rule: js_run.induct)
  case (2 g t p off xs s)
  from js.commit_law [of s g t p off] 2(2,3) have "js_inv (fst (js_Commit s g t p off))" by auto
  with 2 show ?case by simp
next
  case (3 g xs s)
  from js.delete_law [of s g] 3(2) have "js_inv (fst (js_DeleteGroup s g))" by auto
  with 3 show ?case by simp
qed simp

text \<open>
  The offset file is a faithful image of the store. After any commits and group deletions on a
  store opened without a file, a store opened on the file that was written answers every lookup as
  the live store and as the in-memory store do.
\<close>

theorem json_offsets_reopen:
  assumes "list_all plain_op xs" "s = js_run xs (OpenJSONOffsetStore None)"
  shows "js_Lookup (OpenJSONOffsetStore (js_file s)) g t p = js_Lookup s g t p
    \<and> js_Lookup s g t p = mos_Lookup (mos_run xs []) g t p"
proof -
  have "js_inv (OpenJSONOffsetStore None)" by (simp add: js_inv_def OpenJSONOffsetStore_def js_load_def entries_inv_def)
  from js_run_inv [OF this assms(1)] have "map_of (js_load (js_file s)) = map_of (js_entries s)"
    by (simp add: assms(2) js_inv_def)
  then show ?thesis
    by (simp add: js_Lookup_def mos_Lookup_def entries_lookup_def OpenJSONOffsetStore_def assms(2) js_run_entries js_load_def)
qed

lemma json_offsets_reopen_witness:
  "js_Lookup (OpenJSONOffsetStore (js_file (js_run [OCommit ''g'' ''t'' 0 5, OCommit ''h'' ''t'' 0 6, ODelete ''g''] (OpenJSONOffsetStore None))))
     ''h'' ''t'' 0 = Inr 6"
proof -
  have p: "plain_key ''g'' ''t'' 0" "plain_key ''h'' ''t'' 0" by (simp_all add: plain_key_def NUL_def int32_ok_def)
  then have ne: "joinKey ''g'' ''t'' 0 \<noteq> joinKey ''h'' ''t'' 0" by (simp add: joinKey_inject)
  let ?xs = "[OCommit ''g'' ''t'' 0 5, OCommit ''h'' ''t'' 0 6, ODelete ''g'']"
  have "list_all plain_op ?xs" using p by simp
  from json_offsets_reopen [OF this refl, of "''h''" "''t''" 0] p ne show ?thesis
    by (simp add: mos_Lookup_def mos_Commit_def mos_DeleteGroup_def deleteGroupEntries_def splitKey_joinKey entries_lookup_def)
qed

end
