(* ===== verification/Topic_Registry.thy ===== *)
theory Topic_Registry
  imports Store_File Go_Maps
begin

text \<open>
  The topic registry, \<^verbatim>\<open>broker/internal/topic/topic.go\<close>: name validation, creation, configuration changes
  and deletion of topics, and the topics file the persist hook writes. The file is represented by the
  document it holds, none when it does not exist.
\<close>

section \<open>Registry\<close>

record Spec =
  sp_Name :: string
  sp_PartitionCount :: int
  sp_RetentionMs :: int
  sp_SegmentBytes :: int

definition ErrTopicExists :: go_error where
  "ErrTopicExists = ErrNew ''topic: already exists''"

definition ErrTopicNotFound :: go_error where
  "ErrTopicNotFound = ErrNew ''topic: not found''"

definition ErrInvalidName :: go_error where
  "ErrInvalidName = ErrNew ''topic: invalid name''"

definition ErrInvalidSpec :: go_error where
  "ErrInvalidSpec = ErrNew ''topic: invalid spec''"

text \<open>The regular expression \<^verbatim>\<open>^[a-zA-Z0-9._-]{1,249}$\<close>.\<close>

definition name_char :: "char \<Rightarrow> bool" where
  "name_char c \<longleftrightarrow> (let n = (of_char c :: nat) in
     97 \<le> n \<and> n \<le> 122 \<or> 65 \<le> n \<and> n \<le> 90 \<or> 48 \<le> n \<and> n \<le> 57 \<or> n \<in> {46, 95, 45})"

definition nameRe :: "string \<Rightarrow> bool" where
  "nameRe s \<longleftrightarrow> 1 \<le> length s \<and> length s \<le> 249 \<and> list_all name_char s"

type_synonym topics_file = "TopicConfig list option"

record Registry =
  rg_topics :: "(string \<times> TopicConfig) list"
  rg_persist :: "(TopicConfig list \<Rightarrow> topics_file \<Rightarrow> topics_file \<times> unit result) option"
  rg_file :: topics_file

definition NewRegistry :: "topics_file \<Rightarrow> Registry" where
  "NewRegistry doc = \<lparr>rg_topics = [], rg_persist = None, rg_file = doc\<rparr>"

definition SetPersistHook :: "Registry \<Rightarrow> (TopicConfig list \<Rightarrow> topics_file \<Rightarrow> topics_file \<times> unit result) \<Rightarrow> Registry" where
  "SetPersistHook r fn = r\<lparr>rg_persist := Some fn\<rparr>"

definition Hydrate :: "Registry \<Rightarrow> TopicConfig list \<Rightarrow> Registry" where
  "Hydrate r configs = r\<lparr>rg_topics := foldl (\<lambda>m cfg. AList.update (tc_Name cfg) cfg m) [] configs\<rparr>"

definition topics_snapshot :: "(string \<times> TopicConfig) list \<Rightarrow> TopicConfig list" where
  "topics_snapshot m = map snd m"

text \<open>The tail of every operation that changes the topic set.\<close>

definition run_persist :: "Registry \<Rightarrow> Registry \<times> unit result" where
  "run_persist r =
     (case rg_persist r of
        None \<Rightarrow> (r, Inr ())
      | Some fn \<Rightarrow> (let (doc, res) = fn (topics_snapshot (rg_topics r)) (rg_file r) in (r\<lparr>rg_file := doc\<rparr>, res)))"

definition reg_Create :: "Registry \<Rightarrow> Spec \<Rightarrow> Registry \<times> unit result" where
  "reg_Create r spec =
     (if \<not> nameRe (sp_Name spec) then (r, Inl (ErrWrap (sp_Name spec) ErrInvalidName))
      else if sp_PartitionCount spec \<le> 0 then (r, Inl (ErrWrap ''partition count must be > 0'' ErrInvalidSpec))
      else if map_of (rg_topics r) (sp_Name spec) \<noteq> None then (r, Inl (ErrWrap (sp_Name spec) ErrTopicExists))
      else run_persist (r\<lparr>rg_topics := AList.update (sp_Name spec)
             \<lparr>tc_Name = sp_Name spec, tc_PartitionCount = sp_PartitionCount spec, tc_RetentionMs = sp_RetentionMs spec,
              tc_SegmentBytes = sp_SegmentBytes spec\<rparr> (rg_topics r)\<rparr>))"

definition reg_UpdateConfig :: "Registry \<Rightarrow> string \<Rightarrow> int \<Rightarrow> int \<Rightarrow> Registry \<times> unit result" where
  "reg_UpdateConfig r name retentionMs segmentBytes =
     (case map_of (rg_topics r) name of
        None \<Rightarrow> (r, Inl (ErrWrap name ErrTopicNotFound))
      | Some cfg \<Rightarrow>
          (let cfg = (if 0 < retentionMs then cfg\<lparr>tc_RetentionMs := retentionMs\<rparr> else cfg);
               cfg = (if 0 < segmentBytes then cfg\<lparr>tc_SegmentBytes := segmentBytes\<rparr> else cfg)
           in run_persist (r\<lparr>rg_topics := AList.update name cfg (rg_topics r)\<rparr>)))"

definition reg_Delete :: "Registry \<Rightarrow> string \<Rightarrow> Registry \<times> unit result" where
  "reg_Delete r name =
     (if map_of (rg_topics r) name = None then (r, Inl (ErrWrap name ErrTopicNotFound))
      else run_persist (r\<lparr>rg_topics := AList.delete name (rg_topics r)\<rparr>))"

definition reg_Get :: "Registry \<Rightarrow> string \<Rightarrow> TopicConfig result" where
  "reg_Get r name =
     (case map_of (rg_topics r) name of
        None \<Rightarrow> Inl (ErrWrap name ErrTopicNotFound)
      | Some cfg \<Rightarrow> Inr cfg)"

definition PartitionsFor :: "Registry \<Rightarrow> string \<Rightarrow> int result" where
  "PartitionsFor r name = (case reg_Get r name of Inl err \<Rightarrow> Inl err | Inr cfg \<Rightarrow> Inr (tc_PartitionCount cfg))"

definition reg_List :: "Registry \<Rightarrow> TopicConfig list" where
  "reg_List r = map snd (rg_topics r)"

text \<open>\<open>io\<close> is the failure of the operating system while the file is written, none when it succeeds.\<close>

definition SaveFile :: "go_error option \<Rightarrow> TopicConfig list \<Rightarrow> topics_file \<Rightarrow> topics_file \<times> unit result" where
  "SaveFile io snapshot doc = (case io of Some err \<Rightarrow> (doc, Inl err) | None \<Rightarrow> (Some snapshot, Inr ()))"

definition LoadFile :: "Registry \<Rightarrow> Registry" where
  "LoadFile r = (case rg_file r of None \<Rightarrow> r | Some configs \<Rightarrow> Hydrate r configs)"

section \<open>Invariant\<close>

definition topic_ok :: "string \<Rightarrow> TopicConfig \<Rightarrow> bool" where
  "topic_ok n cfg \<longleftrightarrow> tc_Name cfg = n \<and> nameRe n \<and> 0 < tc_PartitionCount cfg"

definition reg_inv :: "Registry \<Rightarrow> bool" where
  "reg_inv r \<longleftrightarrow> all_entries topic_ok (rg_topics r)"

text \<open>The topics file holds the registered topics.\<close>

definition reg_saved :: "Registry \<Rightarrow> bool" where
  "reg_saved r \<longleftrightarrow> rg_persist r = Some (SaveFile None) \<and> rg_topics (LoadFile (NewRegistry (rg_file r))) = rg_topics r"

lemma hydrate_snapshot:
  assumes "distinct (map fst m)" "\<forall>(n, cfg) \<in> set m. tc_Name cfg = n"
  shows "foldl (\<lambda>m cfg. AList.update (tc_Name cfg) cfg m) [] (map snd m) = m"
proof -
  have "foldl (\<lambda>m cfg. AList.update (tc_Name cfg) cfg m) acc (map snd m) = acc @ m"
    if "distinct (map fst (acc @ m))" "\<forall>(n, cfg) \<in> set m. tc_Name cfg = n" for acc m
    using that
  proof (induction m arbitrary: acc)
    case (Cons x m)
    obtain n cfg where x: "x = (n, cfg)" by fastforce
    have "AList.update n cfg acc = acc @ [(n, cfg)]"
      using Cons.prems(1) x by (intro update_new_key) auto
    then show ?case using Cons.IH [of "acc @ [x]"] Cons.prems x by simp
  qed simp
  from this [of "[]"] assms show ?thesis by simp
qed

datatype reg_op = RCreate Spec | RUpdate string int int | RDelete string

definition reg_exec :: "reg_op \<Rightarrow> Registry \<Rightarrow> Registry \<times> unit result" where
  "reg_exec rop r =
     (case rop of
        RCreate spec \<Rightarrow> reg_Create r spec
      | RUpdate name retentionMs segmentBytes \<Rightarrow> reg_UpdateConfig r name retentionMs segmentBytes
      | RDelete name \<Rightarrow> reg_Delete r name)"

definition reg_run :: "reg_op list \<Rightarrow> Registry \<Rightarrow> Registry" where
  "reg_run rops r = foldl (\<lambda>r rop. fst (reg_exec rop r)) r rops"

lemma run_persist_topics [simp]: "rg_topics (fst (run_persist r)) = rg_topics r"
  by (simp add: run_persist_def Let_def case_prod_beta split: option.split)

lemma reg_exec_inv: "reg_inv r \<Longrightarrow> reg_inv (fst (reg_exec rop r))"
  using all_entries_lookup [of topic_ok "rg_topics r"]
  by (cases rop) (auto simp: reg_inv_def reg_exec_def reg_Create_def reg_UpdateConfig_def reg_Delete_def topic_ok_def Let_def
      split: option.split)

lemma run_persist_saved:
  assumes "reg_inv r" "rg_persist r = Some (SaveFile None)" shows "reg_saved (fst (run_persist r))"
proof -
  have "distinct (map fst (rg_topics r))" "\<forall>(n, cfg) \<in> set (rg_topics r). tc_Name cfg = n"
    using assms(1) by (auto simp: reg_inv_def all_entries_def topic_ok_def list_all_iff)
  then show ?thesis using assms(2)
    by (simp add: run_persist_def reg_saved_def SaveFile_def LoadFile_def NewRegistry_def Hydrate_def topics_snapshot_def
        hydrate_snapshot)
qed

lemma reg_exec_shape:
  "(\<exists>e. reg_exec rop r = (r, Inl e)) \<or> (\<exists>m. reg_exec rop r = run_persist (r\<lparr>rg_topics := m\<rparr>))"
  by (cases rop) (auto simp: reg_exec_def reg_Create_def reg_UpdateConfig_def reg_Delete_def Let_def split: option.split)

lemma reg_exec_saved: "reg_inv r \<Longrightarrow> reg_saved r \<Longrightarrow> reg_saved (fst (reg_exec rop r))"
  using reg_exec_shape [of rop r]
proof (elim disjE exE)
  fix m assume r: "reg_inv r" "reg_saved r" "reg_exec rop r = run_persist (r\<lparr>rg_topics := m\<rparr>)"
  have "reg_inv (r\<lparr>rg_topics := m\<rparr>)" using reg_exec_inv [OF r(1), of rop] r(3) by (simp add: reg_inv_def)
  with r show "reg_saved (fst (reg_exec rop r))" by (simp add: run_persist_saved reg_saved_def [of r])
qed simp

lemma reg_run_inv: "reg_inv r \<Longrightarrow> reg_saved r \<Longrightarrow> reg_inv (reg_run rops r) \<and> reg_saved (reg_run rops r)"
  by (induction rops arbitrary: r) (auto simp: reg_run_def reg_exec_inv reg_exec_saved)

text \<open>Every registered name but the two dot names is a path component of its own.\<close>

lemma nameRe_good: "nameRe n \<Longrightarrow> n \<noteq> ''.'' \<Longrightarrow> n \<noteq> ''..'' \<Longrightarrow> good_name n"
  by (auto simp: nameRe_def good_name_def list_all_iff name_char_def Let_def)

section \<open>Properties\<close>

text \<open>
  The topics file always holds the registry. Whatever topics are created, reconfigured and
  deleted on a new registry whose hook saves the file, a registry loaded from the file knows the same
  topics with the same configurations, and every topic has a valid name and at least one partition.
\<close>

theorem registry_survives_restart:
  "let r = reg_run rops (SetPersistHook (NewRegistry None) (SaveFile None)) in
     reg_Get (LoadFile (NewRegistry (rg_file r))) name = reg_Get r name \<and> reg_inv r"
proof -
  let ?r = "SetPersistHook (NewRegistry None) (SaveFile None)"
  have "reg_inv ?r" "reg_saved ?r" by (simp_all add: reg_inv_def reg_saved_def SetPersistHook_def NewRegistry_def LoadFile_def)
  from reg_run_inv [OF this, of rops] show ?thesis by (simp add: reg_saved_def reg_Get_def Let_def)
qed

text \<open>
  A topic whose creation fails because the topics file cannot be written stays registered: the
  caller gets the error, lookups find the topic, the file does not have it, and a second attempt is
  refused as a duplicate.
\<close>

theorem create_persist_failure:
  assumes "rg_persist r = Some (SaveFile (Some e))" "nameRe (sp_Name spec)" "0 < sp_PartitionCount spec"
    and "map_of (rg_topics r) (sp_Name spec) = None" "reg_Create r spec = (r', res)"
  shows "res = Inl e \<and> rg_file r' = rg_file r \<and> PartitionsFor r' (sp_Name spec) = Inr (sp_PartitionCount spec)
    \<and> (\<exists>e'. reg_Create r' spec = (r', Inl e') \<and> errors_Is e' ErrTopicExists)"
  using assms by (auto simp: reg_Create_def run_persist_def SaveFile_def PartitionsFor_def reg_Get_def update_conv' Let_def ErrTopicExists_def)

lemma create_persist_failure_witness:
  "\<exists>r' e'. reg_Create (SetPersistHook (NewRegistry None) (SaveFile (Some (ErrNew ''disk full'')))) \<lparr>sp_Name = ''t'', sp_PartitionCount = 1, sp_RetentionMs = 0, sp_SegmentBytes = 0\<rparr> = (r', Inl (ErrNew ''disk full''))
    \<and> reg_Create r' \<lparr>sp_Name = ''t'', sp_PartitionCount = 1, sp_RetentionMs = 0, sp_SegmentBytes = 0\<rparr> = (r', Inl e') \<and> errors_Is e' ErrTopicExists"
proof -
  let ?r = "SetPersistHook (NewRegistry None) (SaveFile (Some (ErrNew ''disk full'')))"
  let ?spec = "\<lparr>sp_Name = ''t'', sp_PartitionCount = 1, sp_RetentionMs = 0, sp_SegmentBytes = 0\<rparr>"
  obtain r' res where run: "reg_Create ?r ?spec = (r', res)" by (metis prod.collapse)
  have n: "nameRe (sp_Name ?spec)" by code_simp
  from create_persist_failure [OF _ n _ _ run, of "ErrNew ''disk full''"] run show ?thesis
    by (simp add: SetPersistHook_def NewRegistry_def)
qed

end
