(* ===== verification/Group_Manager.thy ===== *)
theory Group_Manager
  imports Group_Assign Group_Offsets Go_Maps
begin

text \<open>
  The consumer-group coordinator, \<^verbatim>\<open>broker/internal/groups/manager.go\<close>. The manager's mutex makes each
  operation atomic; a long-poll heartbeat is its registration and one of its three endings. A clock
  reading is an argument, in nanoseconds, one for each call of the clock an operation makes. A watcher
  channel is a number, and \<open>mg_signalled\<close> are the channels that hold a wake-up. The offset store is
  used through its method table \<open>offset_ops\<close>.
\<close>

section \<open>State\<close>

record 'o offset_ops =
  oo_Commit :: "'o \<Rightarrow> string \<Rightarrow> string \<Rightarrow> int \<Rightarrow> int \<Rightarrow> 'o \<times> unit result"
  oo_Lookup :: "'o \<Rightarrow> string \<Rightarrow> string \<Rightarrow> int \<Rightarrow> int result"
  oo_List :: "'o \<Rightarrow> string \<Rightarrow> OffsetEntry list"
  oo_DeleteGroup :: "'o \<Rightarrow> string \<Rightarrow> 'o \<times> unit result"

definition ErrUnknownMember :: go_error where
  "ErrUnknownMember = ErrNew ''groups: unknown member''"

definition ErrNoTopicsRequested :: go_error where
  "ErrNoTopicsRequested = ErrNew ''groups: join with no topics''"

definition ErrUnknownGroup :: go_error where
  "ErrUnknownGroup = ErrNew ''groups: unknown group''"

record Assignment =
  as_Partition :: PartitionRef
  as_CommittedOffset :: int

record JoinResult =
  jr_MemberID :: string
  jr_Generation :: int
  jr_Assignments :: "Assignment list"

datatype Strategy = RangeStrategy | RoundRobinStrategy | StickyStrategy

record Member =
  mb_id :: string
  mb_lastHeartbeat :: int

record Group =
  gr_name :: string
  gr_topics :: "string list"
  gr_members :: "(string \<times> Member) list"
  gr_assignments :: assignment
  gr_generation :: int
  gr_dirty :: bool
  gr_watchers :: "nat list"

record 'o Manager =
  mg_offsets :: 'o
  mg_sessionTimeout :: int
  mg_strategy :: Strategy
  mg_groups :: "(string \<times> Group) list"
  mg_signalled :: "nat list"
  mg_nextChan :: nat

definition NewManager :: "'o \<Rightarrow> int \<Rightarrow> Strategy \<Rightarrow> 'o Manager" where
  "NewManager offsets sessionTimeout strategy =
     \<lparr>mg_offsets = offsets, mg_sessionTimeout = sessionTimeout, mg_strategy = strategy, mg_groups = [],
      mg_signalled = [], mg_nextChan = 0\<rparr>"

section \<open>Helpers under the lock\<close>

definition mergeTopics :: "string list \<Rightarrow> string list \<Rightarrow> string list" where
  "mergeTopics a b = sort (remdups (a @ b))"

definition notifyWatchersLocked :: "Group \<Rightarrow> nat list \<Rightarrow> Group \<times> nat list" where
  "notifyWatchersLocked g signalled = (g\<lparr>gr_watchers := []\<rparr>, gr_watchers g @ signalled)"

definition evictStaleLocked :: "int \<Rightarrow> int \<Rightarrow> Group \<Rightarrow> nat list \<Rightarrow> Group \<times> nat list \<times> nat" where
  "evictStaleLocked now sessionTimeout g signalled =
     (let cutoff = now - sessionTimeout;
          stale = map fst (filter (\<lambda>(_, mem). mb_lastHeartbeat mem < cutoff) (gr_members g));
          g = g\<lparr>gr_members := filter (\<lambda>(mid, _). mid \<notin> set stale) (gr_members g),
                gr_assignments := filter (\<lambda>(mid, _). mid \<notin> set stale) (gr_assignments g)\<rparr>
      in if 0 < length stale
         then let (g, signalled) = notifyWatchersLocked (g\<lparr>gr_dirty := True\<rparr>) signalled in (g, signalled, length stale)
         else (g, signalled, 0))"

definition strategy_assign :: "Strategy \<Rightarrow> string list \<Rightarrow> string list \<Rightarrow> PartitionsForFunc \<Rightarrow> assignment \<Rightarrow> assignment result" where
  "strategy_assign strategy memberIDs topics partitionsFor prior =
     (case strategy of
        RoundRobinStrategy \<Rightarrow> assignRoundRobin memberIDs topics partitionsFor
      | StickyStrategy \<Rightarrow> assignSticky memberIDs topics partitionsFor prior
      | RangeStrategy \<Rightarrow> group_assign memberIDs topics partitionsFor)"

definition rebalanceLocked :: "Strategy \<Rightarrow> PartitionsForFunc \<Rightarrow> Group \<Rightarrow> nat list \<Rightarrow> (Group \<times> nat list) result" where
  "rebalanceLocked strategy partitionsFor g signalled =
     (let memberIDs = sort (map fst (gr_members g)) in
      case strategy_assign strategy memberIDs (gr_topics g) partitionsFor (gr_assignments g) of
        Inl err \<Rightarrow> Inl err
      | Inr assignments \<Rightarrow>
          Inr (notifyWatchersLocked (g\<lparr>gr_assignments := assignments,
                 gr_generation := int32_of (uint32_of (gr_generation g + 1)), gr_dirty := False\<rparr>) signalled))"

definition mg_put :: "'o Manager \<Rightarrow> string \<Rightarrow> Group \<Rightarrow> nat list \<Rightarrow> 'o Manager" where
  "mg_put m groupName g signalled =
     m\<lparr>mg_groups := AList.update groupName g (mg_groups m), mg_signalled := signalled\<rparr>"

section \<open>Operations\<close>

primrec lookup_offsets :: "'o offset_ops \<Rightarrow> 'o \<Rightarrow> string \<Rightarrow> PartitionRef list \<Rightarrow> Assignment list result" where
  "lookup_offsets ops offsets groupName [] = Inr []"
| "lookup_offsets ops offsets groupName (p # parts) =
     (case oo_Lookup ops offsets groupName (p_Topic p) (p_Index p) of
        Inl err \<Rightarrow> Inl (ErrWrap ''groups: lookup offset'' err)
      | Inr off \<Rightarrow>
          (case lookup_offsets ops offsets groupName parts of
             Inl err \<Rightarrow> Inl err
           | Inr out \<Rightarrow> Inr (\<lparr>as_Partition = p, as_CommittedOffset = off\<rparr> # out)))"

text \<open>
  \<open>fresh\<close> is the random identifier \<^verbatim>\<open>newMemberID\<close> would draw; \<open>now\<close> and \<open>now'\<close> are the clock at the
  member's heartbeat and at the eviction.
\<close>

definition mg_Join :: "'o offset_ops \<Rightarrow> PartitionsForFunc \<Rightarrow> int \<Rightarrow> int \<Rightarrow> string \<Rightarrow> 'o Manager \<Rightarrow> string \<Rightarrow> string \<Rightarrow> string list
    \<Rightarrow> 'o Manager \<times> JoinResult result" where
  "mg_Join ops partitionsFor now now' fresh m groupName memberID topics =
     (if length topics = 0 then (m, Inl ErrNoTopicsRequested)
      else
        let g = (case map_of (mg_groups m) groupName of
                   Some g \<Rightarrow> g
                 | None \<Rightarrow> \<lparr>gr_name = groupName, gr_topics = [], gr_members = [], gr_assignments = [],
                            gr_generation = 0, gr_dirty = False, gr_watchers = []\<rparr>);
            memberID = (if memberID = [] then fresh else memberID);
            returning = (map_of (gr_members g) memberID \<noteq> None);
            g = g\<lparr>gr_members := AList.update memberID \<lparr>mb_id = memberID, mb_lastHeartbeat = now\<rparr> (gr_members g)\<rparr>;
            priorTopics = gr_topics g;
            g = g\<lparr>gr_topics := mergeTopics (gr_topics g) topics\<rparr>;
            topicsExpanded = (length (gr_topics g) \<noteq> length priorTopics);
            (g, signalled, evicted) = evictStaleLocked now' (mg_sessionTimeout m) g (mg_signalled m);
            skipRebalance = (returning \<and> \<not> topicsExpanded \<and> evicted = 0 \<and> \<not> gr_dirty g)
        in case (if skipRebalance then Inr (g, signalled) else rebalanceLocked (mg_strategy m) partitionsFor g signalled) of
             Inl err \<Rightarrow> (mg_put m groupName g signalled, Inl err)
           | Inr (g, signalled) \<Rightarrow>
               (mg_put m groupName g signalled,
                case lookup_offsets ops (mg_offsets m) groupName (aget (gr_assignments g) memberID) of
                  Inl err \<Rightarrow> Inl err
                | Inr out \<Rightarrow> Inr \<lparr>jr_MemberID = memberID, jr_Generation = gr_generation g, jr_Assignments = out\<rparr>))"

text \<open>The result of a heartbeat is \<^verbatim>\<open>RebalanceNeeded\<close>, beside an error or none.\<close>

definition heartbeatLocked :: "int \<Rightarrow> int \<Rightarrow> 'o Manager \<Rightarrow> string \<Rightarrow> string \<Rightarrow> int \<Rightarrow> 'o Manager \<times> bool \<times> go_error option" where
  "heartbeatLocked now now' m groupName memberID generation =
     (case map_of (mg_groups m) groupName of
        None \<Rightarrow> (m, True, Some ErrUnknownMember)
      | Some g \<Rightarrow>
          (case map_of (gr_members g) memberID of
             None \<Rightarrow> (m, True, Some ErrUnknownMember)
           | Some mem \<Rightarrow>
               (let g = g\<lparr>gr_members := AList.update memberID (mem\<lparr>mb_lastHeartbeat := now\<rparr>) (gr_members g)\<rparr>;
                    (g, signalled, evicted) = evictStaleLocked now' (mg_sessionTimeout m) g (mg_signalled m);
                    g = (if 0 < evicted then g\<lparr>gr_dirty := True\<rparr> else g)
                in (mg_put m groupName g signalled, generation \<noteq> gr_generation g \<or> gr_dirty g, None))))"

definition mg_Heartbeat :: "int \<Rightarrow> int \<Rightarrow> 'o Manager \<Rightarrow> string \<Rightarrow> string \<Rightarrow> int \<Rightarrow> 'o Manager \<times> bool \<times> go_error option" where
  "mg_Heartbeat now now' m groupName memberID generation = heartbeatLocked now now' m groupName memberID generation"

text \<open>
  \<^verbatim>\<open>HeartbeatWait\<close> up to its \<^verbatim>\<open>select\<close>: it has returned, or it waits on a channel.
\<close>

datatype wait = Returned bool "go_error option" | Waiting nat

definition HeartbeatWait_begin :: "int \<Rightarrow> int \<Rightarrow> 'o Manager \<Rightarrow> string \<Rightarrow> string \<Rightarrow> int \<Rightarrow> int \<Rightarrow> 'o Manager \<times> wait" where
  "HeartbeatWait_begin now now' m groupName memberID generation maxWait =
     (case heartbeatLocked now now' m groupName memberID generation of
        (m, needed, err) \<Rightarrow>
          if err \<noteq> None \<or> needed \<or> maxWait \<le> 0 then (m, Returned needed err)
          else case map_of (mg_groups m) groupName of
                 None \<Rightarrow> (m, Returned True (Some Panic))
               | Some g \<Rightarrow>
                   (let wake = mg_nextChan m
                    in (m\<lparr>mg_groups := AList.update groupName (g\<lparr>gr_watchers := gr_watchers g @ [wake]\<rparr>) (mg_groups m),
                          mg_nextChan := wake + 1\<rparr>, Waiting wake)))"

definition removeWatcher :: "'o Manager \<Rightarrow> string \<Rightarrow> nat \<Rightarrow> 'o Manager" where
  "removeWatcher m groupName wake =
     (case map_of (mg_groups m) groupName of
        None \<Rightarrow> m
      | Some g \<Rightarrow> m\<lparr>mg_groups := AList.update groupName (g\<lparr>gr_watchers := remove1 wake (gr_watchers g)\<rparr>) (mg_groups m)\<rparr>)"

text \<open>The three endings of the \<^verbatim>\<open>select\<close>: a wake-up (only when the channel holds one), the timer, the context.\<close>

definition HeartbeatWait_wake :: "'o Manager \<Rightarrow> nat \<Rightarrow> ('o Manager \<times> bool \<times> go_error option) option" where
  "HeartbeatWait_wake m wake = (if wake \<in> set (mg_signalled m) then Some (m, True, None) else None)"

definition HeartbeatWait_timer :: "'o Manager \<Rightarrow> string \<Rightarrow> nat \<Rightarrow> 'o Manager \<times> bool \<times> go_error option" where
  "HeartbeatWait_timer m groupName wake = (removeWatcher m groupName wake, False, None)"

definition HeartbeatWait_done :: "go_error \<Rightarrow> 'o Manager \<Rightarrow> string \<Rightarrow> nat \<Rightarrow> 'o Manager \<times> bool \<times> go_error option" where
  "HeartbeatWait_done err m groupName wake = (removeWatcher m groupName wake, False, Some err)"

definition mg_Leave :: "'o Manager \<Rightarrow> string \<Rightarrow> string \<Rightarrow> 'o Manager \<times> unit result" where
  "mg_Leave m groupName memberID =
     (case map_of (mg_groups m) groupName of
        None \<Rightarrow> (m, Inr ())
      | Some g \<Rightarrow>
          if map_of (gr_members g) memberID = None then (m, Inr ())
          else let g = g\<lparr>gr_members := AList.delete memberID (gr_members g),
                         gr_assignments := AList.delete memberID (gr_assignments g), gr_dirty := True\<rparr>;
                   (g', signalled) = notifyWatchersLocked g (mg_signalled m)
               in if length (gr_members g) = 0
                  then (m\<lparr>mg_groups := AList.delete groupName (mg_groups m), mg_signalled := signalled\<rparr>, Inr ())
                  else (mg_put m groupName g' signalled, Inr ()))"

record GroupSummary_mgr =
  gs_Name :: string
  gs_Generation :: int
  gs_MemberCount :: int
  gs_Topics :: "string list"

definition mg_List :: "'o Manager \<Rightarrow> GroupSummary_mgr list" where
  "mg_List m = map (\<lambda>(_, g). \<lparr>gs_Name = gr_name g, gs_Generation = gr_generation g,
     gs_MemberCount = int32_of (uint32_of (int (length (gr_members g)))), gs_Topics = gr_topics g\<rparr>) (mg_groups m)"

record GroupDetails =
  gd_Name :: string
  gd_Generation :: int
  gd_Topics :: "string list"
  gd_Members :: "(string \<times> PartitionRef list) list"

definition mg_Describe :: "'o Manager \<Rightarrow> string \<Rightarrow> GroupDetails result" where
  "mg_Describe m groupName =
     (case map_of (mg_groups m) groupName of
        None \<Rightarrow> Inl ErrUnknownGroup
      | Some g \<Rightarrow>
          Inr \<lparr>gd_Name = gr_name g, gd_Generation = gr_generation g, gd_Topics = gr_topics g,
               gd_Members = map (\<lambda>mid. (mid, aget (gr_assignments g) mid)) (sort (map fst (gr_members g)))\<rparr>)"

definition mg_Delete :: "'o offset_ops \<Rightarrow> 'o Manager \<Rightarrow> string \<Rightarrow> 'o Manager \<times> unit result" where
  "mg_Delete ops m groupName =
     (let hadGroup = (map_of (mg_groups m) groupName \<noteq> None);
          m = (if hadGroup then m\<lparr>mg_groups := AList.delete groupName (mg_groups m)\<rparr> else m);
          hadOffsets = (0 < length (oo_List ops (mg_offsets m) groupName))
      in if \<not> hadGroup \<and> \<not> hadOffsets then (m, Inl ErrUnknownGroup)
         else let (offsets, res) = oo_DeleteGroup ops (mg_offsets m) groupName in (m\<lparr>mg_offsets := offsets\<rparr>, res))"

definition mg_Commit :: "'o offset_ops \<Rightarrow> 'o Manager \<Rightarrow> string \<Rightarrow> string \<Rightarrow> int \<Rightarrow> int \<Rightarrow> 'o Manager \<times> unit result" where
  "mg_Commit ops m groupName topic part offset =
     (let (offsets, res) = oo_Commit ops (mg_offsets m) groupName topic part offset in (m\<lparr>mg_offsets := offsets\<rparr>, res))"

definition mg_ListOffsets :: "'o offset_ops \<Rightarrow> 'o Manager \<Rightarrow> string \<Rightarrow> OffsetEntry list" where
  "mg_ListOffsets ops m groupName =
     sort_key oe_Topic (sort_key oe_Partition (oo_List ops (mg_offsets m) groupName))"

definition mg_Committed :: "'o offset_ops \<Rightarrow> 'o Manager \<Rightarrow> string \<Rightarrow> string \<Rightarrow> int \<Rightarrow> int result" where
  "mg_Committed ops m groupName topic part = oo_Lookup ops (mg_offsets m) groupName topic part"

end
