(* ===== verification/Group_Manager_Props.thy ===== *)
theory Group_Manager_Props
  imports Group_Manager Group_Offset_Props
begin

text \<open>
  Invariants of the group coordinator over every interleaving of its operations, given as a step
  relation: who owns which partition, and that no long-poll heartbeat misses a rebalance.
\<close>

section \<open>Interleavings\<close>

text \<open>
  A configuration has the manager, the outstanding long polls with the group and generation each was
  made for, and the groups removed by the administrative \<open>mg_Delete\<close>.
\<close>

type_synonym 'o config = "'o Manager \<times> (nat \<times> string \<times> int) list \<times> string list"

definition drop_wait :: "nat \<Rightarrow> (nat \<times> string \<times> int) list \<Rightarrow> (nat \<times> string \<times> int) list" where
  "drop_wait ch ws = filter (\<lambda>w. fst w \<noteq> ch) ws"

inductive mstep :: "'o offset_ops \<Rightarrow> PartitionsForFunc \<Rightarrow> 'o config \<Rightarrow> 'o config \<Rightarrow> bool" for ops pf where
  join: "mg_Join ops pf now now' fresh m gn mid topics = (m', res) \<Longrightarrow> mstep ops pf (m, ws, del) (m', ws, del)"
| heartbeat: "mg_Heartbeat now now' m gn mid gen = (m', needed, err) \<Longrightarrow> mstep ops pf (m, ws, del) (m', ws, del)"
| wait_returns: "HeartbeatWait_begin now now' m gn mid gen maxWait = (m', Returned needed err) \<Longrightarrow>
    mstep ops pf (m, ws, del) (m', ws, del)"
| wait_blocks: "HeartbeatWait_begin now now' m gn mid gen maxWait = (m', Waiting ch) \<Longrightarrow>
    mstep ops pf (m, ws, del) (m', (ch, gn, gen) # ws, del)"
| wait_wake: "(ch, gn, gen) \<in> set ws \<Longrightarrow> HeartbeatWait_wake m ch = Some (m', needed, err) \<Longrightarrow>
    mstep ops pf (m, ws, del) (m', drop_wait ch ws, del)"
| wait_timer: "(ch, gn, gen) \<in> set ws \<Longrightarrow> HeartbeatWait_timer m gn ch = (m', needed, err) \<Longrightarrow>
    mstep ops pf (m, ws, del) (m', drop_wait ch ws, del)"
| wait_done: "(ch, gn, gen) \<in> set ws \<Longrightarrow> HeartbeatWait_done e m gn ch = (m', needed, err) \<Longrightarrow>
    mstep ops pf (m, ws, del) (m', drop_wait ch ws, del)"
| leave: "mg_Leave m gn mid = (m', res) \<Longrightarrow> mstep ops pf (m, ws, del) (m', ws, del)"
| delete: "mg_Delete ops m gn = (m', res) \<Longrightarrow> mstep ops pf (m, ws, del) (m', ws, gn # del)"
| commit: "mg_Commit ops m gn t p off = (m', res) \<Longrightarrow> mstep ops pf (m, ws, del) (m', ws, del)"

inductive mreach :: "'o offset_ops \<Rightarrow> PartitionsForFunc \<Rightarrow> 'o config \<Rightarrow> bool" for ops pf where
  start: "mreach ops pf (NewManager offsets timeout strategy, [], [])"
| step: "mreach ops pf c \<Longrightarrow> mstep ops pf c c' \<Longrightarrow> mreach ops pf c'"

section \<open>Ownership of partitions\<close>

definition parts_of :: "assignment \<Rightarrow> PartitionRef list" where
  "parts_of m = concat (map snd m)"

definition group_inv :: "PartitionsForFunc \<Rightarrow> Group \<Rightarrow> bool" where
  "group_inv pf g \<longleftrightarrow> distinct (map fst (gr_members g)) \<and> sorted (gr_topics g) \<and> distinct (gr_topics g)
     \<and> wf_assignment (map fst (gr_members g)) (gr_assignments g)
     \<and> (\<exists>all. allPartitions (gr_topics g) pf = Inr all \<and> mset (parts_of (gr_assignments g)) \<subseteq># mset all
          \<and> (\<not> gr_dirty g \<and> gr_members g \<noteq> [] \<longrightarrow> mset (parts_of (gr_assignments g)) = mset all))"

definition pf_total :: "PartitionsForFunc \<Rightarrow> bool" where
  "pf_total pf \<longleftrightarrow> (\<forall>t. \<exists>n. pf t = Inr n)"

lemma allPartitions_total: "pf_total pf \<Longrightarrow> \<exists>all. allPartitions topics pf = Inr all"
proof (induction topics)
  case (Cons t ts)
  obtain n where "pf t = Inr n" using Cons.prems by (auto simp: pf_total_def)
  with Cons show ?case by auto
qed simp

lemma parts_of_filter: "mset (parts_of (filter P m)) \<subseteq># mset (parts_of m)"
  by (induction m) (auto simp: parts_of_def intro: subset_mset.order_trans [OF _ mset_subset_eq_add_right])

lemma wf_assignment_filter:
  "wf_assignment ids m \<Longrightarrow> (\<And>k. k \<in> set ids \<Longrightarrow> P k \<Longrightarrow> k \<in> set ids') \<Longrightarrow> wf_assignment ids' (filter (\<lambda>(k, _). P k) m)"
  unfolding wf_assignment_def by (auto simp: distinct_map_filter)

text \<open>Removing members, by eviction or departure, keeps everything but the cover.\<close>

lemma group_inv_remove:
  assumes "group_inv pf g"
  shows "group_inv pf (g\<lparr>gr_members := filter (\<lambda>(k, _). P k) (gr_members g),
    gr_assignments := filter (\<lambda>(k, _). P k) (gr_assignments g), gr_dirty := True, gr_watchers := w\<rparr>)"
proof -
  have "wf_assignment (map fst (filter (\<lambda>(k, _). P k) (gr_members g))) (filter (\<lambda>(k, _). P k) (gr_assignments g))"
    using assms by (intro wf_assignment_filter [where ids = "map fst (gr_members g)"]) (auto simp: group_inv_def)
  then show ?thesis using assms parts_of_filter [of "\<lambda>(k, _). P k" "gr_assignments g"] subset_mset.order_trans
    by (force simp: group_inv_def distinct_map_filter)
qed

lemma strategy_assign_cover:
  assumes "distinct ids" "distinct topics" "allPartitions topics pf = Inr all"
  shows "\<exists>m. strategy_assign strategy ids topics pf prior = Inr m \<and> wf_assignment ids m
    \<and> mset (parts_of m) \<subseteq># mset all \<and> (ids \<noteq> [] \<longrightarrow> mset (parts_of m) = mset all)"
proof (cases "ids = []")
  case False
  from strategies_cover [OF assms(1) False assms(2,3), of prior] show ?thesis
    by (cases strategy) (auto simp: strategy_assign_def exact_cover_def parts_of_def)
next
  case True
  have "assign_topics one pf topics [] = Inr []" if "\<And>t n. one t n = []" for one
    using assms(3)
  proof (induction topics arbitrary: all)
    case (Cons t ts)
    then show ?case by (auto simp: that merge_assignment_def split: sum.splits)
  qed simp
  then have "strategy_assign strategy ids topics pf prior = Inr []"
    using True assms(3) by (cases strategy) (auto simp: strategy_assign_def assignRoundRobin_def group_assign_def assignSticky_def
        rangeAssign_def roundRobinAssign_def no_parts_def)
  then show ?thesis using True by (simp add: wf_assignment_def parts_of_def)
qed

lemma rebalance_inv:
  assumes "distinct (map fst (gr_members g))" "sorted (gr_topics g)" "distinct (gr_topics g)" "pf_total pf"
  shows "\<exists>g'. rebalanceLocked strategy pf g sig = Inr (g', gr_watchers g @ sig) \<and> group_inv pf g' \<and> gr_watchers g' = []
    \<and> \<not> gr_dirty g' \<and> gr_members g' = gr_members g \<and> gr_topics g' = gr_topics g"
proof -
  obtain all where all: "allPartitions (gr_topics g) pf = Inr all" using allPartitions_total [OF assms(4)] by blast
  let ?ids = "sort (map fst (gr_members g))"
  have "distinct ?ids" using assms(1) by simp
  from strategy_assign_cover [OF this assms(3) all, of strategy "gr_assignments g"] obtain asg where
    "strategy_assign strategy ?ids (gr_topics g) pf (gr_assignments g) = Inr asg" "wf_assignment ?ids asg"
    "mset (parts_of asg) \<subseteq># mset all" "gr_members g \<noteq> [] \<longrightarrow> mset (parts_of asg) = mset all"
    by (metis length_0_conv length_map length_sort)
  with assms all show ?thesis
    by (auto simp: rebalanceLocked_def notifyWatchersLocked_def group_inv_def wf_assignment_def Let_def)
qed

lemma mergeTopics_wf: "sorted (mergeTopics a b)" "distinct (mergeTopics a b)"
  by (simp_all add: mergeTopics_def)

lemma mergeTopics_same:
  assumes "sorted a" "distinct a" "length (mergeTopics a b) = length a"
  shows "mergeTopics a b = a"
proof -
  have "set a \<subseteq> set (mergeTopics a b)" by (auto simp: mergeTopics_def)
  moreover have "card (set (mergeTopics a b)) = card (set a)"
    using assms(2,3) mergeTopics_wf(2) by (metis distinct_card)
  ultimately have "set (mergeTopics a b) = set a" using card_subset_eq by (metis List.finite_set)
  then show ?thesis using sorted_distinct_set_unique assms(1,2) mergeTopics_wf by metis
qed

lemma evict_cases:
  assumes "evictStaleLocked now timeout g sig = (g', sig', n)"
  obtains "n = 0" "g' = g" "sig' = sig"
  | P where "0 < n" "sig' = gr_watchers g @ sig"
    "g' = g\<lparr>gr_members := filter (\<lambda>(k, _). P k) (gr_members g), gr_assignments := filter (\<lambda>(k, _). P k) (gr_assignments g),
      gr_dirty := True, gr_watchers := []\<rparr>"
proof -
  define stale where "stale = map fst (filter (\<lambda>(_, mem). mb_lastHeartbeat mem < now - timeout) (gr_members g))"
  let ?g = "g\<lparr>gr_members := filter (\<lambda>(k, _). k \<notin> set stale) (gr_members g),
    gr_assignments := filter (\<lambda>(k, _). k \<notin> set stale) (gr_assignments g)\<rparr>"
  have run: "evictStaleLocked now timeout g sig =
      (if 0 < length stale
       then let (g, signalled) = notifyWatchersLocked (?g\<lparr>gr_dirty := True\<rparr>) sig in (g, signalled, length stale)
       else (?g, sig, 0))"
    unfolding evictStaleLocked_def Let_def stale_def ..
  show thesis
  proof (cases "stale = []")
    case True
    then have "?g = g" by (simp add: case_prod_beta)
    with True assms run show thesis by (intro that(1)) simp_all
  next
    case False
    with assms run show thesis
      by (intro that(2) [of "\<lambda>k. k \<notin> set stale"]) (auto simp: notifyWatchersLocked_def)
  qed
qed

lemma evict_inv: "group_inv pf g \<Longrightarrow> evictStaleLocked now timeout g sig = (g', sig', n) \<Longrightarrow> group_inv pf g'"
  by (erule evict_cases) (simp_all add: group_inv_remove)

lemma evict_keeps:
  assumes "evictStaleLocked now timeout g sig = (g', sig', n)"
  shows "gr_topics g' = gr_topics g" "distinct (map fst (gr_members g)) \<Longrightarrow> distinct (map fst (gr_members g'))"
  using assms by (rule evict_cases; simp add: distinct_map_filter)+

definition groups_inv :: "PartitionsForFunc \<Rightarrow> 'o Manager \<Rightarrow> bool" where
  "groups_inv pf m \<longleftrightarrow> all_entries (\<lambda>_. group_inv pf) (mg_groups m)"

lemma groups_inv_put [simp]: "groups_inv pf m \<Longrightarrow> group_inv pf g \<Longrightarrow> groups_inv pf (mg_put m gn g sig)"
  by (simp add: groups_inv_def mg_put_def)

lemma groups_inv_get: "groups_inv pf m \<Longrightarrow> map_of (mg_groups m) gn = Some g \<Longrightarrow> group_inv pf g"
  using all_entries_lookup unfolding groups_inv_def by fastforce

lemma group_inv_beat:
  assumes "group_inv pf g" "map_of (gr_members g) mid \<noteq> None"
  shows "group_inv pf (g\<lparr>gr_members := AList.update mid mem (gr_members g)\<rparr>)"
proof -
  have ks: "set (map fst (AList.update mid mem (gr_members g))) = set (map fst (gr_members g))"
    using assms(2) by (auto simp: dom_update map_of_eq_None_iff)
  moreover have "gr_members g \<noteq> []" using assms(2) by auto
  ultimately show ?thesis using assms(1) by (simp add: group_inv_def distinct_update wf_assignment_def)
qed

definition empty_group :: "string \<Rightarrow> Group" where
  "empty_group gn = \<lparr>gr_name = gn, gr_topics = [], gr_members = [], gr_assignments = [], gr_generation = 0, gr_dirty = False,
     gr_watchers = []\<rparr>"

lemma empty_group_inv: "group_inv pf (empty_group gn)"
  by (simp add: group_inv_def empty_group_def wf_assignment_def parts_of_def)

text \<open>
  A join is a change of one group: the member is entered, the topics merged, stale members evicted,
  and unless nothing changed the partitions are dealt anew.
\<close>

definition join_prepare :: "int \<Rightarrow> string \<Rightarrow> string list \<Rightarrow> Group \<Rightarrow> Group" where
  "join_prepare now mid topics g = g\<lparr>gr_members := AList.update mid \<lparr>mb_id = mid, mb_lastHeartbeat = now\<rparr> (gr_members g),
     gr_topics := mergeTopics (gr_topics g) topics\<rparr>"

lemma join_cases:
  assumes "mg_Join ops pf now now' fresh m gn mid0 topics = (m', res)"
  obtains "m' = m" "topics = []" "res = Inl ErrNoTopicsRequested"
  | g mid g1 sig1 n where
      "g = (case map_of (mg_groups m) gn of Some g \<Rightarrow> g | None \<Rightarrow> empty_group gn)"
      "mid = (if mid0 = [] then fresh else mid0)"
      "evictStaleLocked now' (mg_sessionTimeout m) (join_prepare now mid topics g) (mg_signalled m) = (g1, sig1, n)"
      "map_of (gr_members g) mid \<noteq> None" "length (gr_topics (join_prepare now mid topics g)) = length (gr_topics g)" "n = 0" "\<not> gr_dirty g1"
      "m' = mg_put m gn g1 sig1"
  | g mid g1 sig1 n g2 sig2 where
      "g = (case map_of (mg_groups m) gn of Some g \<Rightarrow> g | None \<Rightarrow> empty_group gn)"
      "mid = (if mid0 = [] then fresh else mid0)"
      "evictStaleLocked now' (mg_sessionTimeout m) (join_prepare now mid topics g) (mg_signalled m) = (g1, sig1, n)"
      "rebalanceLocked (mg_strategy m) pf g1 sig1 = Inr (g2, sig2)" "m' = mg_put m gn g2 sig2"
  | g mid g1 sig1 n err where
      "g = (case map_of (mg_groups m) gn of Some g \<Rightarrow> g | None \<Rightarrow> empty_group gn)"
      "mid = (if mid0 = [] then fresh else mid0)"
      "evictStaleLocked now' (mg_sessionTimeout m) (join_prepare now mid topics g) (mg_signalled m) = (g1, sig1, n)"
      "rebalanceLocked (mg_strategy m) pf g1 sig1 = Inl err" "m' = mg_put m gn g1 sig1" "res = Inl err"
proof (cases "topics = []")
  case True
  with assms show thesis by (intro that(1)) (simp_all add: mg_Join_def)
next
  case False
  define g where "g = (case map_of (mg_groups m) gn of Some g \<Rightarrow> g | None \<Rightarrow> empty_group gn)"
  define mid where "mid = (if mid0 = [] then fresh else mid0)"
  obtain g1 sig1 n where ev: "evictStaleLocked now' (mg_sessionTimeout m) (join_prepare now mid topics g) (mg_signalled m) = (g1, sig1, n)"
    by (metis prod_cases3)
  define skip where "skip \<longleftrightarrow> map_of (gr_members g) mid \<noteq> None \<and>
      length (gr_topics (join_prepare now mid topics g)) = length (gr_topics g) \<and> n = 0 \<and> \<not> gr_dirty g1"
  have run: "mg_Join ops pf now now' fresh m gn mid0 topics =
      (case (if skip then Inr (g1, sig1) else rebalanceLocked (mg_strategy m) pf g1 sig1) of
         Inl err \<Rightarrow> (mg_put m gn g1 sig1, Inl err)
       | Inr (g, signalled) \<Rightarrow>
           (mg_put m gn g signalled,
            case lookup_offsets ops (mg_offsets m) gn (aget (gr_assignments g) mid) of
              Inl err \<Rightarrow> Inl err
            | Inr out \<Rightarrow> Inr \<lparr>jr_MemberID = mid, jr_Generation = gr_generation g, jr_Assignments = out\<rparr>))"
    using False ev
    by (simp add: mg_Join_def g_def [unfolded empty_group_def, symmetric] mid_def [symmetric] join_prepare_def skip_def Let_def)
  show thesis
  proof (cases skip)
    case True
    with run assms show thesis by (intro that(2) [OF g_def mid_def ev]) (auto simp: skip_def)
  next
    case no_skip: False
    show thesis
    proof (cases "rebalanceLocked (mg_strategy m) pf g1 sig1")
      case (Inl err)
      with no_skip run assms show thesis by (intro that(4) [OF g_def mid_def ev]) auto
    next
      case (Inr p)
      then obtain g2 sig2 where "p = (g2, sig2)" by fastforce
      with Inr no_skip run assms show thesis by (intro that(3) [OF g_def mid_def ev, of g2 sig2]) auto
    qed
  qed
qed

lemma join_inv:
  assumes "groups_inv pf m" "pf_total pf" "mg_Join ops pf now now' fresh m gn mid0 topics = (m', res)"
  shows "groups_inv pf m'"
proof -
  define g where "g = (case map_of (mg_groups m) gn of Some g \<Rightarrow> g | None \<Rightarrow> empty_group gn)"
  have g: "group_inv pf g" using groups_inv_get [OF assms(1)] empty_group_inv by (auto simp: g_def split: option.split)
  have prep: "distinct (map fst (gr_members (join_prepare now mid topics g)))" for mid
    using g by (simp add: join_prepare_def group_inv_def distinct_update)
  have reb: "\<exists>g2 sig2. rebalanceLocked (mg_strategy m) pf g1 sig1 = Inr (g2, sig2) \<and> group_inv pf g2"
    if "evictStaleLocked now' (mg_sessionTimeout m) (join_prepare now mid topics g) (mg_signalled m) = (g1, sig1, n)" for mid g1 sig1 n
    using rebalance_inv [of g1 pf] evict_keeps [OF that] prep mergeTopics_wf assms(2) by (fastforce simp: join_prepare_def)
  from assms(3) show ?thesis
  proof (cases rule: join_cases)
    case (2 g' mid g1 sig1 n)
    have gg: "g' = g" using 2(1) by (simp add: g_def)
    have "g1 = join_prepare now mid topics g" using 2(3,6) unfolding gg by (elim evict_cases) auto
    moreover have "gr_topics (join_prepare now mid topics g) = gr_topics g"
      using 2(5) g mergeTopics_same unfolding gg by (simp add: join_prepare_def group_inv_def)
    ultimately have "g1 = g\<lparr>gr_members := AList.update mid \<lparr>mb_id = mid, mb_lastHeartbeat = now\<rparr> (gr_members g)\<rparr>"
      by (simp add: join_prepare_def)
    then show ?thesis using group_inv_beat [OF g, of mid] 2(4,8) assms(1) unfolding gg by simp
  next
    case (3 g' mid g1 sig1 n g2 sig2)
    then show ?thesis using reb [of mid g1 sig1 n] assms(1) by (auto simp: g_def)
  next
    case (4 g' mid g1 sig1 n err)
    then show ?thesis using reb [of mid g1 sig1 n] by (auto simp: g_def)
  qed (use assms(1) in simp)
qed

lemma beat_cases:
  assumes "heartbeatLocked now now' m gn mid gen = (m', needed, err)"
  obtains "m' = m" "needed" "err = Some ErrUnknownMember"
  | g mem g1 sig1 n where "map_of (mg_groups m) gn = Some g" "map_of (gr_members g) mid = Some mem"
      "evictStaleLocked now' (mg_sessionTimeout m) (g\<lparr>gr_members := AList.update mid (mem\<lparr>mb_lastHeartbeat := now\<rparr>) (gr_members g)\<rparr>)
         (mg_signalled m) = (g1, sig1, n)"
      "m' = mg_put m gn g1 sig1" "needed \<longleftrightarrow> gen \<noteq> gr_generation g1 \<or> gr_dirty g1" "err = None"
proof (cases "\<exists>g mem. map_of (mg_groups m) gn = Some g \<and> map_of (gr_members g) mid = Some mem")
  case False
  with assms show thesis by (intro that(1)) (auto simp: heartbeatLocked_def split: option.splits)
next
  case True
  then obtain g mem where g: "map_of (mg_groups m) gn = Some g" "map_of (gr_members g) mid = Some mem" by blast
  obtain g1 sig1 n where ev: "evictStaleLocked now' (mg_sessionTimeout m)
      (g\<lparr>gr_members := AList.update mid (mem\<lparr>mb_lastHeartbeat := now\<rparr>) (gr_members g)\<rparr>) (mg_signalled m) = (g1, sig1, n)"
    by (metis prod_cases3)
  have "(if 0 < n then g1\<lparr>gr_dirty := True\<rparr> else g1) = g1" using ev by (rule evict_cases) auto
  with g ev assms show thesis by (intro that(2) [OF g ev]) (auto simp: heartbeatLocked_def Let_def)
qed

lemma beat_inv:
  assumes "groups_inv pf m" "heartbeatLocked now now' m gn mid gen = (m', needed, err)"
  shows "groups_inv pf m'"
  using assms(2)
proof (cases rule: beat_cases)
  case (2 g mem g1 sig1 n)
  have "group_inv pf (g\<lparr>gr_members := AList.update mid (mem\<lparr>mb_lastHeartbeat := now\<rparr>) (gr_members g)\<rparr>)"
    using groups_inv_get [OF assms(1) 2(1)] 2(2) by (intro group_inv_beat) auto
  then show ?thesis using evict_inv [OF _ 2(3)] 2(4) assms(1) by simp
qed (use assms(1) in simp)

lemma group_inv_watchers [simp]: "group_inv pf (g\<lparr>gr_watchers := w\<rparr>) = group_inv pf g"
  by (simp add: group_inv_def)

lemma groups_inv_watchers:
  "groups_inv pf m \<Longrightarrow> map_of (mg_groups m) gn = Some g \<Longrightarrow>
   all_entries (\<lambda>_. group_inv pf) (AList.update gn (g\<lparr>gr_watchers := w\<rparr>) (mg_groups m))"
  using groups_inv_get by (force simp: groups_inv_def)

lemma begin_cases:
  assumes "HeartbeatWait_begin now now' m gn mid gen maxWait = (m', w)"
  obtains m1 needed err where "heartbeatLocked now now' m gn mid gen = (m1, needed, err)" "m' = m1" "\<exists>b e. w = Returned b e"
  | m1 g where "heartbeatLocked now now' m gn mid gen = (m1, False, None)" "map_of (mg_groups m1) gn = Some g" "w = Waiting (mg_nextChan m1)"
      "m' = m1\<lparr>mg_groups := AList.update gn (g\<lparr>gr_watchers := gr_watchers g @ [mg_nextChan m1]\<rparr>) (mg_groups m1), mg_nextChan := mg_nextChan m1 + 1\<rparr>"
proof -
  obtain m1 needed err where h: "heartbeatLocked now now' m gn mid gen = (m1, needed, err)" by (metis prod_cases3)
  show thesis
  proof (cases "err \<noteq> None \<or> needed \<or> maxWait \<le> 0 \<or> map_of (mg_groups m1) gn = None")
    case True
    with h assms show thesis by (intro that(1) [OF h]) (auto simp: HeartbeatWait_begin_def split: if_splits option.splits)
  next
    case False
    then obtain g where "map_of (mg_groups m1) gn = Some g" by auto
    with False h assms show thesis by (intro that(2) [of m1 g]) (auto simp: HeartbeatWait_begin_def Let_def)
  qed
qed

lemma begin_inv:
  assumes "groups_inv pf m" "HeartbeatWait_begin now now' m gn mid gen maxWait = (m', w)"
  shows "groups_inv pf m'"
  using assms(2)
proof (cases rule: begin_cases)
  case (1 m1 needed err)
  then show ?thesis using beat_inv [OF assms(1)] by blast
next
  case (2 m1 g)
  then show ?thesis using groups_inv_watchers [OF beat_inv [OF assms(1) 2(1)] 2(2)] by (simp add: groups_inv_def)
qed

lemma removeWatcher_inv: "groups_inv pf m \<Longrightarrow> groups_inv pf (removeWatcher m gn ch)"
  using groups_inv_watchers [of pf m gn] by (auto simp: removeWatcher_def groups_inv_def split: option.split)

lemma leave_cases:
  assumes "mg_Leave m gn mid = (m', res)"
  obtains "m' = m"
  | g where "map_of (mg_groups m) gn = Some g"
      "m' = m\<lparr>mg_groups := AList.delete gn (mg_groups m), mg_signalled := gr_watchers g @ mg_signalled m\<rparr>"
  | g P where "map_of (mg_groups m) gn = Some g"
      "m' = mg_put m gn (g\<lparr>gr_members := filter (\<lambda>(k, _). P k) (gr_members g),
         gr_assignments := filter (\<lambda>(k, _). P k) (gr_assignments g), gr_dirty := True, gr_watchers := []\<rparr>) (gr_watchers g @ mg_signalled m)"
proof (cases "map_of (mg_groups m) gn")
  case None
  with assms show thesis by (intro that(1)) (simp add: mg_Leave_def)
next
  case (Some g)
  show thesis
  proof (cases "map_of (gr_members g) mid = None \<or> AList.delete mid (gr_members g) = []")
    case True
    with Some assms show thesis
      by (cases "map_of (gr_members g) mid = None")
        (auto intro: that(1) that(2) simp: mg_Leave_def notifyWatchersLocked_def)
  next
    case False
    with Some assms show thesis
      by (intro that(3) [of g "\<lambda>k. mid \<noteq> k"])
        (auto simp: mg_Leave_def notifyWatchersLocked_def AList.delete_eq case_prod_beta)
  qed
qed

lemma leave_inv:
  assumes "groups_inv pf m" "mg_Leave m gn mid = (m', res)"
  shows "groups_inv pf m'"
  using assms(2)
proof (cases rule: leave_cases)
  case (2 g)
  then show ?thesis using assms(1) by (simp add: groups_inv_def)
next
  case (3 g P)
  then show ?thesis using assms(1) group_inv_remove [OF groups_inv_get [OF assms(1) 3(1)], of "[]" P] by simp
qed (use assms(1) in simp)

lemma delete_groups:
  "mg_Delete ops m gn = (m', res) \<Longrightarrow> mg_groups m' = AList.delete gn (mg_groups m) \<and> mg_signalled m' = mg_signalled m
     \<and> mg_nextChan m' = mg_nextChan m"
  by (auto simp: mg_Delete_def Let_def map_of_eq_None_iff split: if_splits prod.splits)

lemma commit_groups:
  "mg_Commit ops m gn t p off = (m', res) \<Longrightarrow> mg_groups m' = mg_groups m \<and> mg_signalled m' = mg_signalled m
     \<and> mg_nextChan m' = mg_nextChan m"
  by (auto simp: mg_Commit_def Let_def split: prod.splits)

lemma mstep_inv: "mstep ops pf c c' \<Longrightarrow> pf_total pf \<Longrightarrow> groups_inv pf (fst c) \<Longrightarrow> groups_inv pf (fst c')"
proof (induction rule: mstep.induct)
  case (delete m gn m' res ws del)
  then show ?case using delete_groups [OF delete(1)] by (simp add: groups_inv_def)
next
  case (commit m gn t p off m' res ws del)
  then show ?case using commit_groups [OF commit(1)] by (simp add: groups_inv_def)
qed (auto simp: mg_Heartbeat_def HeartbeatWait_timer_def HeartbeatWait_done_def HeartbeatWait_wake_def
    intro: join_inv beat_inv begin_inv removeWatcher_inv leave_inv split: if_splits)

lemma mreach_inv: "mreach ops pf c \<Longrightarrow> pf_total pf \<Longrightarrow> groups_inv pf (fst c)"
  by (induction rule: mreach.induct) (auto simp: groups_inv_def NewManager_def intro: mstep_inv [unfolded groups_inv_def])

section \<open>Long polls\<close>

text \<open>A change of a group that wakes every watcher it does not keep on an unchanged group.\<close>

definition watch_step :: "Group \<Rightarrow> nat list \<Rightarrow> Group \<Rightarrow> nat list \<Rightarrow> bool" where
  "watch_step g sig g' sig' \<longleftrightarrow> set sig \<subseteq> set sig' \<and>
     (\<forall>ch \<in> set (gr_watchers g). ch \<in> set sig' \<or>
        ch \<in> set (gr_watchers g') \<and> gr_generation g' = gr_generation g \<and> gr_dirty g' = gr_dirty g)"

lemma watch_step_refl: "watch_step g sig g sig"
  by (simp add: watch_step_def)

lemma watch_step_trans: "watch_step g sig g1 sig1 \<Longrightarrow> watch_step g1 sig1 g2 sig2 \<Longrightarrow> watch_step g sig g2 sig2"
  unfolding watch_step_def by (metis subset_iff)

lemma watch_step_notify: "watch_step g sig g' (gr_watchers g @ sig)"
  by (simp add: watch_step_def)

lemma watch_step_evict: "evictStaleLocked now timeout g sig = (g', sig', n) \<Longrightarrow> watch_step g sig g' sig'"
  by (erule evict_cases) (simp_all add: watch_step_refl watch_step_notify)

lemma watch_step_rebalance: "rebalanceLocked strategy pf g sig = Inr (g', sig') \<Longrightarrow> watch_step g sig g' sig'"
  by (auto simp: rebalanceLocked_def notifyWatchersLocked_def watch_step_def Let_def split: sum.splits)

definition wait_ok :: "'o Manager \<Rightarrow> string list \<Rightarrow> nat \<times> string \<times> int \<Rightarrow> bool" where
  "wait_ok m del w = (case w of (ch, gn, gen) \<Rightarrow>
     ch < mg_nextChan m \<and> (ch \<in> set (mg_signalled m) \<or> gn \<in> set del \<or>
       (\<exists>g. map_of (mg_groups m) gn = Some g \<and> ch \<in> set (gr_watchers g) \<and> gr_generation g = gen \<and> \<not> gr_dirty g)))"

definition waits_ok :: "'o config \<Rightarrow> bool" where
  "waits_ok c = (case c of (m, ws, del) \<Rightarrow> distinct (map fst ws) \<and> (\<forall>w \<in> set ws. wait_ok m del w))"

lemma wait_ok_put:
  assumes "wait_ok m del w" "map_of (mg_groups m) gn = Some g" "watch_step g (mg_signalled m) g' sig'"
  shows "wait_ok (mg_put m gn g' sig') del w"
  using assms by (auto simp: wait_ok_def mg_put_def watch_step_def update_conv' split: prod.splits)

lemma wait_ok_new:
  assumes "wait_ok m del w" "map_of (mg_groups m) gn = None" "set (mg_signalled m) \<subseteq> set sig'"
  shows "wait_ok (mg_put m gn g' sig') del w"
  using assms by (auto simp: wait_ok_def mg_put_def update_conv' split: prod.splits)

lemma wait_ok_join:
  assumes "wait_ok m del w" "mg_Join ops pf now now' fresh m gn mid0 topics = (m', res)"
  shows "wait_ok m' del w"
proof -
  define g where "g = (case map_of (mg_groups m) gn of Some g \<Rightarrow> g | None \<Rightarrow> empty_group gn)"
  have prep: "watch_step g (mg_signalled m) (join_prepare now mid topics g) (mg_signalled m)" for mid
    by (simp add: watch_step_def join_prepare_def)
  have put: "wait_ok (mg_put m gn g' sig') del w" if "watch_step g (mg_signalled m) g' sig'" for g' sig'
    using that wait_ok_put [OF assms(1)] wait_ok_new [OF assms(1)]
    by (cases "map_of (mg_groups m) gn") (auto simp: g_def watch_step_def [of _ _ _ sig'])
  note ev = watch_step_trans [OF prep watch_step_evict]
  from assms(2) show ?thesis
  proof (cases rule: join_cases)
    case (2 g' mid g1 sig1 n)
    then show ?thesis using put [OF ev [of now' "mg_sessionTimeout m" mid g1 sig1 n]] by (simp add: g_def)
  next
    case (3 g' mid g1 sig1 n g2 sig2)
    then show ?thesis
      using put [OF watch_step_trans [OF ev [of now' "mg_sessionTimeout m" mid g1 sig1 n] watch_step_rebalance]] by (simp add: g_def)
  next
    case (4 g' mid g1 sig1 n err)
    then show ?thesis using put [OF ev [of now' "mg_sessionTimeout m" mid g1 sig1 n]] by (simp add: g_def)
  qed (use assms(1) in simp)
qed

lemma wait_ok_beat:
  assumes "wait_ok m del w" "heartbeatLocked now now' m gn mid gen = (m', needed, err)"
  shows "wait_ok m' del w"
  using assms(2)
proof (cases rule: beat_cases)
  case (2 g mem g1 sig1 n)
  have "watch_step g (mg_signalled m) g1 sig1"
    using watch_step_evict [OF 2(3)] by (simp add: watch_step_def)
  then show ?thesis using wait_ok_put [OF assms(1) 2(1)] 2(4) by simp
qed (use assms(1) in simp)

lemma wait_ok_begin:
  assumes "wait_ok m del w" "HeartbeatWait_begin now now' m gn mid gen maxWait = (m', r)"
  shows "wait_ok m' del w"
  using assms(2)
proof (cases rule: begin_cases)
  case (2 m1 g)
  then show ?thesis using wait_ok_beat [OF assms(1) 2(1)] by (auto simp: wait_ok_def update_conv' split: prod.splits)
qed (use wait_ok_beat [OF assms(1)] in auto)

lemma begin_waiting:
  assumes "HeartbeatWait_begin now now' m gn mid gen maxWait = (m', Waiting ch)"
  shows "wait_ok m' del (ch, gn, gen)" "ch = mg_nextChan m"
  using assms
proof (atomize(full), cases rule: begin_cases)
  case (2 m1 g)
  from 2(1) obtain g1 where "map_of (mg_groups m1) gn = Some g1" "gr_generation g1 = gen" "\<not> gr_dirty g1" "mg_nextChan m1 = mg_nextChan m"
    by (rule beat_cases) (auto simp: mg_put_def update_conv')
  with 2 show "wait_ok m' del (ch, gn, gen) \<and> ch = mg_nextChan m" by (auto simp: wait_ok_def update_conv')
qed auto

lemma wait_ok_remove: "wait_ok m del w \<Longrightarrow> fst w \<noteq> ch \<Longrightarrow> wait_ok (removeWatcher m gn ch) del w"
  by (auto simp: wait_ok_def removeWatcher_def update_conv' in_set_remove1 split: prod.splits option.splits)

lemma wait_ok_leave:
  assumes "wait_ok m del w" "mg_Leave m gn mid = (m', res)"
  shows "wait_ok m' del w"
  using assms(2)
proof (cases rule: leave_cases)
  case (2 g)
  then show ?thesis using assms(1) by (auto simp: wait_ok_def delete_conv' split: prod.splits)
next
  case (3 g P)
  then show ?thesis using wait_ok_put [OF assms(1) 3(1) watch_step_notify] by simp
qed (use assms(1) in simp)

lemma wait_ok_delete: "wait_ok m del w \<Longrightarrow> mg_Delete ops m gn = (m', res) \<Longrightarrow> wait_ok m' (gn # del) w"
  using delete_groups [of ops m gn m' res] by (auto simp: wait_ok_def delete_conv' split: prod.splits)

lemma distinct_drop_wait: "distinct (map fst ws) \<Longrightarrow> distinct (map fst (drop_wait ch ws))"
  by (simp add: drop_wait_def distinct_map_filter)

lemma mstep_waits: "mstep ops pf c c' \<Longrightarrow> waits_ok c \<Longrightarrow> waits_ok c'"
proof (induction rule: mstep.induct)
  case (wait_blocks now now' m gn mid gen maxWait m' ch ws del)
  have "ch \<noteq> fst w" if "w \<in> set ws" for w
    using wait_blocks(2) that begin_waiting(2) [OF wait_blocks(1)] by (auto simp: waits_ok_def wait_ok_def)
  then show ?case using wait_blocks(2) begin_waiting(1) [OF wait_blocks(1)] wait_ok_begin [OF _ wait_blocks(1)] by (auto simp: waits_ok_def)
next
  case (wait_wake ch gn gen ws m m' needed err del)
  then show ?case by (auto simp: waits_ok_def HeartbeatWait_wake_def drop_wait_def distinct_map_filter split: if_splits)
next
  case (wait_timer ch gn gen ws m m' needed err del)
  then show ?case
    by (auto simp: waits_ok_def HeartbeatWait_timer_def distinct_drop_wait) (auto simp: drop_wait_def intro: wait_ok_remove)
next
  case (wait_done ch gn gen ws e m m' needed err del)
  then show ?case
    by (auto simp: waits_ok_def HeartbeatWait_done_def distinct_drop_wait) (auto simp: drop_wait_def intro: wait_ok_remove)
next
  case (commit m gn t p off m' res ws del)
  then show ?case using commit_groups [OF commit(1)] by (auto simp: waits_ok_def wait_ok_def)
qed (auto simp: waits_ok_def mg_Heartbeat_def intro: wait_ok_join wait_ok_beat wait_ok_begin wait_ok_leave wait_ok_delete)

lemma mreach_waits: "mreach ops pf c \<Longrightarrow> waits_ok c"
  by (induction rule: mreach.induct) (auto simp: waits_ok_def [of "(NewManager _ _ _, [], [])"] intro: mstep_waits)

section \<open>Properties\<close>

lemma aget_parts: "p \<in> set (aget m k) \<Longrightarrow> k \<in> fst ` set m \<and> p \<in> set (parts_of m)"
  by (cases "map_of m k") (force simp: aget_def parts_of_def dest: map_of_SomeD)+

lemma aget_disjoint:
  assumes "distinct (parts_of m)" "k \<noteq> k'" shows "set (aget m k) \<inter> set (aget m k') = {}"
  using assms(1)
proof (induction m)
  case (Cons x m)
  obtain j ps where x: "x = (j, ps)" by fastforce
  have "set ps \<inter> set (aget m i) = {}" for i using Cons.prems aget_parts [of _ m i] x by (fastforce simp: parts_of_def)
  with Cons x assms(2) show ?case by (auto simp: aget_Cons parts_of_def)
qed (simp add: aget_def)

lemma distinct_sub_mset: "distinct ys \<Longrightarrow> mset xs \<subseteq># mset ys \<Longrightarrow> distinct xs"
proof -
  assume d: "distinct ys" and "mset xs \<subseteq># mset ys"
  then obtain zs where "mset ys = mset (xs @ zs)" by (metis ex_mset mset_append subset_mset.add_diff_inverse)
  with d show "distinct xs" using mset_eq_imp_distinct_iff by fastforce
qed

lemma parts_owner:
  assumes "p \<in> set (parts_of m)" "distinct (map fst m)" shows "\<exists>k. p \<in> set (aget m k)"
proof -
  obtain k ps where "(k, ps) \<in> set m" "p \<in> set ps" using assms(1) by (auto simp: parts_of_def)
  then show ?thesis using assms(2) by (intro exI [of _ k]) (simp add: aget_def)
qed

lemma set_allPartitions:
  "allPartitions topics pf = Inr all \<Longrightarrow>
   set all = {pref t i |t i n. t \<in> set topics \<and> pf t = Inr n \<and> 0 \<le> i \<and> i < n}"
proof (induction topics arbitrary: all)
  case (Cons t ts)
  from Cons.prems obtain n rest where n: "pf t = Inr n" "allPartitions ts pf = Inr rest" "all = map (pref t) [0..n - 1] @ rest"
    by (auto split: sum.splits)
  have "set (map (pref t) [0..n - 1]) = {pref t i |i. 0 \<le> i \<and> i < n}" by auto
  with Cons.IH [OF n(2)] n show ?case by auto
qed simp


definition mos_ops :: "entries offset_ops" where
  "mos_ops = \<lparr>oo_Commit = mos_Commit, oo_Lookup = mos_Lookup, oo_List = mos_List, oo_DeleteGroup = mos_DeleteGroup\<rparr>"

text \<open>A sample run: one member joins and opens a long poll, then a second member joins.\<close>

definition sample_m1 :: "entries Manager" where
  "sample_m1 = fst (mg_Join mos_ops (\<lambda>_. Inr 2) 0 0 [] (NewManager [] 10 RangeStrategy) ''g'' ''a'' [''t''])"

definition sample_m2 :: "entries Manager" where
  "sample_m2 = fst (HeartbeatWait_begin 1 1 sample_m1 ''g'' ''a'' 1 5)"

definition sample_m3 :: "entries Manager" where
  "sample_m3 = fst (mg_Join mos_ops (\<lambda>_. Inr 2) 2 2 [] sample_m2 ''g'' ''b'' [''t''])"

lemma sample_reach: "mreach mos_ops (\<lambda>_. Inr 2) (sample_m3, [(0, ''g'', 1)], [])"
proof -
  have "mreach mos_ops (\<lambda>_. Inr 2) (sample_m1, [], [])"
    by (rule mreach.step [OF mreach.start], rule mstep.join) (simp add: sample_m1_def prod_eq_iff)
  moreover have "HeartbeatWait_begin 1 1 sample_m1 ''g'' ''a'' 1 5 = (sample_m2, Waiting 0)"
  proof -
    have "snd (HeartbeatWait_begin 1 1 sample_m1 ''g'' ''a'' 1 5) = Waiting 0" by code_simp
    then show ?thesis by (simp add: sample_m2_def prod_eq_iff)
  qed
  ultimately have "mreach mos_ops (\<lambda>_. Inr 2) (sample_m2, [(0, ''g'', 1)], [])"
    by (meson mreach.step mstep.wait_blocks)
  then show ?thesis
    by (rule mreach.step) (rule mstep.join, simp add: sample_m3_def prod_eq_iff)
qed

lemma sample_m3_eval:
  "map_option (\<lambda>g. (gr_generation g, gr_dirty g, map fst (gr_members g))) (map_of (mg_groups sample_m3) ''g'') = Some (2, False, [''a'', ''b''])"
  by code_simp


text \<open>
  C20: A long-poll heartbeat cannot miss a rebalance. In every reachable state, if the group of an
  outstanding long poll has left the generation the poll was made for, is waiting for a rebalance, or
  has dissolved, the poll can return at once with the order to rejoin. Only groups removed by the
  administrative delete are excepted.
\<close>

theorem long_poll_never_misses:
  assumes "mreach ops pf (m, ws, del)" "(ch, gn, gen) \<in> set ws" "gn \<notin> set del"
    and "case map_of (mg_groups m) gn of None \<Rightarrow> True | Some g \<Rightarrow> gr_generation g \<noteq> gen \<or> gr_dirty g"
  shows "HeartbeatWait_wake m ch = Some (m, True, None)"
  using mreach_waits [OF assms(1)] assms(2-4)
  by (auto simp: waits_ok_def wait_ok_def HeartbeatWait_wake_def)

lemma long_poll_never_misses_witness: "HeartbeatWait_wake sample_m3 0 = Some (sample_m3, True, None)"
proof -
  have "case map_of (mg_groups sample_m3) ''g'' of None \<Rightarrow> True | Some g \<Rightarrow> gr_generation g \<noteq> 1 \<or> gr_dirty g"
    using sample_m3_eval by auto
  from long_poll_never_misses [OF sample_reach _ _ this] show ?thesis by simp
qed

text \<open>
  The administrative delete of a group wakes nobody: an outstanding long poll keeps waiting and its
  timer ending tells the member that no rebalance is needed.
\<close>

theorem delete_leaves_long_poll:
  assumes "mg_Delete ops m gn = (m', res)" "ch \<notin> set (mg_signalled m)"
  shows "HeartbeatWait_wake m' ch = None \<and> map_of (mg_groups m') gn = None
    \<and> HeartbeatWait_timer m' gn ch = (m', False, None)"
  using delete_groups [OF assms(1)] assms(2)
  by (simp add: HeartbeatWait_wake_def HeartbeatWait_timer_def removeWatcher_def delete_conv')

lemma delete_leaves_long_poll_witness:
  "HeartbeatWait_wake (fst (mg_Delete mos_ops sample_m2 ''g'')) 0 = None"
proof -
  have "0 \<notin> set (mg_signalled sample_m2)" by code_simp
  from delete_leaves_long_poll [OF _ this, of mos_ops "''g''"] show ?thesis by (metis prod.collapse)
qed

text \<open>
  A join whose topic cannot be resolved fails but leaves the member in the group, so the same
  join, repeated after the topic has appeared, succeeds without a rebalance: the member is told
  generation 0 and no partitions, whatever partitions the topic now has.
\<close>

theorem failed_join_starves:
  assumes "map_of (mg_groups m) gn = None" "mid \<noteq> []" "pf t = Inl err"
    and "now1' - mg_sessionTimeout m \<le> now1" "now2' - mg_sessionTimeout m \<le> now2"
  shows "\<exists>m1 m2. mg_Join ops pf now1 now1' fresh m gn mid [t] = (m1, Inl err)
    \<and> mg_Join ops pf' now2 now2' fresh' m1 gn mid [t] = (m2, Inr \<lparr>jr_MemberID = mid, jr_Generation = 0, jr_Assignments = []\<rparr>)"
proof -
  have mt: "mergeTopics [] [t] = [t]" "mergeTopics [t] [t] = [t]" by (simp_all add: mergeTopics_def)
  have "strategy_assign s [mid] [t] pf [] = Inl err" for s
    using assms(3) by (cases s) (simp_all add: strategy_assign_def group_assign_def assignRoundRobin_def assignSticky_def)
  then show ?thesis using assms mt
    by (simp add: mg_Join_def evictStaleLocked_def rebalanceLocked_def mg_put_def update_conv' aget_def Let_def)
qed

lemma failed_join_starves_witness:
  "\<exists>m1 m2. mg_Join mos_ops (\<lambda>_. Inl ErrNotExist) 0 0 [] (NewManager [] 10 RangeStrategy) ''g'' ''a'' [''t''] = (m1, Inl ErrNotExist)
    \<and> mg_Join mos_ops (\<lambda>_. Inr 4) 1 1 [] m1 ''g'' ''a'' [''t''] = (m2, Inr \<lparr>jr_MemberID = ''a'', jr_Generation = 0, jr_Assignments = []\<rparr>)"
  using failed_join_starves [of "NewManager [] 10 RangeStrategy" "''g''" "''a''" "\<lambda>_. Inl ErrNotExist" "''t''" ErrNotExist 0 0 1 1
      mos_ops "[]" "\<lambda>_. Inr 4" "[]"] by (simp add: NewManager_def)

lemma lookup_offsets_mem:
  "lookup_offsets ops offs gn parts = Inr out \<Longrightarrow> a \<in> set out \<Longrightarrow>
   oo_Lookup ops offs gn (p_Topic (as_Partition a)) (p_Index (as_Partition a)) = Inr (as_CommittedOffset a)"
  by (induction parts arbitrary: out) (auto split: sum.splits)

lemma join_assignments:
  assumes "mg_Join ops pf now now' fresh m gn mid topics = (m', Inr jr)" "a \<in> set (jr_Assignments jr)"
  shows "oo_Lookup ops (mg_offsets m) gn (p_Topic (as_Partition a)) (p_Index (as_Partition a)) = Inr (as_CommittedOffset a)"
  using assms lookup_offsets_mem
  by (fastforce simp: mg_Join_def Let_def split: if_splits sum.splits prod.splits)

text \<open>
  A consumer resumes where its group committed: after a commit, a join that hands the partition to
  a member reports the committed offset for it.
\<close>

theorem join_resumes_at_commit:
  assumes "entries_inv (mg_offsets m)" "plain_key gn t p" "mg_Commit mos_ops m gn t p off = (m1, res)"
    and "mg_Join mos_ops pf now now' fresh m1 gn mid topics = (m2, Inr jr)"
    and "a \<in> set (jr_Assignments jr)" "as_Partition a = pref t p"
  shows "as_CommittedOffset a = off"
proof -
  have "mos_Lookup (mg_offsets m1) gn t p = Inr off"
    using mos.commit_then_lookup [OF assms(1,2), of off] assms(3) by (auto simp: mg_Commit_def mos_ops_def split: prod.splits)
  with join_assignments [OF assms(4,5)] assms(6) show ?thesis by (simp add: mos_ops_def pref_def)
qed

lemma join_resumes_at_commit_witness:
  "\<exists>m1 m2 jr. mg_Commit mos_ops (NewManager [] 10 StickyStrategy) ''g'' ''t'' 0 7 = (m1, Inr ())
    \<and> mg_Join mos_ops (\<lambda>_. Inr 1) 0 0 [] m1 ''g'' ''a'' [''t''] = (m2, Inr jr)
    \<and> jr_Assignments jr = [\<lparr>as_Partition = pref ''t'' 0, as_CommittedOffset = 7\<rparr>]"
proof -
  let ?c = "mg_Commit mos_ops (NewManager [] 10 StickyStrategy) ''g'' ''t'' 0 7"
  let ?j = "mg_Join mos_ops (\<lambda>_. Inr 1) 0 0 [] (fst ?c) ''g'' ''a'' [''t'']"
  have c: "?c = (fst ?c, Inr ())" by (simp add: mg_Commit_def mos_ops_def mos_Commit_def NewManager_def)
  have "case snd ?j of Inr jr \<Rightarrow> map as_Partition (jr_Assignments jr) = [pref ''t'' 0] | Inl _ \<Rightarrow> False" by code_simp
  then obtain jr where j: "?j = (fst ?j, Inr jr)" "map as_Partition (jr_Assignments jr) = [pref ''t'' 0]"
    by (auto simp: prod_eq_iff split: sum.splits)
  then obtain a where a: "jr_Assignments jr = [a]" "as_Partition a = pref ''t'' 0" by auto
  have "plain_key ''g'' ''t'' 0" "entries_inv (mg_offsets (NewManager [] 10 StickyStrategy))"
    by (simp_all add: plain_key_def NUL_def int32_ok_def entries_inv_def NewManager_def)
  from join_resumes_at_commit [OF this(2,1) c j(1) _ a(2)] a have "as_CommittedOffset a = 7" by simp
  with a have "jr_Assignments jr = [\<lparr>as_Partition = pref ''t'' 0, as_CommittedOffset = 7\<rparr>]" by (cases a) simp
  with c j(1) show ?thesis by blast
qed

end
