(* ===== verification/Cluster_Commands.thy ===== *)
theory Cluster_Commands
  imports Wire_Data
begin

text \<open>
  The payloads of Raft log entries, \<^verbatim>\<open>broker/internal/cluster/command.go\<close>: a kind byte and a body per command,
  with their encoders and decoders.
\<close>

section \<open>Commands\<close>

definition OffsetUnstamped :: int where
  "OffsetUnstamped = - 1"

definition CmdAppend :: byte where
  "CmdAppend = 1"

definition CmdCreateTopic :: byte where
  "CmdCreateTopic = 2"

definition CmdDeleteTopic :: byte where
  "CmdDeleteTopic = 3"

definition CmdUpdateTopicConfig :: byte where
  "CmdUpdateTopicConfig = 4"

record AppendCommand =
  ac_Topic :: string
  ac_Partition :: int
  ac_Offset :: int
  ac_Record :: Record

record CreateTopicCommand =
  cc_Name :: string
  cc_PartitionCount :: int
  cc_RetentionMs :: int
  cc_SegmentBytes :: int

record UpdateTopicConfigCommand =
  uc_Name :: string
  uc_RetentionMs :: int
  uc_SegmentBytes :: int

record DeleteTopicCommand =
  dc_Name :: string

section \<open>Encoders\<close>

definition appendString :: "bytes \<Rightarrow> string \<Rightarrow> bytes" where
  "appendString buf s = (buf @ be32 (uint32_len s)) @ bytes_of_string s"

definition EncodeAppend :: "AppendCommand \<Rightarrow> bytes" where
  "EncodeAppend c =
     (let buf = appendString [CmdAppend] (ac_Topic c);
          buf = buf @ be32 (uint32_of (ac_Partition c));
          buf = buf @ be64 (uint64_of (ac_Offset c));
          req = ProduceRequest_Encode \<lparr>pq_Topic = ac_Topic c, pq_Partition = ac_Partition c, pq_Record = ac_Record c\<rparr>
      in buf @ req)"

definition EncodeCreateTopic :: "CreateTopicCommand \<Rightarrow> bytes" where
  "EncodeCreateTopic c =
     (let buf = appendString [CmdCreateTopic] (cc_Name c);
          buf = buf @ be32 (uint32_of (cc_PartitionCount c));
          buf = buf @ be64 (uint64_of (cc_RetentionMs c))
      in buf @ be64 (uint64_of (cc_SegmentBytes c)))"

definition EncodeUpdateTopicConfig :: "UpdateTopicConfigCommand \<Rightarrow> bytes" where
  "EncodeUpdateTopicConfig c =
     (let buf = appendString [CmdUpdateTopicConfig] (uc_Name c);
          buf = buf @ be64 (uint64_of (uc_RetentionMs c))
      in buf @ be64 (uint64_of (uc_SegmentBytes c)))"

definition EncodeDeleteTopic :: "DeleteTopicCommand \<Rightarrow> bytes" where
  "EncodeDeleteTopic c = appendString [CmdDeleteTopic] (dc_Name c)"

section \<open>Decoders\<close>

definition readString :: "bytes \<Rightarrow> (string \<times> nat) result" where
  "readString b =
     (if length b < 4 then Inl (ErrNew ''cluster: short string'')
      else let n = Uint32 (sl b 0 4) in
        if word_of_nat (length b - 4) < n then Inl (ErrNew ''cluster: truncated string'')
        else if unat (4 + n) < 4 then Inl Panic
        else Inr (string_of_bytes (sl b 4 (unat (4 + n))), 4 + unat n))"

definition Decode :: "bytes \<Rightarrow> (byte \<times> bytes) result" where
  "Decode b = (if length b = 0 then Inl (ErrNew ''cluster: empty command'') else Inr (hd b, tl b))"

definition DecodeAppend :: "bytes \<Rightarrow> AppendCommand result" where
  "DecodeAppend body =
     (case readString body of
        Inl err \<Rightarrow> Inl (ErrWrap ''cluster: append topic'' err)
      | Inr (topic, n) \<Rightarrow>
          (let body = drop n body in
           if length body < 12 then Inl (ErrNew ''cluster: short append command'')
           else let part = int32_of (Uint32 (sl body 0 4));
                    offset = int64_of (Uint64 (sl body 4 12));
                    body = drop 12 body
                in case DecodeProduceRequest body of
                     Inl err \<Rightarrow> Inl (ErrWrap ''cluster: append record'' err)
                   | Inr req \<Rightarrow> Inr \<lparr>ac_Topic = topic, ac_Partition = part, ac_Offset = offset, ac_Record = pq_Record req\<rparr>))"

definition DecodeCreateTopic :: "bytes \<Rightarrow> CreateTopicCommand result" where
  "DecodeCreateTopic body =
     (case readString body of
        Inl err \<Rightarrow> Inl (ErrWrap ''cluster: create-topic name'' err)
      | Inr (name, n) \<Rightarrow>
          (let body = drop n body in
           if length body < 20 then Inl (ErrNew ''cluster: short create-topic command'')
           else Inr \<lparr>cc_Name = name, cc_PartitionCount = int32_of (Uint32 (sl body 0 4)),
                     cc_RetentionMs = int64_of (Uint64 (sl body 4 12)), cc_SegmentBytes = int64_of (Uint64 (sl body 12 20))\<rparr>))"

definition DecodeUpdateTopicConfig :: "bytes \<Rightarrow> UpdateTopicConfigCommand result" where
  "DecodeUpdateTopicConfig body =
     (case readString body of
        Inl err \<Rightarrow> Inl (ErrWrap ''cluster: update-topic name'' err)
      | Inr (name, n) \<Rightarrow>
          (let body = drop n body in
           if length body < 16 then Inl (ErrNew ''cluster: short update-topic command'')
           else Inr \<lparr>uc_Name = name, uc_RetentionMs = int64_of (Uint64 (sl body 0 8)),
                     uc_SegmentBytes = int64_of (Uint64 (sl body 8 16))\<rparr>))"

definition DecodeDeleteTopic :: "bytes \<Rightarrow> DeleteTopicCommand result" where
  "DecodeDeleteTopic body =
     (case readString body of
        Inl err \<Rightarrow> Inl (ErrWrap ''cluster: delete-topic name'' err)
      | Inr (name, _) \<Rightarrow> Inr \<lparr>dc_Name = name\<rparr>)"

section \<open>Round trips\<close>

lemma appendString_eq: "appendString buf s = buf @ encodeString [] s"
  by (simp add: appendString_def encodeString_def)

lemma readString_encode [codec_simps]:
  "buf32 (encodeString [] s @ rest) \<Longrightarrow> readString (encodeString [] s @ rest) = Inr (s, 4 + length s)"
  using decodeString_encode [of s rest] by (auto simp: readString_def decodeString_def Let_def split: if_splits)

lemma readString_all [codec_simps]: "buf32 (encodeString [] s) \<Longrightarrow> readString (encodeString [] s) = Inr (s, 4 + length s)"
  using readString_encode [of s "[]"] by simp

lemmas cmd_simps = wire_simps readString_encode readString_all appendString_eq

definition append_body :: "AppendCommand \<Rightarrow> bytes" where
  "append_body c = tl (EncodeAppend c)"

definition create_body :: "CreateTopicCommand \<Rightarrow> bytes" where
  "create_body c = tl (EncodeCreateTopic c)"

definition update_body :: "UpdateTopicConfigCommand \<Rightarrow> bytes" where
  "update_body c = tl (EncodeUpdateTopicConfig c)"

definition delete_body :: "DeleteTopicCommand \<Rightarrow> bytes" where
  "delete_body c = tl (EncodeDeleteTopic c)"

lemma Decode_commands [simp]:
  "Decode (EncodeAppend a) = Inr (CmdAppend, append_body a)"
  "Decode (EncodeCreateTopic c) = Inr (CmdCreateTopic, create_body c)"
  "Decode (EncodeUpdateTopicConfig u) = Inr (CmdUpdateTopicConfig, update_body u)"
  "Decode (EncodeDeleteTopic d) = Inr (CmdDeleteTopic, delete_body d)"
  by (simp_all add: Decode_def EncodeAppend_def EncodeCreateTopic_def EncodeUpdateTopicConfig_def EncodeDeleteTopic_def
      append_body_def create_body_def update_body_def delete_body_def appendString_def Let_def)

definition wf_AppendCommand :: "AppendCommand \<Rightarrow> bool" where
  "wf_AppendCommand c \<longleftrightarrow> int32_ok (ac_Partition c) \<and> int64_ok (ac_Offset c) \<and> wf_record (ac_Record c)"

interpretation AppendCommand: message_codec append_body DecodeAppend wf_AppendCommand
  "\<lambda>c. c\<lparr>ac_Record := norm_record (ac_Record c)\<rparr>"
proof
  fix c assume wf: "wf_AppendCommand c" and b: "buf32 (append_body c)"
  let ?req = "\<lparr>pq_Topic = ac_Topic c, pq_Partition = ac_Partition c, pq_Record = ac_Record c\<rparr>"
  have body: "append_body c = encodeString [] (ac_Topic c) @ be32 (uint32_of (ac_Partition c)) @ be64 (uint64_of (ac_Offset c))
      @ ProduceRequest_Encode ?req"
    by (simp add: append_body_def EncodeAppend_def appendString_eq Let_def)
  have "buf32 (ProduceRequest_Encode ?req)" using b unfolding body by (simp add: buf32_def)
  then have "DecodeProduceRequest (ProduceRequest_Encode ?req) = Inr (?req\<lparr>pq_Record := norm_record (ac_Record c)\<rparr>)"
    using ProduceRequest.Decode_Encode [of ?req] wf by (simp add: wf_ProduceRequest_def wf_AppendCommand_def)
  then show "DecodeAppend (append_body c) = Inr (c\<lparr>ac_Record := norm_record (ac_Record c)\<rparr>)"
    using wf b unfolding body
    by (cases c) (simp add: DecodeAppend_def readString_encode sl_def codec_simps wf_AppendCommand_def Let_def)
qed

interpretation CreateTopicCommand: message_codec create_body DecodeCreateTopic
  "\<lambda>c. int32_ok (cc_PartitionCount c) \<and> int64_ok (cc_RetentionMs c) \<and> int64_ok (cc_SegmentBytes c)" "\<lambda>c. c"
  by unfold_locales (simp add: create_body_def EncodeCreateTopic_def DecodeCreateTopic_def cmd_simps)

interpretation UpdateTopicConfigCommand: message_codec update_body DecodeUpdateTopicConfig
  "\<lambda>c. int64_ok (uc_RetentionMs c) \<and> int64_ok (uc_SegmentBytes c)" "\<lambda>c. c"
  by unfold_locales (simp add: update_body_def EncodeUpdateTopicConfig_def DecodeUpdateTopicConfig_def cmd_simps)

interpretation DeleteTopicCommand: message_codec delete_body DecodeDeleteTopic "\<lambda>_. True" "\<lambda>c. c"
  by unfold_locales (simp add: delete_body_def EncodeDeleteTopic_def DecodeDeleteTopic_def cmd_simps)

end
