(* ===== verification/Cluster_FSM.thy ===== *)
theory Cluster_FSM
  imports Cluster_Commands Topic_Registry Store_Properties
begin

text \<open>
  The replicated state machine of \<^verbatim>\<open>broker/internal/cluster/fsm.go\<close>, which applies committed log entries to
  the local store and topic registry, and the partition catch-up of \<^verbatim>\<open>broker/internal/cluster/sync.go\<close>. A
  snapshot document is represented by the topic list it encodes, none for the empty legacy snapshot.
\<close>

section \<open>State machine\<close>

text \<open>The dynamic value \<^verbatim>\<open>Apply\<close> returns: an error, an offset, or nil.\<close>

datatype fsm_resp = RespErr go_error | RespOffset int | RespNil

definition resp_of :: "unit result \<Rightarrow> fsm_resp" where
  "resp_of res = (case res of Inl err \<Rightarrow> RespErr err | Inr _ \<Rightarrow> RespNil)"

record 'st FSM =
  fm_store :: 'st
  fm_registry :: Registry

definition NewFSM :: "'st \<Rightarrow> Registry \<Rightarrow> 'st FSM" where
  "NewFSM st registry = \<lparr>fm_store = st, fm_registry = registry\<rparr>"

definition applyUpdateTopicConfig :: "'st FSM \<Rightarrow> bytes \<Rightarrow> 'st FSM \<times> fsm_resp" where
  "applyUpdateTopicConfig f body =
     (case DecodeUpdateTopicConfig body of
        Inl err \<Rightarrow> (f, RespErr err)
      | Inr cmd \<Rightarrow>
          (let (r, res) = reg_UpdateConfig (fm_registry f) (uc_Name cmd) (uc_RetentionMs cmd) (uc_SegmentBytes cmd)
           in (f\<lparr>fm_registry := r\<rparr>, resp_of res)))"

definition applyDeleteTopic :: "'st store_ops \<Rightarrow> 'st FSM \<Rightarrow> bytes \<Rightarrow> 'st FSM \<times> fsm_resp" where
  "applyDeleteTopic ops f body =
     (case DecodeDeleteTopic body of
        Inl err \<Rightarrow> (f, RespErr err)
      | Inr cmd \<Rightarrow>
          (let (r, _) = reg_Delete (fm_registry f) (dc_Name cmd);
               (st, res) = so_DeleteTopic ops None (fm_store f) (dc_Name cmd)
           in (f\<lparr>fm_registry := r, fm_store := st\<rparr>, resp_of res)))"

definition applyAppend :: "'st store_ops \<Rightarrow> int \<Rightarrow> 'st FSM \<Rightarrow> bytes \<Rightarrow> 'st FSM \<times> fsm_resp" where
  "applyAppend ops now f body =
     (case DecodeAppend body of
        Inl err \<Rightarrow> (f, RespErr err)
      | Inr cmd \<Rightarrow>
          (let p = \<lparr>p_Topic = ac_Topic cmd, p_Index = ac_Partition cmd\<rparr>;
               (st, covered) =
                 (if ac_Offset cmd \<noteq> OffsetUnstamped
                  then case so_HighWater ops None (fm_store f) p of
                         (st, Inr hw) \<Rightarrow> (st, ac_Offset cmd < hw)
                       | (st, Inl _) \<Rightarrow> (st, False)
                  else (fm_store f, False))
           in if covered then (f\<lparr>fm_store := st\<rparr>, RespOffset (ac_Offset cmd))
              else case so_Append ops None now st p (ac_Record cmd) of
                     (st, Inl err) \<Rightarrow> (f\<lparr>fm_store := st\<rparr>, RespErr err)
                   | (st, Inr off) \<Rightarrow> (f\<lparr>fm_store := st\<rparr>, RespOffset off)))"

definition applyCreateTopic :: "'st FSM \<Rightarrow> bytes \<Rightarrow> 'st FSM \<times> fsm_resp" where
  "applyCreateTopic f body =
     (case DecodeCreateTopic body of
        Inl err \<Rightarrow> (f, RespErr err)
      | Inr cmd \<Rightarrow>
          (case reg_Create (fm_registry f) \<lparr>sp_Name = cc_Name cmd, sp_PartitionCount = cc_PartitionCount cmd,
                  sp_RetentionMs = cc_RetentionMs cmd, sp_SegmentBytes = cc_SegmentBytes cmd\<rparr> of
             (r, Inl err) \<Rightarrow>
               (f\<lparr>fm_registry := r\<rparr>, case reg_Get r (cc_Name cmd) of Inr _ \<Rightarrow> RespNil | Inl _ \<Rightarrow> RespErr err)
           | (r, Inr _) \<Rightarrow> (f\<lparr>fm_registry := r\<rparr>, RespNil)))"

definition fsm_Apply :: "'st store_ops \<Rightarrow> int \<Rightarrow> 'st FSM \<Rightarrow> bytes \<Rightarrow> 'st FSM \<times> fsm_resp" where
  "fsm_Apply ops now f data =
     (case Decode data of
        Inl err \<Rightarrow> (f, RespErr err)
      | Inr (kind, body) \<Rightarrow>
          if kind = CmdAppend then applyAppend ops now f body
          else if kind = CmdCreateTopic then applyCreateTopic f body
          else if kind = CmdDeleteTopic then applyDeleteTopic ops f body
          else if kind = CmdUpdateTopicConfig then applyUpdateTopicConfig f body
          else (f, RespErr (ErrNew ''cluster: unknown command kind'')))"

type_synonym snapshot_doc = "TopicConfig list option"

definition fsm_Snapshot :: "'st FSM \<Rightarrow> snapshot_doc" where
  "fsm_Snapshot f = Some (reg_List (fm_registry f))"

definition fsm_Restore :: "'st FSM \<Rightarrow> snapshot_doc \<Rightarrow> 'st FSM \<times> unit result" where
  "fsm_Restore f doc =
     (case doc of
        None \<Rightarrow> (f, Inr ())
      | Some topics \<Rightarrow> (f\<lparr>fm_registry := Hydrate (fm_registry f) topics\<rparr>, Inr ()))"

section \<open>Catch-up from a peer\<close>

text \<open>
  \<open>events\<close> are what the \<^verbatim>\<open>select\<close> of the loop receives, in order: a record, the closing of the record
  channel, an error, the closing of the error channel, or the end of the context. The peer is the code
  behind \<^verbatim>\<open>SyncPeer\<close>: its answers are arguments. \<open>None\<close> is a loop still waiting.
\<close>

datatype sync_event = SyncRecord Record | SyncClosed | SyncError go_error | SyncErrClosed | SyncDone go_error

fun sync_loop :: "'st store_ops \<Rightarrow> int \<Rightarrow> PartitionRef \<Rightarrow> int \<Rightarrow> sync_event list \<Rightarrow> 'st \<Rightarrow> nat \<Rightarrow> ('st \<times> nat \<times> unit result) option" where
  "sync_loop ops now p target [] st appended = None"
| "sync_loop ops now p target (SyncRecord r # events) st appended =
     (case so_Append ops None now st p r of
        (st, Inl err) \<Rightarrow> Some (st, appended, Inl (ErrWrap ''cluster: local append'' err))
      | (st, Inr _) \<Rightarrow>
          (case so_HighWater ops None st p of
             (st, Inl err) \<Rightarrow> Some (st, appended + 1, Inl (ErrWrap ''cluster: local high-water'' err))
           | (st, Inr hw) \<Rightarrow>
               if target \<le> hw then Some (st, appended + 1, Inr ())
               else sync_loop ops now p target events st (appended + 1)))"
| "sync_loop ops now p target (SyncClosed # events) st appended = Some (st, appended, Inr ())"
| "sync_loop ops now p target (SyncError err # events) st appended =
     Some (st, appended, Inl (ErrWrap ''cluster: peer subscribe error'' err))"
| "sync_loop ops now p target (SyncErrClosed # events) st appended = sync_loop ops now p target events st appended"
| "sync_loop ops now p target (SyncDone err # events) st appended = Some (st, appended, Inl err)"

definition SyncPartitionFromPeer :: "'st store_ops \<Rightarrow> int \<Rightarrow> (PartitionRef \<Rightarrow> int result)
    \<Rightarrow> (PartitionRef \<Rightarrow> int \<Rightarrow> sync_event list result) \<Rightarrow> 'st \<Rightarrow> PartitionRef \<Rightarrow> ('st \<times> nat \<times> unit result) option" where
  "SyncPartitionFromPeer ops now peer_HighWater peer_Subscribe local p =
     (case peer_HighWater p of
        Inl err \<Rightarrow> Some (local, 0, Inl (ErrWrap ''cluster: peer high-water'' err))
      | Inr target \<Rightarrow>
          (case so_HighWater ops None local p of
             (local, Inl err) \<Rightarrow> Some (local, 0, Inl (ErrWrap ''cluster: local high-water'' err))
           | (local, Inr localHW) \<Rightarrow>
               if target \<le> localHW then Some (local, 0, Inr ())
               else case peer_Subscribe p localHW of
                      Inl err \<Rightarrow> Some (local, 0, Inl (ErrWrap ''cluster: subscribe peer'' err))
                    | Inr events \<Rightarrow> sync_loop ops now p target events local 0))"

section \<open>Refinement of an abstract state machine\<close>

type_synonym abstract_fsm = "(PartitionRef \<Rightarrow> Record list) \<times> (PartitionRef \<Rightarrow> int) \<times> (string \<times> TopicConfig) list"

definition bare :: "(string \<times> TopicConfig) list \<Rightarrow> Registry" where
  "bare topics = \<lparr>rg_topics = topics, rg_persist = None, rg_file = None\<rparr>"

lemma reg_topics_bare:
  "rg_topics (fst (reg_Create r spec)) = rg_topics (fst (reg_Create (bare (rg_topics r)) spec))"
  "rg_topics (fst (reg_UpdateConfig r n a b)) = rg_topics (fst (reg_UpdateConfig (bare (rg_topics r)) n a b))"
  "rg_topics (fst (reg_Delete r n)) = rg_topics (fst (reg_Delete (bare (rg_topics r)) n))"
  by (simp_all add: reg_Create_def reg_UpdateConfig_def reg_Delete_def bare_def Let_def split: option.split)

definition spec_append :: "(Record \<Rightarrow> Record) \<Rightarrow> int \<Rightarrow> AppendCommand \<Rightarrow> abstract_fsm \<Rightarrow> abstract_fsm" where
  "spec_append nrm now cmd a = (case a of (L, H, T) \<Rightarrow>
     let p = \<lparr>p_Topic = ac_Topic cmd, p_Index = ac_Partition cmd\<rparr> in
     if ac_Offset cmd \<noteq> OffsetUnstamped \<and> ac_Offset cmd < H p then (L, H, T)
     else (L(p := L p @ [nrm (stamp now (H p) (ac_Record cmd))]), H(p := H p + 1), T))"

definition spec_apply :: "(Record \<Rightarrow> Record) \<Rightarrow> int \<Rightarrow> bytes \<Rightarrow> abstract_fsm \<Rightarrow> abstract_fsm" where
  "spec_apply nrm now data a =
     (case Decode data of
        Inl _ \<Rightarrow> a
      | Inr (kind, body) \<Rightarrow>
          if kind = CmdAppend then (case DecodeAppend body of Inl _ \<Rightarrow> a | Inr cmd \<Rightarrow> spec_append nrm now cmd a)
          else if kind = CmdCreateTopic then
            (case DecodeCreateTopic body of Inl _ \<Rightarrow> a | Inr cmd \<Rightarrow> (case a of (L, H, T) \<Rightarrow>
               (L, H, rg_topics (fst (reg_Create (bare T) \<lparr>sp_Name = cc_Name cmd, sp_PartitionCount = cc_PartitionCount cmd,
                  sp_RetentionMs = cc_RetentionMs cmd, sp_SegmentBytes = cc_SegmentBytes cmd\<rparr>)))))
          else if kind = CmdDeleteTopic then
            (case DecodeDeleteTopic body of Inl _ \<Rightarrow> a | Inr cmd \<Rightarrow> (case a of (L, H, T) \<Rightarrow>
               ((\<lambda>p. if p_Topic p = dc_Name cmd then [] else L p), (\<lambda>p. if p_Topic p = dc_Name cmd then 0 else H p),
                rg_topics (fst (reg_Delete (bare T) (dc_Name cmd))))))
          else if kind = CmdUpdateTopicConfig then
            (case DecodeUpdateTopicConfig body of Inl _ \<Rightarrow> a | Inr cmd \<Rightarrow> (case a of (L, H, T) \<Rightarrow>
               (L, H, rg_topics (fst (reg_UpdateConfig (bare T) (uc_Name cmd) (uc_RetentionMs cmd) (uc_SegmentBytes cmd))))))
          else a)"

text \<open>The conditions under which the store takes a command; the append runs after the high-water query of a stamped one.\<close>

definition append_ok :: "'st store_ops \<Rightarrow> ('st \<Rightarrow> PartitionRef \<Rightarrow> Record \<Rightarrow> bool) \<Rightarrow> (PartitionRef \<Rightarrow> bool) \<Rightarrow> AppendCommand \<Rightarrow> 'st \<Rightarrow> bool" where
  "append_ok ops fits addressable cmd st =
     (let p = \<lparr>p_Topic = ac_Topic cmd, p_Index = ac_Partition cmd\<rparr>;
          st = (if ac_Offset cmd \<noteq> OffsetUnstamped then fst (so_HighWater ops None st p) else st)
      in addressable p \<and> fits st p (ac_Record cmd))"

definition cmd_ok :: "'st store_ops \<Rightarrow> ('st \<Rightarrow> PartitionRef \<Rightarrow> Record \<Rightarrow> bool) \<Rightarrow> (PartitionRef \<Rightarrow> bool) \<Rightarrow> bytes \<Rightarrow> 'st \<Rightarrow> bool" where
  "cmd_ok ops fits addressable data st =
     (case Decode data of
        Inl _ \<Rightarrow> True
      | Inr (kind, body) \<Rightarrow>
          if kind = CmdAppend then (case DecodeAppend body of Inl _ \<Rightarrow> True | Inr cmd \<Rightarrow> append_ok ops fits addressable cmd st)
          else if kind = CmdDeleteTopic then
            (case DecodeDeleteTopic body of Inl _ \<Rightarrow> True | Inr cmd \<Rightarrow> addressable \<lparr>p_Topic = dc_Name cmd, p_Index = 0\<rparr>)
          else True)"

lemma kinds_distinct [simp]:
  "CmdCreateTopic \<noteq> CmdAppend" "CmdDeleteTopic \<noteq> CmdAppend" "CmdUpdateTopicConfig \<noteq> CmdAppend"
  "CmdDeleteTopic \<noteq> CmdCreateTopic" "CmdUpdateTopicConfig \<noteq> CmdCreateTopic" "CmdUpdateTopicConfig \<noteq> CmdDeleteTopic"
  by (simp_all add: CmdAppend_def CmdCreateTopic_def CmdDeleteTopic_def CmdUpdateTopicConfig_def)

definition fsm_abs :: "('st \<Rightarrow> PartitionRef \<Rightarrow> Record list) \<Rightarrow> ('st \<Rightarrow> PartitionRef \<Rightarrow> int) \<Rightarrow> 'st FSM \<Rightarrow> abstract_fsm" where
  "fsm_abs log_of hw_of f = (log_of (fm_store f), hw_of (fm_store f), rg_topics (fm_registry f))"

context store
begin

lemma append_matches:
  assumes "inv (fm_store f)" "DecodeAppend body = Inr cmd" "append_ok ops fits addressable cmd (fm_store f)" "int64_ok now"
  shows "\<exists>f' off. applyAppend ops now f body = (f', RespOffset off) \<and> inv (fm_store f') \<and> fsm_abs log_of hw_of f' = spec_append nrm now cmd (fsm_abs log_of hw_of f)
    \<and> off = (if ac_Offset cmd \<noteq> OffsetUnstamped \<and> ac_Offset cmd < hw_of (fm_store f) \<lparr>p_Topic = ac_Topic cmd, p_Index = ac_Partition cmd\<rparr>
        then ac_Offset cmd else hw_of (fm_store f) \<lparr>p_Topic = ac_Topic cmd, p_Index = ac_Partition cmd\<rparr>)"
proof -
  let ?p = "\<lparr>p_Topic = ac_Topic cmd, p_Index = ac_Partition cmd\<rparr>"
  have p: "addressable ?p" using assms(3) by (simp add: append_ok_def Let_def)
  obtain st where hw: "so_HighWater ops None (fm_store f) ?p = (st, Inr (hw_of (fm_store f) ?p))" "inv st"
    "log_of st = log_of (fm_store f)" "hw_of st = hw_of (fm_store f)"
    using highwater_law [OF assms(1) p] by blast
  define st0 where "st0 = (if ac_Offset cmd \<noteq> OffsetUnstamped then st else fm_store f)"
  have st0: "inv st0" "log_of st0 = log_of (fm_store f)" "hw_of st0 = hw_of (fm_store f)" "fits st0 ?p (ac_Record cmd)"
    using hw assms(1,3) by (simp_all add: st0_def append_ok_def Let_def split: if_splits)
  from append_law [OF st0(1) p st0(4) assms(4)] obtain st1 where
    ap: "so_Append ops None now st0 ?p (ac_Record cmd) = (st1, Inr (hw_of st0 ?p))" "inv st1"
      "log_of st1 = (log_of st0)(?p := log_of st0 ?p @ [nrm (stamp now (hw_of st0 ?p) (ac_Record cmd))])"
      "hw_of st1 = (hw_of st0)(?p := hw_of st0 ?p + 1)" by blast
  show ?thesis
  proof (cases "ac_Offset cmd \<noteq> OffsetUnstamped \<and> ac_Offset cmd < hw_of (fm_store f) ?p")
    case True
    then show ?thesis using assms(2) hw by (simp add: applyAppend_def spec_append_def fsm_abs_def Let_def)
  next
    case False
    then have "applyAppend ops now f body = (f\<lparr>fm_store := st1\<rparr>, RespOffset (hw_of st0 ?p))"
      using assms(2) hw(1) ap(1) by (auto simp: applyAppend_def st0_def Let_def)
    with False ap st0 show ?thesis by (auto simp: spec_append_def fsm_abs_def Let_def)
  qed
qed

lemma apply_matches:
  assumes "inv (fm_store f)" "cmd_ok ops fits addressable data (fm_store f)" "int64_ok now"
  shows "\<exists>f' resp. fsm_Apply ops now f data = (f', resp) \<and> inv (fm_store f') \<and> fsm_abs log_of hw_of f' = spec_apply nrm now data (fsm_abs log_of hw_of f)"
proof (cases "Decode data")
  case (Inl err)
  then show ?thesis using assms(1) by (simp add: fsm_Apply_def spec_apply_def)
next
  case (Inr kb)
  then obtain kind body where d: "Decode data = Inr (kind, body)" by (cases kb) simp
  consider "kind = CmdAppend" | "kind = CmdCreateTopic" | "kind = CmdDeleteTopic" | "kind = CmdUpdateTopicConfig"
    | "kind \<noteq> CmdAppend" "kind \<noteq> CmdCreateTopic" "kind \<noteq> CmdDeleteTopic" "kind \<noteq> CmdUpdateTopicConfig" by blast
  then show ?thesis
  proof cases
    case 1
    show ?thesis
    proof (cases "DecodeAppend body")
      case (Inl err)
      then show ?thesis using d 1 assms(1) by (simp add: fsm_Apply_def spec_apply_def applyAppend_def)
    next
      case (Inr cmd)
      then show ?thesis using d 1 append_matches [OF assms(1) Inr _ assms(3)] assms(2)
        by (auto simp: fsm_Apply_def spec_apply_def cmd_ok_def)
    qed
  next
    case 2
    then show ?thesis using d assms(1) reg_topics_bare(1) [of "fm_registry f"]
      by (auto simp: fsm_Apply_def spec_apply_def applyCreateTopic_def fsm_abs_def split: sum.splits prod.splits) (metis fst_conv)+
  next
    case 3
    then show ?thesis using d assms(1,2) delete_law [OF assms(1)] reg_topics_bare(3) [of "fm_registry f"]
      by (fastforce simp: fsm_Apply_def spec_apply_def applyDeleteTopic_def fsm_abs_def cmd_ok_def case_prod_beta split: sum.splits)
  next
    case 4
    then show ?thesis using d assms(1) reg_topics_bare(2) [of "fm_registry f"]
      by (simp add: fsm_Apply_def spec_apply_def applyUpdateTopicConfig_def fsm_abs_def case_prod_beta split: sum.splits)
  next
    case 5
    then show ?thesis using d assms(1) by (simp add: fsm_Apply_def spec_apply_def)
  qed
qed

end

end
