(* ===== verification/Cluster_Props.thy ===== *)
theory Cluster_Props
  imports Cluster_FSM
begin

text \<open>
  Properties of replication: command round trips, convergence of replicas that apply the same log, what
  a replay of the log does, snapshots, and catch-up from a peer.
\<close>

section \<open>Runs\<close>

fun fsm_run :: "'st store_ops \<Rightarrow> (int \<times> bytes) list \<Rightarrow> 'st FSM \<Rightarrow> 'st FSM" where
  "fsm_run ops [] f = f"
| "fsm_run ops ((now, data) # entries) f = fsm_run ops entries (fst (fsm_Apply ops now f data))"

fun fsm_run_ok :: "'st store_ops \<Rightarrow> ('st \<Rightarrow> PartitionRef \<Rightarrow> Record \<Rightarrow> bool) \<Rightarrow> (PartitionRef \<Rightarrow> bool) \<Rightarrow> (int \<times> bytes) list
    \<Rightarrow> 'st FSM \<Rightarrow> bool" where
  "fsm_run_ok ops fits addressable [] f = True"
| "fsm_run_ok ops fits addressable ((now, data) # entries) f \<longleftrightarrow> int64_ok now \<and> cmd_ok ops fits addressable data (fm_store f)
     \<and> fsm_run_ok ops fits addressable entries (fst (fsm_Apply ops now f data))"

fun spec_fsm_run :: "(Record \<Rightarrow> Record) \<Rightarrow> (int \<times> bytes) list \<Rightarrow> abstract_fsm \<Rightarrow> abstract_fsm" where
  "spec_fsm_run nrm [] a = a"
| "spec_fsm_run nrm ((now, data) # entries) a = spec_fsm_run nrm entries (spec_apply nrm now data a)"

context store
begin

lemma fsm_run_matches:
  assumes "inv (fm_store f)" "fsm_run_ok ops fits addressable entries f"
  shows "inv (fm_store (fsm_run ops entries f)) \<and> fsm_abs log_of hw_of (fsm_run ops entries f) = spec_fsm_run nrm entries (fsm_abs log_of hw_of f)"
  using assms
proof (induction entries arbitrary: f)
  case (Cons e entries)
  obtain now data where e: "e = (now, data)" by fastforce
  from apply_matches [OF Cons.prems(1), of data now] Cons.prems(2) e obtain f' resp where
    "fsm_Apply ops now f data = (f', resp)" "inv (fm_store f')" "fsm_abs log_of hw_of f' = spec_apply nrm now data (fsm_abs log_of hw_of f)"
    by auto
  with Cons.IH [of f'] Cons.prems(2) e show ?case by simp
qed simp

end

text \<open>The record of an append entry carries its own timestamp.\<close>

definition timestamped :: "bytes \<Rightarrow> bool" where
  "timestamped data =
     (case Decode data of
        Inr (kind, body) \<Rightarrow>
          (kind = CmdAppend \<longrightarrow> (case DecodeAppend body of Inr cmd \<Rightarrow> r_Timestamp (ac_Record cmd) \<noteq> 0 | Inl _ \<Rightarrow> True))
      | Inl _ \<Rightarrow> True)"

lemma spec_apply_clock: "timestamped data \<Longrightarrow> spec_apply nrm now data a = spec_apply nrm now' data a"
  by (auto simp: spec_apply_def timestamped_def spec_append_def stamp_def Let_def split: sum.splits prod.splits)

lemma spec_run_clock:
  "map snd es = map snd es' \<Longrightarrow> list_all timestamped (map snd es) \<Longrightarrow> spec_fsm_run nrm es a = spec_fsm_run nrm es' a"
proof (induction es arbitrary: es' a)
  case (Cons e es)
  obtain now data where e: "e = (now, data)" by fastforce
  then obtain now' rest where "es' = (now', data) # rest" "map snd es = map snd rest" using Cons.prems(1) by (cases es') auto
  with Cons e show ?case using spec_apply_clock [of data nrm now a now'] by simp
qed simp

section \<open>Catch-up\<close>

primrec sync_fits :: "'st store_ops \<Rightarrow> ('st \<Rightarrow> PartitionRef \<Rightarrow> Record \<Rightarrow> bool) \<Rightarrow> int \<Rightarrow> PartitionRef \<Rightarrow> Record list \<Rightarrow> 'st \<Rightarrow> bool" where
  "sync_fits ops fits now p [] st = True"
| "sync_fits ops fits now p (r # rs) st \<longleftrightarrow> fits st p r
     \<and> sync_fits ops fits now p rs (fst (so_HighWater ops None (fst (so_Append ops None now st p r)) p))"

text \<open>Records as a store numbers them: consecutive offsets from \<open>off\<close> on, each with a timestamp.\<close>

definition numbered :: "int \<Rightarrow> Record list \<Rightarrow> bool" where
  "numbered off rs \<longleftrightarrow> map r_Offset rs = map (\<lambda>i. off + int i) [0..<length rs] \<and> list_all (\<lambda>r. r_Timestamp r \<noteq> 0) rs"

lemma numbered_Cons: "numbered off (r # rs) \<longleftrightarrow> r_Offset r = off \<and> r_Timestamp r \<noteq> 0 \<and> numbered (off + 1) rs"
proof -
  have "map (\<lambda>i. off + int i) [0..<length (r # rs)] = off # map (\<lambda>i. off + 1 + int i) [0..<length rs]"
    by (simp add: upt_conv_Cons map_Suc_upt [symmetric] o_def del: upt_Suc)
  then show ?thesis by (auto simp: numbered_def)
qed

lemma stamp_numbered: "r_Offset r = off \<Longrightarrow> r_Timestamp r \<noteq> 0 \<Longrightarrow> stamp now off r = r"
  by (cases r) (simp add: stamp_def)

context store
begin

lemma sync_step:
  assumes "inv st" "addressable p" "int64_ok now" "fits st p r" "numbered (hw_of st p) (r # rs)"
  shows "\<exists>st'. sync_loop ops now p target (SyncRecord r # events) st n =
      (if target \<le> hw_of st p + 1 then Some (st', n + 1, Inr ()) else sync_loop ops now p target events st' (n + 1))
    \<and> st' = fst (so_HighWater ops None (fst (so_Append ops None now st p r)) p)
    \<and> inv st' \<and> log_of st' p = log_of st p @ [nrm r] \<and> hw_of st' p = hw_of st p + 1"
proof -
  have "stamp now (hw_of st p) r = r" using assms(5) stamp_numbered by (simp add: numbered_Cons)
  with append_law [OF assms(1,2,4,3)] obtain st1 where
    a: "so_Append ops None now st p r = (st1, Inr (hw_of st p))" "inv st1" "log_of st1 p = log_of st p @ [nrm r]" "hw_of st1 p = hw_of st p + 1"
    by auto
  from highwater_law [OF a(2) assms(2)] obtain st2 where
    "so_HighWater ops None st1 p = (st2, Inr (hw_of st1 p))" "inv st2" "log_of st2 = log_of st1" "hw_of st2 = hw_of st1" by blast
  with a show ?thesis by simp
qed

lemma sync_copies:
  assumes "inv st" "addressable p" "int64_ok now" "rs \<noteq> []" "numbered (hw_of st p) rs" "sync_fits ops fits now p rs st"
    and "target = hw_of st p + int (length rs)"
  shows "\<exists>st'. sync_loop ops now p target (map SyncRecord rs @ later) st n = Some (st', n + length rs, Inr ())
    \<and> inv st' \<and> log_of st' p = log_of st p @ map nrm rs \<and> hw_of st' p = target"
  using assms
proof (induction rs arbitrary: st n)
  case (Cons r rs)
  have "fits st p r" using Cons.prems(6) by simp
  from sync_step [OF Cons.prems(1-3) this Cons.prems(5), of target "map SyncRecord rs @ later" n] obtain st' where
    s: "sync_loop ops now p target (SyncRecord r # map SyncRecord rs @ later) st n =
        (if target \<le> hw_of st p + 1 then Some (st', n + 1, Inr ()) else sync_loop ops now p target (map SyncRecord rs @ later) st' (n + 1))"
      "st' = fst (so_HighWater ops None (fst (so_Append ops None now st p r)) p)"
      "inv st'" "log_of st' p = log_of st p @ [nrm r]" "hw_of st' p = hw_of st p + 1" by blast
  show ?case
  proof (cases rs)
    case Nil
    with s Cons.prems(7) show ?thesis by simp
  next
    case c: (Cons r' rs')
    have "numbered (hw_of st' p) rs" using Cons.prems(5) s(5) by (simp add: numbered_Cons)
    moreover have "sync_fits ops fits now p rs st'" using Cons.prems(6) s(2) by simp
    ultimately show ?thesis
      using Cons.IH [of st' "n + 1"] s Cons.prems(2,3,7) c by auto
  qed
qed simp

end

section \<open>Properties\<close>


lemma mem_apply_append:
  assumes "wf_AppendCommand cmd" "buf32 (append_body cmd)" "p = \<lparr>p_Topic = ac_Topic cmd, p_Index = ac_Partition cmd\<rparr>"
  shows "fsm_Apply memory_ops now f (EncodeAppend cmd) =
    (if ac_Offset cmd \<noteq> OffsetUnstamped \<and> ac_Offset cmd < mem_hw (fm_store f) p then (f, RespOffset (ac_Offset cmd))
     else (f\<lparr>fm_store := AList.update p (mem_log (fm_store f) p @ [stamp now (mem_hw (fm_store f) p) (norm_record (ac_Record cmd))]) (fm_store f)\<rparr>,
           RespOffset (mem_hw (fm_store f) p)))"
proof -
  have "DecodeAppend (append_body cmd) = Inr (cmd\<lparr>ac_Record := norm_record (ac_Record cmd)\<rparr>)"
    using AppendCommand.Decode_Encode [OF assms(1,2)] .
  moreover have "mem_HighWater None s p = (s, Inr (mem_hw s p))" for s
    by (simp add: mem_HighWater_def mem_get_def mem_hw_def mem_log_def split: option.split)
  ultimately show ?thesis
    using assms(3) by (simp add: fsm_Apply_def applyAppend_def memory_ops_def mem_Append_run Let_def)
qed

definition sample_record :: "int \<Rightarrow> Record" where
  "sample_record ts = \<lparr>r_Offset = 0, r_Timestamp = ts, r_Key = None, r_Value = Some [1], r_Headers = []\<rparr>"

definition sample_cmd :: "int \<Rightarrow> AppendCommand" where
  "sample_cmd ts = \<lparr>ac_Topic = ''t'', ac_Partition = 0, ac_Offset = OffsetUnstamped, ac_Record = sample_record ts\<rparr>"

lemma sample_cmd_wf: "int64_ok ts \<Longrightarrow> wf_AppendCommand (sample_cmd ts)" "buf32 (append_body (sample_cmd ts))"
  by (simp_all add: sample_cmd_def sample_record_def wf_AppendCommand_def wf_record_def append_body_def EncodeAppend_def appendString_eq
      ProduceRequest_Encode_def encodeString_append buf32_def int32_ok_def int64_ok_def OffsetUnstamped_def Let_def)
    (simp add: encodeRecord_def encodeBytes_def encodeString_def be32_def be64_def)

lemma sample_record_fits: "int64_ok ts \<Longrightarrow> frame_fits (stamp now off (sample_record ts))" if "int64_ok now" "int64_ok off" for now off
  using that by (simp add: frame_fits_def wf_record_def buf32_def sample_record_def length_encodeRecord)


text \<open>
  What the publishing broker leaves open, the replicas fill in differently: a replicated record
  without a timestamp gets each replica's own clock, so the logs differ although both report the same offset.
\<close>

theorem replica_clocks_diverge:
  assumes "wf_AppendCommand cmd" "buf32 (append_body cmd)" "r_Timestamp (ac_Record cmd) = 0" "now1 \<noteq> now2"
    and "ac_Offset cmd = OffsetUnstamped" "p = \<lparr>p_Topic = ac_Topic cmd, p_Index = ac_Partition cmd\<rparr>"
    and "fsm_Apply memory_ops now1 f (EncodeAppend cmd) = (f1, res1)" "fsm_Apply memory_ops now2 f (EncodeAppend cmd) = (f2, res2)"
  shows "res1 = res2 \<and> mem_log (fm_store f1) p \<noteq> mem_log (fm_store f2) p"
proof -
  let ?r = "\<lambda>now. stamp now (mem_hw (fm_store f) p) (norm_record (ac_Record cmd))"
  have "?r now1 \<noteq> ?r now2"
  proof
    assume "?r now1 = ?r now2"
    then have "r_Timestamp (?r now1) = r_Timestamp (?r now2)" by simp
    then show False using assms(3,4) by simp
  qed
  moreover have "mem_log (fm_store f1) p = mem_log (fm_store f) p @ [?r now1]" "mem_log (fm_store f2) p = mem_log (fm_store f) p @ [?r now2]"
    "res1 = res2"
    using assms(5,7,8) mem_apply_append [OF assms(1,2,6)] by (auto simp: mem_log_update)
  ultimately show ?thesis by simp
qed

lemma replica_clocks_diverge_witness:
  "mem_log (fm_store (fst (fsm_Apply memory_ops 1 (NewFSM [] (NewRegistry None)) (EncodeAppend (sample_cmd 0))))) \<lparr>p_Topic = ''t'', p_Index = 0\<rparr>
   \<noteq> mem_log (fm_store (fst (fsm_Apply memory_ops 2 (NewFSM [] (NewRegistry None)) (EncodeAppend (sample_cmd 0))))) \<lparr>p_Topic = ''t'', p_Index = 0\<rparr>"
proof -
  have wf: "wf_AppendCommand (sample_cmd 0)" "buf32 (append_body (sample_cmd 0))" by (simp_all add: sample_cmd_wf int64_ok_def)
  obtain f1 res1 f2 res2 where run: "fsm_Apply memory_ops 1 (NewFSM [] (NewRegistry None)) (EncodeAppend (sample_cmd 0)) = (f1, res1)"
    "fsm_Apply memory_ops 2 (NewFSM [] (NewRegistry None)) (EncodeAppend (sample_cmd 0)) = (f2, res2)" by (metis prod.collapse)
  from replica_clocks_diverge [OF wf _ _ _ refl run] run show ?thesis by (simp add: sample_cmd_def sample_record_def)
qed

text \<open>
  Replaying a log entry onto a store that already has its record is harmless only for stamped
  entries. Applied twice, an entry stamped with the next offset adds one record and answers that offset
  both times; the unstamped entries that brokers write add the record again.
\<close>

theorem replay_needs_stamped_offsets:
  assumes "wf_AppendCommand cmd" "buf32 (append_body cmd)" "p = \<lparr>p_Topic = ac_Topic cmd, p_Index = ac_Partition cmd\<rparr>"
    and "ac_Offset cmd \<in> {OffsetUnstamped, mem_hw (fm_store f) p}"
    and "fsm_Apply memory_ops now1 f (EncodeAppend cmd) = (f1, res1)" "fsm_Apply memory_ops now2 f1 (EncodeAppend cmd) = (f2, res2)"
  shows "length (mem_log (fm_store f2) p) = length (mem_log (fm_store f) p) + (if ac_Offset cmd = OffsetUnstamped then 2 else 1)
    \<and> res1 = RespOffset (mem_hw (fm_store f) p)
    \<and> (ac_Offset cmd \<noteq> OffsetUnstamped \<longrightarrow> f2 = f1 \<and> res2 = res1)"
proof -
  let ?st = "\<lambda>f now. f\<lparr>fm_store := AList.update p (mem_log (fm_store f) p @ [stamp now (mem_hw (fm_store f) p) (norm_record (ac_Record cmd))]) (fm_store f)\<rparr>"
  note run = mem_apply_append [OF assms(1-3)]
  have f1: "f1 = ?st f now1" "res1 = RespOffset (mem_hw (fm_store f) p)" using assms(4,5) run [of now1 f] by (auto split: if_splits)
  have hw: "mem_hw (fm_store f1) p = mem_hw (fm_store f) p + 1" by (simp add: f1 mem_hw_def mem_log_update)
  show ?thesis
  proof (cases "ac_Offset cmd = OffsetUnstamped")
    case True
    then have "f2 = ?st f1 now2" using assms(6) run [of now2 f1] by simp
    with True f1 show ?thesis by (simp add: mem_log_update)
  next
    case False
    then have "f2 = f1" "res2 = res1" using assms(4,6) run [of now2 f1] hw f1(2) by auto
    with False f1 show ?thesis by (simp add: mem_log_update)
  qed
qed

lemma replay_needs_stamped_offsets_witness:
  "\<exists>f1 res1 f2 res2. fsm_Apply memory_ops 1 (NewFSM [] (NewRegistry None)) (EncodeAppend (sample_cmd 0)) = (f1, res1)
    \<and> fsm_Apply memory_ops 2 f1 (EncodeAppend (sample_cmd 0)) = (f2, res2) \<and> length (mem_log (fm_store f2) \<lparr>p_Topic = ''t'', p_Index = 0\<rparr>) = 2"
proof -
  have wf: "wf_AppendCommand (sample_cmd 0)" "buf32 (append_body (sample_cmd 0))" by (simp_all add: sample_cmd_wf int64_ok_def)
  let ?f = "NewFSM [] (NewRegistry None)"
  obtain f1 res1 where 1: "fsm_Apply memory_ops 1 ?f (EncodeAppend (sample_cmd 0)) = (f1, res1)" by (metis prod.collapse)
  obtain f2 res2 where 2: "fsm_Apply memory_ops 2 f1 (EncodeAppend (sample_cmd 0)) = (f2, res2)" by (metis prod.collapse)
  from replay_needs_stamped_offsets [OF wf refl _ 1 2] 1 2 show ?thesis
    by (simp add: sample_cmd_def NewFSM_def mem_log_def)
qed

text \<open>
  Every Raft command decodes to what was encoded: the kind byte selects the decoder, and the
  decoder returns the command, with nil and empty slices of a record identified.
\<close>

theorem commands_roundtrip:
  assumes "wf_AppendCommand a" "buf32 (append_body a)"
    and "int32_ok (cc_PartitionCount c)" "int64_ok (cc_RetentionMs c)" "int64_ok (cc_SegmentBytes c)" "buf32 (create_body c)"
    and "int64_ok (uc_RetentionMs u)" "int64_ok (uc_SegmentBytes u)" "buf32 (update_body u)" "buf32 (delete_body d)"
  shows "(\<exists>body. Decode (EncodeAppend a) = Inr (CmdAppend, body) \<and> DecodeAppend body = Inr (a\<lparr>ac_Record := norm_record (ac_Record a)\<rparr>))
    \<and> (\<exists>body. Decode (EncodeCreateTopic c) = Inr (CmdCreateTopic, body) \<and> DecodeCreateTopic body = Inr c)
    \<and> (\<exists>body. Decode (EncodeUpdateTopicConfig u) = Inr (CmdUpdateTopicConfig, body) \<and> DecodeUpdateTopicConfig body = Inr u)
    \<and> (\<exists>body. Decode (EncodeDeleteTopic d) = Inr (CmdDeleteTopic, body) \<and> DecodeDeleteTopic body = Inr d)"
  using assms AppendCommand.Decode_Encode CreateTopicCommand.Decode_Encode UpdateTopicConfigCommand.Decode_Encode
    DeleteTopicCommand.Decode_Encode by simp

lemma commands_roundtrip_witness:
  "\<exists>body. Decode (EncodeCreateTopic \<lparr>cc_Name = ''t'', cc_PartitionCount = 3, cc_RetentionMs = - 1, cc_SegmentBytes = 7\<rparr>)
     = Inr (CmdCreateTopic, body)
   \<and> DecodeCreateTopic body = Inr \<lparr>cc_Name = ''t'', cc_PartitionCount = 3, cc_RetentionMs = - 1, cc_SegmentBytes = 7\<rparr>"
proof -
  let ?c = "\<lparr>cc_Name = ''t'', cc_PartitionCount = 3, cc_RetentionMs = - 1, cc_SegmentBytes = 7\<rparr>"
  let ?u = "\<lparr>uc_Name = ''t'', uc_RetentionMs = 0, uc_SegmentBytes = 0\<rparr>" and ?d = "\<lparr>dc_Name = ''t''\<rparr>"
  have b: "buf32 (create_body ?c)" "buf32 (update_body ?u)" "buf32 (delete_body ?d)"
    by (simp_all add: buf32_def create_body_def EncodeCreateTopic_def update_body_def EncodeUpdateTopicConfig_def
        delete_body_def EncodeDeleteTopic_def appendString_def Let_def)
  have "wf_AppendCommand (sample_cmd 0)" by (simp add: sample_cmd_wf int64_ok_def)
  from commands_roundtrip [OF this sample_cmd_wf(2) _ _ _ b(1) _ _ b(2,3)] show ?thesis
    by (simp add: int32_ok_def int64_ok_def)
qed

text \<open>
  A follower restored from a snapshot knows exactly the topics of the node that took it, and keeps
  its own records. The legacy empty snapshot changes nothing.
\<close>

theorem snapshot_restore:
  assumes "reg_inv (fm_registry f)"
  shows "\<exists>g'. fsm_Restore g (fsm_Snapshot f) = (g', Inr ()) \<and> rg_topics (fm_registry g') = rg_topics (fm_registry f)
    \<and> fm_store g' = fm_store g \<and> fsm_Restore g None = (g, Inr ())"
proof -
  have "distinct (map fst (rg_topics (fm_registry f)))" "\<forall>(n, cfg) \<in> set (rg_topics (fm_registry f)). tc_Name cfg = n"
    using assms by (auto simp: reg_inv_def all_entries_def topic_ok_def list_all_iff)
  from hydrate_snapshot [OF this] show ?thesis by (simp add: fsm_Restore_def fsm_Snapshot_def Hydrate_def reg_List_def)
qed

lemma snapshot_restore_witness:
  "\<exists>g'. fsm_Restore (NewFSM () (NewRegistry None))
       (fsm_Snapshot (NewFSM () (fst (reg_Create (NewRegistry None) \<lparr>sp_Name = ''t'', sp_PartitionCount = 2, sp_RetentionMs = 0, sp_SegmentBytes = 0\<rparr>))))
     = (g', Inr ()) \<and> PartitionsFor (fm_registry g') ''t'' = Inr 2"
proof -
  let ?spec = "\<lparr>sp_Name = ''t'', sp_PartitionCount = 2, sp_RetentionMs = 0, sp_SegmentBytes = 0\<rparr>"
  let ?r = "fst (reg_Create (NewRegistry None) ?spec)"
  have "nameRe ''t''" by code_simp
  then have t: "rg_topics ?r = [(''t'', \<lparr>tc_Name = ''t'', tc_PartitionCount = 2, tc_RetentionMs = 0, tc_SegmentBytes = 0\<rparr>)]"
    by (simp add: reg_Create_def NewRegistry_def run_persist_def)
  then have "reg_inv ?r" using \<open>nameRe ''t''\<close> by (simp add: reg_inv_def all_entries_def topic_ok_def)
  then have "reg_inv (fm_registry (NewFSM () ?r))" by (simp add: NewFSM_def)
  from snapshot_restore [OF this, of "NewFSM () (NewRegistry None)"] t show ?thesis
    by (auto simp: PartitionsFor_def reg_Get_def NewFSM_def)
qed

text \<open>
  Catch-up copies a partition. If the local log holds the first \<open>k\<close> records of the peer's log,
  whose offsets are consecutive, and the peer streams its records from the asked offset on, the
  catch-up returns after the records up to the peer's high water, the local log is then the peer's
  log, and it reports how many records it added.
\<close>

theorem sync_copies_partition:
  assumes "file_inv st" "file_addressable p" "int64_ok now" "numbered 0 all" "k \<le> length all"
    and "file_log st p = map norm_record (take k all)" "file_hw st p = int k"
    and peer: "peer_HighWater p = Inr (int (length all))" "peer_Subscribe p (int k) = Inr (map SyncRecord (drop k all) @ later)"
    and "sync_fits file_ops file_fits now p (drop k all) (fst (file_HighWater None st p))"
  shows "\<exists>st'. SyncPartitionFromPeer file_ops now peer_HighWater peer_Subscribe st p = Some (st', length all - k, Inr ())
    \<and> file_log st' p = map norm_record all \<and> file_hw st' p = int (length all)"
proof -
  from fil.highwater_law [OF assms(1,2)] obtain st1 where
    h: "so_HighWater file_ops None st p = (st1, Inr (int k))" "file_inv st1" "file_log st1 = file_log st" "file_hw st1 = file_hw st"
    using assms(7) by auto
  show ?thesis
  proof (cases "k = length all")
    case True
    with h assms(6,7) peer(1) show ?thesis by (simp add: SyncPartitionFromPeer_def)
  next
    case False
    let ?rs = "drop k all"
    have rs: "?rs \<noteq> []" "int (length all) = file_hw st1 p + int (length ?rs)" using False assms(5,7) h(4) by auto
    have "map r_Offset ?rs = map (\<lambda>i. int k + int i) [0..<length ?rs]"
    proof -
      have "map r_Offset ?rs = drop k (map (\<lambda>i. 0 + int i) [0..<length all])"
        using assms(4) by (simp add: numbered_def drop_map [symmetric])
      also have "\<dots> = map (\<lambda>i. int k + int i) [0..<length ?rs]"
        by (intro nth_equalityI) (simp_all add: add.commute)
      finally show ?thesis .
    qed
    moreover have "list_all (\<lambda>r. r_Timestamp r \<noteq> 0) ?rs" using assms(4) by (auto simp: numbered_def list_all_iff dest: in_set_dropD)
    ultimately have "numbered (file_hw st1 p) ?rs" using h(4) assms(7) by (simp add: numbered_def)
    moreover have "sync_fits file_ops file_fits now p ?rs st1" using assms(10) h(1) by (simp add: file_ops_def)
    ultimately obtain st2 where c: "sync_loop file_ops now p (int (length all)) (map SyncRecord ?rs @ later) st1 0 = Some (st2, length ?rs, Inr ())"
      "file_log st2 p = file_log st1 p @ map norm_record ?rs" "file_hw st2 p = int (length all)"
      using fil.sync_copies [OF h(2) assms(2,3) rs(1) _ _ rs(2), of later 0] by auto
    have "file_log st2 p = map norm_record all" using c(2) h(3) assms(6) by (metis append_take_drop_id map_append)
    with c h(1) peer False assms(5) show ?thesis by (simp add: SyncPartitionFromPeer_def)
  qed
qed

lemma sync_copies_partition_witness:
  "\<exists>st'. SyncPartitionFromPeer file_ops 5 (\<lambda>_. Inr 1) (\<lambda>_ _. Inr [SyncRecord (sample_record 9)]) (NewFileStore [''data''] 100) \<lparr>p_Topic = ''t'', p_Index = 0\<rparr>
      = Some (st', 1, Inr ()) \<and> file_log st' \<lparr>p_Topic = ''t'', p_Index = 0\<rparr> = [sample_record 9]"
proof -
  let ?p = "\<lparr>p_Topic = ''t'', p_Index = 0\<rparr>" and ?s = "NewFileStore [''data''] 100"
  have p: "file_addressable ?p" by (simp add: file_addressable_def good_name_def int64_ok_def)
  have n: "norm_record (sample_record 9) = sample_record 9" by (simp add: norm_record_def sample_record_def norm_bytes_Some)
  obtain st1 where h: "file_HighWater None ?s ?p = (st1, Inr 0)" "file_inv st1" "file_hw st1 = (\<lambda>_. 0)"
    using fil.highwater_law [OF new_file_store(1) p, of "[''data'']" 100] by (auto simp: file_ops_def new_file_store)
  have "frame_fits (stamp 1 0 (sample_record 9))" by (simp add: sample_record_fits int64_ok_def)
  moreover have "length (frame (stamp 1 0 (sample_record 9))) < 2 ^ 32"
    by (simp add: length_frame length_encodeRecord sample_record_def)
  ultimately have "file_fits st1 ?p (sample_record 9)" using h(2,3) p by (intro file_fits_empty) simp_all
  then have "sync_fits file_ops file_fits 5 ?p (drop 0 [sample_record 9]) (fst (file_HighWater None ?s ?p))" using h(1) by simp
  moreover have "numbered 0 [sample_record 9]" by (simp add: numbered_def sample_record_def)
  ultimately show ?thesis
    using sync_copies_partition [OF new_file_store(1) p, of 5 "[sample_record 9]" 0 "[''data'']" 100 "\<lambda>_. Inr 1" "\<lambda>_ _. Inr [SyncRecord (sample_record 9)]" "[]"] n
    by (auto simp: new_file_store int64_ok_def)
qed



end
