(* ===== verification/Broker_Core.thy ===== *)
theory Broker_Core
  imports Cluster_FSM Group_Offsets
begin

text \<open>
  The publish/subscribe coordinator, \<^verbatim>\<open>broker/internal/broker/broker.go\<close>, and the start-up replay of the
  deduplication topic, \<^verbatim>\<open>hydrateDedupFromTopic\<close> of \<^verbatim>\<open>broker/embed/bootstrap.go\<close>. The broker works on any
  store through its method table. A subscriber channel is a number with its queued records. The Raft
  library is the function \<open>ci_raft\<close>, which replicates a command and applies it to the local state
  machine. Metrics are not part of the model.
\<close>

section \<open>State\<close>

record producerCheckpoint =
  cp_lastSeq :: "64 word"
  cp_lastOffset :: int
  cp_lastSeen :: int

record partitionState =
  ps_subscribers :: "nat list"
  ps_dedup :: "(string \<times> producerCheckpoint) list"

record 'st cluster_if =
  ci_IsLeader :: bool
  ci_LeaderID :: string
  ci_LeaderWireAddr :: string
  ci_raft :: "'st FSM \<Rightarrow> bytes \<Rightarrow> 'st FSM \<times> fsm_resp result"

record 'st Broker =
  bk_store :: 'st
  bk_registry :: Registry
  bk_cluster :: "'st cluster_if option"
  bk_dedupTTL :: int
  bk_dedupTopic :: string
  bk_partitions :: "(PartitionRef \<times> partitionState) list"
  bk_chans :: "(nat \<times> Record list) list"
  bk_nextChan :: nat

definition NewBroker :: "'st \<Rightarrow> Registry \<Rightarrow> 'st cluster_if option \<Rightarrow> int \<Rightarrow> string \<Rightarrow> 'st Broker" where
  "NewBroker st registry cluster dedupTTL dedupTopic =
     \<lparr>bk_store = st, bk_registry = registry, bk_cluster = cluster, bk_dedupTTL = dedupTTL, bk_dedupTopic = dedupTopic,
      bk_partitions = [], bk_chans = [], bk_nextChan = 0\<rparr>"

definition part_state :: "'st Broker \<Rightarrow> PartitionRef \<Rightarrow> partitionState" where
  "part_state b p = (case map_of (bk_partitions b) p of Some ps \<Rightarrow> ps | None \<Rightarrow> \<lparr>ps_subscribers = [], ps_dedup = []\<rparr>)"

definition put_part :: "'st Broker \<Rightarrow> PartitionRef \<Rightarrow> partitionState \<Rightarrow> 'st Broker" where
  "put_part b p ps = b\<lparr>bk_partitions := AList.update p ps (bk_partitions b)\<rparr>"

definition chan_get :: "'st Broker \<Rightarrow> nat \<Rightarrow> Record list" where
  "chan_get b ch = (case map_of (bk_chans b) ch of Some q \<Rightarrow> q | None \<Rightarrow> [])"

definition chan_put :: "'st Broker \<Rightarrow> nat \<Rightarrow> Record list \<Rightarrow> 'st Broker" where
  "chan_put b ch q = b\<lparr>bk_chans := AList.update ch q (bk_chans b)\<rparr>"

section \<open>Deduplication\<close>

text \<open>The header loop of \<^verbatim>\<open>producerIdempKey\<close>: the last header of each kind counts.\<close>

definition last_header :: "string \<Rightarrow> Header list \<Rightarrow> bytes option" where
  "last_header k hs = foldl (\<lambda>found h. if h_Key h = k then Some (gb (h_Value h)) else found) None hs"

definition producerIdempKey :: "Record \<Rightarrow> (string \<times> 64 word) option" where
  "producerIdempKey r =
     (case (last_header HeaderProducerID (r_Headers r), last_header HeaderProducerSeq (r_Headers r)) of
        (Some pid, Some seqBuf) \<Rightarrow>
          if length seqBuf \<noteq> 8 \<or> string_of_bytes pid = [] then None
          else Some (string_of_bytes pid, foldl (\<lambda>seq x. or (push_bit 8 seq) (ucast x)) 0 seqBuf)
      | _ \<Rightarrow> None)"

definition evictStaleDedupLocked :: "int \<Rightarrow> int \<Rightarrow> partitionState \<Rightarrow> partitionState" where
  "evictStaleDedupLocked dedupTTL now ps =
     (if dedupTTL \<le> 0 then ps
      else ps\<lparr>ps_dedup := filter (\<lambda>(_, cp). \<not> cp_lastSeen cp < now - dedupTTL) (ps_dedup ps)\<rparr>)"

definition encodeDedupKey :: "string \<Rightarrow> PartitionRef \<Rightarrow> bytes" where
  "encodeDedupKey producerID p =
     be32 (uint32_len producerID) @ bytes_of_string producerID
     @ be32 (uint32_len (p_Topic p)) @ bytes_of_string (p_Topic p) @ be32 (uint32_of (p_Index p))"

definition DecodeDedupKey :: "bytes \<Rightarrow> (string \<times> PartitionRef) option" where
  "DecodeDedupKey b =
     (if length b < 4 then None
      else let pidLen = unat (Uint32 (sl b 0 4)); b = drop 4 b in
        if length b < pidLen + 4 then None
        else let producerID = string_of_bytes (take pidLen b); b = drop pidLen b;
                 topicLen = unat (Uint32 (sl b 0 4)); b = drop 4 b in
          if length b < topicLen + 4 then None
          else let topic = string_of_bytes (take topicLen b); b = drop topicLen b
               in Some (producerID, \<lparr>p_Topic = topic, p_Index = int32_of (Uint32 (sl b 0 4))\<rparr>))"

definition encodeDedupValue :: "producerCheckpoint \<Rightarrow> bytes" where
  "encodeDedupValue cp = be64 (cp_lastSeq cp) @ be64 (uint64_of (cp_lastOffset cp)) @ be64 (uint64_of (cp_lastSeen cp))"

definition DecodeDedupValue :: "bytes \<Rightarrow> producerCheckpoint option" where
  "DecodeDedupValue b =
     (if length b \<noteq> 24 then None
      else Some \<lparr>cp_lastSeq = Uint64 (sl b 0 8), cp_lastOffset = int64_of (Uint64 (sl b 8 16)),
                 cp_lastSeen = int64_of (Uint64 (sl b 16 24))\<rparr>)"

definition HydrateDedup :: "'st Broker \<Rightarrow> string \<Rightarrow> PartitionRef \<Rightarrow> producerCheckpoint \<Rightarrow> 'st Broker" where
  "HydrateDedup b producerID p cp =
     (let ps = part_state b p in put_part b p (ps\<lparr>ps_dedup := AList.update producerID cp (ps_dedup ps)\<rparr>))"

definition dedup_record :: "string \<Rightarrow> PartitionRef \<Rightarrow> producerCheckpoint \<Rightarrow> Record" where
  "dedup_record producerID p cp = \<lparr>r_Offset = 0, r_Timestamp = 0, r_Key = Some (encodeDedupKey producerID p),
     r_Value = Some (encodeDedupValue cp), r_Headers = []\<rparr>"

definition persistDedupCheckpoint :: "'st store_ops \<Rightarrow> int \<Rightarrow> 'st Broker \<Rightarrow> string \<Rightarrow> PartitionRef \<Rightarrow> producerCheckpoint \<Rightarrow> 'st Broker" where
  "persistDedupCheckpoint ops now b producerID p cp =
     (if bk_dedupTopic b = [] then b
      else b\<lparr>bk_store := fst (so_Append ops None now (bk_store b) \<lparr>p_Topic = bk_dedupTopic b, p_Index = 0\<rparr>
              (dedup_record producerID p cp))\<rparr>)"

text \<open>What \<^verbatim>\<open>Publish\<close> does with the table: the offset it answers a retry with, and the entry of a new record.\<close>

definition dedup_lookup :: "(string \<times> 64 word) option \<Rightarrow> partitionState \<Rightarrow> int option" where
  "dedup_lookup idemp ps =
     (case idemp of
        None \<Rightarrow> None
      | Some (producerID, seq) \<Rightarrow>
          (case map_of (ps_dedup ps) producerID of
             None \<Rightarrow> None
           | Some cp \<Rightarrow> if seq \<le> cp_lastSeq cp then Some (cp_lastOffset cp) else None))"

definition dedup_note :: "'st store_ops \<Rightarrow> int \<Rightarrow> int \<Rightarrow> 'st Broker \<Rightarrow> PartitionRef \<Rightarrow> (string \<times> 64 word) option \<Rightarrow> int \<Rightarrow> 'st Broker" where
  "dedup_note ops now now' b p idemp offset =
     (case idemp of
        None \<Rightarrow> b
      | Some (producerID, seq) \<Rightarrow>
          (let cp = \<lparr>cp_lastSeq = seq, cp_lastOffset = offset, cp_lastSeen = now\<rparr>;
               b = HydrateDedup b producerID p cp
           in if p_Topic p \<noteq> bk_dedupTopic b then persistDedupCheckpoint ops now' b producerID p cp else b))"

section \<open>Publishing\<close>

definition bk_validate :: "'st Broker \<Rightarrow> PartitionRef \<Rightarrow> unit result" where
  "bk_validate b p =
     (case PartitionsFor (bk_registry b) (p_Topic p) of
        Inl err \<Rightarrow> Inl (ErrWrap ''broker'' err)
      | Inr n \<Rightarrow> if p_Index p < 0 \<or> n \<le> p_Index p then Inl (ErrNew ''broker: partition out of range'') else Inr ())"

text \<open>
  \<^verbatim>\<open>cluster.Apply\<close>: the library's error, or the error the state machine returned, or its response.
\<close>

definition cluster_Apply :: "'st cluster_if \<Rightarrow> 'st Broker \<Rightarrow> bytes \<Rightarrow> 'st Broker \<times> fsm_resp result" where
  "cluster_Apply c b cmd =
     (case ci_raft c \<lparr>fm_store = bk_store b, fm_registry = bk_registry b\<rparr> cmd of
        (f, res) \<Rightarrow>
          (b\<lparr>bk_store := fm_store f, bk_registry := fm_registry f\<rparr>,
           case res of Inl err \<Rightarrow> Inl err | Inr (RespErr err) \<Rightarrow> Inl err | Inr resp \<Rightarrow> Inr resp))"

definition publishClustered :: "'st cluster_if \<Rightarrow> 'st Broker \<Rightarrow> PartitionRef \<Rightarrow> Record \<Rightarrow> 'st Broker \<times> int \<times> go_error option" where
  "publishClustered c b p r =
     (if \<not> ci_IsLeader c then (b, 0, Some (ErrNotLeader (ci_LeaderID c) (ci_LeaderWireAddr c)))
      else case cluster_Apply c b (EncodeAppend \<lparr>ac_Topic = p_Topic p, ac_Partition = p_Index p, ac_Offset = OffsetUnstamped,
                  ac_Record = r\<rparr>) of
             (b, Inl err) \<Rightarrow> (b, 0, Some (ErrWrap ''broker: cluster apply'' err))
           | (b, Inr (RespOffset off)) \<Rightarrow> (b, off, None)
           | (b, Inr _) \<Rightarrow> (b, 0, Some (ErrNew ''broker: cluster apply returned unexpected type'')))"

text \<open>
  The fan-out to the subscribers. \<open>stop\<close> says at which subscriber the \<^verbatim>\<open>select\<close> takes \<^verbatim>\<open>ctx.Done()\<close>, and the
  context's error; a send to a full channel waits for the subscriber.
\<close>

fun fan_out :: "(nat \<times> go_error) option \<Rightarrow> Record \<Rightarrow> nat list \<Rightarrow> 'st Broker \<Rightarrow> 'st Broker \<times> go_error option" where
  "fan_out stop r [] b = (b, None)"
| "fan_out (Some (0, err)) r (ch # chs) b = (b, Some err)"
| "fan_out (Some (Suc n, err)) r (ch # chs) b = fan_out (Some (n, err)) r chs (chan_put b ch (chan_get b ch @ [r]))"
| "fan_out None r (ch # chs) b = fan_out None r chs (chan_put b ch (chan_get b ch @ [r]))"

text \<open>
  \<^verbatim>\<open>Publish\<close> returns an offset beside an error or none. \<open>now\<close> is the clock the deduplication reads, \<open>now'\<close> the
  clock the timestamp is taken from.
\<close>

definition bk_Publish :: "'st store_ops \<Rightarrow> go_error option \<Rightarrow> int \<Rightarrow> int \<Rightarrow> (nat \<times> go_error) option \<Rightarrow> 'st Broker \<Rightarrow> PartitionRef \<Rightarrow> Record
    \<Rightarrow> 'st Broker \<times> int \<times> go_error option" where
  "bk_Publish ops ctx now now' stop b p r =
     (case bk_validate b p of
        Inl err \<Rightarrow> (b, 0, Some err)
      | Inr _ \<Rightarrow>
        (case bk_cluster b of
           Some c \<Rightarrow> publishClustered c b p r
         | None \<Rightarrow>
           (let idemp = producerIdempKey r;
                ps = part_state b p;
                ps = (if idemp = None then ps else evictStaleDedupLocked (bk_dedupTTL b) now ps);
                b = put_part b p ps
            in case dedup_lookup idemp ps of
                 Some off \<Rightarrow> (b, off, None)
               | None \<Rightarrow>
                 (let r = (if r_Timestamp r = 0 then r\<lparr>r_Timestamp := now'\<rparr> else r) in
                  case so_Append ops ctx now' (bk_store b) p r of
                    (st, Inl err) \<Rightarrow> (b\<lparr>bk_store := st\<rparr>, 0, Some (ErrWrap ''broker: append'' err))
                  | (st, Inr offset) \<Rightarrow>
                    (let b = dedup_note ops now now' (b\<lparr>bk_store := st\<rparr>) p idemp offset;
                         (b, err) = fan_out stop (r\<lparr>r_Offset := offset\<rparr>) (ps_subscribers ps) b
                     in (b, offset, err))))))"

section \<open>Topics and reads\<close>

definition bk_CreateTopic :: "'st Broker \<Rightarrow> Spec \<Rightarrow> 'st Broker \<times> unit result" where
  "bk_CreateTopic b spec =
     (case bk_cluster b of
        None \<Rightarrow> (let (r, res) = reg_Create (bk_registry b) spec in (b\<lparr>bk_registry := r\<rparr>, res))
      | Some c \<Rightarrow>
          if \<not> ci_IsLeader c then (b, Inl (ErrNotLeader (ci_LeaderID c) (ci_LeaderWireAddr c)))
          else case cluster_Apply c b (EncodeCreateTopic \<lparr>cc_Name = sp_Name spec, cc_PartitionCount = sp_PartitionCount spec,
                      cc_RetentionMs = sp_RetentionMs spec, cc_SegmentBytes = sp_SegmentBytes spec\<rparr>) of
                 (b, Inl err) \<Rightarrow> (b, Inl err) | (b, Inr _) \<Rightarrow> (b, Inr ()))"

definition bk_UpdateTopicConfig :: "'st Broker \<Rightarrow> string \<Rightarrow> int \<Rightarrow> int \<Rightarrow> 'st Broker \<times> unit result" where
  "bk_UpdateTopicConfig b name retentionMs segmentBytes =
     (case bk_cluster b of
        None \<Rightarrow> (let (r, res) = reg_UpdateConfig (bk_registry b) name retentionMs segmentBytes in (b\<lparr>bk_registry := r\<rparr>, res))
      | Some c \<Rightarrow>
          if \<not> ci_IsLeader c then (b, Inl (ErrNotLeader (ci_LeaderID c) (ci_LeaderWireAddr c)))
          else case cluster_Apply c b (EncodeUpdateTopicConfig \<lparr>uc_Name = name, uc_RetentionMs = retentionMs,
                      uc_SegmentBytes = segmentBytes\<rparr>) of
                 (b, Inl err) \<Rightarrow> (b, Inl err) | (b, Inr _) \<Rightarrow> (b, Inr ()))"

definition bk_DeleteTopic :: "'st store_ops \<Rightarrow> 'st Broker \<Rightarrow> string \<Rightarrow> 'st Broker \<times> unit result" where
  "bk_DeleteTopic ops b name =
     (case bk_cluster b of
        None \<Rightarrow>
          (case reg_Delete (bk_registry b) name of
             (r, Inl err) \<Rightarrow> (b\<lparr>bk_registry := r\<rparr>, Inl err)
           | (r, Inr _) \<Rightarrow> (let (st, res) = so_DeleteTopic ops None (bk_store b) name in (b\<lparr>bk_registry := r, bk_store := st\<rparr>, res)))
      | Some c \<Rightarrow>
          if \<not> ci_IsLeader c then (b, Inl (ErrNotLeader (ci_LeaderID c) (ci_LeaderWireAddr c)))
          else case cluster_Apply c b (EncodeDeleteTopic \<lparr>dc_Name = name\<rparr>) of
                 (b, Inl err) \<Rightarrow> (b, Inl err) | (b, Inr _) \<Rightarrow> (b, Inr ()))"

definition bk_Read :: "'st store_ops \<Rightarrow> go_error option \<Rightarrow> 'st Broker \<Rightarrow> PartitionRef \<Rightarrow> int \<Rightarrow> int \<Rightarrow> 'st Broker \<times> Record list result" where
  "bk_Read ops ctx b p fromOffset maxRecords =
     (case bk_validate b p of
        Inl err \<Rightarrow> (b, Inl err)
      | Inr _ \<Rightarrow> (let (st, res) = so_Read ops ctx (bk_store b) p fromOffset maxRecords in (b\<lparr>bk_store := st\<rparr>, res)))"

definition bk_Sync :: "'st store_ops \<Rightarrow> go_error option \<Rightarrow> 'st Broker \<Rightarrow> PartitionRef \<Rightarrow> 'st Broker \<times> unit result" where
  "bk_Sync ops ctx b p =
     (case bk_validate b p of
        Inl err \<Rightarrow> (b, Inl err)
      | Inr _ \<Rightarrow> (let (st, res) = so_Sync ops ctx (bk_store b) p in (b\<lparr>bk_store := st\<rparr>, res)))"

definition bk_HighWater :: "'st store_ops \<Rightarrow> go_error option \<Rightarrow> 'st Broker \<Rightarrow> PartitionRef \<Rightarrow> 'st Broker \<times> int result" where
  "bk_HighWater ops ctx b p =
     (case bk_validate b p of
        Inl err \<Rightarrow> (b, Inl err)
      | Inr _ \<Rightarrow> (let (st, res) = so_HighWater ops ctx (bk_store b) p in (b\<lparr>bk_store := st\<rparr>, res)))"

text \<open>
  The segment snapshot operations ask the store for the capability \<^verbatim>\<open>segmentSnapshotter\<close>; \<open>None\<close> is a store
  without it.
\<close>

record 'st snapshot_ops =
  sn_ListSegments :: "go_error option \<Rightarrow> 'st \<Rightarrow> PartitionRef \<Rightarrow> 'st \<times> SegmentSnapshot list result"
  sn_FetchSegmentChunk :: "go_error option \<Rightarrow> 'st \<Rightarrow> PartitionRef \<Rightarrow> int \<Rightarrow> byte \<Rightarrow> int \<Rightarrow> int \<Rightarrow> 'st \<times> bytes result"

definition ErrSnapshotsUnsupported :: go_error where
  "ErrSnapshotsUnsupported = ErrNew ''broker: store does not support partition snapshots''"

definition bk_ListSegments :: "'st snapshot_ops option \<Rightarrow> go_error option \<Rightarrow> 'st Broker \<Rightarrow> PartitionRef
    \<Rightarrow> 'st Broker \<times> SegmentSnapshot list result" where
  "bk_ListSegments snapper ctx b p =
     (case bk_validate b p of
        Inl err \<Rightarrow> (b, Inl err)
      | Inr _ \<Rightarrow>
          (case snapper of
             None \<Rightarrow> (b, Inl ErrSnapshotsUnsupported)
           | Some sn \<Rightarrow> (let (st, res) = sn_ListSegments sn ctx (bk_store b) p in (b\<lparr>bk_store := st\<rparr>, res))))"

definition bk_FetchSegmentChunk :: "'st snapshot_ops option \<Rightarrow> go_error option \<Rightarrow> 'st Broker \<Rightarrow> PartitionRef \<Rightarrow> int \<Rightarrow> byte \<Rightarrow> int \<Rightarrow> int
    \<Rightarrow> 'st Broker \<times> bytes result" where
  "bk_FetchSegmentChunk snapper ctx b p base kind offset maxBytes =
     (case bk_validate b p of
        Inl err \<Rightarrow> (b, Inl err)
      | Inr _ \<Rightarrow>
          (case snapper of
             None \<Rightarrow> (b, Inl ErrSnapshotsUnsupported)
           | Some sn \<Rightarrow> (let (st, res) = sn_FetchSegmentChunk sn ctx (bk_store b) p base kind offset maxBytes
                         in (b\<lparr>bk_store := st\<rparr>, res))))"

section \<open>Subscriptions\<close>

text \<open>
  The goroutine \<^verbatim>\<open>pump\<close> of a subscription: it asks for a batch, sends the records of a batch, waits for a
  live record, sends a live record, or has ended. \<open>pu_out\<close> is what it has sent to the subscriber.
\<close>

datatype pump_phase = CatchUp int | Emit "Record list" int | Live int | LiveSend Record int | Stopped

record pump =
  pu_part :: PartitionRef
  pu_sub :: nat
  pu_hw :: int
  pu_phase :: pump_phase
  pu_out :: "Record list"

definition bk_Subscribe :: "'st store_ops \<Rightarrow> go_error option \<Rightarrow> 'st Broker \<Rightarrow> PartitionRef \<Rightarrow> int \<Rightarrow> 'st Broker \<times> pump result" where
  "bk_Subscribe ops ctx b p fromOffset =
     (case bk_validate b p of
        Inl err \<Rightarrow> (b, Inl err)
      | Inr _ \<Rightarrow>
          (case so_HighWater ops ctx (bk_store b) p of
             (st, Inl err) \<Rightarrow> (b\<lparr>bk_store := st\<rparr>, Inl (ErrWrap ''broker: high water'' err))
           | (st, Inr hw) \<Rightarrow>
               (let sub = bk_nextChan b; ps = part_state b p;
                    b = put_part (b\<lparr>bk_store := st, bk_nextChan := sub + 1\<rparr>) p (ps\<lparr>ps_subscribers := ps_subscribers ps @ [sub]\<rparr>)
                in (chan_put b sub [],
                    Inr \<lparr>pu_part = p, pu_sub = sub, pu_hw = hw, pu_phase = CatchUp fromOffset, pu_out = []\<rparr>))))"

definition removeSubscriber :: "'st Broker \<Rightarrow> PartitionRef \<Rightarrow> nat \<Rightarrow> 'st Broker" where
  "removeSubscriber b p target =
     (let ps = part_state b p in put_part b p (ps\<lparr>ps_subscribers := remove1 target (ps_subscribers ps)\<rparr>))"

definition pump_stop :: "'st Broker \<Rightarrow> pump \<Rightarrow> 'st Broker \<times> pump" where
  "pump_stop b pu = (removeSubscriber b (pu_part pu) (pu_sub pu), pu\<lparr>pu_phase := Stopped\<rparr>)"

text \<open>One step; \<open>ended\<close> says that a \<^verbatim>\<open>select\<close> takes \<^verbatim>\<open>ctx.Done()\<close>. A wait on an empty channel is a step that changes nothing.\<close>

definition pump_step :: "'st store_ops \<Rightarrow> go_error option \<Rightarrow> bool \<Rightarrow> 'st Broker \<Rightarrow> pump \<Rightarrow> 'st Broker \<times> pump" where
  "pump_step ops ctx ended b pu =
     (case pu_phase pu of
        CatchUp cursor \<Rightarrow>
          if cursor < pu_hw pu
          then case so_Read ops ctx (bk_store b) (pu_part pu) cursor 256 of
                 (st, Inl _) \<Rightarrow> pump_stop (b\<lparr>bk_store := st\<rparr>) pu
               | (st, Inr records) \<Rightarrow>
                   if length records = 0 then pump_stop (b\<lparr>bk_store := st\<rparr>) pu
                   else (b\<lparr>bk_store := st\<rparr>, pu\<lparr>pu_phase := Emit records (cursor + int (length records))\<rparr>)
          else (b, pu\<lparr>pu_phase := Live cursor\<rparr>)
      | Emit [] cursor \<Rightarrow> (b, pu\<lparr>pu_phase := CatchUp cursor\<rparr>)
      | Emit (r # records) cursor \<Rightarrow>
          if ended then pump_stop b pu
          else (b, pu\<lparr>pu_phase := Emit records cursor, pu_out := pu_out pu @ [r]\<rparr>)
      | Live cursor \<Rightarrow>
          if ended then pump_stop b pu
          else (case chan_get b (pu_sub pu) of
                  [] \<Rightarrow> (b, pu)
                | r # queue \<Rightarrow>
                    (chan_put b (pu_sub pu) queue,
                     pu\<lparr>pu_phase := (if r_Offset r < cursor then Live cursor else LiveSend r cursor)\<rparr>))
      | LiveSend r cursor \<Rightarrow>
          if ended then pump_stop b pu
          else (b, pu\<lparr>pu_phase := Live (r_Offset r + 1), pu_out := pu_out pu @ [r]\<rparr>)
      | Stopped \<Rightarrow> (b, pu))"

section \<open>Start-up\<close>

text \<open>The replay runs under a deadline of five seconds, which the model takes as not reached.\<close>

definition dedupTopic :: string where
  "dedupTopic = ''__holocron_dedup''"

definition hydrate_record :: "'st Broker \<Rightarrow> Record \<Rightarrow> 'st Broker" where
  "hydrate_record b r =
     (case DecodeDedupKey (gb (r_Key r)) of
        None \<Rightarrow> b
      | Some (producerID, p) \<Rightarrow>
          (case DecodeDedupValue (gb (r_Value r)) of
             None \<Rightarrow> b
           | Some cp \<Rightarrow> HydrateDedup b producerID p cp))"

partial_function (option) hydrate_loop :: "'st store_ops \<Rightarrow> int \<Rightarrow> 'st Broker \<Rightarrow> ('st Broker \<times> unit result) option" where
  "hydrate_loop ops cursor b =
     (case so_Read ops None (bk_store b) \<lparr>p_Topic = dedupTopic, p_Index = 0\<rparr> cursor 256 of
        (st, Inl err) \<Rightarrow> Some (b\<lparr>bk_store := st\<rparr>, Inl err)
      | (st, Inr records) \<Rightarrow>
          if length records = 0 then Some (b\<lparr>bk_store := st\<rparr>, Inr ())
          else hydrate_loop ops (r_Offset (last records) + 1) (foldl hydrate_record (b\<lparr>bk_store := st\<rparr>) records))"

definition hydrateDedupFromTopic :: "'st store_ops \<Rightarrow> 'st Broker \<Rightarrow> ('st Broker \<times> unit result) option" where
  "hydrateDedupFromTopic ops b = hydrate_loop ops 0 b"

end
