(* ===== verification/Broker_Publish.thy ===== *)
theory Broker_Publish
  imports Broker_Core Go_Maps
begin

text \<open>
  What a publish does to the state of the broker, over any store that keeps the store contract: either
  it is a retry and nothing but the deduplication table is looked at, or the record is appended, noted
  in the table and queued for every subscriber. The invariant of the table follows.
\<close>

section \<open>State access\<close>

lemma part_state_put [simp]: "part_state (put_part b p ps) q = (if q = p then ps else part_state b q)"
  by (simp add: part_state_def put_part_def update_conv')

lemma put_part_sel [simp]:
  "bk_store (put_part b p ps) = bk_store b" "bk_registry (put_part b p ps) = bk_registry b" "bk_cluster (put_part b p ps) = bk_cluster b"
  "bk_dedupTTL (put_part b p ps) = bk_dedupTTL b" "bk_dedupTopic (put_part b p ps) = bk_dedupTopic b"
  "bk_chans (put_part b p ps) = bk_chans b" "bk_nextChan (put_part b p ps) = bk_nextChan b"
  by (simp_all add: put_part_def)

lemma chan_put_sel [simp]:
  "bk_store (chan_put b c q) = bk_store b" "bk_registry (chan_put b c q) = bk_registry b" "bk_cluster (chan_put b c q) = bk_cluster b"
  "bk_dedupTTL (chan_put b c q) = bk_dedupTTL b" "bk_dedupTopic (chan_put b c q) = bk_dedupTopic b"
  "bk_partitions (chan_put b c q) = bk_partitions b" "bk_nextChan (chan_put b c q) = bk_nextChan b"
  by (simp_all add: chan_put_def)

lemma chan_get_put [simp]: "chan_get (chan_put b c q) d = (if d = c then q else chan_get b d)"
  by (simp add: chan_get_def chan_put_def update_conv')

lemma state_cong [simp]:
  "part_state (chan_put b c q) p = part_state b p" "part_state (b\<lparr>bk_store := st\<rparr>) p = part_state b p"
  "part_state (b\<lparr>bk_nextChan := n\<rparr>) p = part_state b p" "part_state (b\<lparr>bk_registry := rg\<rparr>) p = part_state b p"
  "chan_get (put_part b p ps) c = chan_get b c" "chan_get (b\<lparr>bk_store := st\<rparr>) c = chan_get b c"
  "chan_get (b\<lparr>bk_nextChan := n\<rparr>) c = chan_get b c"
  by (simp_all add: part_state_def chan_get_def put_part_def)

lemma bk_validate_cong: "bk_registry b = bk_registry b' \<Longrightarrow> bk_validate b p = bk_validate b' p"
  by (simp add: bk_validate_def)

lemma fan_out_sel [simp]:
  "bk_store (fst (fan_out stop r chs b)) = bk_store b" "bk_registry (fst (fan_out stop r chs b)) = bk_registry b"
  "bk_cluster (fst (fan_out stop r chs b)) = bk_cluster b" "bk_dedupTTL (fst (fan_out stop r chs b)) = bk_dedupTTL b"
  "bk_dedupTopic (fst (fan_out stop r chs b)) = bk_dedupTopic b" "bk_partitions (fst (fan_out stop r chs b)) = bk_partitions b"
  "bk_nextChan (fst (fan_out stop r chs b)) = bk_nextChan b"
  by (induction stop r chs b rule: fan_out.induct) simp_all

lemma fan_out_part_state [simp]: "part_state (fst (fan_out stop r chs b)) p = part_state b p"
  by (simp add: part_state_def)

lemma fan_out_chan:
  "distinct chs \<Longrightarrow> chan_get (fst (fan_out None r chs b)) c = chan_get b c @ (if c \<in> set chs then [r] else [])"
  by (induction chs arbitrary: b) auto

lemma fan_out_no_error: "snd (fan_out None r chs b) = None"
  by (induction chs arbitrary: b) auto

lemma hydrate_sel [simp]:
  "bk_store (HydrateDedup b i p cp) = bk_store b" "bk_registry (HydrateDedup b i p cp) = bk_registry b"
  "bk_cluster (HydrateDedup b i p cp) = bk_cluster b" "bk_dedupTTL (HydrateDedup b i p cp) = bk_dedupTTL b"
  "bk_dedupTopic (HydrateDedup b i p cp) = bk_dedupTopic b" "bk_chans (HydrateDedup b i p cp) = bk_chans b"
  "bk_nextChan (HydrateDedup b i p cp) = bk_nextChan b"
  by (simp_all add: HydrateDedup_def Let_def)

lemma hydrate_part_state [simp]:
  "part_state (HydrateDedup b i p cp) q =
     (if q = p then (part_state b p)\<lparr>ps_dedup := AList.update i cp (ps_dedup (part_state b p))\<rparr> else part_state b q)"
  by (simp add: HydrateDedup_def Let_def)

lemma persist_sel [simp]:
  "bk_registry (persistDedupCheckpoint ops now b i p cp) = bk_registry b" "bk_cluster (persistDedupCheckpoint ops now b i p cp) = bk_cluster b"
  "bk_dedupTTL (persistDedupCheckpoint ops now b i p cp) = bk_dedupTTL b" "bk_dedupTopic (persistDedupCheckpoint ops now b i p cp) = bk_dedupTopic b"
  "bk_chans (persistDedupCheckpoint ops now b i p cp) = bk_chans b" "bk_nextChan (persistDedupCheckpoint ops now b i p cp) = bk_nextChan b"
  "part_state (persistDedupCheckpoint ops now b i p cp) q = part_state b q"
  by (simp_all add: persistDedupCheckpoint_def)

section \<open>The effect of a publish\<close>

definition timed :: "int \<Rightarrow> Record \<Rightarrow> Record" where
  "timed now r = (if r_Timestamp r = 0 then r\<lparr>r_Timestamp := now\<rparr> else r)"

definition dedup_part :: "'st Broker \<Rightarrow> PartitionRef" where
  "dedup_part b = \<lparr>p_Topic = bk_dedupTopic b, p_Index = 0\<rparr>"

definition persists :: "'st Broker \<Rightarrow> PartitionRef \<Rightarrow> Record \<Rightarrow> bool" where
  "persists b p r \<longleftrightarrow> producerIdempKey r \<noteq> None \<and> bk_dedupTopic b \<noteq> [] \<and> p_Topic p \<noteq> bk_dedupTopic b"

lemma persists_other: "persists b p r \<Longrightarrow> dedup_part b \<noteq> p"
  by (auto simp: persists_def dedup_part_def)

definition checkpoint :: "int \<Rightarrow> Record \<Rightarrow> int \<Rightarrow> producerCheckpoint" where
  "checkpoint now r off = \<lparr>cp_lastSeq = snd (the (producerIdempKey r)), cp_lastOffset = off, cp_lastSeen = now\<rparr>"

text \<open>The table a publish consults, after the eviction.\<close>

definition pub_state :: "int \<Rightarrow> 'st Broker \<Rightarrow> PartitionRef \<Rightarrow> Record \<Rightarrow> partitionState" where
  "pub_state now b p r =
     (if producerIdempKey r = None then part_state b p else evictStaleDedupLocked (bk_dedupTTL b) now (part_state b p))"

definition noted :: "int \<Rightarrow> Record \<Rightarrow> int \<Rightarrow> partitionState \<Rightarrow> partitionState" where
  "noted now r off ps =
     (case producerIdempKey r of None \<Rightarrow> ps | Some (i, _) \<Rightarrow> ps\<lparr>ps_dedup := AList.update i (checkpoint now r off) (ps_dedup ps)\<rparr>)"

text \<open>The store takes the record, and the checkpoint behind it when one is written.\<close>

definition pub_ok :: "'st store_ops \<Rightarrow> ('st \<Rightarrow> PartitionRef \<Rightarrow> Record \<Rightarrow> bool) \<Rightarrow> (PartitionRef \<Rightarrow> bool) \<Rightarrow> int \<Rightarrow> int \<Rightarrow> 'st Broker
    \<Rightarrow> PartitionRef \<Rightarrow> Record \<Rightarrow> bool" where
  "pub_ok ops fits addressable now now' b p r \<longleftrightarrow>
     bk_cluster b = None \<and> bk_validate b p = Inr () \<and> int64_ok now' \<and> now' \<noteq> 0 \<and> addressable p
     \<and> (dedup_lookup (producerIdempKey r) (pub_state now b p r) = None \<longrightarrow>
          fits (bk_store b) p (timed now' r)
          \<and> (persists b p r \<longrightarrow> addressable (dedup_part b)
               \<and> (case so_Append ops None now' (bk_store b) p (timed now' r) of
                    (st, Inr off) \<Rightarrow> fits st (dedup_part b) (dedup_record (fst (the (producerIdempKey r))) p (checkpoint now r off))
                  | _ \<Rightarrow> True)))"

lemma timed_simps [simp]: "r_Headers (timed now r) = r_Headers r" "r_Offset (timed now r) = r_Offset r"
  "r_Key (timed now r) = r_Key r" "r_Value (timed now r) = r_Value r"
  by (simp_all add: timed_def)

lemma stamp_timed: "now \<noteq> 0 \<Longrightarrow> stamp now' off (timed now r) = (timed now r)\<lparr>r_Offset := off\<rparr>"
  by (cases r) (simp add: stamp_def timed_def)

lemma producerIdempKey_cong: "r_Headers r = r_Headers r' \<Longrightarrow> producerIdempKey r = producerIdempKey r'"
  by (simp add: producerIdempKey_def)

lemma producerIdempKey_timed [simp]: "producerIdempKey (timed now r) = producerIdempKey r"
  by (rule producerIdempKey_cong) simp

lemma producerIdempKey_stamp [simp]: "producerIdempKey (stamp now off r) = producerIdempKey r"
  by (rule producerIdempKey_cong) simp

lemma dedup_record_plain [simp]: "producerIdempKey (dedup_record i p cp) = None"
  by (simp add: producerIdempKey_def dedup_record_def last_header_def)

lemma publish_retry:
  assumes "bk_cluster b = None" "bk_validate b p = Inr ()" "dedup_lookup (producerIdempKey r) (pub_state now b p r) = Some off"
  shows "bk_Publish ops ctx now now' stop b p r = (put_part b p (pub_state now b p r), off, None)"
  using assms by (simp add: bk_Publish_def pub_state_def Let_def split: if_splits)

lemma publish_new:
  assumes "bk_cluster b = None" "bk_validate b p = Inr ()" "dedup_lookup (producerIdempKey r) (pub_state now b p r) = None"
    and "so_Append ops ctx now' (bk_store b) p (timed now' r) = (st, Inr off)"
  shows "bk_Publish ops ctx now now' stop b p r =
    (let (b', err) = fan_out stop ((timed now' r)\<lparr>r_Offset := off\<rparr>) (ps_subscribers (part_state b p))
       (dedup_note ops now now' ((put_part b p (pub_state now b p r))\<lparr>bk_store := st\<rparr>) p (producerIdempKey r) off) in (b', off, err))"
proof -
  have s: "ps_subscribers (pub_state now b p r) = ps_subscribers (part_state b p)"
    by (simp add: pub_state_def evictStaleDedupLocked_def)
  show ?thesis
    using assms s by (simp add: bk_Publish_def pub_state_def timed_def Let_def split: if_splits)
qed

lemma dedup_note_state [simp]:
  "part_state (dedup_note ops now now' b p (producerIdempKey r) off) q = (if q = p then noted now r off (part_state b p) else part_state b q)"
  by (auto simp: dedup_note_def noted_def checkpoint_def Let_def split: option.split)

lemma dedup_note_sel [simp]:
  "bk_registry (dedup_note ops now now' b p k off) = bk_registry b" "bk_cluster (dedup_note ops now now' b p k off) = bk_cluster b"
  "bk_dedupTTL (dedup_note ops now now' b p k off) = bk_dedupTTL b" "bk_dedupTopic (dedup_note ops now now' b p k off) = bk_dedupTopic b"
  "bk_chans (dedup_note ops now now' b p k off) = bk_chans b" "bk_nextChan (dedup_note ops now now' b p k off) = bk_nextChan b"
  by (auto simp: dedup_note_def Let_def split: option.split prod.split)

lemma dedup_note_chan [simp]: "chan_get (dedup_note ops now now' b p k off) c = chan_get b c"
  by (simp add: chan_get_def)

lemma dedup_note_store:
  "bk_store (dedup_note ops now now' b p (producerIdempKey r) off) =
     (if persists b p r
      then fst (so_Append ops None now' (bk_store b) (dedup_part b) (dedup_record (fst (the (producerIdempKey r))) p (checkpoint now r off)))
      else bk_store b)"
  by (auto simp: dedup_note_def persists_def persistDedupCheckpoint_def dedup_part_def checkpoint_def Let_def split: option.split)

text \<open>The logs after a publish: the record at the end of its partition, the checkpoint at the end of the deduplication partition.\<close>

definition log_entry :: "(Record \<Rightarrow> Record) \<Rightarrow> int \<Rightarrow> int \<Rightarrow> Record \<Rightarrow> Record" where
  "log_entry nrm now' off r = nrm ((timed now' r)\<lparr>r_Offset := off\<rparr>)"

definition dedup_entry :: "(Record \<Rightarrow> Record) \<Rightarrow> int \<Rightarrow> int \<Rightarrow> int \<Rightarrow> PartitionRef \<Rightarrow> int \<Rightarrow> Record \<Rightarrow> Record" where
  "dedup_entry nrm now now' doff p off r =
     nrm (stamp now' doff (dedup_record (fst (the (producerIdempKey r))) p (checkpoint now r off)))"

context store
begin

lemma publish_stored:
  assumes "inv (bk_store b)" "pub_ok ops fits addressable now now' b p r"
    and "dedup_lookup (producerIdempKey r) (pub_state now b p r) = None"
  obtains st where "so_Append ops None now' (bk_store b) p (timed now' r) = (st, Inr (hw_of (bk_store b) p))" "inv st"
    "log_of st = (log_of (bk_store b))(p := log_of (bk_store b) p @ [log_entry nrm now' (hw_of (bk_store b) p) r])"
    "hw_of st = (hw_of (bk_store b))(p := hw_of (bk_store b) p + 1)"
proof -
  have "addressable p" "fits (bk_store b) p (timed now' r)" "int64_ok now'" "now' \<noteq> 0" using assms(2,3) by (auto simp: pub_ok_def)
  from append_law [OF assms(1) this(1-3)] stamp_timed [OF this(4)] show ?thesis
    by (auto simp: log_entry_def intro: that)
qed

lemma publish_effect:
  fixes b p r now now'
  assumes "inv (bk_store b)" "pub_ok ops fits addressable now now' b p r"
    and "dedup_lookup (producerIdempKey r) (pub_state now b p r) = None"
  defines "off \<equiv> hw_of (bk_store b) p" and "d \<equiv> dedup_part b"
  obtains b' err where "bk_Publish ops None now now' stop b p r = (b', off, err)" "inv (bk_store b')"
    "log_of (bk_store b') = (let L = (log_of (bk_store b))(p := log_of (bk_store b) p @ [log_entry nrm now' off r])
       in if persists b p r then L(d := L d @ [dedup_entry nrm now now' (hw_of (bk_store b) d) p off r]) else L)"
    "hw_of (bk_store b') = (let H = (hw_of (bk_store b))(p := off + 1) in if persists b p r then H(d := H d + 1) else H)"
    "\<And>q. part_state b' q = (if q = p then noted now r off (pub_state now b p r) else part_state b q)"
    "bk_registry b' = bk_registry b" "bk_cluster b' = bk_cluster b" "bk_dedupTTL b' = bk_dedupTTL b" "bk_dedupTopic b' = bk_dedupTopic b"
    "bk_nextChan b' = bk_nextChan b"
    "\<And>c. stop = None \<Longrightarrow> distinct (ps_subscribers (part_state b p)) \<Longrightarrow> chan_get b' c =
      chan_get b c @ (if c \<in> set (ps_subscribers (part_state b p)) then [(timed now' r)\<lparr>r_Offset := off\<rparr>] else [])"
    "stop = None \<Longrightarrow> err = None"
proof -
  obtain st where st: "so_Append ops None now' (bk_store b) p (timed now' r) = (st, Inr off)" "inv st"
    "log_of st = (log_of (bk_store b))(p := log_of (bk_store b) p @ [log_entry nrm now' off r])" "hw_of st = (hw_of (bk_store b))(p := off + 1)"
    using publish_stored [OF assms(1-3)] unfolding off_def by metis
  let ?b = "(put_part b p (pub_state now b p r))\<lparr>bk_store := st\<rparr>"
  let ?n = "dedup_note ops now now' ?b p (producerIdempKey r) off"
  let ?f = "fan_out stop ((timed now' r)\<lparr>r_Offset := off\<rparr>) (ps_subscribers (part_state b p)) ?n"
  have v: "bk_cluster b = None" "bk_validate b p = Inr ()" "int64_ok now'" using assms(2) by (auto simp: pub_ok_def)
  have pd: "persists ?b p r = persists b p r" "dedup_part ?b = d" by (simp_all add: persists_def dedup_part_def d_def)
  have dp: "d \<noteq> p" if "persists b p r" using persists_other [OF that] by (simp add: d_def)
  have note_ok: "inv (bk_store ?n) \<and>
    log_of (bk_store ?n) = (if persists b p r then (log_of st)(d := log_of st d @ [dedup_entry nrm now now' (hw_of (bk_store b) d) p off r]) else log_of st)
    \<and> hw_of (bk_store ?n) = (if persists b p r then (hw_of st)(d := hw_of st d + 1) else hw_of st)"
  proof (cases "persists b p r")
    case True
    then have "addressable d" "fits st d (dedup_record (fst (the (producerIdempKey r))) p (checkpoint now r off))"
      using assms(2,3) st(1) by (auto simp: pub_ok_def d_def)
    from append_law [OF st(2) this v(3)] True dp st(4) show ?thesis
      by (auto simp: dedup_note_store pd dedup_entry_def)
  next
    case False
    then show ?thesis using st(2) by (simp add: dedup_note_store pd)
  qed
  have run: "bk_Publish ops None now now' stop b p r = (fst ?f, off, snd ?f)"
    using publish_new [OF v(1,2) assms(3) st(1), of stop] by (simp add: case_prod_beta Let_def)
  show ?thesis
    by (rule that [OF run]) (use note_ok st(3,4) in \<open>simp_all add: Let_def fan_out_chan fan_out_no_error\<close>)
qed

end

section \<open>The invariant of the deduplication table\<close>

text \<open>The sequence numbers of a producer in a log, and the table that describes the log.\<close>

definition seqs_of :: "string \<Rightarrow> Record list \<Rightarrow> 64 word list" where
  "seqs_of i L = map (\<lambda>r. snd (the (producerIdempKey r))) (filter (\<lambda>r. \<exists>s. producerIdempKey r = Some (i, s)) L)"

lemma seqs_of_simps [simp]:
  "seqs_of i [] = []" "seqs_of i (L @ M) = seqs_of i L @ seqs_of i M"
  "seqs_of i [r] = (case producerIdempKey r of Some (j, s) \<Rightarrow> if j = i then [s] else [] | None \<Rightarrow> [])"
  by (auto simp: seqs_of_def split: option.split)

definition entry_ok :: "string \<Rightarrow> Record list \<Rightarrow> producerCheckpoint option \<Rightarrow> bool" where
  "entry_ok i L entry = (case entry of
       None \<Rightarrow> seqs_of i L = []
     | Some cp \<Rightarrow> sorted_wrt (<) (seqs_of i L) \<and> seqs_of i L \<noteq> [] \<and> last (seqs_of i L) = cp_lastSeq cp
         \<and> (\<exists>r\<in>set L. r_Offset r = cp_lastOffset cp \<and> producerIdempKey r = Some (i, cp_lastSeq cp)))"

definition dedup_inv :: "Record list \<Rightarrow> partitionState \<Rightarrow> bool" where
  "dedup_inv L ps \<longleftrightarrow> (\<forall>i. entry_ok i L (map_of (ps_dedup ps) i))"

lemma dedup_inv_sorted: "dedup_inv L ps \<Longrightarrow> sorted_wrt (<) (seqs_of i L)"
  unfolding dedup_inv_def by (drule spec [of _ i]) (auto simp: entry_ok_def split: option.splits)

lemma entry_ok_plain: "entry_ok i L e \<Longrightarrow> \<nexists>s. producerIdempKey x = Some (i, s) \<Longrightarrow> entry_ok i (L @ [x]) e"
  by (auto simp: entry_ok_def split: option.splits)

lemma sorted_snoc: "sorted_wrt (<) xs \<Longrightarrow> xs \<noteq> [] \<Longrightarrow> last xs < y \<Longrightarrow> sorted_wrt (<) (xs @ [y :: 'a :: order])"
  by (cases xs rule: rev_cases) (auto simp: sorted_wrt_append)

text \<open>A new record of a producer goes behind all its earlier ones.\<close>

lemma entry_ok_publish:
  assumes "entry_ok i L e" "producerIdempKey x = Some (i, cp_lastSeq cp)" "r_Offset x = cp_lastOffset cp"
    and "\<And>old. e = Some old \<Longrightarrow> cp_lastSeq old < cp_lastSeq cp"
  shows "entry_ok i (L @ [x]) (Some cp)"
  using assms by (cases e) (simp_all add: entry_ok_def sorted_snoc)

lemma dedup_inv_publish:
  assumes "dedup_inv L ps" "dedup_lookup (producerIdempKey r) ps = None" "producerIdempKey x = producerIdempKey r" "r_Offset x = off"
  shows "dedup_inv (L @ [x]) (noted now r off ps)"
proof (cases "producerIdempKey r")
  case None
  then show ?thesis using assms by (simp add: dedup_inv_def noted_def entry_ok_plain)
next
  case (Some js)
  obtain j s where k: "producerIdempKey r = Some (j, s)" using Some by (cases js) simp
  have old: "cp_lastSeq cp < s" if "map_of (ps_dedup ps) j = Some cp" for cp
    using assms(2) k that by (simp add: dedup_lookup_def split: if_splits)
  have "entry_ok i (L @ [x]) (if i = j then Some (checkpoint now r off) else map_of (ps_dedup ps) i)" for i
  proof -
    have e: "entry_ok i L (map_of (ps_dedup ps) i)" using assms(1) by (simp add: dedup_inv_def)
    show ?thesis
    proof (cases "i = j")
      case True
      with entry_ok_publish [OF e, of x "checkpoint now r off"] old k assms(3,4) show ?thesis by (simp add: checkpoint_def)
    next
      case False
      with entry_ok_plain [OF e] k assms(3) show ?thesis by simp
    qed
  qed
  then show ?thesis using k by (simp add: dedup_inv_def noted_def update_conv')
qed

lemma dedup_inv_plain: "dedup_inv L ps \<Longrightarrow> producerIdempKey x = None \<Longrightarrow> dedup_inv (L @ [x]) ps"
  by (simp add: dedup_inv_def entry_ok_plain)

section \<open>Runs of publishes\<close>

text \<open>A publish as it reaches the broker: the two clock readings, where the fan-out is cut off, partition and record.\<close>

type_synonym pub = "int \<times> int \<times> (nat \<times> go_error) option \<times> PartitionRef \<times> Record"

fun pub_run :: "'st store_ops \<Rightarrow> pub list \<Rightarrow> 'st Broker \<Rightarrow> 'st Broker" where
  "pub_run ops [] b = b"
| "pub_run ops ((now, now', stop, p, r) # pubs) b = pub_run ops pubs (fst (bk_Publish ops None now now' stop b p r))"

fun pub_run_ok :: "'st store_ops \<Rightarrow> ('st \<Rightarrow> PartitionRef \<Rightarrow> Record \<Rightarrow> bool) \<Rightarrow> (PartitionRef \<Rightarrow> bool) \<Rightarrow> pub list \<Rightarrow> 'st Broker \<Rightarrow> bool" where
  "pub_run_ok ops fits addressable [] b = True"
| "pub_run_ok ops fits addressable ((now, now', stop, p, r) # pubs) b \<longleftrightarrow> pub_ok ops fits addressable now now' b p r
     \<and> pub_run_ok ops fits addressable pubs (fst (bk_Publish ops None now now' stop b p r))"

lemma last_header_norm: "last_header k (map norm_header hs) = last_header k hs"
proof -
  have "foldl (\<lambda>found h. if h_Key h = k then Some (gb (h_Value h)) else found) e (map norm_header hs)
    = foldl (\<lambda>found h. if h_Key h = k then Some (gb (h_Value h)) else found) e hs" for e
    by (induction hs arbitrary: e) (simp_all add: norm_header_def)
  then show ?thesis by (simp add: last_header_def)
qed

lemma producerIdempKey_norm: "producerIdempKey (norm_record r) = producerIdempKey r"
  by (simp add: producerIdempKey_def norm_record_def last_header_norm)

lemma pub_state_no_ttl: "bk_dedupTTL b \<le> 0 \<Longrightarrow> pub_state now b p r = part_state b p"
  by (simp add: pub_state_def evictStaleDedupLocked_def)

context store
begin

lemma key_nrm: "producerIdempKey (nrm r) = producerIdempKey r"
  using producerIdempKey_norm [of "nrm r"] producerIdempKey_norm [of r] nrm_norm [of r] by simp

lemma key_entries: "producerIdempKey (log_entry nrm now' off r) = producerIdempKey r" "r_Offset (log_entry nrm now' off r) = off"
  "producerIdempKey (dedup_entry nrm now now' doff p off r) = None"
proof -
  have "producerIdempKey ((timed now' r)\<lparr>r_Offset := off\<rparr>) = producerIdempKey r" by (rule producerIdempKey_cong) simp
  then show "producerIdempKey (log_entry nrm now' off r) = producerIdempKey r" by (simp add: log_entry_def key_nrm)
qed (simp_all add: log_entry_def dedup_entry_def nrm_keeps key_nrm)

definition table_ok :: "'st Broker \<Rightarrow> bool" where
  "table_ok b \<longleftrightarrow> inv (bk_store b) \<and> bk_cluster b = None \<and> bk_dedupTTL b \<le> 0 \<and> (\<forall>p. dedup_inv (log_of (bk_store b) p) (part_state b p))"

lemma publish_table:
  assumes "table_ok b" "pub_ok ops fits addressable now now' b p r"
  shows "table_ok (fst (bk_Publish ops None now now' stop b p r))"
proof -
  have b: "inv (bk_store b)" "bk_dedupTTL b \<le> 0" "\<And>q. dedup_inv (log_of (bk_store b) q) (part_state b q)"
    "bk_cluster b = None" using assms(1) by (simp_all add: table_ok_def)
  have ps: "pub_state now b p r = part_state b p" using b(2) by (rule pub_state_no_ttl)
  show ?thesis
  proof (cases "dedup_lookup (producerIdempKey r) (pub_state now b p r)")
    case (Some off)
    then show ?thesis using publish_retry [of b p r now off] assms ps by (auto simp: pub_ok_def table_ok_def)
  next
    case None
    let ?off = "hw_of (bk_store b) p"
    from publish_effect [OF b(1) assms(2) None, where stop = stop] obtain b' err where
      e: "bk_Publish ops None now now' stop b p r = (b', ?off, err)" "inv (bk_store b')"
      "log_of (bk_store b') = (let L = (log_of (bk_store b))(p := log_of (bk_store b) p @ [log_entry nrm now' ?off r])
         in if persists b p r then L(dedup_part b := L (dedup_part b) @ [dedup_entry nrm now now' (hw_of (bk_store b) (dedup_part b)) p ?off r]) else L)"
      "\<And>q. part_state b' q = (if q = p then noted now r ?off (pub_state now b p r) else part_state b q)"
      "bk_dedupTTL b' = bk_dedupTTL b" "bk_cluster b' = bk_cluster b" by metis
    have "dedup_inv (log_of (bk_store b) p @ [log_entry nrm now' ?off r]) (noted now r ?off (part_state b p))"
      using dedup_inv_publish [OF b(3) _ key_entries(1,2)] None ps by simp
    then show ?thesis
      using e b(2-4) persists_other [of b p r] by (auto simp: table_ok_def ps Let_def dedup_inv_plain key_entries)
  qed
qed

lemma run_table: "table_ok b \<Longrightarrow> pub_run_ok ops fits addressable pubs b \<Longrightarrow> table_ok (pub_run ops pubs b)"
proof (induction pubs arbitrary: b)
  case (Cons pub pubs)
  obtain now now' stop p r where "pub = (now, now', stop, p, r)" by (cases pub) auto
  with Cons publish_table show ?case by simp
qed simp

lemma new_table:
  assumes "inv st" "\<And>p. log_of st p = []" "ttl \<le> 0" shows "table_ok (NewBroker st rg None ttl dt)"
  using assms by (simp add: table_ok_def NewBroker_def dedup_inv_def part_state_def entry_ok_def)

text \<open>A record whose producer and number the log already holds is answered from the table.\<close>

lemma known_retry:
  assumes "table_ok b" "bk_validate b p = Inr ()" "producerIdempKey r = Some (i, s)"
    and "s \<in> set (seqs_of i (log_of (bk_store b) p))"
  shows "\<exists>x b'. x \<in> set (log_of (bk_store b) p) \<and> producerIdempKey x = Some (i, last (seqs_of i (log_of (bk_store b) p)))
    \<and> bk_Publish ops ctx now now' stop b p r = (b', r_Offset x, None) \<and> bk_store b' = bk_store b \<and> bk_chans b' = bk_chans b"
proof -
  have cl: "bk_cluster b = None" using assms(1) by (simp add: table_ok_def)
  let ?S = "seqs_of i (log_of (bk_store b) p)"
  have ps: "pub_state now b p r = part_state b p" using assms(1) by (simp add: table_ok_def pub_state_no_ttl)
  have e: "entry_ok i (log_of (bk_store b) p) (map_of (ps_dedup (part_state b p)) i)" using assms(1) by (simp add: table_ok_def dedup_inv_def)
  then obtain cp x where cp: "map_of (ps_dedup (part_state b p)) i = Some cp" "last ?S = cp_lastSeq cp" "sorted_wrt (<) ?S"
    "x \<in> set (log_of (bk_store b) p)" "r_Offset x = cp_lastOffset cp" "producerIdempKey x = Some (i, cp_lastSeq cp)"
    using assms(4) by (auto simp: entry_ok_def split: option.splits)
  have "s \<le> last ?S" using assms(4) cp(3) by (cases ?S rule: rev_cases) (auto simp: sorted_wrt_append)
  then have "dedup_lookup (producerIdempKey r) (pub_state now b p r) = Some (r_Offset x)"
    using assms(3) cp ps by (simp add: dedup_lookup_def)
  from publish_retry [OF cl assms(2) this, of ops ctx now' stop] cp show ?thesis by auto
qed

end

end
