(* ===== verification/Broker_Subscribe.thy ===== *)
theory Broker_Subscribe
  imports Broker_Publish "HOL-Library.Sublist"
begin

text \<open>
  Subscriptions of a broker: a step relation for publishers and the goroutines of any number of
  subscriptions, the invariant that ties what a subscription has sent to the log of its partition, and
  the measure by which it drains. Records are compared up to nil and empty slices, since a live record
  comes from the publisher and a caught-up one from the store.
\<close>

section \<open>Phases against the log\<close>

text \<open>
  \<open>M\<close> is the log of the partition, \<open>q\<close> the queue of the subscriber and \<open>out\<close> what was sent, all normalised;
  \<open>n0\<close> is the first offset asked for and \<open>h0\<close> the high-water mark at registration.
\<close>

fun phase_ok :: "nat \<Rightarrow> nat \<Rightarrow> Record list \<Rightarrow> Record list \<Rightarrow> Record list \<Rightarrow> pump_phase \<Rightarrow> bool" where
  "phase_ok n0 h0 M q out (CatchUp c) \<longleftrightarrow> 0 \<le> c \<and> n0 \<le> nat c \<and> nat c \<le> max n0 (length M) \<and> h0 \<le> length M
     \<and> out = take (nat c - n0) (drop n0 M) \<and> q = drop h0 M"
| "phase_ok n0 h0 M q out (Emit pend c) \<longleftrightarrow> 0 \<le> c \<and> n0 \<le> nat c \<and> nat c \<le> max n0 (length M) \<and> h0 \<le> length M
     \<and> out @ map norm_record pend = take (nat c - n0) (drop n0 M) \<and> q = drop h0 M"
| "phase_ok n0 h0 M q out (Live c) \<longleftrightarrow> 0 \<le> c \<and> n0 \<le> nat c \<and> nat c \<le> max n0 (length M)
     \<and> out = take (nat c - n0) (drop n0 M) \<and> (\<exists>k. k \<le> nat c \<and> k \<le> length M \<and> q = drop k M)"
| "phase_ok n0 h0 M q out (LiveSend r c) \<longleftrightarrow> 0 \<le> c \<and> n0 \<le> nat c \<and> nat c < length M
     \<and> out = take (nat c - n0) (drop n0 M) \<and> norm_record r = M ! nat c \<and> r_Offset r = c \<and> q = drop (nat c + 1) M"
| "phase_ok n0 h0 M q out Stopped \<longleftrightarrow> prefix out (drop n0 M)"

lemma phase_ok_prefix:
  assumes "phase_ok n0 h0 M q out ph" shows "prefix out (drop n0 M)"
proof (cases ph)
  case (Emit pend c)
  with assms have "out @ map norm_record pend = take (nat c - n0) (drop n0 M)" by simp
  then have "prefix (out @ map norm_record pend) (drop n0 M)" by (simp add: take_is_prefix)
  then show ?thesis by (rule append_prefixD)
qed (use assms in \<open>auto simp: take_is_prefix\<close>)

lemma take_grow: "k \<le> max n (length M) \<Longrightarrow> take (k - n) (drop n (M @ [y])) = take (k - n) (drop n M)"
  by (cases "n \<le> length M") (auto simp: max_def)

lemma phase_ok_publish:
  assumes "phase_ok n0 h0 M q out ph" shows "phase_ok n0 h0 (M @ [y]) (if ph = Stopped then q else q @ [y]) out ph"
proof (cases "ph = Stopped")
  case True
  with assms show ?thesis by simp
next
  case False
  with assms show ?thesis by (cases ph) (auto simp: take_grow nth_append Suc_diff_le)
qed

text \<open>The moves of a subscription between its phases.\<close>

lemma phase_go_live: "phase_ok n h M q out (CatchUp c) \<Longrightarrow> h \<le> nat c \<Longrightarrow> phase_ok n h M q out (Live c)"
  by auto

lemma phase_emit: "phase_ok n h M q out (Emit (r # pend) c) \<Longrightarrow> phase_ok n h M q (out @ [norm_record r]) (Emit pend c)"
  by simp

lemma phase_batch:
  assumes "phase_ok n h M q out (CatchUp c)" "map norm_record B = take k (drop (nat c) M)" "B \<noteq> []"
  shows "phase_ok n h M q out (Emit B (c + int (length B)))"
proof -
  have c: "0 \<le> c" "n \<le> nat c" "out = take (nat c - n) (drop n M)" using assms(1) by simp_all
  have l: "length B \<le> length M - nat c" "length B > 0" using assms(2,3) length_map [of norm_record B] by simp_all
  have "map norm_record B = take (length B) (drop (nat c) M)"
    using assms(2) by (metis length_map take_take min.idem length_take min.commute take_all_iff nle_le)
  then have "out @ map norm_record B = take (nat c - n + length B) (drop n M)"
    using c take_add [of "nat c - n" "length B" "drop n M"] by simp
  moreover have "nat c + length B \<le> length M" using l by linarith
  ultimately show ?thesis using assms(1) c by (simp add: nat_add_distrib)
qed

lemma phase_take:
  assumes "phase_ok n h M (norm_record r # q) out (Live c)" "\<And>i. i < length M \<Longrightarrow> r_Offset (M ! i) = int i"
  shows "phase_ok n h M q out (if r_Offset r < c then Live c else LiveSend r c)"
proof -
  from assms(1) obtain k where k: "k \<le> nat c" "k \<le> length M" "norm_record r # q = drop k M" by auto
  have l: "k < length M" using k(3) by (metis drop_all list.distinct(1) not_le_imp_less)
  then have rq: "norm_record r = M ! k" "q = drop (Suc k) M" using k(3) by (simp_all add: Cons_nth_drop_Suc [OF l, symmetric])
  have "r_Offset r = int k" using assms(2) [OF l] rq(1) by (simp add: norm_record_def flip: rq(1))
  then show ?thesis using assms(1) k l rq by (cases "k = nat c") (auto intro: exI [of _ "Suc k"])
qed

lemma phase_send:
  assumes "phase_ok n h M q out (LiveSend r c)"
  shows "phase_ok n h M q (out @ [norm_record r]) (Live (r_Offset r + 1))"
proof -
  have c: "0 \<le> c" "n \<le> nat c" "nat c < length M" "out = take (nat c - n) (drop n M)" "norm_record r = M ! nat c" "r_Offset r = c" "q = drop (nat c + 1) M"
    using assms by simp_all
  have "out @ [norm_record r] = take (Suc (nat c - n)) (drop n M)" using c by (simp add: take_Suc_conv_app_nth)
  moreover have "nat (c + 1) = Suc (nat c)" using c(1) by simp
  ultimately show ?thesis using c by (simp add: Suc_diff_le le_max_iff_disj) (rule exI [of _ "Suc (nat c)"], simp)
qed

section \<open>Draining\<close>

fun pump_measure :: "nat \<Rightarrow> nat \<Rightarrow> pump_phase \<Rightarrow> nat" where
  "pump_measure m ql (CatchUp c) = 3 * (m - nat c) + 2 * ql + 2"
| "pump_measure m ql (Emit pend c) = 3 * (m - nat c) + length pend + 2 * ql + 3"
| "pump_measure m ql (Live c) = 2 * ql + 1"
| "pump_measure m ql (LiveSend r c) = 2 * ql + 2"
| "pump_measure m ql Stopped = 0"

section \<open>The system\<close>

text \<open>
  A configuration is the broker and its subscriptions, each with the offset it was opened at. The
  steps are a publish, a new subscription, and a step of one subscription; \<open>ctx\<close> and \<open>ended\<close> let the
  subscriber go away at any time.
\<close>

type_synonym 'st sub_config = "'st Broker \<times> (int \<times> pump) list"

inductive sub_step :: "'st store_ops \<Rightarrow> ('st \<Rightarrow> PartitionRef \<Rightarrow> Record \<Rightarrow> bool) \<Rightarrow> (PartitionRef \<Rightarrow> bool) \<Rightarrow> 'st sub_config \<Rightarrow> 'st sub_config \<Rightarrow> bool"
  for ops fits addressable where
  sub_publish: "pub_ok ops fits addressable now now' b p r \<Longrightarrow> bk_Publish ops None now now' None b p r = (b', res) \<Longrightarrow>
     sub_step ops fits addressable (b, pus) (b', pus)"
| sub_open: "bk_Subscribe ops None b p f = (b', Inr pu) \<Longrightarrow> addressable p \<Longrightarrow> p_Topic p \<noteq> bk_dedupTopic b \<Longrightarrow> 0 \<le> f \<Longrightarrow>
     sub_step ops fits addressable (b, pus) (b', pus @ [(f, pu)])"
| sub_pump: "i < length pus \<Longrightarrow> pump_step ops ctx ended b (snd (pus ! i)) = (b', pu') \<Longrightarrow>
     sub_step ops fits addressable (b, pus) (b', pus[i := (fst (pus ! i), pu')])"

inductive sub_reach :: "'st store_ops \<Rightarrow> ('st \<Rightarrow> PartitionRef \<Rightarrow> Record \<Rightarrow> bool) \<Rightarrow> (PartitionRef \<Rightarrow> bool) \<Rightarrow> 'st Broker \<Rightarrow> 'st sub_config \<Rightarrow> bool"
  for ops fits addressable b0 where
  reach_new: "sub_reach ops fits addressable b0 (b0, [])"
| reach_step: "sub_reach ops fits addressable b0 c \<Longrightarrow> sub_step ops fits addressable c c' \<Longrightarrow> sub_reach ops fits addressable b0 c'"

lemma evict_subscribers [simp]: "ps_subscribers (evictStaleDedupLocked t now ps) = ps_subscribers ps"
  by (simp add: evictStaleDedupLocked_def)

lemma noted_subscribers [simp]: "ps_subscribers (noted now r off ps) = ps_subscribers ps"
  by (simp add: noted_def split: option.split prod.split)

lemma pub_state_subscribers [simp]: "ps_subscribers (pub_state now b p r) = ps_subscribers (part_state b p)"
  by (simp add: pub_state_def)

lemma removeSubscriber_sel [simp]:
  "bk_store (removeSubscriber b p c) = bk_store b" "bk_registry (removeSubscriber b p c) = bk_registry b"
  "bk_dedupTopic (removeSubscriber b p c) = bk_dedupTopic b" "bk_nextChan (removeSubscriber b p c) = bk_nextChan b"
  "chan_get (removeSubscriber b p c) ch = chan_get b ch"
  "ps_subscribers (part_state (removeSubscriber b p c) q) =
     (if q = p then remove1 c (ps_subscribers (part_state b p)) else ps_subscribers (part_state b q))"
  by (simp_all add: removeSubscriber_def Let_def)

text \<open>The subscriber lists: no channel twice, none that was not handed out, and a subscription is listed until it ends.\<close>

definition lists_ok :: "'st Broker \<Rightarrow> bool" where
  "lists_ok b \<longleftrightarrow> (\<forall>p. distinct (ps_subscribers (part_state b p)) \<and> (\<forall>c\<in>set (ps_subscribers (part_state b p)). c < bk_nextChan b))"

definition listed :: "'st Broker \<Rightarrow> pump \<Rightarrow> bool" where
  "listed b pu \<longleftrightarrow> pu_sub pu < bk_nextChan b \<and> p_Topic (pu_part pu) \<noteq> bk_dedupTopic b
     \<and> (\<forall>p. pu_sub pu \<in> set (ps_subscribers (part_state b p)) \<longleftrightarrow> p = pu_part pu \<and> pu_phase pu \<noteq> Stopped)"

context store
begin

definition sub_ok :: "int \<Rightarrow> 'st Broker \<Rightarrow> pump \<Rightarrow> bool" where
  "sub_ok f b pu \<longleftrightarrow> listed b pu \<and> addressable (pu_part pu) \<and> 0 \<le> f \<and> 0 \<le> pu_hw pu
     \<and> phase_ok (nat f) (nat (pu_hw pu)) (map norm_record (log_of (bk_store b) (pu_part pu)))
         (map norm_record (chan_get b (pu_sub pu))) (map norm_record (pu_out pu)) (pu_phase pu)"

definition logs_ok :: "'st Broker \<Rightarrow> bool" where
  "logs_ok b \<longleftrightarrow> inv (bk_store b) \<and> (\<forall>p. dense (log_of (bk_store b) p) \<and> hw_of (bk_store b) p = int (length (log_of (bk_store b) p)))"

definition sys_ok :: "'st sub_config \<Rightarrow> bool" where
  "sys_ok c = (case c of (b, pus) \<Rightarrow> logs_ok b \<and> lists_ok b \<and> distinct (map (\<lambda>x. pu_sub (snd x)) pus) \<and> (\<forall>(f, pu)\<in>set pus. sub_ok f b pu))"

lemma sub_ok_phase:
  "sub_ok f b pu \<Longrightarrow> phase_ok (nat f) (nat (pu_hw pu)) (map norm_record (log_of (bk_store b) (pu_part pu)))
     (map norm_record (chan_get b (pu_sub pu))) (map norm_record (pu_out pu)) (pu_phase pu)"
  "sub_ok f b pu \<Longrightarrow> addressable (pu_part pu)" "sub_ok f b pu \<Longrightarrow> 0 \<le> pu_hw pu"
  by (simp_all add: sub_ok_def)

lemma sub_ok_cong:
  assumes "sub_ok f b pu" "bk_nextChan b \<le> bk_nextChan b'" "bk_dedupTopic b' = bk_dedupTopic b"
    and "log_of (bk_store b') (pu_part pu) = log_of (bk_store b) (pu_part pu)" "chan_get b' (pu_sub pu) = chan_get b (pu_sub pu)"
    and "\<And>p. pu_sub pu \<in> set (ps_subscribers (part_state b' p)) \<longleftrightarrow> pu_sub pu \<in> set (ps_subscribers (part_state b p))"
  shows "sub_ok f b' pu"
  using assms by (auto simp: sub_ok_def listed_def)

lemma publish_sub_ok:
  assumes "logs_ok b" "lists_ok b" "pub_ok ops fits addressable now now' b p r" "bk_Publish ops None now now' None b p r = (b', res)"
  shows "logs_ok b' \<and> lists_ok b' \<and> (\<forall>f pu. sub_ok f b pu \<longrightarrow> sub_ok f b' pu)"
proof (cases "dedup_lookup (producerIdempKey r) (pub_state now b p r)")
  case (Some off)
  then have "b' = put_part b p (pub_state now b p r)" using publish_retry [of b p r now off] assms(3,4) by (auto simp: pub_ok_def)
  moreover have "sub_ok f (put_part b p (pub_state now b p r)) pu" if "sub_ok f b pu" for f pu
    by (rule sub_ok_cong [OF that]) simp_all
  ultimately show ?thesis using assms(1,2) by (simp add: logs_ok_def lists_ok_def)
next
  case None
  have i: "inv (bk_store b)" using assms(1) by (simp add: logs_ok_def)
  let ?off = "hw_of (bk_store b) p" and ?d = "dedup_part b"
  let ?y = "(timed now' r)\<lparr>r_Offset := ?off\<rparr>"
  obtain b'' err where run: "bk_Publish ops None now now' None b p r = (b'', ?off, err)"
    and e'': "inv (bk_store b'')"
    "log_of (bk_store b'') = (let L = (log_of (bk_store b))(p := log_of (bk_store b) p @ [log_entry nrm now' ?off r])
       in if persists b p r then L(?d := L ?d @ [dedup_entry nrm now now' (hw_of (bk_store b) ?d) p ?off r]) else L)"
    "hw_of (bk_store b'') = (let H = (hw_of (bk_store b))(p := ?off + 1) in if persists b p r then H(?d := H ?d + 1) else H)"
    and st'': "\<And>q. part_state b'' q = (if q = p then noted now r ?off (pub_state now b p r) else part_state b q)"
    "bk_dedupTopic b'' = bk_dedupTopic b" "bk_nextChan b'' = bk_nextChan b"
    "\<And>c. distinct (ps_subscribers (part_state b p)) \<Longrightarrow> chan_get b'' c =
      chan_get b c @ (if c \<in> set (ps_subscribers (part_state b p)) then [?y] else [])"
    by (rule publish_effect [OF i assms(3) None, where stop = None]) (erule that, simp_all)
  have "b'' = b'" using run assms(4) by simp
  note e = e'' [unfolded this] and st = st'' [unfolded this]
  have subs: "ps_subscribers (part_state b' q) = ps_subscribers (part_state b q)" for q by (simp add: st(1))
  have dist: "distinct (ps_subscribers (part_state b p))" using assms(2) by (simp add: lists_ok_def)
  have "logs_ok b'"
    using assms(1) e persists_other [of b p r] by (auto simp: logs_ok_def Let_def key_entries dedup_entry_def nrm_keeps intro!: dense_snoc)
  moreover have "lists_ok b'" using assms(2) st(3) subs by (simp add: lists_ok_def)
  moreover have "sub_ok f b' pu" if s: "sub_ok f b pu" for f pu
  proof (cases "pu_part pu = p")
    case True
    have l: "log_of (bk_store b') p = log_of (bk_store b) p @ [log_entry nrm now' ?off r]"
      using e(2) persists_other [of b p r] by (auto simp: Let_def)
    have n: "norm_record (log_entry nrm now' ?off r) = norm_record ?y" by (simp add: log_entry_def nrm_norm)
    have c: "pu_sub pu \<in> set (ps_subscribers (part_state b p)) \<longleftrightarrow> pu_phase pu \<noteq> Stopped" using s True by (simp add: sub_ok_def listed_def)
    show ?thesis
      using s True phase_ok_publish [OF sub_ok_phase(1) [OF s], of "norm_record ?y"]
      by (cases "pu_phase pu = Stopped") (simp_all add: sub_ok_def listed_def l n st(2-4) subs c dist del: phase_ok.simps)
  next
    case False
    have "pu_part pu \<noteq> ?d" using s by (auto simp: sub_ok_def listed_def dedup_part_def)
    then have "log_of (bk_store b') (pu_part pu) = log_of (bk_store b) (pu_part pu)" using e(2) False by (simp add: Let_def)
    moreover have "pu_sub pu \<notin> set (ps_subscribers (part_state b p))" using s False by (auto simp: sub_ok_def listed_def)
    ultimately show ?thesis using st(2-4) dist subs by (intro sub_ok_cong [OF s]) simp_all
  qed
  ultimately show ?thesis by blast
qed

lemma subscribe_sub_ok:
  assumes "logs_ok b" "lists_ok b" "bk_Subscribe ops None b p f = (b', Inr pu)" "addressable p" "p_Topic p \<noteq> bk_dedupTopic b" "0 \<le> f"
  shows "logs_ok b' \<and> lists_ok b' \<and> sub_ok f b' pu \<and> pu_sub pu = bk_nextChan b \<and> (\<forall>g pu. sub_ok g b pu \<longrightarrow> sub_ok g b' pu)"
proof -
  have i: "inv (bk_store b)" using assms(1) by (simp add: logs_ok_def)
  from highwater_law [OF i assms(4)] obtain st where
    st: "so_HighWater ops None (bk_store b) p = (st, Inr (hw_of (bk_store b) p))" "inv st" "log_of st = log_of (bk_store b)" "hw_of st = hw_of (bk_store b)"
    by blast
  let ?sub = "bk_nextChan b" and ?ps = "part_state b p"
  let ?b = "put_part (b\<lparr>bk_store := st, bk_nextChan := ?sub + 1\<rparr>) p (?ps\<lparr>ps_subscribers := ps_subscribers ?ps @ [?sub]\<rparr>)"
  have b': "b' = chan_put ?b ?sub []"
    and pu: "pu = \<lparr>pu_part = p, pu_sub = ?sub, pu_hw = hw_of (bk_store b) p, pu_phase = CatchUp f, pu_out = []\<rparr>"
    using assms(3) st(1) by (simp_all add: bk_Subscribe_def Let_def split: sum.splits)
  have fresh: "?sub \<notin> set (ps_subscribers (part_state b q))" for q using assms(2) by (auto simp: lists_ok_def)
  have ps: "part_state b' q = (if q = p then ?ps\<lparr>ps_subscribers := ps_subscribers ?ps @ [?sub]\<rparr> else part_state b q)" for q
    by (simp add: b' part_state_def put_part_def chan_put_def update_conv')
  have "logs_ok b'" using assms(1) st by (simp add: logs_ok_def b')
  moreover have "lists_ok b'" using assms(2) fresh by (auto simp: lists_ok_def ps b' less_Suc_eq)
  moreover have "sub_ok f b' pu"
    using assms(1,4-6) fresh st(3) by (auto simp: sub_ok_def listed_def ps b' pu logs_ok_def)
  moreover have "sub_ok g b' pu'" if s: "sub_ok g b pu'" for g pu'
  proof (rule sub_ok_cong [OF s])
    have "pu_sub pu' < ?sub" using s by (simp add: sub_ok_def listed_def)
    then show "chan_get b' (pu_sub pu') = chan_get b (pu_sub pu')" by (simp add: b')
    from \<open>pu_sub pu' < ?sub\<close> show "pu_sub pu' \<in> set (ps_subscribers (part_state b' q)) \<longleftrightarrow> pu_sub pu' \<in> set (ps_subscribers (part_state b q))" for q
      by (auto simp: ps)
  qed (simp_all add: b' st)
  ultimately show ?thesis using pu by simp
qed

text \<open>What one step of a subscription may change.\<close>

definition pump_frame :: "'st Broker \<Rightarrow> pump \<Rightarrow> 'st Broker \<Rightarrow> pump \<Rightarrow> bool" where
  "pump_frame b pu b' pu' \<longleftrightarrow> inv (bk_store b') \<and> log_of (bk_store b') = log_of (bk_store b) \<and> hw_of (bk_store b') = hw_of (bk_store b)
     \<and> bk_nextChan b' = bk_nextChan b \<and> bk_dedupTopic b' = bk_dedupTopic b
     \<and> pu_sub pu' = pu_sub pu \<and> pu_part pu' = pu_part pu \<and> pu_hw pu' = pu_hw pu
     \<and> (\<forall>c. c \<noteq> pu_sub pu \<longrightarrow> chan_get b' c = chan_get b c)
     \<and> (\<forall>q. ps_subscribers (part_state b' q) =
           (if q = pu_part pu \<and> pu_phase pu \<noteq> Stopped \<and> pu_phase pu' = Stopped then remove1 (pu_sub pu) (ps_subscribers (part_state b q))
            else ps_subscribers (part_state b q)))"

definition pump_keeps :: "int \<Rightarrow> 'st Broker \<Rightarrow> pump \<Rightarrow> 'st Broker \<times> pump \<Rightarrow> bool" where
  "pump_keeps f b pu res = (case res of (b', pu') \<Rightarrow> pump_frame b pu b' pu'
     \<and> phase_ok (nat f) (nat (pu_hw pu)) (map norm_record (log_of (bk_store b) (pu_part pu)))
         (map norm_record (chan_get b' (pu_sub pu))) (map norm_record (pu_out pu')) (pu_phase pu'))"

lemma stop_keeps:
  assumes "sub_ok f b pu" "pu_phase pu \<noteq> Stopped" "inv st" "log_of st = log_of (bk_store b)" "hw_of st = hw_of (bk_store b)"
  shows "pump_keeps f b pu (pump_stop (b\<lparr>bk_store := st\<rparr>) pu)"
  using assms(2-5) phase_ok_prefix [OF sub_ok_phase(1) [OF assms(1)]] by (simp add: pump_keeps_def pump_frame_def pump_stop_def)

lemma stop_keeps_here: "logs_ok b \<Longrightarrow> sub_ok f b pu \<Longrightarrow> pu_phase pu \<noteq> Stopped \<Longrightarrow> pump_keeps f b pu (pump_stop b pu)"
  using stop_keeps [of f b pu "bk_store b"] by (simp add: logs_ok_def)

lemma catchup_keeps:
  assumes "logs_ok b" "sub_ok f b pu" "pu_phase pu = CatchUp c"
  shows "pump_keeps f b pu (pump_step ops ctx ended b pu)"
proof (cases "c < pu_hw pu")
  case False
  with phase_go_live [OF sub_ok_phase(1) [OF assms(2), unfolded assms(3)]] assms show ?thesis
    by (simp add: pump_keeps_def pump_step_def pump_frame_def logs_ok_def)
next
  case True
  have i: "inv (bk_store b)" and d: "dense (log_of (bk_store b) (pu_part pu))" using assms(1) by (simp_all add: logs_ok_def)
  have cu: "phase_ok (nat f) (nat (pu_hw pu)) (map norm_record (log_of (bk_store b) (pu_part pu)))
     (map norm_record (chan_get b (pu_sub pu))) (map norm_record (pu_out pu)) (CatchUp c)" and c: "0 \<le> c"
    using sub_ok_phase(1) [OF assms(2)] assms(3) by simp_all
  show ?thesis
  proof (cases ctx)
    case (Some e)
    then show ?thesis using True assms(3) cancelled(2) stop_keeps [OF assms(2) _ i] by (simp add: pump_step_def)
  next
    case None
    let ?B = "take 256 (drop (nat c) (log_of (bk_store b) (pu_part pu)))"
    from read_law [OF i sub_ok_phase(2) [OF assms(2)] c, of 256] dense_filter [OF d c] obtain st where
      st: "so_Read ops None (bk_store b) (pu_part pu) c 256 = (st, Inr ?B)" "inv st" "log_of st = log_of (bk_store b)" "hw_of st = hw_of (bk_store b)"
      by auto
    show ?thesis
    proof (cases "?B = []")
      case empty: True
      then have "pump_step ops ctx ended b pu = pump_stop (b\<lparr>bk_store := st\<rparr>) pu" using True assms(3) None st(1) by (simp add: pump_step_def)
      with stop_keeps [OF assms(2) _ st(2-4)] assms(3) show ?thesis by simp
    next
      case False
      then have "pump_step ops ctx ended b pu = (b\<lparr>bk_store := st\<rparr>, pu\<lparr>pu_phase := Emit ?B (c + int (length ?B))\<rparr>)"
        using True assms(3) None st(1) by (simp add: pump_step_def)
      with phase_batch [OF cu _ False, of 256] st(2-4) assms(3) show ?thesis
        by (simp add: pump_keeps_def pump_frame_def take_map drop_map del: phase_ok.simps)
    qed
  qed
qed

lemma emit_keeps:
  assumes "logs_ok b" "sub_ok f b pu" "pu_phase pu = Emit pend c"
  shows "pump_keeps f b pu (pump_step ops ctx ended b pu)"
proof (cases pend)
  case Nil
  then show ?thesis using sub_ok_phase(1) [OF assms(2)] assms by (simp add: pump_keeps_def pump_step_def pump_frame_def logs_ok_def)
next
  case (Cons r rest)
  show ?thesis
  proof (cases ended)
    case True
    then show ?thesis using Cons assms(3) stop_keeps_here [OF assms(1,2)] by (simp add: pump_step_def)
  next
    case False
    then show ?thesis using Cons assms(1,3) phase_emit [OF sub_ok_phase(1) [OF assms(2), unfolded assms(3) Cons]]
      by (simp add: pump_keeps_def pump_step_def pump_frame_def logs_ok_def del: phase_ok.simps)
  qed
qed

lemma live_keeps:
  assumes "logs_ok b" "sub_ok f b pu" "pu_phase pu = Live c"
  shows "pump_keeps f b pu (pump_step ops ctx ended b pu)"
proof (cases ended)
  case True
  then show ?thesis using assms(3) stop_keeps_here [OF assms(1,2)] by (simp add: pump_step_def)
next
  case False
  show ?thesis
  proof (cases "chan_get b (pu_sub pu)")
    case Nil
    then show ?thesis using False assms sub_ok_phase(1) [OF assms(2)]
      by (simp add: pump_keeps_def pump_step_def pump_frame_def logs_ok_def del: phase_ok.simps)
  next
    case (Cons r rest)
    let ?M = "map norm_record (log_of (bk_store b) (pu_part pu))"
    have "r_Offset (?M ! i) = int i" if "i < length ?M" for i
      using that dense_nth [of "log_of (bk_store b) (pu_part pu)" i] assms(1) by (simp add: logs_ok_def norm_record_def)
    from phase_take [OF sub_ok_phase(1) [OF assms(2), unfolded assms(3) Cons list.map] this] False Cons assms(1,3) show ?thesis
      by (simp add: pump_keeps_def pump_step_def pump_frame_def logs_ok_def del: phase_ok.simps)
  qed
qed

lemma pump_step_keeps:
  assumes "logs_ok b" "sub_ok f b pu"
  shows "pump_keeps f b pu (pump_step ops ctx ended b pu)"
proof (cases "pu_phase pu")
  case (LiveSend r c)
  show ?thesis
  proof (cases ended)
    case True
    then show ?thesis using LiveSend stop_keeps_here [OF assms] by (simp add: pump_step_def)
  next
    case False
    then show ?thesis using LiveSend assms(1) phase_send [OF sub_ok_phase(1) [OF assms(2), unfolded LiveSend]]
      by (simp add: pump_keeps_def pump_step_def pump_frame_def logs_ok_def del: phase_ok.simps)
  qed
next
  case Stopped
  then show ?thesis using assms(1) sub_ok_phase(1) [OF assms(2)]
    by (simp add: pump_keeps_def pump_step_def pump_frame_def logs_ok_def del: phase_ok.simps)
qed (use assms catchup_keeps emit_keeps live_keeps in blast)+

lemma frame_others:
  assumes "pump_frame b pu b' pu'" "logs_ok b" "lists_ok b"
  shows "logs_ok b'" "lists_ok b'" "\<And>g x. sub_ok g b x \<Longrightarrow> pu_sub x \<noteq> pu_sub pu \<Longrightarrow> sub_ok g b' x"
proof -
  show "logs_ok b'" using assms(1,2) by (simp add: pump_frame_def logs_ok_def)
  have "set (ps_subscribers (part_state b' q)) \<subseteq> set (ps_subscribers (part_state b q))" for q
    using assms(1) by (simp add: pump_frame_def set_remove1_subset)
  moreover have "distinct (ps_subscribers (part_state b' q))" for q using assms(1,3) by (simp add: pump_frame_def lists_ok_def)
  moreover have "bk_nextChan b' = bk_nextChan b" using assms(1) by (simp add: pump_frame_def)
  ultimately show "lists_ok b'" using assms(3) unfolding lists_ok_def by (metis subsetD)
  show "sub_ok g b' x" if "sub_ok g b x" "pu_sub x \<noteq> pu_sub pu" for g x
    using assms(1) that(2) by (intro sub_ok_cong [OF that(1)]) (simp_all add: pump_frame_def)
qed

lemma pump_step_sub_ok:
  assumes "logs_ok b" "lists_ok b" "sub_ok f b pu" "pump_step ops ctx ended b pu = (b', pu')"
  shows "pump_frame b pu b' pu'" "sub_ok f b' pu'"
proof -
  have k: "pump_keeps f b pu (b', pu')" using pump_step_keeps [OF assms(1,3), of ctx ended] assms(4) by simp
  then show fr: "pump_frame b pu b' pu'" by (simp add: pump_keeps_def)
  have stopped: "pu_phase pu' = Stopped" if "pu_phase pu = Stopped" using that assms(4) by (auto simp: pump_step_def)
  have l: "pu_sub pu < bk_nextChan b" "p_Topic (pu_part pu) \<noteq> bk_dedupTopic b"
    "\<And>p. pu_sub pu \<in> set (ps_subscribers (part_state b p)) \<longleftrightarrow> p = pu_part pu \<and> pu_phase pu \<noteq> Stopped"
    using assms(3) by (simp_all add: sub_ok_def listed_def)
  have "distinct (ps_subscribers (part_state b (pu_part pu)))" using assms(2) by (simp add: lists_ok_def)
  then have "listed b' pu'"
    using fr l stopped by (auto simp: listed_def pump_frame_def)
  with k fr assms(3) show "sub_ok f b' pu'" by (simp add: sub_ok_def pump_keeps_def pump_frame_def del: phase_ok.simps)
qed

lemma sys_step:
  assumes "sys_ok c" "sub_step ops fits addressable c c'" shows "sys_ok c'"
  using assms(2,1)
proof cases
  case (sub_publish now now' b p r b' res pus)
  then show ?thesis using assms(1) publish_sub_ok [of b now now' p r b' res] by (auto simp: sys_ok_def)
next
  case (sub_open b p f b' pu pus)
  have ok: "logs_ok b" "lists_ok b" "\<And>g x. (g, x) \<in> set pus \<Longrightarrow> sub_ok g b x" "distinct (map (\<lambda>x. pu_sub (snd x)) pus)"
    using assms(1) sub_open by (auto simp: sys_ok_def)
  note s = subscribe_sub_ok [OF ok(1,2) sub_open(3-6)]
  have "pu_sub x < bk_nextChan b" if "(g, x) \<in> set pus" for g x using ok(3) [OF that] by (simp add: sub_ok_def listed_def)
  with s ok sub_open show ?thesis by (fastforce simp: sys_ok_def)
next
  case (sub_pump i pus ctx ended b b' pu')
  have ok: "logs_ok b" "lists_ok b" "\<And>g x. (g, x) \<in> set pus \<Longrightarrow> sub_ok g b x" "distinct (map (\<lambda>x. pu_sub (snd x)) pus)"
    using assms(1) sub_pump by (auto simp: sys_ok_def)
  let ?f = "fst (pus ! i)" and ?pu = "snd (pus ! i)"
  have "sub_ok ?f b ?pu" using ok(3) sub_pump(3) by simp
  note p = pump_step_sub_ok [OF ok(1,2) this sub_pump(4)]
  note fr = frame_others [OF p(1) ok(1,2)]
  have "sub_ok (fst (pus[i := (?f, pu')] ! j)) b' (snd (pus[i := (?f, pu')] ! j))" if j: "j < length pus" for j
  proof (cases "j = i")
    case False
    then have "pu_sub (snd (pus ! j)) \<noteq> pu_sub ?pu"
      using ok(4) j sub_pump(3) nth_eq_iff_index_eq [OF ok(4), of j i] by simp
    with False j fr(3) ok(3) show ?thesis by simp
  qed (use p(2) sub_pump(3) in simp)
  moreover have "map (\<lambda>x. pu_sub (snd x)) (pus[i := (?f, pu')]) = map (\<lambda>x. pu_sub (snd x)) pus"
    using p(1) sub_pump(3) by (simp add: map_update pump_frame_def) (metis list_update_id nth_map)
  ultimately show ?thesis using fr(1,2) ok(4) sub_pump by (auto simp: sys_ok_def in_set_conv_nth) (metis fst_conv length_list_update snd_conv)
qed

lemma sys_reach:
  assumes "sub_reach ops fits addressable b0 c" "sys_ok (b0, [])" shows "sys_ok c"
  using assms by induction (simp_all add: sys_step)

text \<open>A subscription that is left alone drains: each step lowers the measure until the queue is empty.\<close>

lemma drain_step:
  assumes "logs_ok b" "sub_ok f b pu" "pu_phase pu \<noteq> Stopped" "\<not> (\<exists>c. pu_phase pu = Live c \<and> chan_get b (pu_sub pu) = [])"
    and "pump_step ops None False b pu = (b', pu')"
  shows "pu_phase pu' \<noteq> Stopped \<and>
    pump_measure (length (log_of (bk_store b) (pu_part pu))) (length (chan_get b' (pu_sub pu))) (pu_phase pu')
    < pump_measure (length (log_of (bk_store b) (pu_part pu))) (length (chan_get b (pu_sub pu))) (pu_phase pu)"
proof (cases "pu_phase pu")
  case (CatchUp c)
  have c: "0 \<le> c" and h: "nat (pu_hw pu) \<le> length (log_of (bk_store b) (pu_part pu))" using sub_ok_phase(1) [OF assms(2)] CatchUp by simp_all
  have i: "inv (bk_store b)" and d: "dense (log_of (bk_store b) (pu_part pu))" using assms(1) by (simp_all add: logs_ok_def)
  let ?B = "take 256 (drop (nat c) (log_of (bk_store b) (pu_part pu)))"
  from read_law [OF i sub_ok_phase(2) [OF assms(2)] c, of 256] dense_filter [OF d c] obtain st where
    st: "so_Read ops None (bk_store b) (pu_part pu) c 256 = (st, Inr ?B)" by auto
  show ?thesis
  proof (cases "c < pu_hw pu")
    case True
    then have "nat c < length (log_of (bk_store b) (pu_part pu))" using c h by linarith
    with True assms(5) CatchUp st c show ?thesis by (auto simp: pump_step_def nat_add_distrib min_def)
  qed (use assms(5) CatchUp in \<open>auto simp: pump_step_def\<close>)
next
  case (Emit pend c)
  then show ?thesis using assms(5) by (cases pend) (auto simp: pump_step_def)
next
  case (Live c)
  then show ?thesis using assms(4,5) by (cases "chan_get b (pu_sub pu)") (auto simp: pump_step_def split: if_splits)
qed (use assms(3,5) in \<open>auto simp: pump_step_def\<close>)

end

text \<open>The steps of one subscription on its own.\<close>

fun pump_run :: "'st store_ops \<Rightarrow> nat \<Rightarrow> 'st Broker \<times> pump \<Rightarrow> 'st Broker \<times> pump" where
  "pump_run ops 0 s = s"
| "pump_run ops (Suc n) (b, pu) = pump_run ops n (pump_step ops None False b pu)"

context store
begin

lemma drain:
  assumes "logs_ok b" "lists_ok b" "sub_ok f b pu" "pu_phase pu \<noteq> Stopped"
  shows "\<exists>n b' pu'. pump_run ops n (b, pu) = (b', pu') \<and> map norm_record (pu_out pu') = drop (nat f) (map norm_record (log_of (bk_store b) (pu_part pu)))
    \<and> (\<exists>c. pu_phase pu' = Live c) \<and> chan_get b' (pu_sub pu) = []"
  using assms
proof (induction "pump_measure (length (log_of (bk_store b) (pu_part pu))) (length (chan_get b (pu_sub pu))) (pu_phase pu)"
    arbitrary: b pu rule: less_induct)
  case less
  show ?case
  proof (cases "\<exists>c. pu_phase pu = Live c \<and> chan_get b (pu_sub pu) = []")
    case True
    then obtain c where c: "pu_phase pu = Live c" "chan_get b (pu_sub pu) = []" by blast
    with sub_ok_phase(1) [OF less.prems(3)] have
      "map norm_record (pu_out pu) = drop (nat f) (map norm_record (log_of (bk_store b) (pu_part pu)))" by (auto simp: diff_le_mono)
    with c have "pump_run ops 0 (b, pu) = (b, pu) \<and> map norm_record (pu_out pu) = drop (nat f) (map norm_record (log_of (bk_store b) (pu_part pu)))
      \<and> (\<exists>c. pu_phase pu = Live c) \<and> chan_get b (pu_sub pu) = []" by simp
    then show ?thesis by blast
  next
    case False
    obtain b1 pu1 where s: "pump_step ops None False b pu = (b1, pu1)" by fastforce
    note d = drain_step [OF less.prems(1,3,4) False s] and k = pump_step_sub_ok [OF less.prems(1-3) s]
    note o = frame_others [OF k(1) less.prems(1,2)]
    have same: "log_of (bk_store b1) (pu_part pu1) = log_of (bk_store b) (pu_part pu)" "pu_sub pu1 = pu_sub pu"
      using k(1) by (simp_all add: pump_frame_def)
    with less.hyps [of b1 pu1] d o(1,2) k(2) obtain n b' pu' where
      "pump_run ops n (b1, pu1) = (b', pu')" "map norm_record (pu_out pu') = drop (nat f) (map norm_record (log_of (bk_store b) (pu_part pu)))"
      "\<exists>c. pu_phase pu' = Live c" "chan_get b' (pu_sub pu) = []" by (metis (no_types, lifting))
    then have "pump_run ops (Suc n) (b, pu) = (b', pu') \<and> map norm_record (pu_out pu') = drop (nat f) (map norm_record (log_of (bk_store b) (pu_part pu)))
      \<and> (\<exists>c. pu_phase pu' = Live c) \<and> chan_get b' (pu_sub pu) = []" using s by simp
    then show ?thesis by blast
  qed
qed

end

end
