(* ===== verification/Broker_Dedup.thy ===== *)
theory Broker_Dedup
  imports Broker_Publish Store_Properties
begin

text \<open>
  The deduplication topic: the encoding of its records, the table a replay rebuilds from them, and the
  invariant that the live table is the one a replay would build.
\<close>

section \<open>Encoding\<close>

definition key_ok :: "string \<Rightarrow> PartitionRef \<Rightarrow> bool" where
  "key_ok i p \<longleftrightarrow> length i < 2 ^ 32 \<and> length (p_Topic p) < 2 ^ 32 \<and> int32_ok (p_Index p)"

definition cp_ok :: "producerCheckpoint \<Rightarrow> bool" where
  "cp_ok cp \<longleftrightarrow> int64_ok (cp_lastOffset cp) \<and> int64_ok (cp_lastSeen cp)"

lemma dedup_key_roundtrip: "key_ok i p \<Longrightarrow> DecodeDedupKey (encodeDedupKey i p) = Some (i, p)"
  by (cases p) (simp add: DecodeDedupKey_def encodeDedupKey_def key_ok_def sl_def codec_simps Let_def)

lemma dedup_value_roundtrip: "cp_ok cp \<Longrightarrow> DecodeDedupValue (encodeDedupValue cp) = Some cp"
  by (cases cp) (simp add: DecodeDedupValue_def encodeDedupValue_def cp_ok_def sl_def codec_simps)

lemma dedup_key_inject: "key_ok i p \<Longrightarrow> key_ok j q \<Longrightarrow> encodeDedupKey i p = encodeDedupKey j q \<longleftrightarrow> i = j \<and> p = q"
  by (metis dedup_key_roundtrip option.inject prod.inject)

section \<open>Replay\<close>

text \<open>A record as the broker writes it to the topic.\<close>

definition is_checkpoint :: "Record \<Rightarrow> string \<Rightarrow> PartitionRef \<Rightarrow> producerCheckpoint \<Rightarrow> bool" where
  "is_checkpoint r i p cp \<longleftrightarrow> key_ok i p \<and> cp_ok cp \<and> gb (r_Key r) = encodeDedupKey i p \<and> gb (r_Value r) = encodeDedupValue cp"

definition checkpoints :: "Record list \<Rightarrow> bool" where
  "checkpoints D \<longleftrightarrow> (\<forall>r\<in>set D. \<exists>i p cp. is_checkpoint r i p cp)"

definition replayed :: "Record list \<Rightarrow> PartitionRef \<Rightarrow> string \<Rightarrow> producerCheckpoint option" where
  "replayed D p i = (case last_with (encodeDedupKey i p) D of None \<Rightarrow> None | Some r \<Rightarrow> DecodeDedupValue (gb (r_Value r)))"

lemma replayed_snoc:
  assumes "is_checkpoint r j q cp" "key_ok i p"
  shows "replayed (D @ [r]) p i = (if p = q \<and> i = j then Some cp else replayed D p i)"
  using assms dedup_key_inject [of j q i p] by (auto simp: replayed_def is_checkpoint_def dedup_value_roundtrip)

lemma hydrate_checkpoint: "is_checkpoint r j q cp \<Longrightarrow> hydrate_record b r = HydrateDedup b j q cp"
  by (simp add: hydrate_record_def is_checkpoint_def dedup_key_roundtrip dedup_value_roundtrip)

lemma hydrate_sel_record [simp]:
  "bk_store (hydrate_record b r) = bk_store b" "bk_registry (hydrate_record b r) = bk_registry b" "bk_cluster (hydrate_record b r) = bk_cluster b"
  by (simp_all add: hydrate_record_def split: option.split prod.split)

lemma hydrate_store: "foldl hydrate_record (b\<lparr>bk_store := st\<rparr>) rs = (foldl hydrate_record b rs)\<lparr>bk_store := st\<rparr>"
proof -
  have "hydrate_record (b\<lparr>bk_store := st\<rparr>) r = (hydrate_record b r)\<lparr>bk_store := st\<rparr>" for b :: "'a Broker" and r
    by (simp add: hydrate_record_def HydrateDedup_def put_part_def Let_def split: option.split prod.split)
  then show ?thesis by (induction rs arbitrary: b) simp_all
qed

lemma hydrate_fold:
  assumes "checkpoints D" "key_ok i p"
  shows "map_of (ps_dedup (part_state (foldl hydrate_record b D) p)) i =
    (case replayed D p i of None \<Rightarrow> map_of (ps_dedup (part_state b p)) i | Some cp \<Rightarrow> Some cp)"
  using assms(1)
proof (induction D rule: rev_induct)
  case (snoc r D)
  obtain j q cp where r: "is_checkpoint r j q cp" using snoc.prems by (auto simp: checkpoints_def)
  have "checkpoints D" using snoc.prems by (simp add: checkpoints_def)
  with snoc.IH r assms(2) show ?case by (auto simp: hydrate_checkpoint replayed_snoc update_conv')
qed (simp add: replayed_def)

lemma checkpoint_valued: "is_checkpoint r i p cp \<Longrightarrow> r_Value r \<noteq> None"
  by (cases "r_Value r") (simp_all add: is_checkpoint_def encodeDedupValue_def be64_def)

lemma encodeDedupKey_nonempty: "encodeDedupKey i p \<noteq> []"
  by (simp add: encodeDedupKey_def be32_def)

lemma replayed_compacted:
  assumes "checkpoints D" "compacted D D'" shows "checkpoints D'" "replayed D' p i = replayed D p i"
proof -
  obtain n where n: "D' = keep_latest (take n D) @ drop n D" using assms(2) by (auto simp: compacted_def)
  have "set (keep_latest (take n D)) \<subseteq> set D" using keep_latest_subset set_take_subset by fastforce
  then have sub: "set D' \<subseteq> set D" using set_drop_subset by (auto simp: n dest: in_set_dropD)
  with assms(1) show "checkpoints D'" by (auto simp: checkpoints_def)
  have v: "r_Value r \<noteq> None" if "last_with k (take n D) = Some r" for k r
    using that assms(1) last_with_Some [OF that] checkpoint_valued by (metis checkpoints_def in_set_takeD)
  have "last_with (encodeDedupKey i p) D' = last_with (encodeDedupKey i p) (take n D @ drop n D)"
    unfolding n last_with_append last_with_keep [OF encodeDedupKey_nonempty]
    using v [of "encodeDedupKey i p"] by (cases "last_with (encodeDedupKey i p) (take n D)"; cases "last_with (encodeDedupKey i p) (drop n D)") simp_all
  then show "replayed D' p i = replayed D p i" by (simp add: replayed_def)
qed

section \<open>The live table and the topic\<close>

context store
begin

lemma hydrate_run:
  assumes "inv (bk_store b)" "addressable \<lparr>p_Topic = dedupTopic, p_Index = 0\<rparr>" "0 \<le> cursor"
  shows "\<exists>st'. hydrate_loop ops cursor b = Some ((foldl hydrate_record b
      (filter (\<lambda>r. cursor \<le> r_Offset r) (log_of (bk_store b) \<lparr>p_Topic = dedupTopic, p_Index = 0\<rparr>)))\<lparr>bk_store := st'\<rparr>, Inr ())
    \<and> inv st' \<and> log_of st' = log_of (bk_store b) \<and> hw_of st' = hw_of (bk_store b)"
  using assms
proof (induction "length (filter (\<lambda>r. cursor \<le> r_Offset r) (log_of (bk_store b) \<lparr>p_Topic = dedupTopic, p_Index = 0\<rparr>))"
    arbitrary: cursor b rule: less_induct)
  case less
  let ?p = "\<lparr>p_Topic = dedupTopic, p_Index = 0\<rparr>"
  let ?L = "filter (\<lambda>r. cursor \<le> r_Offset r) (log_of (bk_store b) ?p)"
  show ?case
  proof (cases rule: read_batch [OF less.prems])
    case (1 st1)
    then show ?thesis by (intro exI [of _ st1]) (subst hydrate_loop.simps, simp)
  next
    case (2 st1 batch)
    let ?c = "r_Offset (last batch) + 1" and ?b = "foldl hydrate_record (b\<lparr>bk_store := st1\<rparr>) batch"
    have b: "?b = (foldl hydrate_record b batch)\<lparr>bk_store := st1\<rparr>" by (simp add: hydrate_store)
    let ?rest = "filter (\<lambda>r. ?c \<le> r_Offset r) (log_of (bk_store ?b) ?p)"
    have rest: "batch @ ?rest = ?L" using 2(4,6) by (simp add: b)
    have "length ?rest < length ?L" using arg_cong [OF rest, of length] 2(2) by (simp flip: length_greater_0_conv)
    from less.hyps [OF this _ less.prems(2) 2(3)] 2(5) obtain st2 where
      st2: "hydrate_loop ops ?c ?b = Some ((foldl hydrate_record ?b ?rest)\<lparr>bk_store := st2\<rparr>, Inr ())"
      "inv st2" "log_of st2 = log_of st1" "hw_of st2 = hw_of st1" by (auto simp: b)
    have "(foldl hydrate_record ?b ?rest)\<lparr>bk_store := st2\<rparr> = (foldl hydrate_record b ?L)\<lparr>bk_store := st2\<rparr>"
      by (simp add: hydrate_store flip: rest)
    with st2 2 show ?thesis by (intro exI [of _ st2]) (subst hydrate_loop.simps, simp)
  qed
qed

definition table_synced :: "'st Broker \<Rightarrow> bool" where
  "table_synced b \<longleftrightarrow> inv (bk_store b) \<and> bk_dedupTTL b \<le> 0 \<and> bk_dedupTopic b = dedupTopic
     \<and> checkpoints (log_of (bk_store b) (dedup_part b))
     \<and> (\<forall>p i. key_ok i p \<longrightarrow> map_of (ps_dedup (part_state b p)) i = replayed (log_of (bk_store b) (dedup_part b)) p i)"

lemma dedup_entry_checkpoint:
  "producerIdempKey r = Some (i, s) \<Longrightarrow> key_ok i p \<Longrightarrow> int64_ok off \<Longrightarrow> int64_ok now \<Longrightarrow>
    is_checkpoint (dedup_entry nrm now now' doff p off r) i p (checkpoint now r off)"
  by (simp add: is_checkpoint_def dedup_entry_def nrm_keeps dedup_record_def cp_ok_def checkpoint_def)

lemma publish_synced:
  assumes "table_synced b" "pub_ok ops fits addressable now now' b p r" "p_Topic p \<noteq> dedupTopic"
    and "\<And>i s. producerIdempKey r = Some (i, s) \<Longrightarrow> key_ok i p \<and> int64_ok now \<and> int64_ok (hw_of (bk_store b) p)"
  shows "table_synced (fst (bk_Publish ops None now now' stop b p r))"
proof -
  have b: "inv (bk_store b)" "bk_dedupTTL b \<le> 0" "bk_dedupTopic b = dedupTopic" using assms(1) by (simp_all add: table_synced_def)
  have ps: "pub_state now b p r = part_state b p" using b(2) by (rule pub_state_no_ttl)
  have dp: "dedup_part b \<noteq> p" using assms(3) b(3) by (auto simp: dedup_part_def)
  show ?thesis
  proof (cases "dedup_lookup (producerIdempKey r) (pub_state now b p r)")
    case (Some off)
    have "dedup_part (put_part b p (part_state b p)) = dedup_part b" by (simp add: dedup_part_def)
    with Some show ?thesis using publish_retry [of b p r now off] assms(1,2) ps by (auto simp: pub_ok_def table_synced_def)
  next
    case None
    let ?off = "hw_of (bk_store b) p" and ?D = "log_of (bk_store b) (dedup_part b)"
    obtain b' err where e: "bk_Publish ops None now now' stop b p r = (b', ?off, err)" "inv (bk_store b')"
      "log_of (bk_store b') = (let L = (log_of (bk_store b))(p := log_of (bk_store b) p @ [log_entry nrm now' ?off r])
         in if persists b p r then L(dedup_part b := L (dedup_part b) @ [dedup_entry nrm now now' (hw_of (bk_store b) (dedup_part b)) p ?off r]) else L)"
      "\<And>q. part_state b' q = (if q = p then noted now r ?off (pub_state now b p r) else part_state b q)"
      "bk_dedupTTL b' = bk_dedupTTL b" "bk_dedupTopic b' = bk_dedupTopic b"
      by (rule publish_effect [OF b(1) assms(2) None, where stop = stop]) (erule that, simp_all)
    have d': "dedup_part b' = dedup_part b" using e(6) by (simp add: dedup_part_def)
    show ?thesis
    proof (cases "producerIdempKey r")
      case None
      then show ?thesis using e assms(1) dp ps d' by (simp add: table_synced_def persists_def noted_def Let_def)
    next
      case (Some k)
      then obtain i s where k: "producerIdempKey r = Some (i, s)" by (cases k) simp
      have per: "persists b p r" using k assms(3) b(3) by (simp add: persists_def dedupTopic_def)
      let ?x = "dedup_entry nrm now now' (hw_of (bk_store b) (dedup_part b)) p ?off r"
      have x: "is_checkpoint ?x i p (checkpoint now r ?off)" using dedup_entry_checkpoint [OF k] assms(4) [OF k] by blast
      have D: "log_of (bk_store b') (dedup_part b) = ?D @ [?x]" using e(3) per dp by (simp add: Let_def)
      have "checkpoints (?D @ [?x])" using assms(1) x by (auto simp: table_synced_def checkpoints_def)
      moreover have "map_of (ps_dedup (part_state b' q)) j = replayed (?D @ [?x]) q j" if "key_ok j q" for q j
        using assms(1) replayed_snoc [OF x that] that e(4) ps k by (auto simp: table_synced_def noted_def update_conv')
      ultimately show ?thesis using e(1,2,5,6) b d' D by (simp add: table_synced_def)
    qed
  qed
qed

end

text \<open>The publishes of a run stay off the deduplication topic and within the ranges of its encoding.\<close>

fun dedup_run_ok :: "'st store_ops \<Rightarrow> ('st \<Rightarrow> PartitionRef \<Rightarrow> int) \<Rightarrow> pub list \<Rightarrow> 'st Broker \<Rightarrow> bool" where
  "dedup_run_ok ops hw_of [] b = True"
| "dedup_run_ok ops hw_of ((now, now', stop, p, r) # pubs) b \<longleftrightarrow> p_Topic p \<noteq> dedupTopic
     \<and> (case producerIdempKey r of None \<Rightarrow> True | Some (i, _) \<Rightarrow> key_ok i p \<and> int64_ok now \<and> int64_ok (hw_of (bk_store b) p))
     \<and> dedup_run_ok ops hw_of pubs (fst (bk_Publish ops None now now' stop b p r))"

context store
begin

lemma run_synced:
  "table_synced b \<Longrightarrow> pub_run_ok ops fits addressable pubs b \<Longrightarrow> dedup_run_ok ops hw_of pubs b \<Longrightarrow> table_synced (pub_run ops pubs b)"
proof (induction pubs arbitrary: b)
  case (Cons pub pubs)
  obtain now now' stop p r where "pub = (now, now', stop, p, r)" by (cases pub) auto
  with Cons publish_synced [of b now now' p r stop] show ?case by (simp split: option.splits prod.splits)
qed simp

lemma new_synced:
  assumes "inv st" "\<And>p. log_of st p = []" "ttl \<le> 0" shows "table_synced (NewBroker st rg cl ttl dedupTopic)"
  using assms by (simp add: table_synced_def NewBroker_def checkpoints_def part_state_def replayed_def)

lemma hydrate_table:
  assumes "inv st" "addressable \<lparr>p_Topic = dedupTopic, p_Index = 0\<rparr>" "checkpoints (log_of st \<lparr>p_Topic = dedupTopic, p_Index = 0\<rparr>)"
  shows "\<exists>b. hydrateDedupFromTopic ops (NewBroker st rg cl ttl dt) = Some (b, Inr ()) \<and> inv (bk_store b) \<and> log_of (bk_store b) = log_of st
    \<and> (\<forall>p i. key_ok i p \<longrightarrow> map_of (ps_dedup (part_state b p)) i = replayed (log_of st \<lparr>p_Topic = dedupTopic, p_Index = 0\<rparr>) p i)"
proof -
  let ?p = "\<lparr>p_Topic = dedupTopic, p_Index = 0\<rparr>" and ?b = "NewBroker st rg cl ttl dt"
  have "filter (\<lambda>r. 0 \<le> r_Offset r) (log_of st ?p) = log_of st ?p" using log_bounds [OF assms(1)] by (auto intro: filter_True)
  with hydrate_run [of ?b 0] assms(1,2) obtain st' where
    h: "hydrate_loop ops 0 ?b = Some ((foldl hydrate_record ?b (log_of st ?p))\<lparr>bk_store := st'\<rparr>, Inr ())" "inv st'" "log_of st' = log_of st"
    by (auto simp: NewBroker_def)
  moreover have "part_state ?b p = \<lparr>ps_subscribers = [], ps_dedup = []\<rparr>" for p by (simp add: NewBroker_def part_state_def)
  ultimately have "map_of (ps_dedup (part_state (foldl hydrate_record ?b (log_of st ?p)) p)) i = replayed (log_of st ?p) p i" if "key_ok i p" for p i
    using hydrate_fold [OF assms(3) that, of ?b] by (simp split: option.splits)
  with h show ?thesis by (simp add: hydrateDedupFromTopic_def)
qed

end

end
