(* ===== verification/Broker_Props.thy ===== *)
theory Broker_Props
  imports Broker_Subscribe Broker_Dedup Cluster_Props
begin

text \<open>
  Properties of the broker on its stores: idempotent publishing, delivery to subscriptions, the
  deduplication table across restarts, and the cases the code leaves open: logs with gaps, recreated
  topics and cluster mode.
\<close>

section \<open>A small broker\<close>

definition sample_registry :: Registry where
  "sample_registry = Hydrate (NewRegistry None) [\<lparr>tc_Name = ''t'', tc_PartitionCount = 1, tc_RetentionMs = 0, tc_SegmentBytes = 0\<rparr>]"

definition sample_part :: PartitionRef where
  "sample_part = \<lparr>p_Topic = ''t'', p_Index = 0\<rparr>"

definition sample_idemp :: Record where
  "sample_idemp = (sample_record 9)\<lparr>r_Headers := [\<lparr>h_Key = HeaderProducerID, h_Value = Some (bytes_of_string ''p'')\<rparr>,
     \<lparr>h_Key = HeaderProducerSeq, h_Value = Some [0, 0, 0, 0, 0, 0, 0, 1]\<rparr>]\<rparr>"

lemma sample_valid: "bk_registry b = sample_registry \<Longrightarrow> bk_validate b sample_part = Inr ()"
  by (simp add: bk_validate_def sample_registry_def Hydrate_def NewRegistry_def PartitionsFor_def reg_Get_def sample_part_def)

lemma sample_key: "producerIdempKey sample_idemp = Some (''p'', 1)"
  by (simp add: producerIdempKey_def sample_idemp_def last_header_def HeaderProducerID_def HeaderProducerSeq_def)

lemma sample_addressable: "file_addressable sample_part"
  by (simp add: sample_part_def file_addressable_def good_name_def int64_ok_def)

lemma sample_fits: "file_fits (NewFileStore root mb) sample_part sample_idemp"
proof (rule file_fits_empty)
  show "frame_fits (stamp 1 0 sample_idemp)" "length (frame (stamp 1 0 sample_idemp)) < 2 ^ 32"
    by (simp_all add: frame_fits_def wf_record_def buf32_def sample_idemp_def sample_record_def length_frame length_encodeRecord
        int64_ok_def HeaderProducerID_def HeaderProducerSeq_def)
qed (simp_all add: new_file_store sample_addressable)

lemma sample_pub_ok:
  assumes "bk_store b = NewFileStore root mb" "bk_registry b = sample_registry" "bk_cluster b = None" "bk_dedupTopic b = []"
  shows "pub_ok file_ops file_fits file_addressable 1 1 b sample_part sample_idemp"
proof -
  have "timed 1 sample_idemp = sample_idemp" by (simp add: timed_def sample_idemp_def sample_record_def)
  with assms sample_valid [of b] show ?thesis
    by (simp add: pub_ok_def sample_addressable sample_fits int64_ok_def persists_def)
qed

lemma sample_published:
  obtains b where "bk_Publish file_ops None 1 1 None (NewBroker (NewFileStore [''d''] 10) sample_registry None 0 []) sample_part sample_idemp = (b, 0, None)"
    "file_inv (bk_store b)" "file_log (bk_store b) sample_part = [log_entry norm_record 1 0 sample_idemp]"
    "bk_registry b = sample_registry" "bk_dedupTopic b = []"
proof -
  let ?b0 = "NewBroker (NewFileStore [''d''] 10) sample_registry None 0 []"
  have ok: "pub_ok file_ops file_fits file_addressable 1 1 ?b0 sample_part sample_idemp" by (rule sample_pub_ok) (simp_all add: NewBroker_def)
  have nw: "dedup_lookup (producerIdempKey sample_idemp) (pub_state 1 ?b0 sample_part sample_idemp) = None"
    by (simp add: sample_key dedup_lookup_def pub_state_def evictStaleDedupLocked_def part_state_def NewBroker_def)
  have inv0: "file_inv (bk_store ?b0)" by (simp add: NewBroker_def new_file_store)
  show ?thesis
    by (rule fil.publish_effect [OF inv0 ok nw, where stop = None], rule that) (simp_all add: NewBroker_def new_file_store persists_def)
qed

section \<open>Publishing\<close>

text \<open>
  C4: Publishing is idempotent on the disk store while checkpoints do not expire. After any publishes
  the sequence numbers of each producer in a partition are strictly increasing, so no numbered record
  is stored twice; and a retry of any stored number changes neither the store nor a queue and answers
  without error with the offset of the producer's newest record, its own when it is the newest.
\<close>

theorem publish_exactly_once:
  assumes "b = pub_run file_ops pubs (NewBroker (NewFileStore root mb) reg None ttl topic)" "ttl \<le> 0"
    and "pub_run_ok file_ops file_fits file_addressable pubs (NewBroker (NewFileStore root mb) reg None ttl topic)"
  shows "sorted_wrt (<) (seqs_of i (file_log (bk_store b) p))
    \<and> (producerIdempKey r = Some (i, s) \<and> s \<in> set (seqs_of i (file_log (bk_store b) p)) \<and> bk_validate b p = Inr () \<longrightarrow>
        (\<exists>x b'. x \<in> set (file_log (bk_store b) p) \<and> producerIdempKey x = Some (i, last (seqs_of i (file_log (bk_store b) p)))
          \<and> bk_Publish file_ops ctx now now' stop b p r = (b', r_Offset x, None) \<and> bk_store b' = bk_store b \<and> bk_chans b' = bk_chans b))"
proof -
  have "fil.table_ok (NewBroker (NewFileStore root mb) reg None ttl topic)"
    using fil.new_table [OF new_file_store(1) _ assms(2)] by (simp add: new_file_store)
  from fil.run_table [OF this assms(3)] have ok: "fil.table_ok b" by (simp add: assms(1))
  then have "sorted_wrt (<) (seqs_of i (file_log (bk_store b) p))" using dedup_inv_sorted by (auto simp: fil.table_ok_def)
  with fil.known_retry [OF ok, of p r i s] show ?thesis by blast
qed

lemma publish_exactly_once_witness:
  "\<exists>b b'. bk_Publish file_ops None 1 1 None (NewBroker (NewFileStore [''d''] 10) sample_registry None 0 []) sample_part sample_idemp = (b, 0, None)
    \<and> bk_Publish file_ops None 2 2 None b sample_part sample_idemp = (b', 0, None) \<and> bk_store b' = bk_store b"
proof -
  let ?b0 = "NewBroker (NewFileStore [''d''] 10) sample_registry None 0 []"
  have ok: "pub_ok file_ops file_fits file_addressable 1 1 ?b0 sample_part sample_idemp" by (rule sample_pub_ok) (simp_all add: NewBroker_def)
  obtain b where b: "bk_Publish file_ops None 1 1 None ?b0 sample_part sample_idemp = (b, 0, None)"
    "file_log (bk_store b) sample_part = [log_entry norm_record 1 0 sample_idemp]" "bk_registry b = sample_registry"
    by (rule sample_published)
  have k: "producerIdempKey (log_entry norm_record 1 0 sample_idemp) = Some (''p'', 1)" by (simp add: fil.key_entries sample_key)
  from publish_exactly_once [of b "[(1, 1, None, sample_part, sample_idemp)]" "[''d'']" 10 sample_registry 0 "[]" "''p''" sample_part sample_idemp 1 None 2 2 None]
  show ?thesis using b ok k sample_key sample_valid [OF b(3)] by (auto simp: fil.key_entries)
qed

section \<open>Subscriptions\<close>



lemma sample_subscription:
  obtains b pu where "sub_reach file_ops file_fits file_addressable (NewBroker (NewFileStore [''d''] 10) sample_registry None 0 []) (b, [(0, pu)])"
    "file_log (bk_store b) (pu_part pu) = [log_entry norm_record 1 0 sample_idemp]" "pu_phase pu = CatchUp 0" "pu_out pu = []"
proof -
  let ?b0 = "NewBroker (NewFileStore [''d''] 10) sample_registry None 0 []"
  have ok: "pub_ok file_ops file_fits file_addressable 1 1 ?b0 sample_part sample_idemp" by (rule sample_pub_ok) (simp_all add: NewBroker_def)
  obtain b where b: "bk_Publish file_ops None 1 1 None ?b0 sample_part sample_idemp = (b, 0, None)" "file_inv (bk_store b)"
    "file_log (bk_store b) sample_part = [log_entry norm_record 1 0 sample_idemp]" "bk_registry b = sample_registry" "bk_dedupTopic b = []"
    by (rule sample_published)
  from fil.highwater_law [OF b(2) sample_addressable] obtain st where
    st: "so_HighWater file_ops None (bk_store b) sample_part = (st, Inr (file_hw (bk_store b) sample_part))" "file_log st = file_log (bk_store b)" by blast
  obtain b' pu where s: "bk_Subscribe file_ops None b sample_part 0 = (b', Inr pu)" "bk_store b' = st" "pu_part pu = sample_part"
    "pu_phase pu = CatchUp 0" "pu_out pu = []"
    using sample_valid [OF b(4)] st(1) by (simp add: bk_Subscribe_def Let_def)
  have "sub_reach file_ops file_fits file_addressable ?b0 (b, [])" using sub_publish [OF ok b(1)] by (blast intro: sub_reach.intros)
  moreover have "sub_step file_ops file_fits file_addressable (b, []) (b', [] @ [(0, pu)])"
    by (rule sub_open [where addressable = file_addressable, OF s(1)]) (simp_all add: sample_addressable, simp add: sample_part_def b(5))
  ultimately have "sub_reach file_ops file_fits file_addressable ?b0 (b', [(0, pu)])" by (auto intro: reach_step)
  with s st(2) b(3) show ?thesis by (auto intro: that)
qed



section \<open>The deduplication table across restarts\<close>


lemma sample_frames:
  "frame_fits (stamp 1 0 sample_idemp)" "length (frame (stamp 1 0 sample_idemp)) < 1000"
  "frame_fits (stamp 1 0 (dedup_record ''p'' sample_part cp))" "length (frame (stamp 1 0 (dedup_record ''p'' sample_part cp))) < 1000"
  by (simp_all add: frame_fits_def wf_record_def buf32_def sample_idemp_def sample_record_def length_frame length_encodeRecord
      int64_ok_def HeaderProducerID_def HeaderProducerSeq_def dedup_record_def encodeDedupKey_def encodeDedupValue_def sample_part_def)


section \<open>What the code leaves open\<close>

lemma pump_emit:
  "pump_run ops (length B) (b, pu\<lparr>pu_phase := Emit (B @ C) c\<rparr>) = (b, pu\<lparr>pu_phase := Emit C c, pu_out := pu_out pu @ B\<rparr>)"
proof (induction B arbitrary: pu)
  case (Cons r B)
  from Cons.IH [of "pu\<lparr>pu_out := pu_out pu @ [r]\<rparr>"] show ?case by (cases pu) (simp add: pump_step_def)
qed (cases pu, simp)

lemma pump_run_add: "pump_run ops (m + n) s = pump_run ops n (pump_run ops m s)"
proof (induction m arbitrary: s)
  case (Suc m)
  then show ?case by (cases s) simp
qed simp

text \<open>
  C30: On a log with gaps a subscription repeats records. The catch-up cursor advances by the number of
  records it read, not past the offset of the last one; when retention or compaction has removed
  records, the next batch starts at or before a record that was already delivered, and delivers it again.
\<close>

theorem subscription_repeats_on_gaps:
  assumes "file_inv (bk_store b)" "file_addressable p" "0 \<le> f" "pu = \<lparr>pu_part = p, pu_sub = sub, pu_hw = hw, pu_phase = CatchUp f, pu_out = []\<rparr>"
    and "L = filter (\<lambda>r. f \<le> r_Offset r) (file_log (bk_store b) p)" "L \<noteq> []" "length L \<le> 256"
    and "f + int (length L) < hw" "f + int (length L) \<le> r_Offset (last L)"
  shows "\<exists>n b' pu' L'. pump_run file_ops n (b, pu) = (b', pu') \<and> pu_out pu' = L @ L' \<and> last L \<in> set L'"
proof -
  let ?c = "f + int (length L)"
  let ?L' = "filter (\<lambda>r. ?c \<le> r_Offset r) (file_log (bk_store b) p)"
  obtain s1 where r1: "so_Read file_ops None (bk_store b) p f 256 = (s1, Inr L)" "file_inv s1" "file_log s1 = file_log (bk_store b)"
    using fil.read_law [OF assms(1-3), of 256] assms(5,7) by auto
  have c: "0 \<le> ?c" using assms(3) by simp
  have sub: "?L' = filter (\<lambda>r. ?c \<le> r_Offset r) L" by (auto simp: assms(5) intro: filter_cong)
  then have len: "length ?L' \<le> 256" using assms(7) by (metis length_filter_le le_trans)
  obtain s2 where r2: "so_Read file_ops None s1 p ?c 256 = (s2, Inr ?L')"
    using fil.read_law [OF r1(2) assms(2) c, of 256] r1(3) len by auto
  have l: "last L \<in> set ?L'" using assms(6,9) by (simp add: sub)
  then have ne: "?L' \<noteq> []" by (metis empty_iff list.set(1))
  have h: "f < hw" "0 < length L" using assms(6,8) by auto
  let ?pu1 = "pu\<lparr>pu_phase := Emit (L @ []) ?c\<rparr>" and ?pu2 = "pu\<lparr>pu_phase := Emit (?L' @ []) (?c + int (length ?L')), pu_out := L\<rparr>"
  have 1: "pump_run file_ops 1 (b, pu) = (b\<lparr>bk_store := s1\<rparr>, ?pu1)"
    using r1(1) h assms(6) by (simp add: assms(4) pump_step_def)
  have 2: "pump_run file_ops (length L) (b\<lparr>bk_store := s1\<rparr>, ?pu1) = (b\<lparr>bk_store := s1\<rparr>, pu\<lparr>pu_phase := Emit [] ?c, pu_out := L\<rparr>)"
    using pump_emit [of file_ops L "b\<lparr>bk_store := s1\<rparr>" "[]" ?c pu] by (simp add: assms(4))
  have 3: "pump_run file_ops 2 (b\<lparr>bk_store := s1\<rparr>, pu\<lparr>pu_phase := Emit [] ?c, pu_out := L\<rparr>) = (b\<lparr>bk_store := s2\<rparr>, ?pu2)"
    using r2 ne assms(8) by (simp add: assms(4) pump_step_def numeral_2_eq_2)
  have 4: "pump_run file_ops (length ?L') (b\<lparr>bk_store := s2\<rparr>, ?pu2)
      = (b\<lparr>bk_store := s2\<rparr>, pu\<lparr>pu_phase := Emit [] (?c + int (length ?L')), pu_out := L @ ?L'\<rparr>)"
    using pump_emit [of file_ops ?L' "b\<lparr>bk_store := s2\<rparr>" "[]" "?c + int (length ?L')" "pu\<lparr>pu_out := L\<rparr>"] by (simp add: assms(4))
  have "pump_run file_ops (1 + length L + 2 + length ?L') (b, pu)
      = (b\<lparr>bk_store := s2\<rparr>, pu\<lparr>pu_phase := Emit [] (?c + int (length ?L')), pu_out := L @ ?L'\<rparr>)"
    by (simp only: pump_run_add 1 2 3 4)
  with l show ?thesis by fastforce
qed

lemma gap_store:
  obtains s where "file_inv s" "file_log s sample_part = [rec_at 5 1 7]"
proof -
  obtain d l a where o: "OpenPartition [] 1000 = Inr (d, l)" "pl_segments l = [a]" "sg_baseOffset a = 0" "sg_size a = 0" "sg_highWater a = 0"
    using Open_fresh [of 1000] by auto
  have i: "log_inv (d, l) [[]]" using Open_new [of 1000] o(1) by simp
  have "append_fits l (rec_at 5 1 7)" by (simp add: append_fits_def rec_at_fits o part_HighWater_def int64_ok_def)
  with exec_refines [OF i, of "LAppend (rec_at 5 1 7)"] obtain out rss' where
    x: "log_spec [[]] (LAppend (rec_at 5 1 7)) out rss'" "log_inv (snd (log_exec (LAppend (rec_at 5 1 7)) (d, l))) rss'"
    by (auto simp: op_fits_def)
  obtain d' l' where dl: "snd (log_exec (LAppend (rec_at 5 1 7)) (d, l)) = (d', l')" by fastforce
  have "concat rss' = [rec_at 5 1 7]" using x(1) by (auto elim: log_spec_append simp: rec_at_fits)
  with fs_put_inv [OF new_file_store(1) sample_addressable, of d' l' rss' "[''d'']" 1000] x(2) dl that show ?thesis by auto
qed

lemma subscription_repeats_on_gaps_witness:
  "\<exists>s n b' pu'. pump_run file_ops n (NewBroker s sample_registry None 0 [],
      \<lparr>pu_part = sample_part, pu_sub = 0, pu_hw = 6, pu_phase = CatchUp 0, pu_out = []\<rparr>) = (b', pu')
    \<and> (\<exists>rest. pu_out pu' = rec_at 5 1 7 # rest \<and> rec_at 5 1 7 \<in> set rest)"
proof -
  obtain s where s: "file_inv s" "file_log s sample_part = [rec_at 5 1 7]" by (rule gap_store)
  from subscription_repeats_on_gaps [of "NewBroker s sample_registry None 0 []", OF _ sample_addressable _ refl refl, of 0 6 0] s show ?thesis
    by (fastforce simp: NewBroker_def rec_at_fits)
qed

text \<open>
  C31: A topic that is deleted and created again swallows writes. Deleting a topic empties its logs but
  not the deduplication table, so a producer that starts over with its old identity has its records
  acknowledged with offsets of the deleted topic and nothing is stored.
\<close>

theorem recreated_topic_swallows:
  assumes "file_inv (bk_store b)" "bk_cluster b = None" "bk_dedupTTL b \<le> 0" "file_addressable \<lparr>p_Topic = p_Topic p, p_Index = 0\<rparr>"
    and "map_of (ps_dedup (part_state b p)) i = Some cp" "producerIdempKey r = Some (i, s)" "s \<le> cp_lastSeq cp"
    and "bk_DeleteTopic file_ops b (p_Topic p) = (b1, Inr ())" "bk_CreateTopic b1 spec = (b2, Inr ())" "bk_validate b2 p = Inr ()"
  shows "\<exists>b3. bk_Publish file_ops None now now' stop b2 p r = (b3, cp_lastOffset cp, None) \<and> file_log (bk_store b3) p = []"
proof -
  obtain st where st: "so_DeleteTopic file_ops None (bk_store b) (p_Topic p) = (st, Inr ())" "file_log st p = []"
    using fil.delete_law [OF assms(1,4)] by auto
  obtain rg where b1: "b1 = b\<lparr>bk_registry := rg, bk_store := st\<rparr>"
    using assms(2,8) st(1) by (auto simp: bk_DeleteTopic_def split: prod.splits sum.splits)
  obtain rg' where b2: "b2 = b1\<lparr>bk_registry := rg'\<rparr>"
    using assms(2,9) by (auto simp: bk_CreateTopic_def b1 split: prod.splits)
  have ps: "part_state b2 p = part_state b p" by (simp add: b2 b1 part_state_def)
  have "dedup_lookup (producerIdempKey r) (pub_state now b2 p r) = Some (cp_lastOffset cp)"
    using assms(3,5-7) ps by (simp add: dedup_lookup_def pub_state_def evictStaleDedupLocked_def b2 b1)
  from publish_retry [OF _ assms(10) this, of file_ops None now' stop] assms(2) st(2) show ?thesis by (simp add: b2 b1)
qed

lemma recreated_topic_swallows_witness:
  "\<exists>b1 b2 b3. bk_DeleteTopic file_ops (HydrateDedup (NewBroker (NewFileStore [''d''] 10) sample_registry None 0 []) ''p'' sample_part
        \<lparr>cp_lastSeq = 4, cp_lastOffset = 8, cp_lastSeen = 0\<rparr>) ''t'' = (b1, Inr ())
    \<and> bk_CreateTopic b1 \<lparr>sp_Name = ''t'', sp_PartitionCount = 1, sp_RetentionMs = 0, sp_SegmentBytes = 0\<rparr> = (b2, Inr ())
    \<and> bk_Publish file_ops None 1 1 None b2 sample_part sample_idemp = (b3, 8, None) \<and> file_log (bk_store b3) sample_part = []"
proof -
  let ?cp = "\<lparr>cp_lastSeq = 4, cp_lastOffset = 8, cp_lastSeen = 0\<rparr>" and ?spec = "\<lparr>sp_Name = ''t'', sp_PartitionCount = 1, sp_RetentionMs = 0, sp_SegmentBytes = 0\<rparr>"
  let ?b = "HydrateDedup (NewBroker (NewFileStore [''d''] 10) sample_registry None 0 []) ''p'' sample_part ?cp"
  have st: "file_inv (bk_store ?b)" "bk_cluster ?b = None" "bk_dedupTTL ?b \<le> 0" "bk_registry ?b = sample_registry"
    by (simp_all add: NewBroker_def new_file_store)
  have t: "file_addressable \<lparr>p_Topic = p_Topic sample_part, p_Index = 0\<rparr>" "p_Topic sample_part = ''t''"
    using sample_addressable by (simp_all add: sample_part_def)
  obtain s1 where s1: "so_DeleteTopic file_ops None (bk_store ?b) ''t'' = (s1, Inr ())" using fil.delete_law [OF st(1) t(1)] t(2) by auto
  obtain b1 where b1: "bk_DeleteTopic file_ops ?b ''t'' = (b1, Inr ())" "bk_cluster b1 = None" "rg_topics (bk_registry b1) = []" "rg_persist (bk_registry b1) = None"
    using st(2,4) s1 by (auto simp: bk_DeleteTopic_def reg_Delete_def sample_registry_def Hydrate_def NewRegistry_def run_persist_def)
  obtain b2 where b2: "bk_CreateTopic b1 ?spec = (b2, Inr ())" "bk_validate b2 sample_part = Inr ()"
    using b1(2-4) nameRe_good by (auto simp: bk_CreateTopic_def reg_Create_def nameRe_def name_char_def run_persist_def bk_validate_def PartitionsFor_def reg_Get_def sample_part_def)
  from recreated_topic_swallows [OF st(1-3) t(1) _ sample_key _ _ b2, of ?cp 1 1 None] b1(1) b2(1) t(2) show ?thesis
    by auto
qed

text \<open>The Raft library on a node that commits alone: the command is applied once and its response returned.\<close>

definition raft_applies :: "'st store_ops \<Rightarrow> int \<Rightarrow> 'st cluster_if \<Rightarrow> bool" where
  "raft_applies ops now c \<longleftrightarrow> ci_IsLeader c
     \<and> (\<forall>f cmd. ci_raft c f cmd = (fst (fsm_Apply ops now f cmd), Inr (snd (fsm_Apply ops now f cmd))))"

text \<open>
  C32: In cluster mode a publish goes neither through the deduplication table nor to the subscribers. The
  same numbered record published twice is stored twice, at two offsets, and no queue of a subscription
  receives it.
\<close>

theorem clustered_publish_duplicates:
  assumes "bk_cluster b = Some c" "raft_applies memory_ops t c" "bk_validate b p = Inr ()" "producerIdempKey r = Some k"
    and "wf_AppendCommand \<lparr>ac_Topic = p_Topic p, ac_Partition = p_Index p, ac_Offset = OffsetUnstamped, ac_Record = r\<rparr>"
    and "buf32 (append_body \<lparr>ac_Topic = p_Topic p, ac_Partition = p_Index p, ac_Offset = OffsetUnstamped, ac_Record = r\<rparr>)"
    and "bk_Publish memory_ops ctx now now' stop b p r = (b1, off1, err1)" "bk_Publish memory_ops ctx now now' stop b1 p r = (b2, off2, err2)"
  shows "err1 = None \<and> err2 = None \<and> off1 = mem_hw (bk_store b) p \<and> off2 = off1 + 1
    \<and> length (mem_log (bk_store b2) p) = length (mem_log (bk_store b) p) + 2 \<and> bk_chans b2 = bk_chans b \<and> bk_partitions b2 = bk_partitions b"
proof -
  let ?cmd = "\<lparr>ac_Topic = p_Topic p, ac_Partition = p_Index p, ac_Offset = OffsetUnstamped, ac_Record = r\<rparr>"
  have p: "p = \<lparr>p_Topic = ac_Topic ?cmd, p_Index = ac_Partition ?cmd\<rparr>" by (cases p) simp
  have one: "bk_Publish memory_ops ctx now now' stop b p r = (b\<lparr>bk_store := AList.update p
      (mem_log (bk_store b) p @ [stamp t (mem_hw (bk_store b) p) (norm_record r)]) (bk_store b)\<rparr>, mem_hw (bk_store b) p, None)"
    if "bk_cluster b = Some c" "bk_validate b p = Inr ()" for b
    using that assms(2) mem_apply_append [OF assms(5,6) p, of t]
    by (simp add: bk_Publish_def publishClustered_def cluster_Apply_def raft_applies_def)
  have b1: "b1 = b\<lparr>bk_store := AList.update p (mem_log (bk_store b) p @ [stamp t (mem_hw (bk_store b) p) (norm_record r)]) (bk_store b)\<rparr>"
    "off1 = mem_hw (bk_store b) p" "err1 = None" using one [OF assms(1,3)] assms(7) by simp_all
  have v: "bk_cluster b1 = Some c" "bk_validate b1 p = Inr ()" using assms(1,3) by (simp_all add: b1 bk_validate_def)
  have "mem_log (bk_store b1) p = mem_log (bk_store b) p @ [stamp t (mem_hw (bk_store b) p) (norm_record r)]" by (simp add: b1 mem_log_update)
  then show ?thesis using one [OF v] assms(8) b1 by (auto simp: mem_log_update mem_hw_def)
qed

lemma clustered_publish_duplicates_witness:
  "\<exists>b1 b2. bk_Publish memory_ops None 1 1 None (NewBroker [] sample_registry
        (Some \<lparr>ci_IsLeader = True, ci_LeaderID = ''n'', ci_LeaderWireAddr = ''a'', ci_raft = \<lambda>f cmd. (fst (fsm_Apply memory_ops 3 f cmd), Inr (snd (fsm_Apply memory_ops 3 f cmd)))\<rparr>) 0 [])
        sample_part sample_idemp = (b1, 0, None)
    \<and> bk_Publish memory_ops None 1 1 None b1 sample_part sample_idemp = (b2, 1, None) \<and> length (mem_log (bk_store b2) sample_part) = 2"
proof -
  let ?c = "\<lparr>ci_IsLeader = True, ci_LeaderID = ''n'', ci_LeaderWireAddr = ''a'', ci_raft = \<lambda>f cmd. (fst (fsm_Apply memory_ops 3 f cmd), Inr (snd (fsm_Apply memory_ops 3 f cmd)))\<rparr>"
  let ?b = "NewBroker [] sample_registry (Some ?c) 0 []"
  let ?cmd = "\<lparr>ac_Topic = p_Topic sample_part, ac_Partition = p_Index sample_part, ac_Offset = OffsetUnstamped, ac_Record = sample_idemp\<rparr>"
  have wf: "wf_AppendCommand ?cmd" "buf32 (append_body ?cmd)"
    by (simp_all add: sample_idemp_def sample_part_def sample_record_def wf_AppendCommand_def wf_record_def append_body_def EncodeAppend_def appendString_eq
      ProduceRequest_Encode_def encodeString_append buf32_def int32_ok_def int64_ok_def OffsetUnstamped_def Let_def HeaderProducerID_def HeaderProducerSeq_def)
      (simp add: encodeRecord_def encodeBytes_def encodeString_def be32_def be64_def)
  obtain b1 off1 err1 where run1: "bk_Publish memory_ops None 1 1 None ?b sample_part sample_idemp = (b1, off1, err1)" by (rule prod_cases3)
  obtain b2 off2 err2 where run2: "bk_Publish memory_ops None 1 1 None b1 sample_part sample_idemp = (b2, off2, err2)" by (rule prod_cases3)
  note run = run1 run2
  from clustered_publish_duplicates [OF _ _ sample_valid [of ?b] sample_key wf run, of ?c 3] run show ?thesis
    by (auto simp: NewBroker_def raft_applies_def mem_hw_def mem_log_def)
qed

end
