(* ===== verification/Auth_Scope.thy ===== *)
theory Auth_Scope
  imports Holocron_Prelude "HOL-Library.Sublist"
begin

text \<open>
  Principals, scopes and the authorizers: \<^verbatim>\<open>broker/internal/auth/auth.go\<close>, \<^verbatim>\<open>scope.go\<close> and \<^verbatim>\<open>authorizer.go\<close>. The
  scope parser is proved to accept exactly the printed forms of well-formed scopes, and the scope
  authorizer to grant exactly what the grammar of the scopes says.
\<close>

section \<open>Principals and scopes\<close>

record Principal =
  pr_Subject :: string
  pr_Account :: string
  pr_Scopes :: "string list"
  pr_Source :: string

definition IsAnonymous :: "Principal \<Rightarrow> bool" where
  "IsAnonymous p \<longleftrightarrow> pr_Subject p = []"

definition Anonymous :: Principal where
  "Anonymous = \<lparr>pr_Subject = [], pr_Account = [], pr_Scopes = [], pr_Source = []\<rparr>"

record Scope =
  sc_Verb :: string
  sc_Pattern :: string
  sc_Wildcard :: bool

text \<open>The functions of the package \<^verbatim>\<open>strings\<close> the parser calls, on single-character separators.\<close>

definition strings_ContainsAny :: "string \<Rightarrow> string \<Rightarrow> bool" where
  "strings_ContainsAny s chars \<longleftrightarrow> list_ex (\<lambda>c. c \<in> set chars) s"

definition strings_Cut :: "string \<Rightarrow> char \<Rightarrow> string \<times> string \<times> bool" where
  "strings_Cut s sep =
     (let before = takeWhile (\<lambda>c. c \<noteq> sep) s
      in if length before < length s then (before, drop (length before + 1) s, True) else (s, [], False))"

definition strings_HasSuffix :: "string \<Rightarrow> char \<Rightarrow> bool" where
  "strings_HasSuffix s c \<longleftrightarrow> s \<noteq> [] \<and> last s = c"

fun strings_HasPrefix :: "string \<Rightarrow> string \<Rightarrow> bool" where
  "strings_HasPrefix s [] = True"
| "strings_HasPrefix [] (c # cs) = False"
| "strings_HasPrefix (s # ss) (c # cs) = (s = c \<and> strings_HasPrefix ss cs)"

abbreviation star :: char where "star \<equiv> CHR ''*''"
abbreviation colon :: char where "colon \<equiv> CHR '':''"

definition scope_space :: string where
  "scope_space = [CHR '' '', CHR 0x09, CHR 0x0A]"

definition ParseScope :: "string \<Rightarrow> Scope result" where
  "ParseScope s =
     (if s = [] then Inl (ErrNew ''auth: empty scope'')
      else if strings_ContainsAny s scope_space then Inl (ErrNew ''auth: scope contains whitespace'')
      else case strings_Cut s colon of (verb, pattern, hasColon) \<Rightarrow>
        if \<not> hasColon then
          (if star \<in> set s then Inl (ErrNew ''auth: scope: bare verbs cannot contain wildcards'')
           else Inr \<lparr>sc_Verb = s, sc_Pattern = [], sc_Wildcard = False\<rparr>)
        else if verb = [] then Inl (ErrNew ''auth: scope: empty verb'')
        else if star \<in> set verb then Inl (ErrNew ''auth: scope: verb cannot contain wildcards'')
        else if pattern = [] then Inl (ErrNew ''auth: scope: trailing colon (use bare verb instead)'')
        else if colon \<in> set pattern then Inl (ErrNew ''auth: scope: only one colon permitted'')
        else if pattern = [star] then Inr \<lparr>sc_Verb = verb, sc_Pattern = [], sc_Wildcard = True\<rparr>
        else if strings_HasSuffix pattern star then
          (let body = take (length pattern - 1) pattern
           in if star \<in> set body then Inl (ErrNew ''auth: scope: only trailing wildcards permitted'')
              else Inr \<lparr>sc_Verb = verb, sc_Pattern = body, sc_Wildcard = True\<rparr>)
        else if star \<in> set pattern then Inl (ErrNew ''auth: scope: only trailing wildcards permitted'')
        else Inr \<lparr>sc_Verb = verb, sc_Pattern = pattern, sc_Wildcard = False\<rparr>)"

definition scope_Matches :: "Scope \<Rightarrow> string \<Rightarrow> string \<Rightarrow> bool" where
  "scope_Matches s action resource =
     (if sc_Verb s \<noteq> action then False
      else if sc_Wildcard s then strings_HasPrefix resource (sc_Pattern s)
      else resource = sc_Pattern s)"

section \<open>Authorizers\<close>

definition ActionProduce :: string where "ActionProduce = ''produce''"
definition ActionConsume :: string where "ActionConsume = ''consume''"
definition ActionAdmin :: string where "ActionAdmin = ''admin''"

definition ErrUnauthorized :: go_error where
  "ErrUnauthorized = ErrNew ''auth: unauthorized''"

type_synonym Authorizer = "Principal \<Rightarrow> string \<Rightarrow> string \<Rightarrow> unit result"

definition AllowAllAuthorizer :: Authorizer where
  "AllowAllAuthorizer p action resource = Inr ()"

text \<open>The loop over the scopes: malformed ones are skipped, the first match grants.\<close>

primrec scopes_grant :: "string list \<Rightarrow> string \<Rightarrow> string \<Rightarrow> bool" where
  "scopes_grant [] action resource = False"
| "scopes_grant (raw # raws) action resource =
     (case ParseScope raw of
        Inl _ \<Rightarrow> scopes_grant raws action resource
      | Inr s \<Rightarrow> if scope_Matches s action resource then True else scopes_grant raws action resource)"

definition ScopeAuthorizer :: Authorizer where
  "ScopeAuthorizer p action resource =
     (if IsAnonymous p then Inl (ErrWrap ''anonymous principal'' ErrUnauthorized)
      else if scopes_grant (pr_Scopes p) action resource then Inr ()
      else Inl (ErrWrap ''not allowed'' ErrUnauthorized))"

section \<open>The grammar\<close>

text \<open>A name of the grammar has no white space, colon or star; a scope is printed as its verb, a colon, its pattern and a star.\<close>

definition plain :: "string \<Rightarrow> bool" where
  "plain s \<longleftrightarrow> set s \<inter> ({star, colon} \<union> set scope_space) = {}"

definition scope_wf :: "Scope \<Rightarrow> bool" where
  "scope_wf s \<longleftrightarrow> sc_Verb s \<noteq> [] \<and> plain (sc_Verb s) \<and> plain (sc_Pattern s)"

definition scope_text :: "Scope \<Rightarrow> string" where
  "scope_text s =
     sc_Verb s @ (if sc_Pattern s = [] \<and> \<not> sc_Wildcard s then []
                  else colon # sc_Pattern s @ (if sc_Wildcard s then [star] else []))"

lemma strings_HasPrefix_iff: "strings_HasPrefix s p \<longleftrightarrow> prefix p s"
  by (induction s p rule: strings_HasPrefix.induct) auto

lemma strings_ContainsAny_iff: "strings_ContainsAny s chars \<longleftrightarrow> set s \<inter> set chars \<noteq> {}"
  by (auto simp: strings_ContainsAny_def list_ex_iff)

lemma strings_Cut_colon: "sep \<notin> set v \<Longrightarrow> strings_Cut (v @ sep # p) sep = (v, p, True)"
proof -
  assume "sep \<notin> set v"
  then have "takeWhile (\<lambda>c. c \<noteq> sep) (v @ sep # p) = v" by (induction v) auto
  then show ?thesis by (simp add: strings_Cut_def)
qed

lemma strings_Cut_none: "sep \<notin> set s \<Longrightarrow> strings_Cut s sep = (s, [], False)"
proof -
  assume "sep \<notin> set s"
  then have "takeWhile (\<lambda>c. c \<noteq> sep) s = s" by (induction s) auto
  then have "length (takeWhile (\<lambda>c. c \<noteq> sep) s) = length s" by (rule arg_cong)
  then show ?thesis unfolding strings_Cut_def Let_def by (simp only: less_irrefl if_False)
qed

lemma colon_cases:
  obtains "colon \<notin> set s" | v p where "s = v @ colon # p" "colon \<notin> set v"
  by (meson split_list_first)

lemma ParseScope_bare:
  assumes "colon \<notin> set s"
  shows "ParseScope s = Inr sc \<longleftrightarrow> s \<noteq> [] \<and> plain s \<and> sc = \<lparr>sc_Verb = s, sc_Pattern = [], sc_Wildcard = False\<rparr>"
  using assms by (auto simp: ParseScope_def strings_Cut_none strings_ContainsAny_iff plain_def)

lemma plain_simps [simp]:
  "plain []"
  "plain (c # s) \<longleftrightarrow> c \<noteq> star \<and> c \<noteq> colon \<and> c \<notin> set scope_space \<and> plain s"
  "plain (s @ t) \<longleftrightarrow> plain s \<and> plain t"
  by (auto simp: plain_def)

lemma plain_iff: "plain s \<longleftrightarrow> star \<notin> set s \<and> colon \<notin> set s \<and> \<not> strings_ContainsAny s scope_space"
  by (auto simp: plain_def strings_ContainsAny_iff)

lemma ContainsAny_append: "strings_ContainsAny (s @ t) chars \<longleftrightarrow> strings_ContainsAny s chars \<or> strings_ContainsAny t chars"
  by (simp add: strings_ContainsAny_def)

lemma ContainsAny_Cons: "strings_ContainsAny (c # t) chars \<longleftrightarrow> c \<in> set chars \<or> strings_ContainsAny t chars"
  by (simp add: strings_ContainsAny_def)

lemma marks_no_space: "star \<notin> set scope_space" "colon \<notin> set scope_space"
  by (simp_all add: scope_space_def)

lemmas scope_simps = plain_iff ContainsAny_append ContainsAny_Cons marks_no_space strings_HasSuffix_def

lemma ParseScope_empty_pattern: "colon \<notin> set v \<Longrightarrow> \<exists>e. ParseScope (v @ [colon]) = Inl e"
  by (simp add: ParseScope_def strings_Cut_colon)

lemma ParseScope_wild:
  assumes "colon \<notin> set v"
  shows "ParseScope (v @ colon # q @ [star]) = Inr sc \<longleftrightarrow>
    v \<noteq> [] \<and> plain v \<and> plain q \<and> sc = \<lparr>sc_Verb = v, sc_Pattern = q, sc_Wildcard = True\<rparr>"
  using assms by (cases "q = []") (auto simp: ParseScope_def strings_Cut_colon scope_simps strings_ContainsAny_def)

lemma ParseScope_literal:
  assumes "colon \<notin> set v" "c \<noteq> star"
  shows "ParseScope (v @ colon # q @ [c]) = Inr sc \<longleftrightarrow>
    v \<noteq> [] \<and> plain v \<and> plain (q @ [c]) \<and> sc = \<lparr>sc_Verb = v, sc_Pattern = q @ [c], sc_Wildcard = False\<rparr>"
  using assms by (auto simp: ParseScope_def strings_Cut_colon scope_simps strings_ContainsAny_def)

lemma cut_unique: "c \<notin> set v \<Longrightarrow> c \<notin> set w \<Longrightarrow> v @ c # p = w @ c # q \<longleftrightarrow> v = w \<and> p = q"
proof (induction v arbitrary: w)
  case Nil then show ?case by (cases w) auto
next
  case (Cons x v) then show ?case by (cases w) auto
qed

lemma scope_text_colon:
  assumes "colon \<notin> set v" "plain (sc_Verb sc)"
  shows "v @ colon # p = scope_text sc \<longleftrightarrow>
    v = sc_Verb sc \<and> (sc_Pattern sc \<noteq> [] \<or> sc_Wildcard sc) \<and> p = sc_Pattern sc @ (if sc_Wildcard sc then [star] else [])"
proof -
  have no: "colon \<notin> set (sc_Verb sc)" using assms(2) by (simp add: plain_iff)
  then have "v @ colon # p \<noteq> sc_Verb sc" by (metis in_set_conv_decomp)
  then show ?thesis using assms(1) no by (auto simp: scope_text_def cut_unique)
qed

lemma ParseScope_text: "ParseScope s = Inr sc \<longleftrightarrow> scope_wf sc \<and> s = scope_text sc"
proof (cases rule: colon_cases [of s])
  case 1
  then show ?thesis
    by (cases sc) (auto simp: ParseScope_bare scope_wf_def scope_text_def)
next
  case (2 v p)
  have eq: "scope_wf sc \<and> s = scope_text sc \<longleftrightarrow> scope_wf sc \<and> v = sc_Verb sc \<and> (sc_Pattern sc \<noteq> [] \<or> sc_Wildcard sc) \<and>
      p = sc_Pattern sc @ (if sc_Wildcard sc then [star] else [])"
    using 2 scope_text_colon [of v sc p] by (auto simp: scope_wf_def)
  obtain verb pat wild where sc: "sc = \<lparr>sc_Verb = verb, sc_Pattern = pat, sc_Wildcard = wild\<rparr>" by (cases sc) simp
  show ?thesis
  proof (cases p rule: rev_cases)
    case Nil
    then show ?thesis unfolding eq using ParseScope_empty_pattern [of v] 2 by auto
  next
    case (snoc q c)
    show ?thesis unfolding eq
    proof (cases "c = star")
      case True
      then show "(ParseScope s = Inr sc) = (scope_wf sc \<and> v = sc_Verb sc \<and> (sc_Pattern sc \<noteq> [] \<or> sc_Wildcard sc) \<and>
          p = sc_Pattern sc @ (if sc_Wildcard sc then [star] else []))"
        using 2 snoc sc by (cases wild) (auto simp: ParseScope_wild scope_wf_def)
    next
      case False
      then show "(ParseScope s = Inr sc) = (scope_wf sc \<and> v = sc_Verb sc \<and> (sc_Pattern sc \<noteq> [] \<or> sc_Wildcard sc) \<and>
          p = sc_Pattern sc @ (if sc_Wildcard sc then [star] else []))"
        using 2 snoc sc by (cases wild) (auto simp: ParseScope_literal scope_wf_def)
    qed
  qed
qed

lemma scopes_grant_iff:
  "scopes_grant raws a r \<longleftrightarrow> (\<exists>sc. scope_wf sc \<and> scope_text sc \<in> set raws \<and> scope_Matches sc a r)"
proof (induction raws)
  case (Cons raw raws)
  show ?case
  proof (cases "ParseScope raw")
    case (Inl e)
    then have "\<not> (scope_wf sc \<and> scope_text sc = raw)" for sc
      using ParseScope_text [of raw sc] by auto
    then show ?thesis using Cons Inl by auto
  next
    case (Inr sc)
    then have "scope_wf sc" "raw = scope_text sc" using ParseScope_text by auto
    moreover have "sc' = sc" if "scope_wf sc'" "scope_text sc' = raw" for sc'
      using ParseScope_text [of raw sc'] Inr that by auto
    ultimately show ?thesis using Cons Inr by auto
  qed
qed simp

lemma scopes_grant_words:
  "scopes_grant raws a r \<longleftrightarrow> a \<noteq> [] \<and> plain a \<and>
    (r = [] \<and> a \<in> set raws \<or> r \<noteq> [] \<and> plain r \<and> a @ '':'' @ r \<in> set raws \<or>
     (\<exists>q. prefix q r \<and> plain q \<and> a @ '':'' @ q @ ''*'' \<in> set raws))"
proof -
  let ?S = "\<lambda>q w. \<lparr>sc_Verb = a, sc_Pattern = q, sc_Wildcard = w\<rparr>"
  have "scopes_grant raws a r \<longleftrightarrow>
      (\<exists>q w. scope_wf (?S q w) \<and> scope_text (?S q w) \<in> set raws \<and> scope_Matches (?S q w) a r)"
    unfolding scopes_grant_iff
    by (rule iffI; elim exE conjE) (metis Scope.surjective old.unit.exhaust scope_Matches_def, blast)
  also have "\<dots> \<longleftrightarrow> (a \<noteq> [] \<and> plain a) \<and> (plain r \<and> scope_text (?S r False) \<in> set raws \<or>
      (\<exists>q. prefix q r \<and> plain q \<and> scope_text (?S q True) \<in> set raws))"
    unfolding ex_bool_eq by (simp add: scope_wf_def scope_Matches_def strings_HasPrefix_iff) blast
  finally show ?thesis by (cases "r = []") (simp_all add: scope_text_def)
qed


text \<open>
  C15: The scope authorizer denies by default: it grants an action on a resource exactly when the principal has a
  subject and one of its scopes reads \<open>action\<close> (for the empty resource), \<open>action:resource\<close>, or
  \<open>action:p*\<close> for a prefix \<open>p\<close> of the resource. No verb includes another, and malformed scopes grant nothing.
\<close>

theorem scope_authorizer_exact:
  "ScopeAuthorizer p a r = Inr () \<longleftrightarrow>
    pr_Subject p \<noteq> [] \<and> a \<noteq> [] \<and> plain a \<and>
    (r = [] \<and> a \<in> set (pr_Scopes p) \<or>
     r \<noteq> [] \<and> plain r \<and> a @ '':'' @ r \<in> set (pr_Scopes p) \<or>
     (\<exists>q. prefix q r \<and> plain q \<and> a @ '':'' @ q @ ''*'' \<in> set (pr_Scopes p)))"
  by (auto simp: ScopeAuthorizer_def IsAnonymous_def scopes_grant_words split: if_splits)

end
