(* ===== verification/Auth_Token.thy ===== *)
theory Auth_Token
  imports Auth_Scope
begin

text \<open>
  Credentials and their verifiers: \<^verbatim>\<open>broker/internal/auth/verifier.go\<close>, \<^verbatim>\<open>denylist.go\<close> and the types of \<^verbatim>\<open>auth.go\<close>.
  The unpadded URL alphabet of \<^verbatim>\<open>encoding/base64\<close> is modelled. The signature scheme and the JSON text of the
  header and of the claims are the parameter \<open>jwt_lib\<close>. Times are nanoseconds since the epoch, and the
  clock is an argument of the verifier.
\<close>

section \<open>base64.RawURLEncoding\<close>

definition b64_char :: "nat \<Rightarrow> byte" where
  "b64_char i = word_of_nat (if i < 26 then 65 + i else if i < 52 then 71 + i else if i < 62 then i - 4 else if i = 62 then 45 else 95)"

definition b64_val :: "byte \<Rightarrow> nat option" where
  "b64_val c =
     (let n = unat c in
      if 65 \<le> n \<and> n \<le> 90 then Some (n - 65)
      else if 97 \<le> n \<and> n \<le> 122 then Some (n - 71)
      else if 48 \<le> n \<and> n \<le> 57 then Some (n + 4)
      else if n = 45 then Some 62
      else if n = 95 then Some 63
      else None)"

fun b64_digits :: "nat list \<Rightarrow> nat list" where
  "b64_digits (a # b # c # rest) =
     [a div 4, a mod 4 * 16 + b div 16, b mod 16 * 4 + c div 64, c mod 64] @ b64_digits rest"
| "b64_digits [a, b] = [a div 4, a mod 4 * 16 + b div 16, b mod 16 * 4]"
| "b64_digits [a] = [a div 4, a mod 4 * 16]"
| "b64_digits [] = []"

definition b64_Encode :: "bytes \<Rightarrow> bytes" where
  "b64_Encode b = map b64_char (b64_digits (map unat b))"

definition CorruptInput :: go_error where
  "CorruptInput = ErrNew ''illegal base64 data''"

fun b64_groups :: "nat list \<Rightarrow> nat list result" where
  "b64_groups (p # q # r # s # rest) =
     (case b64_groups rest of
        Inl e \<Rightarrow> Inl e
      | Inr out \<Rightarrow> Inr ([p * 4 + q div 16, q mod 16 * 16 + r div 4, r mod 4 * 64 + s] @ out))"
| "b64_groups [p, q, r] = Inr [p * 4 + q div 16, q mod 16 * 16 + r div 4]"
| "b64_groups [p, q] = Inr [p * 4 + q div 16]"
| "b64_groups [p] = Inl CorruptInput"
| "b64_groups [] = Inr []"

text \<open>The decoder skips line breaks; it is not strict, so the unused bits of the last digit are ignored.\<close>

definition b64_Decode :: "bytes \<Rightarrow> bytes result" where
  "b64_Decode s =
     (let vals = map b64_val (filter (\<lambda>c. c \<noteq> 10 \<and> c \<noteq> 13) s)
      in if None \<in> set vals then Inl CorruptInput
         else case b64_groups (map the vals) of Inl e \<Rightarrow> Inl e | Inr out \<Rightarrow> Inr (map word_of_nat out))"

lemma b64_char_less: "i < 64 \<Longrightarrow> b64_val (b64_char i) = Some i \<and> b64_char i \<notin> {10, 13, 46}"
proof -
  have "list_all (\<lambda>i. b64_val (b64_char i) = Some i \<and> b64_char i \<notin> {10, 13, 46}) [0..<64]"
    by code_simp
  then show "i < 64 \<Longrightarrow> ?thesis" by (simp add: list_all_iff)
qed

lemma b64_digits_less: "\<forall>x \<in> set b. x < 256 \<Longrightarrow> \<forall>d \<in> set (b64_digits b). d < 64"
  by (induction b rule: b64_digits.induct) (auto simp: less_mult_imp_div_less)

lemma b64_groups_digits: "\<forall>x \<in> set b. x < 256 \<Longrightarrow> b64_groups (b64_digits b) = Inr b"
proof (induction b rule: b64_digits.induct)
  case (1 a b c rest)
  have "(a mod 4 * 16 + b div 16) div 16 = a mod 4" "(a mod 4 * 16 + b div 16) mod 16 = b div 16"
    "(b mod 16 * 4 + c div 64) div 4 = b mod 16" "(b mod 16 * 4 + c div 64) mod 4 = c div 64"
    using 1(2) by (auto simp: less_mult_imp_div_less div_mult_self3 mod_mult_self3)
  with 1 show ?case by (simp add: mult.commute)
next
  case (2 a b)
  then have "b div 16 < 16" by auto
  then show ?case by (simp add: mult.commute)
next
  case (3 a)
  then show ?case by simp
qed simp

lemma unat_byte_less: "\<forall>x \<in> set (map unat (b :: bytes)). x < 256"
  using unsigned_less [where ?'b = 8 and ?'a = nat] by auto

lemma b64_Encode_chars: "c \<in> set (b64_Encode b) \<Longrightarrow> c \<notin> {10, 13, 46}"
  using b64_digits_less [OF unat_byte_less, of b] b64_char_less by (fastforce simp: b64_Encode_def)

theorem b64_Decode_Encode: "b64_Decode (b64_Encode b) = Inr b"
proof -
  let ?d = "b64_digits (map unat b)"
  have less: "\<forall>d \<in> set ?d. d < 64" by (rule b64_digits_less [OF unat_byte_less])
  have keep: "filter (\<lambda>c. c \<noteq> 10 \<and> c \<noteq> 13) (b64_Encode b) = b64_Encode b"
    using b64_Encode_chars by (fastforce simp: filter_id_conv)
  have "map b64_val (b64_Encode b) = map Some ?d"
    using less b64_char_less by (simp add: b64_Encode_def)
  then show ?thesis
    by (simp add: b64_Decode_def keep b64_groups_digits [OF unat_byte_less] image_iff comp_def)
qed

section \<open>Types\<close>

definition SourceAnonymous :: string where "SourceAnonymous = []"
definition SourceJWT :: string where "SourceJWT = ''jwt''"
definition SourceAPIKey :: string where "SourceAPIKey = ''api-key''"

record Credential =
  cr_Kind :: byte
  cr_Bytes :: gobytes

definition CredentialNone :: byte where "CredentialNone = 0"
definition CredentialAPIKey :: byte where "CredentialAPIKey = 1"
definition CredentialJWT :: byte where "CredentialJWT = 2"

record Claims =
  cl_Subject :: string
  cl_Account :: string
  cl_Scopes :: "string list"
  cl_Issuer :: string
  cl_IssuedAt :: int
  cl_NotBefore :: int
  cl_Expires :: int

record jwtHeader =
  jh_Alg :: string
  jh_Typ :: string

text \<open>\<^verbatim>\<open>json.Marshal\<close> and \<^verbatim>\<open>json.Unmarshal\<close> at the two types, \<^verbatim>\<open>ed25519.Sign\<close> and \<^verbatim>\<open>ed25519.Verify\<close>.\<close>

record ('priv, 'pub) jwt_lib =
  jl_MarshalHeader :: "jwtHeader \<Rightarrow> bytes result"
  jl_UnmarshalHeader :: "bytes \<Rightarrow> jwtHeader result"
  jl_MarshalClaims :: "Claims \<Rightarrow> bytes result"
  jl_UnmarshalClaims :: "bytes \<Rightarrow> Claims result"
  jl_Sign :: "'priv \<Rightarrow> bytes \<Rightarrow> bytes"
  jl_Verify :: "'pub \<Rightarrow> bytes \<Rightarrow> bytes \<Rightarrow> bool"

section \<open>Denylist\<close>

type_synonym MemoryDenyList = "string list"

definition denylist_Set :: "string list \<Rightarrow> MemoryDenyList" where
  "denylist_Set subjects = foldl (\<lambda>next s. if s = [] then next else List.insert s next) [] subjects"

definition NewMemoryDenyList :: "string list \<Rightarrow> MemoryDenyList" where
  "NewMemoryDenyList subjects = denylist_Set subjects"

definition denylist_Contains :: "MemoryDenyList \<Rightarrow> string \<Rightarrow> bool" where
  "denylist_Contains d subject \<longleftrightarrow> subject \<in> set d"

section \<open>Verifiers\<close>

type_synonym TokenVerifier = "Credential \<Rightarrow> Principal result"

definition AnonymousVerifier :: TokenVerifier where
  "AnonymousVerifier cred = Inr Anonymous"

definition NewAPIKeyVerifier :: "string list \<Rightarrow> string list" where
  "NewAPIKeyVerifier keys = foldl (\<lambda>ks k. if k = [] then ks else List.insert k ks) [] keys"

definition APIKeyVerifier :: "string list \<Rightarrow> TokenVerifier" where
  "APIKeyVerifier keys cred =
     (if cr_Kind cred \<noteq> CredentialAPIKey then
        Inl (ErrNew (if cr_Kind cred = CredentialNone then ''auth: anonymous credential rejected (APIKeyVerifier configured)''
                     else if cr_Kind cred = CredentialJWT then ''auth: JWT credential against APIKeyVerifier; configure Ed25519Verifier instead''
                     else ''auth: unsupported credential kind''))
      else let key = string_of_bytes (gb (cr_Bytes cred))
           in if key \<notin> set keys then Inl (ErrNew ''auth: invalid API key'')
              else Inr \<lparr>pr_Subject = key, pr_Account = [], pr_Scopes = [], pr_Source = SourceAPIKey\<rparr>)"

fun bytes_Split :: "bytes \<Rightarrow> byte \<Rightarrow> bytes list" where
  "bytes_Split [] sep = [[]]"
| "bytes_Split (c # s) sep =
     (if c = sep then [] # bytes_Split s sep
      else case bytes_Split s sep of [] \<Rightarrow> [[c]] | part # parts \<Rightarrow> (c # part) # parts)"

abbreviation dot :: byte where "dot \<equiv> 46"

definition maxTokenBytes :: nat where
  "maxTokenBytes = 8192"

definition IssueJWT :: "('priv, 'pub) jwt_lib \<Rightarrow> 'priv \<Rightarrow> Claims \<Rightarrow> bytes result" where
  "IssueJWT lib priv claims =
     (case jl_MarshalHeader lib \<lparr>jh_Alg = ''EdDSA'', jh_Typ = ''JWT''\<rparr> of
        Inl err \<Rightarrow> Inl (ErrWrap ''auth: marshal header'' err)
      | Inr headerJSON \<Rightarrow>
          (case jl_MarshalClaims lib claims of
             Inl err \<Rightarrow> Inl (ErrWrap ''auth: marshal claims'' err)
           | Inr claimsJSON \<Rightarrow>
               (let signingInput = b64_Encode headerJSON @ [dot] @ b64_Encode claimsJSON;
                    sig = jl_Sign lib priv signingInput
                in Inr (signingInput @ [dot] @ b64_Encode sig))))"

definition parseAndVerifyJWT :: "('priv, 'pub) jwt_lib \<Rightarrow> bytes \<Rightarrow> 'pub \<Rightarrow> Claims result" where
  "parseAndVerifyJWT lib token pub =
     (if maxTokenBytes < length token then Inl (ErrNew ''auth: JWT exceeds maximum size'')
      else case bytes_Split token dot of
        [headerBytes, payloadBytes, sigSegment] \<Rightarrow>
          (case b64_Decode headerBytes of
             Inl err \<Rightarrow> Inl (ErrWrap ''auth: decode header'' err)
           | Inr headerJSON \<Rightarrow>
          (case jl_UnmarshalHeader lib headerJSON of
             Inl err \<Rightarrow> Inl (ErrWrap ''auth: parse header'' err)
           | Inr header \<Rightarrow>
           if jh_Alg header \<noteq> ''EdDSA'' then Inl (ErrNew ''auth: unsupported alg (only EdDSA accepted)'')
           else case b64_Decode sigSegment of
             Inl err \<Rightarrow> Inl (ErrWrap ''auth: decode signature'' err)
           | Inr sig \<Rightarrow>
               (let signingInput = take (length headerBytes + 1 + length payloadBytes) token in
                if \<not> jl_Verify lib pub signingInput sig then Inl (ErrNew ''auth: signature verification failed'')
                else case b64_Decode payloadBytes of
                  Inl err \<Rightarrow> Inl (ErrWrap ''auth: decode payload'' err)
                | Inr payloadJSON \<Rightarrow>
                    (case jl_UnmarshalClaims lib payloadJSON of
                       Inl err \<Rightarrow> Inl (ErrWrap ''auth: parse claims'' err)
                     | Inr claims \<Rightarrow>
                         if cl_Expires claims = 0 then Inl (ErrNew ''auth: JWT missing required exp claim'')
                         else Inr claims))))
      | _ \<Rightarrow> Inl (ErrNew ''auth: malformed JWT (expected 3 segments)''))"

record 'pub Ed25519Verifier =
  ev_pub :: 'pub
  ev_leeway :: int
  ev_denylist :: "MemoryDenyList option"

definition time_Unix :: "int \<Rightarrow> int" where
  "time_Unix t = t div 10 ^ 9"

definition NewEd25519Verifier :: "'pub \<Rightarrow> 'pub Ed25519Verifier" where
  "NewEd25519Verifier pub = \<lparr>ev_pub = pub, ev_leeway = 30 * 10 ^ 9, ev_denylist = None\<rparr>"

definition Ed25519_Verify :: "('priv, 'pub) jwt_lib \<Rightarrow> 'pub Ed25519Verifier \<Rightarrow> int \<Rightarrow> TokenVerifier" where
  "Ed25519_Verify lib v now cred =
     (if cr_Kind cred \<noteq> CredentialJWT then
        Inl (ErrNew (if cr_Kind cred = CredentialNone then ''auth: anonymous credential rejected (auth-required mode)''
                     else if cr_Kind cred = CredentialAPIKey then ''auth: API-key credentials are not supported; use a JWT''
                     else ''auth: unsupported credential kind''))
      else case parseAndVerifyJWT lib (gb (cr_Bytes cred)) (ev_pub v) of
        Inl err \<Rightarrow> Inl err
      | Inr claims \<Rightarrow>
          if cl_Expires claims < time_Unix (now - ev_leeway v) then Inl (ErrNew ''auth: token expired'')
          else if 0 < cl_NotBefore claims \<and> time_Unix (now + ev_leeway v) < cl_NotBefore claims
          then Inl (ErrNew ''auth: token not yet valid'')
          else if (case ev_denylist v of None \<Rightarrow> False | Some d \<Rightarrow> denylist_Contains d (cl_Subject claims))
          then Inl (ErrNew ''auth: subject is denied'')
          else Inr \<lparr>pr_Subject = cl_Subject claims, pr_Account = cl_Account claims, pr_Scopes = cl_Scopes claims,
                    pr_Source = SourceJWT\<rparr>)"

section \<open>Tokens\<close>

lemma bytes_Split_none: "sep \<notin> set s \<Longrightarrow> bytes_Split s sep = [s]"
  by (induction s) auto

lemma bytes_Split_append: "sep \<notin> set s \<Longrightarrow> bytes_Split (s @ sep # t) sep = s # bytes_Split t sep"
  by (induction s) auto

lemma bytes_Split_nonempty [simp]: "bytes_Split s sep \<noteq> []"
  by (cases s) (auto split: list.splits)

lemma bytes_Split_join: "bytes_Split t sep = part # parts \<Longrightarrow> t = part @ concat (map (\<lambda>q. sep # q) parts) \<and> sep \<notin> set part"
proof (induction t arbitrary: part parts)
  case (Cons c t)
  obtain part' parts' where t: "bytes_Split t sep = part' # parts'" by (cases "bytes_Split t sep") auto
  have "part # parts = (if c = sep then [] # part' # parts' else (c # part') # parts')" using Cons.prems t by (cases "c = sep") simp_all
  then show ?case using Cons.IH [OF t] by (cases "c = sep") simp_all
qed simp

lemma bytes_Split_three:
  assumes "bytes_Split t sep = [h, p, s]"
  shows "t = h @ [sep] @ p @ [sep] @ s"
  using bytes_Split_join [OF assms] by simp

lemma denylist_Set_set: "set (denylist_Set subjects) = set subjects - {[]}"
proof -
  have "set (foldl (\<lambda>next s. if s = [] then next else List.insert s next) acc subjects) = set acc \<union> (set subjects - {[]})" for acc
    by (induction subjects arbitrary: acc) auto
  then show ?thesis by (simp add: denylist_Set_def)
qed

definition token_window :: "int \<Rightarrow> int \<Rightarrow> Claims \<Rightarrow> bool" where
  "token_window leeway now c \<longleftrightarrow> time_Unix (now - leeway) \<le> cl_Expires c \<and> (cl_NotBefore c \<le> 0 \<or> cl_NotBefore c \<le> time_Unix (now + leeway))"

definition claims_principal :: "Claims \<Rightarrow> Principal" where
  "claims_principal c = \<lparr>pr_Subject = cl_Subject c, pr_Account = cl_Account c, pr_Scopes = cl_Scopes c, pr_Source = SourceJWT\<rparr>"

lemma parse_JWT_parts:
  assumes "parseAndVerifyJWT lib token pub = Inr c"
  obtains h p s sig payload where "bytes_Split token dot = [h, p, s]" "length token \<le> maxTokenBytes" "b64_Decode s = Inr sig"
    "jl_Verify lib pub (take (length h + 1 + length p) token) sig" "b64_Decode p = Inr payload"
    "jl_UnmarshalClaims lib payload = Inr c" "cl_Expires c \<noteq> 0"
proof -
  obtain h p s where parts: "bytes_Split token dot = [h, p, s]"
    using assms by (auto simp: parseAndVerifyJWT_def split: if_splits list.splits)
  then show ?thesis using assms that [OF parts]
    by (auto simp: parseAndVerifyJWT_def Let_def split: if_splits sum.splits)
qed


definition sample_claims :: Claims where
  "sample_claims = \<lparr>cl_Subject = ''svc'', cl_Account = [], cl_Scopes = [''produce:events''], cl_Issuer = [], cl_IssuedAt = 0,
     cl_NotBefore = 0, cl_Expires = 100\<rparr>"

text \<open>A library that satisfies what the theorems ask of it: fixed texts, and a signature that repeats the key and the message.\<close>

definition sample_lib :: "(bytes, bytes) jwt_lib" where
  "sample_lib = \<lparr>jl_MarshalHeader = (\<lambda>_. Inr [1]), jl_UnmarshalHeader = (\<lambda>_. Inr \<lparr>jh_Alg = ''EdDSA'', jh_Typ = ''JWT''\<rparr>),
     jl_MarshalClaims = (\<lambda>_. Inr [2]), jl_UnmarshalClaims = (\<lambda>_. Inr sample_claims),
     jl_Sign = (\<lambda>k m. k @ m), jl_Verify = (\<lambda>k m s. s = k @ m)\<rparr>"

definition sample_token :: bytes where
  "sample_token = (case IssueJWT sample_lib [7] sample_claims of Inr t \<Rightarrow> t | Inl _ \<Rightarrow> [])"

lemma sample_verifies:
  "Ed25519_Verify sample_lib (NewEd25519Verifier [7]) 0 \<lparr>cr_Kind = CredentialJWT, cr_Bytes = Some sample_token\<rparr>
    = Inr (claims_principal sample_claims)"
  by code_simp


text \<open>
  C34: A token issued with the private key of the configured public key is accepted while it is inside its
  validity window and its subject is not denied, and yields the principal of the issued claims, for
  any signature scheme that verifies what it signed and any JSON text that reads back as it was written.
\<close>

theorem issued_token_verifies:
  assumes header: "jl_MarshalHeader lib \<lparr>jh_Alg = ''EdDSA'', jh_Typ = ''JWT''\<rparr> = Inr hj"
      "jl_UnmarshalHeader lib hj = Inr \<lparr>jh_Alg = ''EdDSA'', jh_Typ = ''JWT''\<rparr>"
    and claims: "jl_MarshalClaims lib c = Inr cj" "jl_UnmarshalClaims lib cj = Inr c"
    and scheme: "\<And>m. jl_Verify lib (ev_pub v) m (jl_Sign lib priv m)"
    and issued: "IssueJWT lib priv c = Inr token" "length token \<le> maxTokenBytes"
    and valid: "cl_Expires c \<noteq> 0" "token_window (ev_leeway v) now c" "\<forall>d. ev_denylist v = Some d \<longrightarrow> cl_Subject c \<notin> set d"
  shows "Ed25519_Verify lib v now \<lparr>cr_Kind = CredentialJWT, cr_Bytes = Some token\<rparr> = Inr (claims_principal c)"
proof -
  let ?in = "b64_Encode hj @ [dot] @ b64_Encode cj"
  have token: "token = b64_Encode hj @ dot # b64_Encode cj @ dot # b64_Encode (jl_Sign lib priv ?in)"
    using issued(1) header claims by (simp add: IssueJWT_def Let_def)
  have nodot: "dot \<notin> set (b64_Encode b)" for b using b64_Encode_chars by blast
  have "bytes_Split token dot = [b64_Encode hj, b64_Encode cj, b64_Encode (jl_Sign lib priv ?in)]"
    unfolding token by (simp add: bytes_Split_append bytes_Split_none nodot)
  moreover have "take (length (b64_Encode hj) + 1 + length (b64_Encode cj)) token = ?in"
    unfolding token by simp
  ultimately have "parseAndVerifyJWT lib token (ev_pub v) = Inr c"
    using header claims scheme valid(1) issued(2) by (simp add: parseAndVerifyJWT_def b64_Decode_Encode Let_def)
  then show ?thesis using valid
    by (auto simp: Ed25519_Verify_def token_window_def claims_principal_def denylist_Contains_def split: option.splits)
qed

theorem issued_token_verifies_witness:
  "Ed25519_Verify sample_lib \<lparr>ev_pub = [7], ev_leeway = 0, ev_denylist = Some (NewMemoryDenyList [''eve'', []])\<rparr> (99 * 10 ^ 9)
     \<lparr>cr_Kind = CredentialJWT, cr_Bytes = Some sample_token\<rparr> = Inr (claims_principal sample_claims)"
proof (rule issued_token_verifies)
  show "IssueJWT sample_lib [7] sample_claims = Inr sample_token" by code_simp
  show "length sample_token \<le> maxTokenBytes" by code_simp
qed (simp_all add: sample_lib_def sample_claims_def token_window_def time_Unix_def NewMemoryDenyList_def denylist_Set_def)

end
