(* ===== verification/Server_Quota.thy ===== *)
theory Server_Quota
  imports Holocron_Prelude
begin

text \<open>
  The bandwidth limiter of the server, \<^verbatim>\<open>broker/internal/server/quota.go\<close>. Times are nanoseconds, and the clock is
  an argument. \<open>refill e rate\<close> is the number of tokens \<^verbatim>\<open>int64(elapsed*float64(rate))\<close> for an elapsed time of \<open>e\<close>
  nanoseconds: the floating-point product is a parameter, of which the lemmas use that it is not
  negative, that it stays below \<open>2 ^ 62\<close>, and that the conversion truncates.
\<close>

section \<open>Token bucket\<close>

record tokenBucket =
  tb_capacity :: int
  tb_rate :: int
  tb_tokens :: int
  tb_last :: int

definition newTokenBucket :: "int \<Rightarrow> int \<Rightarrow> int \<Rightarrow> tokenBucket" where
  "newTokenBucket now rate capacity =
     (let capacity = (if capacity < rate then rate else capacity)
      in \<lparr>tb_capacity = capacity, tb_rate = rate, tb_tokens = capacity, tb_last = now\<rparr>)"

definition min64 :: "int \<Rightarrow> int \<Rightarrow> int" where
  "min64 a b = (if a < b then a else b)"

definition tb_take :: "(int \<Rightarrow> int \<Rightarrow> int) \<Rightarrow> int \<Rightarrow> tokenBucket \<Rightarrow> int \<Rightarrow> tokenBucket \<times> bool" where
  "tb_take refill now b n =
     (if n \<le> 0 then (b, True)
      else let tokens = min64 (tb_capacity b) (int64_of (uint64_of (tb_tokens b + refill (now - tb_last b) (tb_rate b))));
               b = b\<lparr>tb_tokens := tokens, tb_last := now\<rparr>
           in if tokens < n then (b, False) else (b\<lparr>tb_tokens := tokens - n\<rparr>, True))"

section \<open>Limits\<close>

text \<open>A bucket whose level is between zero and its capacity.\<close>

definition bucket_ok :: "tokenBucket \<Rightarrow> bool" where
  "bucket_ok b \<longleftrightarrow> 0 \<le> tb_tokens b \<and> tb_tokens b \<le> tb_capacity b \<and> tb_capacity b \<le> 2 ^ 62 \<and> 0 \<le> tb_rate b"

definition refill_ok :: "(int \<Rightarrow> int \<Rightarrow> int) \<Rightarrow> bool" where
  "refill_ok refill \<longleftrightarrow> (\<forall>e r. 0 \<le> e \<and> 0 \<le> r \<longrightarrow> 0 \<le> refill e r \<and> refill e r < 2 ^ 62)"

text \<open>What a call hands out, and what it may add.\<close>

definition granted :: "int \<Rightarrow> bool \<Rightarrow> int" where
  "granted n ok = (if ok \<and> 0 < n then n else 0)"

lemma newTokenBucket_ok: "0 \<le> rate \<Longrightarrow> rate \<le> 2 ^ 62 \<Longrightarrow> capacity \<le> 2 ^ 62 \<Longrightarrow> bucket_ok (newTokenBucket now rate capacity)"
  by (simp add: newTokenBucket_def bucket_ok_def Let_def)

lemma tb_take_step:
  assumes "bucket_ok b" "refill_ok refill" "tb_last b \<le> now" "tb_take refill now b n = (b', ok)"
  shows "bucket_ok b' \<and> tb_capacity b' = tb_capacity b \<and> tb_rate b' = tb_rate b \<and> tb_last b' \<le> now
    \<and> granted n ok + tb_tokens b' \<le> tb_tokens b + refill (now - tb_last b) (tb_rate b)
    \<and> granted n ok \<le> tb_capacity b"
proof -
  let ?r = "refill (now - tb_last b) (tb_rate b)"
  have r: "0 \<le> ?r" "?r < 2 ^ 62" using assms(1-3) by (simp_all add: refill_ok_def bucket_ok_def)
  then have "int64_of (uint64_of (tb_tokens b + ?r)) = tb_tokens b + ?r"
    using assms(1) by (intro int64_of_uint64_of) (simp add: int64_ok_def bucket_ok_def)
  then show ?thesis
    using assms r by (auto simp: tb_take_def bucket_ok_def granted_def min64_def Let_def split: if_splits)
qed

primrec tb_run :: "(int \<Rightarrow> int \<Rightarrow> int) \<Rightarrow> tokenBucket \<Rightarrow> (int \<times> int) list \<Rightarrow> tokenBucket \<times> int" where
  "tb_run refill b [] = (b, 0)"
| "tb_run refill b (c # calls) =
     (let (b', ok) = tb_take refill (fst c) b (snd c); (b'', total) = tb_run refill b' calls
      in (b'', granted (snd c) ok + total))"

text \<open>The tokens that the calls may add: only calls that ask for something move the clock of the bucket.\<close>

primrec tb_refills :: "(int \<Rightarrow> int \<Rightarrow> int) \<Rightarrow> int \<Rightarrow> int \<Rightarrow> (int \<times> int) list \<Rightarrow> int" where
  "tb_refills refill rate prev [] = 0"
| "tb_refills refill rate prev (c # calls) =
     (if snd c \<le> 0 then tb_refills refill rate prev calls
      else refill (fst c - prev) rate + tb_refills refill rate (fst c) calls)"

lemma tb_run_bound:
  assumes "bucket_ok b" "refill_ok refill" "sorted (tb_last b # map fst calls)"
  shows "bucket_ok (fst (tb_run refill b calls)) \<and>
    snd (tb_run refill b calls) + tb_tokens (fst (tb_run refill b calls))
      \<le> tb_tokens b + tb_refills refill (tb_rate b) (tb_last b) calls"
  using assms(1,3)
proof (induction calls arbitrary: b)
  case (Cons c calls)
  obtain b' ok where t: "tb_take refill (fst c) b (snd c) = (b', ok)" by fastforce
  have step: "bucket_ok b'" "tb_rate b' = tb_rate b" "tb_last b' \<le> fst c"
    "granted (snd c) ok + tb_tokens b' \<le> tb_tokens b + refill (fst c - tb_last b) (tb_rate b)"
    using tb_take_step [OF Cons.prems(1) assms(2) _ t] Cons.prems(2) by auto
  have "sorted (tb_last b' # map fst calls)" using step(3) Cons.prems(2) by auto
  note ih = Cons.IH [OF step(1) this]
  show ?case
  proof (cases "snd c \<le> 0")
    case True
    then have "b' = b" "granted (snd c) ok = 0" using t by (simp_all add: tb_take_def granted_def)
    with ih True show ?thesis by (simp add: t Let_def split: prod.splits)
  next
    case False
    then have "tb_last b' = fst c" using t by (auto simp: tb_take_def Let_def split: if_splits)
    with ih False step show ?thesis by (auto simp: t Let_def split: prod.splits)
  qed
qed simp

lemma tb_take_capacity: "tb_capacity (fst (tb_take refill now b n)) = tb_capacity b"
  by (simp add: tb_take_def Let_def)

lemma tb_run_capacity: "tb_capacity (fst (tb_run refill b calls)) = tb_capacity b"
proof (induction calls arbitrary: b)
  case (Cons c calls)
  show ?case using tb_take_capacity [of refill "fst c" b "snd c"] Cons.IH by (simp add: Let_def split_beta)
qed simp


text \<open>The exact product, cut off, is a refill the theorem speaks about.\<close>

definition exact_refill :: "int \<Rightarrow> int \<Rightarrow> int" where
  "exact_refill e r = min (e * r div 10 ^ 9) (2 ^ 61)"

lemma exact_refill_ok: "refill_ok exact_refill"
  by (auto simp: refill_ok_def exact_refill_def pos_imp_zdiv_nonneg_iff min_def)


section \<open>Polling\<close>

text \<open>
  A client that is refused and asks again soon never gets through: when every call comes before a whole token has accrued since
  the one before, the bucket gains nothing, however long this goes on, because a refused call also moves
  the clock of the bucket and the fraction of a token is truncated away each time.
\<close>

theorem quota_polling_starves:
  assumes "\<And>e r. 0 \<le> e * r \<Longrightarrow> e * r < 10 ^ 9 \<Longrightarrow> refill e r = 0"
    and "bucket_ok b" "tb_tokens b < n" "0 \<le> gap" "gap * tb_rate b < 10 ^ 9"
  shows "\<exists>b'. tb_run refill b (map (\<lambda>i. (tb_last b + int (Suc i) * gap, n)) [0..<k]) = (b', 0) \<and> tb_tokens b' = tb_tokens b"
proof -
  have step: "tb_take refill (tb_last c + gap) c n = (c\<lparr>tb_last := tb_last c + gap\<rparr>, False)"
    if "bucket_ok c" "tb_tokens c < n" "tb_rate c = tb_rate b" for c
  proof -
    have "refill gap (tb_rate c) = 0" using assms(1,2,4,5) that(3) by (simp add: bucket_ok_def)
    moreover have "int64_of (uint64_of (tb_tokens c)) = tb_tokens c"
      using that(1) by (intro int64_of_uint64_of) (simp add: int64_ok_def bucket_ok_def)
    ultimately show ?thesis using that by (cases c) (auto simp: tb_take_def min64_def Let_def bucket_ok_def)
  qed
  have "\<exists>b'. tb_run refill c (map (\<lambda>i. (tb_last c + int (Suc i) * gap, n)) [0..<k]) = (b', 0) \<and> tb_tokens b' = tb_tokens c"
    if "bucket_ok c" "tb_tokens c < n" "tb_rate c = tb_rate b" for c
    using that
  proof (induction k arbitrary: c)
    case (Suc k)
    let ?c = "c\<lparr>tb_last := tb_last c + gap\<rparr>"
    have calls: "map (\<lambda>i. (tb_last c + int (Suc i) * gap, n)) [0..<Suc k] =
        (tb_last c + gap, n) # map (\<lambda>i. (tb_last ?c + int (Suc i) * gap, n)) [0..<k]"
      by (simp add: map_upt_Suc algebra_simps del: upt_Suc)
    have "bucket_ok ?c" using Suc.prems(1) by (simp add: bucket_ok_def)
    from Suc.IH [OF this] Suc.prems(2,3) show ?case
      unfolding calls using step [OF Suc.prems] by (auto simp: granted_def)
  qed simp
  from this [OF assms(2,3) refl] show ?thesis .
qed

theorem quota_polling_starves_witness:
  "\<exists>b'. tb_run exact_refill \<lparr>tb_capacity = 10, tb_rate = 10, tb_tokens = 0, tb_last = 0\<rparr>
      (map (\<lambda>i. (0 + int (Suc i) * (10 ^ 8 - 1), 1)) [0..<1000]) = (b', 0) \<and> tb_tokens b' = 0"
  using quota_polling_starves [of exact_refill "\<lparr>tb_capacity = 10, tb_rate = 10, tb_tokens = 0, tb_last = 0\<rparr>" 1 "10 ^ 8 - 1" 1000]
  by (simp add: exact_refill_def bucket_ok_def)

end
