(* ===== verification/Server_Core.thy ===== *)
theory Server_Core
  imports Auth_Token Server_Quota Broker_Core Group_Manager Wire_Data Wire_Admin Wire_Groups
begin

text \<open>
  The broker's transport, \<^verbatim>\<open>broker/internal/server/server.go\<close>: the handshake, the dispatch of a request to
  its handler, every handler, and the connection loop as a state machine. The listener, TLS and the
  goroutines are not part of the model. A handler that waits (\<^verbatim>\<open>handleFetch\<close>, the long-poll \<^verbatim>\<open>handleHeartbeat\<close>)
  ends in an outcome that names what it waits for. The group manager that the Go broker holds is a field of
  the server. Membership changes of the Raft library are the method table \<open>raft_ops\<close>.
\<close>

section \<open>Protocol constants\<close>

definition WireVersion :: byte where "WireVersion = 10"

definition OpProduce :: byte where "OpProduce = 0x01"
definition OpFetch :: byte where "OpFetch = 0x02"
definition OpMetadata :: byte where "OpMetadata = 0x03"
definition OpCreateTopic :: byte where "OpCreateTopic = 0x04"
definition OpCommit :: byte where "OpCommit = 0x05"
definition OpHandshake :: byte where "OpHandshake = 0x06"
definition OpJoinGroup :: byte where "OpJoinGroup = 0x07"
definition OpHeartbeat :: byte where "OpHeartbeat = 0x08"
definition OpLeaveGroup :: byte where "OpLeaveGroup = 0x09"
definition OpSync :: byte where "OpSync = 0x0A"
definition OpProduceBatch :: byte where "OpProduceBatch = 0x0B"
definition OpHighWater :: byte where "OpHighWater = 0x0C"
definition OpClusterMembers :: byte where "OpClusterMembers = 0x0D"
definition OpAddVoter :: byte where "OpAddVoter = 0x0E"
definition OpRemoveVoter :: byte where "OpRemoveVoter = 0x0F"
definition OpListSegments :: byte where "OpListSegments = 0x10"
definition OpFetchSegmentChunk :: byte where "OpFetchSegmentChunk = 0x11"
definition OpDeleteTopic :: byte where "OpDeleteTopic = 0x12"
definition OpListTopics :: byte where "OpListTopics = 0x13"
definition OpListGroups :: byte where "OpListGroups = 0x14"
definition OpDescribeGroup :: byte where "OpDescribeGroup = 0x15"
definition OpClusterStatus :: byte where "OpClusterStatus = 0x16"
definition OpUpdateTopicConfig :: byte where "OpUpdateTopicConfig = 0x17"
definition OpListGroupOffsets :: byte where "OpListGroupOffsets = 0x18"
definition OpDeleteGroup :: byte where "OpDeleteGroup = 0x19"

lemmas op_defs = OpProduce_def OpFetch_def OpMetadata_def OpCreateTopic_def OpCommit_def OpHandshake_def OpJoinGroup_def
  OpHeartbeat_def OpLeaveGroup_def OpSync_def OpProduceBatch_def OpHighWater_def OpClusterMembers_def OpAddVoter_def
  OpRemoveVoter_def OpListSegments_def OpFetchSegmentChunk_def OpDeleteTopic_def OpListTopics_def OpListGroups_def
  OpDescribeGroup_def OpClusterStatus_def OpUpdateTopicConfig_def OpListGroupOffsets_def OpDeleteGroup_def

definition StatusUnknownTopic :: byte where "StatusUnknownTopic = 0x10"
definition StatusInvalidPartition :: byte where "StatusInvalidPartition = 0x11"
definition StatusInvalidRequest :: byte where "StatusInvalidRequest = 0x12"
definition StatusTopicExists :: byte where "StatusTopicExists = 0x13"
definition StatusVersionMismatch :: byte where "StatusVersionMismatch = 0x20"
definition StatusUnknownMember :: byte where "StatusUnknownMember = 0x30"
definition StatusNotLeader :: byte where "StatusNotLeader = 0x40"
definition StatusUnauthorized :: byte where "StatusUnauthorized = 0x50"
definition StatusForbidden :: byte where "StatusForbidden = 0x51"
definition StatusRateLimited :: byte where "StatusRateLimited = 0x60"
definition StatusInternal :: byte where "StatusInternal = 0xFF"

lemmas status_defs = StatusOK_def StatusUnknownTopic_def StatusInvalidPartition_def StatusInvalidRequest_def StatusTopicExists_def
  StatusVersionMismatch_def StatusUnknownMember_def StatusNotLeader_def StatusUnauthorized_def StatusForbidden_def
  StatusRateLimited_def StatusInternal_def

section \<open>State\<close>

record 'r raft_ops =
  ro_Members :: "'r \<Rightarrow> ClusterMember list"
  ro_NodeID :: "'r \<Rightarrow> string"
  ro_LeaderAddr :: "'r \<Rightarrow> string"
  ro_AddVoter :: "'r \<Rightarrow> string \<Rightarrow> string \<Rightarrow> 'r \<times> unit result"
  ro_RemoveVoter :: "'r \<Rightarrow> string \<Rightarrow> 'r \<times> unit result"

text \<open>What the handlers call: the store, the offset store, the Raft library, LZ4 and the refill of the quotas.\<close>

record ('st, 'o, 'r) env =
  en_store :: "'st store_ops"
  en_snapper :: "'st snapshot_ops option"
  en_offsets :: "'o offset_ops"
  en_raft :: "'r raft_ops"
  en_compress :: compress_block
  en_uncompress :: uncompress_block
  en_refill :: "int \<Rightarrow> int \<Rightarrow> int"

record ('st, 'o, 'r) Server =
  sv_core :: "'st Broker"
  sv_groups :: "'o Manager option"
  sv_raft :: 'r
  sv_verifier :: TokenVerifier
  sv_authorizer :: Authorizer
  sv_produceQuotas :: "(string \<times> tokenBucket) list"
  sv_fetchQuotas :: "(string \<times> tokenBucket) list"

definition NewServer :: "'st Broker \<Rightarrow> 'o Manager option \<Rightarrow> 'r \<Rightarrow> ('st, 'o, 'r) Server" where
  "NewServer b groups raft = \<lparr>sv_core = b, sv_groups = groups, sv_raft = raft, sv_verifier = AnonymousVerifier,
     sv_authorizer = AllowAllAuthorizer, sv_produceQuotas = [], sv_fetchQuotas = []\<rparr>"

definition SetVerifier :: "('st, 'o, 'r) Server \<Rightarrow> TokenVerifier option \<Rightarrow> ('st, 'o, 'r) Server" where
  "SetVerifier s v = s\<lparr>sv_verifier := (case v of None \<Rightarrow> AnonymousVerifier | Some v \<Rightarrow> v)\<rparr>"

definition SetAuthorizer :: "('st, 'o, 'r) Server \<Rightarrow> Authorizer option \<Rightarrow> ('st, 'o, 'r) Server" where
  "SetAuthorizer s a = s\<lparr>sv_authorizer := (case a of None \<Rightarrow> AllowAllAuthorizer | Some a \<Rightarrow> a)\<rparr>"

definition SetAPIKeys :: "('st, 'o, 'r) Server \<Rightarrow> string list \<Rightarrow> ('st, 'o, 'r) Server" where
  "SetAPIKeys s keys =
     (if length keys = 0 then SetVerifier s (Some AnonymousVerifier)
      else SetVerifier s (Some (APIKeyVerifier (NewAPIKeyVerifier keys))))"

record Quota =
  qu_ProduceBytesPerSec :: int
  qu_ProduceBurstBytes :: int
  qu_FetchBytesPerSec :: int
  qu_FetchBurstBytes :: int

definition quota_bucket :: "int \<Rightarrow> int \<Rightarrow> int \<Rightarrow> tokenBucket" where
  "quota_bucket now rate burst = newTokenBucket now rate (if burst \<le> 0 then rate else burst)"

definition SetQuotas :: "int \<Rightarrow> ('st, 'o, 'r) Server \<Rightarrow> (string \<times> Quota) list \<Rightarrow> ('st, 'o, 'r) Server" where
  "SetQuotas now s quotas =
     (if length quotas = 0 then s\<lparr>sv_produceQuotas := [], sv_fetchQuotas := []\<rparr>
      else s\<lparr>sv_produceQuotas := map (\<lambda>(key, q). (key, quota_bucket now (qu_ProduceBytesPerSec q) (qu_ProduceBurstBytes q)))
                 (filter (\<lambda>(_, q). 0 < qu_ProduceBytesPerSec q) quotas),
             sv_fetchQuotas := map (\<lambda>(key, q). (key, quota_bucket now (qu_FetchBytesPerSec q) (qu_FetchBurstBytes q)))
                 (filter (\<lambda>(_, q). 0 < qu_FetchBytesPerSec q) quotas)\<rparr>)"

text \<open>A limiter applies to the subjects it is configured for; \<open>True\<close> lets the request pass.\<close>

definition take_produce :: "(int \<Rightarrow> int \<Rightarrow> int) \<Rightarrow> int \<Rightarrow> ('st, 'o, 'r) Server \<Rightarrow> string \<Rightarrow> int \<Rightarrow> ('st, 'o, 'r) Server \<times> bool" where
  "take_produce refill now s subject n =
     (case map_of (sv_produceQuotas s) subject of
        None \<Rightarrow> (s, True)
      | Some limiter \<Rightarrow>
          (let (limiter, admitted) = tb_take refill now limiter n
           in (s\<lparr>sv_produceQuotas := AList.update subject limiter (sv_produceQuotas s)\<rparr>, admitted)))"

definition take_fetch :: "(int \<Rightarrow> int \<Rightarrow> int) \<Rightarrow> int \<Rightarrow> ('st, 'o, 'r) Server \<Rightarrow> string \<Rightarrow> int \<Rightarrow> ('st, 'o, 'r) Server \<times> bool" where
  "take_fetch refill now s subject n =
     (case map_of (sv_fetchQuotas s) subject of
        None \<Rightarrow> (s, True)
      | Some limiter \<Rightarrow>
          (let (limiter, admitted) = tb_take refill now limiter n
           in (s\<lparr>sv_fetchQuotas := AList.update subject limiter (sv_fetchQuotas s)\<rparr>, admitted)))"

definition srv_authorize :: "('st, 'o, 'r) Server \<Rightarrow> Principal \<Rightarrow> string \<Rightarrow> string \<Rightarrow> unit result" where
  "srv_authorize s p action resource = sv_authorizer s p action resource"

section \<open>Responses\<close>

record response =
  rs_op :: byte
  rs_status :: byte
  rs_body :: bytes

definition response_bytes :: "response \<Rightarrow> bytes" where
  "response_bytes r = WriteResponse (rs_op r) (rs_status r) (rs_body r)"

record fetch_wait =
  fw_req :: FetchRequest
  fw_deadline :: int

datatype outcome = Respond response | FetchPoll fetch_wait | HeartbeatPoll string nat

definition respond :: "byte \<Rightarrow> bytes \<Rightarrow> outcome" where
  "respond op body = Respond \<lparr>rs_op = op, rs_status = StatusOK, rs_body = body\<rparr>"

definition respond_error :: "byte \<Rightarrow> byte \<Rightarrow> string \<Rightarrow> outcome" where
  "respond_error op status msg = Respond \<lparr>rs_op = op, rs_status = status, rs_body = encodeString [] msg\<rparr>"

text \<open>The method \<^verbatim>\<open>Error\<close>; the texts are those of the sources without their interpolated arguments.\<close>

fun err_Error :: "go_error \<Rightarrow> string" where
  "err_Error EOF = ''EOF''"
| "err_Error ErrUnexpectedEOF = ''unexpected EOF''"
| "err_Error ErrTornFrame = ''log: torn frame''"
| "err_Error ErrNotExist = ''file does not exist''"
| "err_Error (ErrNew msg) = msg"
| "err_Error (ErrWrap msg e) = msg @ '': '' @ err_Error e"
| "err_Error (ErrProtocol status msg) = msg"
| "err_Error (ErrNotLeader leaderID leaderAddr) =
     (if leaderAddr = [] then ''broker: not leader (no leader known)''
      else ''broker: not leader (leader='' @ leaderID @ '' addr='' @ leaderAddr @ '')'')"
| "err_Error Panic = ''panic''"

definition strings_Contains :: "string \<Rightarrow> string \<Rightarrow> bool" where
  "strings_Contains s sub \<longleftrightarrow> list_ex (\<lambda>i. strings_HasPrefix (drop i s) sub) [0..<Suc (length s)]"

definition classifyBrokerError :: "go_error \<Rightarrow> byte" where
  "classifyBrokerError err =
     (let msg = err_Error err in
      if strings_Contains msg ''already exists'' then StatusTopicExists
      else if strings_Contains msg ''not found'' then StatusUnknownTopic
      else if strings_Contains msg ''out of range'' then StatusInvalidPartition
      else StatusInternal)"

text \<open>\<^verbatim>\<open>errors.As(err, &notLeader)\<close>: the leader's address of the first such error in the chain.\<close>

fun as_NotLeader :: "go_error \<Rightarrow> string option" where
  "as_NotLeader (ErrNotLeader leaderID leaderAddr) = Some leaderAddr"
| "as_NotLeader (ErrWrap msg e) = as_NotLeader e"
| "as_NotLeader e = None"

definition srv_respondError :: "byte \<Rightarrow> go_error \<Rightarrow> outcome" where
  "srv_respondError op err =
     (case as_NotLeader err of
        Some leaderAddr \<Rightarrow> respond_error op StatusNotLeader leaderAddr
      | None \<Rightarrow> respond_error op (classifyBrokerError err) (err_Error err))"

section \<open>Handlers\<close>

text \<open>The clock readings and the random member name of one request, and how a long-poll heartbeat ends.\<close>

datatype beat_event = BeatWake | BeatTimer | BeatDone go_error

record tick =
  tk_now :: int
  tk_now' :: int
  tk_fresh :: string
  tk_beat :: beat_event

type_synonym ('st, 'o, 'r) handler = "('st, 'o, 'r) env \<Rightarrow> tick \<Rightarrow> ('st, 'o, 'r) Server \<Rightarrow> Principal \<Rightarrow> bytes \<Rightarrow> ('st, 'o, 'r) Server \<times> outcome"

definition set_core :: "('st, 'o, 'r) Server \<Rightarrow> 'st Broker \<Rightarrow> ('st, 'o, 'r) Server" where
  "set_core s b = s\<lparr>sv_core := b\<rparr>"

definition value_len :: "Record \<Rightarrow> int" where
  "value_len r = int (length (gb (r_Value r)))"

definition srv_publish :: "('st, 'o, 'r) env \<Rightarrow> tick \<Rightarrow> 'st Broker \<Rightarrow> PartitionRef \<Rightarrow> Record \<Rightarrow> 'st Broker \<times> int \<times> go_error option" where
  "srv_publish e t b p r = bk_Publish (en_store e) None (tk_now t) (tk_now' t) None b p r"

definition handleProduce :: "('st, 'o, 'r) handler" where
  "handleProduce e t s p body =
     (case DecodeProduceRequest body of
        Inl err \<Rightarrow> (s, respond_error OpProduce StatusInvalidRequest (err_Error err))
      | Inr req \<Rightarrow>
     (case srv_authorize s p ActionProduce (pq_Topic req) of
        Inl err \<Rightarrow> (s, respond_error OpProduce StatusForbidden (err_Error err))
      | Inr _ \<Rightarrow>
     (case take_produce (en_refill e) (tk_now t) s (pr_Subject p) (value_len (pq_Record req)) of
        (s, False) \<Rightarrow> (s, respond_error OpProduce StatusRateLimited ''produce quota exceeded'')
      | (s, True) \<Rightarrow>
     (case srv_publish e t (sv_core s) \<lparr>p_Topic = pq_Topic req, p_Index = pq_Partition req\<rparr> (pq_Record req) of
        (b, offset, Some err) \<Rightarrow> (set_core s b, srv_respondError OpProduce err)
      | (b, offset, None) \<Rightarrow> (set_core s b, respond OpProduce (ProduceResponse_Encode \<lparr>ps_Offset = offset\<rparr>))))))"

text \<open>The loop of \<^verbatim>\<open>handleProduceBatch\<close> over the records behind the first.\<close>

primrec publish_rest :: "('st, 'o, 'r) env \<Rightarrow> tick \<Rightarrow> 'st Broker \<Rightarrow> PartitionRef \<Rightarrow> Record list \<Rightarrow> 'st Broker \<times> go_error option" where
  "publish_rest e t b p [] = (b, None)"
| "publish_rest e t b p (r # rs) =
     (case srv_publish e t b p r of
        (b, _, Some err) \<Rightarrow> (b, Some err)
      | (b, _, None) \<Rightarrow> publish_rest e t b p rs)"

definition handleProduceBatch :: "('st, 'o, 'r) handler" where
  "handleProduceBatch e t s p body =
     (case DecodeProduceBatchRequest (en_uncompress e) body of
        Inl err \<Rightarrow> (s, respond_error OpProduceBatch StatusInvalidRequest (err_Error err))
      | Inr req \<Rightarrow>
     (case srv_authorize s p ActionProduce (pbq_Topic req) of
        Inl err \<Rightarrow> (s, respond_error OpProduceBatch StatusForbidden (err_Error err))
      | Inr _ \<Rightarrow>
     (case pbq_Records req of
        [] \<Rightarrow> (s, respond OpProduceBatch (ProduceBatchResponse_Encode \<lparr>pbs_BaseOffset = 0, pbs_Count = 0\<rparr>))
      | r # rs \<Rightarrow>
     (case take_produce (en_refill e) (tk_now t) s (pr_Subject p) (sum_list (map value_len (r # rs))) of
        (s, False) \<Rightarrow> (s, respond_error OpProduceBatch StatusRateLimited ''produce quota exceeded'')
      | (s, True) \<Rightarrow>
          (let pref = \<lparr>p_Topic = pbq_Topic req, p_Index = pbq_Partition req\<rparr> in
           case srv_publish e t (sv_core s) pref r of
             (b, _, Some err) \<Rightarrow> (set_core s b, srv_respondError OpProduceBatch err)
           | (b, baseOffset, None) \<Rightarrow>
               (case publish_rest e t b pref rs of
                  (b, Some err) \<Rightarrow> (set_core s b, srv_respondError OpProduceBatch err)
                | (b, None) \<Rightarrow>
                    (set_core s b, respond OpProduceBatch (ProduceBatchResponse_Encode
                       \<lparr>pbs_BaseOffset = baseOffset, pbs_Count = int32_of (uint32_of (int (length (r # rs))))\<rparr>))))))))"

definition fetchCompressionThreshold :: int where
  "fetchCompressionThreshold = 256"

fun worth_from :: "int \<Rightarrow> Record list \<Rightarrow> bool" where
  "worth_from sofar [] = False"
| "worth_from sofar (r # rs) =
     (if fetchCompressionThreshold \<le> sofar + value_len r then True else worth_from (sofar + value_len r) rs)"

definition fetchCompressionWorthIt :: "Record list \<Rightarrow> bool" where
  "fetchCompressionWorthIt records = worth_from 0 records"

definition fetch_reply :: "('st, 'o, 'r) env \<Rightarrow> FetchRequest \<Rightarrow> Record list \<Rightarrow> outcome" where
  "fetch_reply e req records =
     respond OpFetch (FetchResponse_Encode (en_compress e) \<lparr>fs_Records = records,
       fs_Codec = (if fq_AcceptCodec req = CodecLZ4 \<and> fetchCompressionWorthIt records then CodecLZ4 else CodecNone)\<rparr>)"

text \<open>One round of the polling loop of \<^verbatim>\<open>handleFetch\<close>.\<close>

definition fetch_poll :: "('st, 'o, 'r) env \<Rightarrow> tick \<Rightarrow> ('st, 'o, 'r) Server \<Rightarrow> Principal \<Rightarrow> fetch_wait \<Rightarrow> ('st, 'o, 'r) Server \<times> outcome" where
  "fetch_poll e t s p w =
     (let req = fw_req w;
          maxRecs = (if fq_MaxRecords req \<le> 0 then 1 else fq_MaxRecords req) in
      case bk_Read (en_store e) None (sv_core s) \<lparr>p_Topic = fq_Topic req, p_Index = fq_Partition req\<rparr> (fq_FromOffset req) maxRecs of
        (b, Inl err) \<Rightarrow> (set_core s b, respond_error OpFetch (classifyBrokerError err) (err_Error err))
      | (b, Inr records) \<Rightarrow>
          (let s = set_core s b in
           if 0 < length records then
             (case take_fetch (en_refill e) (tk_now' t) s (pr_Subject p) (sum_list (map value_len records)) of
                (s, False) \<Rightarrow> (s, respond_error OpFetch StatusRateLimited ''fetch quota exceeded'')
              | (s, True) \<Rightarrow> (s, fetch_reply e req records))
           else if fw_deadline w < tk_now t then (s, fetch_reply e req records)
           else (s, FetchPoll w)))"

definition handleFetch :: "('st, 'o, 'r) handler" where
  "handleFetch e t s p body =
     (case DecodeFetchRequest body of
        Inl err \<Rightarrow> (s, respond_error OpFetch StatusInvalidRequest (err_Error err))
      | Inr req \<Rightarrow>
     (case srv_authorize s p ActionConsume (fq_Topic req) of
        Inl err \<Rightarrow> (s, respond_error OpFetch StatusForbidden (err_Error err))
      | Inr _ \<Rightarrow> fetch_poll e t s p \<lparr>fw_req = req, fw_deadline = tk_now t + fq_MaxWaitMs req * 10 ^ 6\<rparr>))"

definition handleMetadata :: "('st, 'o, 'r) handler" where
  "handleMetadata e t s p body =
     (case DecodeMetadataRequest body of
        Inl err \<Rightarrow> (s, respond_error OpMetadata StatusInvalidRequest (err_Error err))
      | Inr req \<Rightarrow>
     (case PartitionsFor (bk_registry (sv_core s)) (mq_Topic req) of
        Inl err \<Rightarrow> (s, respond_error OpMetadata StatusUnknownTopic (err_Error err))
      | Inr n \<Rightarrow> (s, respond OpMetadata (MetadataResponse_Encode \<lparr>ms_PartitionCount = n\<rparr>))))"

definition handleClusterMembers :: "('st, 'o, 'r) handler" where
  "handleClusterMembers e t s p body =
     (case bk_cluster (sv_core s) of
        None \<Rightarrow> (s, respond OpClusterMembers (ClusterMembersResponse_Encode \<lparr>cms_Members = []\<rparr>))
      | Some _ \<Rightarrow> (s, respond OpClusterMembers (ClusterMembersResponse_Encode \<lparr>cms_Members = ro_Members (en_raft e) (sv_raft s)\<rparr>)))"

definition handleAddVoter :: "('st, 'o, 'r) handler" where
  "handleAddVoter e t s p body =
     (case srv_authorize s p ActionAdmin [] of
        Inl err \<Rightarrow> (s, respond_error OpAddVoter StatusForbidden (err_Error err))
      | Inr _ \<Rightarrow>
     (case DecodeAddVoterRequest body of
        Inl err \<Rightarrow> (s, respond_error OpAddVoter StatusInvalidRequest (err_Error err))
      | Inr req \<Rightarrow>
     (case bk_cluster (sv_core s) of
        None \<Rightarrow> (s, respond_error OpAddVoter StatusInvalidRequest ''broker is not part of a cluster'')
      | Some cl \<Rightarrow>
          if \<not> ci_IsLeader cl then (s, respond_error OpAddVoter StatusNotLeader (ci_LeaderWireAddr cl))
          else case ro_AddVoter (en_raft e) (sv_raft s) (av_ID req) (av_Addr req) of
                 (raft, Inl err) \<Rightarrow> (s\<lparr>sv_raft := raft\<rparr>, respond_error OpAddVoter StatusInternal (err_Error err))
               | (raft, Inr _) \<Rightarrow> (s\<lparr>sv_raft := raft\<rparr>, respond OpAddVoter []))))"

definition handleRemoveVoter :: "('st, 'o, 'r) handler" where
  "handleRemoveVoter e t s p body =
     (case srv_authorize s p ActionAdmin [] of
        Inl err \<Rightarrow> (s, respond_error OpRemoveVoter StatusForbidden (err_Error err))
      | Inr _ \<Rightarrow>
     (case DecodeRemoveVoterRequest body of
        Inl err \<Rightarrow> (s, respond_error OpRemoveVoter StatusInvalidRequest (err_Error err))
      | Inr req \<Rightarrow>
     (case bk_cluster (sv_core s) of
        None \<Rightarrow> (s, respond_error OpRemoveVoter StatusInvalidRequest ''broker is not part of a cluster'')
      | Some cl \<Rightarrow>
          if \<not> ci_IsLeader cl then (s, respond_error OpRemoveVoter StatusNotLeader (ci_LeaderWireAddr cl))
          else case ro_RemoveVoter (en_raft e) (sv_raft s) (rv_ID req) of
                 (raft, Inl err) \<Rightarrow> (s\<lparr>sv_raft := raft\<rparr>, respond_error OpRemoveVoter StatusInternal (err_Error err))
               | (raft, Inr _) \<Rightarrow> (s\<lparr>sv_raft := raft\<rparr>, respond OpRemoveVoter []))))"

definition handleHighWater :: "('st, 'o, 'r) handler" where
  "handleHighWater e t s p body =
     (case DecodeHighWaterRequest body of
        Inl err \<Rightarrow> (s, respond_error OpHighWater StatusInvalidRequest (err_Error err))
      | Inr req \<Rightarrow>
     (case bk_HighWater (en_store e) None (sv_core s) \<lparr>p_Topic = hwq_Topic req, p_Index = hwq_Partition req\<rparr> of
        (b, Inl err) \<Rightarrow> (set_core s b, respond_error OpHighWater (classifyBrokerError err) (err_Error err))
      | (b, Inr hw) \<Rightarrow> (set_core s b, respond OpHighWater (HighWaterResponse_Encode \<lparr>hws_HighWater = hw\<rparr>))))"

definition handleCreateTopic :: "('st, 'o, 'r) handler" where
  "handleCreateTopic e t s p body =
     (case DecodeCreateTopicRequest body of
        Inl err \<Rightarrow> (s, respond_error OpCreateTopic StatusInvalidRequest (err_Error err))
      | Inr req \<Rightarrow>
     (case srv_authorize s p ActionAdmin (ct_Name req) of
        Inl err \<Rightarrow> (s, respond_error OpCreateTopic StatusForbidden (err_Error err))
      | Inr _ \<Rightarrow>
     (case bk_CreateTopic (sv_core s) \<lparr>sp_Name = ct_Name req, sp_PartitionCount = ct_PartitionCount req,
             sp_RetentionMs = ct_RetentionMs req, sp_SegmentBytes = ct_SegmentBytes req\<rparr> of
        (b, Inl err) \<Rightarrow> (set_core s b, srv_respondError OpCreateTopic err)
      | (b, Inr _) \<Rightarrow> (set_core s b, respond OpCreateTopic []))))"

definition handleUpdateTopicConfig :: "('st, 'o, 'r) handler" where
  "handleUpdateTopicConfig e t s p body =
     (case DecodeUpdateTopicConfigRequest body of
        Inl err \<Rightarrow> (s, respond_error OpUpdateTopicConfig StatusInvalidRequest (err_Error err))
      | Inr req \<Rightarrow>
     (case srv_authorize s p ActionAdmin (ut_Name req) of
        Inl err \<Rightarrow> (s, respond_error OpUpdateTopicConfig StatusForbidden (err_Error err))
      | Inr _ \<Rightarrow>
     (case bk_UpdateTopicConfig (sv_core s) (ut_Name req) (ut_RetentionMs req) (ut_SegmentBytes req) of
        (b, Inl err) \<Rightarrow> (set_core s b, srv_respondError OpUpdateTopicConfig err)
      | (b, Inr _) \<Rightarrow> (set_core s b, respond OpUpdateTopicConfig []))))"

definition handleDeleteTopic :: "('st, 'o, 'r) handler" where
  "handleDeleteTopic e t s p body =
     (case DecodeDeleteTopicRequest body of
        Inl err \<Rightarrow> (s, respond_error OpDeleteTopic StatusInvalidRequest (err_Error err))
      | Inr req \<Rightarrow>
     (case srv_authorize s p ActionAdmin (dt_Name req) of
        Inl err \<Rightarrow> (s, respond_error OpDeleteTopic StatusForbidden (err_Error err))
      | Inr _ \<Rightarrow>
     (case bk_DeleteTopic (en_store e) (sv_core s) (dt_Name req) of
        (b, Inl err) \<Rightarrow> (set_core s b, srv_respondError OpDeleteTopic err)
      | (b, Inr _) \<Rightarrow> (set_core s b, respond OpDeleteTopic []))))"

definition handleListTopics :: "('st, 'o, 'r) handler" where
  "handleListTopics e t s p body = (s, respond OpListTopics (ListTopicsResponse_Encode \<lparr>lts_Topics = reg_List (bk_registry (sv_core s))\<rparr>))"

definition handleListGroups :: "('st, 'o, 'r) handler" where
  "handleListGroups e t s p body =
     (case sv_groups s of
        None \<Rightarrow> (s, respond OpListGroups (ListGroupsResponse_Encode \<lparr>lgs_Groups = []\<rparr>))
      | Some mgr \<Rightarrow>
          (s, respond OpListGroups (ListGroupsResponse_Encode \<lparr>lgs_Groups = map (\<lambda>g.
             \<lparr>GroupSummary.gs_Name = GroupSummary_mgr.gs_Name g, gs_Generation = GroupSummary_mgr.gs_Generation g,
              gs_MemberCount = GroupSummary_mgr.gs_MemberCount g, gs_Topics = GroupSummary_mgr.gs_Topics g\<rparr>) (mg_List mgr)\<rparr>)))"

definition handleClusterStatus :: "('st, 'o, 'r) handler" where
  "handleClusterStatus e t s p body =
     (case bk_cluster (sv_core s) of
        None \<Rightarrow> (s, respond OpClusterStatus (ClusterStatusResponse_Encode
                  \<lparr>css_NodeID = [], css_IsLeader = False, css_LeaderID = [], css_LeaderAddr = []\<rparr>))
      | Some cl \<Rightarrow> (s, respond OpClusterStatus (ClusterStatusResponse_Encode
                  \<lparr>css_NodeID = ro_NodeID (en_raft e) (sv_raft s), css_IsLeader = ci_IsLeader cl, css_LeaderID = ci_LeaderID cl,
                   css_LeaderAddr = ro_LeaderAddr (en_raft e) (sv_raft s)\<rparr>)))"

definition handleDescribeGroup :: "('st, 'o, 'r) handler" where
  "handleDescribeGroup e t s p body =
     (case DecodeDescribeGroupRequest body of
        Inl err \<Rightarrow> (s, respond_error OpDescribeGroup StatusInvalidRequest (err_Error err))
      | Inr req \<Rightarrow>
     (case sv_groups s of
        None \<Rightarrow> (s, respond_error OpDescribeGroup StatusUnknownMember ''server has no group manager'')
      | Some mgr \<Rightarrow>
     (case mg_Describe mgr (dgq_Group req) of
        Inl err \<Rightarrow> (s, respond_error OpDescribeGroup StatusUnknownMember (err_Error err))
      | Inr details \<Rightarrow>
          (s, respond OpDescribeGroup (DescribeGroupResponse_Encode \<lparr>dgs_Name = gd_Name details, dgs_Generation = gd_Generation details,
             dgs_Topics = gd_Topics details,
             dgs_Members = map (\<lambda>(mid, parts). \<lparr>ma_MemberID = mid, ma_Partitions = parts\<rparr>) (gd_Members details)\<rparr>)))))"

text \<open>The loop of \<^verbatim>\<open>handleListGroupOffsets\<close>: a partition whose high-water mark cannot be read is listed with \<open>-1\<close>.\<close>

primrec offset_entries :: "('st, 'o, 'r) env \<Rightarrow> 'st Broker \<Rightarrow> OffsetEntry list \<Rightarrow> 'st Broker \<times> GroupOffsetEntry list" where
  "offset_entries e b [] = (b, [])"
| "offset_entries e b (c # cs) =
     (let (b, res) = bk_HighWater (en_store e) None b \<lparr>p_Topic = oe_Topic c, p_Index = oe_Partition c\<rparr>;
          hw = (case res of Inl _ \<Rightarrow> - 1 | Inr hw \<Rightarrow> hw);
          (b, entries) = offset_entries e b cs
      in (b, \<lparr>ge_Topic = oe_Topic c, ge_Partition = oe_Partition c, ge_Committed = oe_Offset c, ge_HighWater = hw\<rparr> # entries))"

definition handleListGroupOffsets :: "('st, 'o, 'r) handler" where
  "handleListGroupOffsets e t s p body =
     (case DecodeListGroupOffsetsRequest body of
        Inl err \<Rightarrow> (s, respond_error OpListGroupOffsets StatusInvalidRequest (err_Error err))
      | Inr req \<Rightarrow>
     (case sv_groups s of
        None \<Rightarrow> (s, respond OpListGroupOffsets (ListGroupOffsetsResponse_Encode \<lparr>los_Entries = []\<rparr>))
      | Some mgr \<Rightarrow>
          (let (b, entries) = offset_entries e (sv_core s) (mg_ListOffsets (en_offsets e) mgr (loq_Group req))
           in (set_core s b, respond OpListGroupOffsets (ListGroupOffsetsResponse_Encode \<lparr>los_Entries = entries\<rparr>)))))"

definition handleDeleteGroup :: "('st, 'o, 'r) handler" where
  "handleDeleteGroup e t s p body =
     (case DecodeDeleteGroupRequest body of
        Inl err \<Rightarrow> (s, respond_error OpDeleteGroup StatusInvalidRequest (err_Error err))
      | Inr req \<Rightarrow>
     (case sv_groups s of
        None \<Rightarrow> (s, respond_error OpDeleteGroup StatusUnknownMember ''server has no group manager'')
      | Some mgr \<Rightarrow>
     (case mg_Delete (en_offsets e) mgr (dg_Group req) of
        (mgr, Inl err) \<Rightarrow>
          (s\<lparr>sv_groups := Some mgr\<rparr>,
           if errors_Is err ErrUnknownGroup then respond_error OpDeleteGroup StatusUnknownMember (err_Error err)
           else respond_error OpDeleteGroup StatusInternal (err_Error err))
      | (mgr, Inr _) \<Rightarrow> (s\<lparr>sv_groups := Some mgr\<rparr>, respond OpDeleteGroup []))))"

definition handleCommit :: "('st, 'o, 'r) handler" where
  "handleCommit e t s p body =
     (case DecodeCommitRequest body of
        Inl err \<Rightarrow> (s, respond_error OpCommit StatusInvalidRequest (err_Error err))
      | Inr req \<Rightarrow>
     (case sv_groups s of
        None \<Rightarrow> (s, respond OpCommit [])
      | Some mgr \<Rightarrow>
     (case mg_Commit (en_offsets e) mgr (cq_Group req) (cq_Topic req) (cq_Partition req) (cq_Offset req) of
        (mgr, Inl err) \<Rightarrow> (s\<lparr>sv_groups := Some mgr\<rparr>, respond_error OpCommit StatusInternal (err_Error err))
      | (mgr, Inr _) \<Rightarrow> (s\<lparr>sv_groups := Some mgr\<rparr>, respond OpCommit []))))"

definition handleJoinGroup :: "('st, 'o, 'r) handler" where
  "handleJoinGroup e t s p body =
     (case DecodeJoinGroupRequest body of
        Inl err \<Rightarrow> (s, respond_error OpJoinGroup StatusInvalidRequest (err_Error err))
      | Inr req \<Rightarrow>
     (case sv_groups s of
        None \<Rightarrow> (s, respond_error OpJoinGroup StatusInvalidRequest ''server has no group manager'')
      | Some mgr \<Rightarrow>
     (case mg_Join (en_offsets e) (PartitionsFor (bk_registry (sv_core s))) (tk_now t) (tk_now' t) (tk_fresh t) mgr
             (jq_Group req) (jq_MemberID req) (jq_Topics req) of
        (mgr, Inl err) \<Rightarrow> (s\<lparr>sv_groups := Some mgr\<rparr>, respond_error OpJoinGroup (classifyBrokerError err) (err_Error err))
      | (mgr, Inr res) \<Rightarrow>
          (s\<lparr>sv_groups := Some mgr\<rparr>,
           respond OpJoinGroup (JoinGroupResponse_Encode \<lparr>js_MemberID = jr_MemberID res, js_Generation = jr_Generation res,
             js_Assignments = map (\<lambda>a. \<lparr>ae_Topic = p_Topic (as_Partition a), ae_Partition = p_Index (as_Partition a),
                ae_CommittedOffset = as_CommittedOffset a\<rparr>) (jr_Assignments res)\<rparr>)))))"

definition serverHeartbeatWaitCap :: int where
  "serverHeartbeatWaitCap = 30 * 10 ^ 9"

definition ErrCanceled :: go_error where
  "ErrCanceled = ErrNew ''context canceled''"

definition ErrDeadlineExceeded :: go_error where
  "ErrDeadlineExceeded = ErrNew ''context deadline exceeded''"

definition heartbeat_reply :: "bool \<Rightarrow> go_error option \<Rightarrow> outcome" where
  "heartbeat_reply needed err =
     (case err of
        Some err \<Rightarrow> respond_error OpHeartbeat StatusUnknownMember (err_Error err)
      | None \<Rightarrow> respond OpHeartbeat (HeartbeatResponse_Encode \<lparr>hr_RebalanceNeeded = needed\<rparr>))"

definition wait_reply :: "bool \<Rightarrow> go_error option \<Rightarrow> outcome" where
  "wait_reply needed err =
     (case err of
        Some e \<Rightarrow>
          if errors_Is e ErrCanceled \<or> errors_Is e ErrDeadlineExceeded
          then respond OpHeartbeat (HeartbeatResponse_Encode \<lparr>hr_RebalanceNeeded = False\<rparr>)
          else heartbeat_reply needed err
      | None \<Rightarrow> heartbeat_reply needed err)"

definition handleHeartbeat :: "('st, 'o, 'r) handler" where
  "handleHeartbeat e t s p body =
     (case DecodeHeartbeatRequest body of
        Inl err \<Rightarrow> (s, respond_error OpHeartbeat StatusInvalidRequest (err_Error err))
      | Inr req \<Rightarrow>
     (case sv_groups s of
        None \<Rightarrow> (s, respond_error OpHeartbeat StatusInvalidRequest ''server has no group manager'')
      | Some mgr \<Rightarrow>
          (let wait = hq_MaxWaitMs req * 10 ^ 6;
               wait = (if serverHeartbeatWaitCap < wait then serverHeartbeatWaitCap else wait) in
           if 0 < wait then
             (case HeartbeatWait_begin (tk_now t) (tk_now' t) mgr (hq_Group req) (hq_MemberID req) (hq_Generation req) wait of
                (mgr, Returned needed err) \<Rightarrow> (s\<lparr>sv_groups := Some mgr\<rparr>, wait_reply needed err)
              | (mgr, Waiting wake) \<Rightarrow> (s\<lparr>sv_groups := Some mgr\<rparr>, HeartbeatPoll (hq_Group req) wake))
           else
             (case mg_Heartbeat (tk_now t) (tk_now' t) mgr (hq_Group req) (hq_MemberID req) (hq_Generation req) of
                (mgr, needed, err) \<Rightarrow> (s\<lparr>sv_groups := Some mgr\<rparr>, heartbeat_reply needed err)))))"

text \<open>The end of a long poll; a wake-up event without a wake-up leaves it waiting.\<close>

definition heartbeat_end :: "tick \<Rightarrow> ('st, 'o, 'r) Server \<Rightarrow> string \<Rightarrow> nat \<Rightarrow> ('st, 'o, 'r) Server \<times> outcome" where
  "heartbeat_end t s groupName wake =
     (case sv_groups s of
        None \<Rightarrow> (s, HeartbeatPoll groupName wake)
      | Some mgr \<Rightarrow>
          (case tk_beat t of
             BeatWake \<Rightarrow>
               (case HeartbeatWait_wake mgr wake of
                  None \<Rightarrow> (s, HeartbeatPoll groupName wake)
                | Some (mgr, needed, err) \<Rightarrow> (s\<lparr>sv_groups := Some mgr\<rparr>, wait_reply needed err))
           | BeatTimer \<Rightarrow> (let (mgr, needed, err) = HeartbeatWait_timer mgr groupName wake in (s\<lparr>sv_groups := Some mgr\<rparr>, wait_reply needed err))
           | BeatDone e \<Rightarrow> (let (mgr, needed, err) = HeartbeatWait_done e mgr groupName wake in (s\<lparr>sv_groups := Some mgr\<rparr>, wait_reply needed err))))"

definition handleListSegments :: "('st, 'o, 'r) handler" where
  "handleListSegments e t s p body =
     (case DecodeListSegmentsRequest body of
        Inl err \<Rightarrow> (s, respond_error OpListSegments StatusInvalidRequest (err_Error err))
      | Inr req \<Rightarrow>
     (case bk_ListSegments (en_snapper e) None (sv_core s) \<lparr>p_Topic = lsq_Topic req, p_Index = lsq_Partition req\<rparr> of
        (b, Inl err) \<Rightarrow> (set_core s b, srv_respondError OpListSegments err)
      | (b, Inr infos) \<Rightarrow>
          (set_core s b, respond OpListSegments (ListSegmentsResponse_Encode \<lparr>lss_Segments =
             map (\<lambda>i. \<lparr>si_Base = ss_Base i, si_LogSize = int (ss_LogSize i), si_IdxSize = int (ss_IdxSize i)\<rparr>) infos\<rparr>))))"

definition segmentChunkServerCap :: int where
  "segmentChunkServerCap = 4 * 2 ^ 20"

definition handleFetchSegmentChunk :: "('st, 'o, 'r) handler" where
  "handleFetchSegmentChunk e t s p body =
     (case DecodeFetchSegmentChunkRequest body of
        Inl err \<Rightarrow> (s, respond_error OpFetchSegmentChunk StatusInvalidRequest (err_Error err))
      | Inr req \<Rightarrow>
          (let maxBytes = (if fcq_MaxBytes req \<le> 0 \<or> segmentChunkServerCap < fcq_MaxBytes req then segmentChunkServerCap else fcq_MaxBytes req) in
           case bk_FetchSegmentChunk (en_snapper e) None (sv_core s) \<lparr>p_Topic = fcq_Topic req, p_Index = fcq_Partition req\<rparr>
                  (fcq_Base req) (fcq_Kind req) (fcq_Offset req) maxBytes of
             (b, Inl err) \<Rightarrow> (set_core s b, srv_respondError OpFetchSegmentChunk err)
           | (b, Inr bs) \<Rightarrow> (set_core s b, respond OpFetchSegmentChunk (FetchSegmentChunkResponse_Encode \<lparr>fcs_Bytes = Some bs\<rparr>))))"

definition handleSync :: "('st, 'o, 'r) handler" where
  "handleSync e t s p body =
     (case DecodeSyncRequest body of
        Inl err \<Rightarrow> (s, respond_error OpSync StatusInvalidRequest (err_Error err))
      | Inr req \<Rightarrow>
     (case bk_Sync (en_store e) None (sv_core s) \<lparr>p_Topic = sq_Topic req, p_Index = sq_Partition req\<rparr> of
        (b, Inl err) \<Rightarrow> (set_core s b, srv_respondError OpSync err)
      | (b, Inr _) \<Rightarrow> (set_core s b, respond OpSync [])))"

definition handleLeaveGroup :: "('st, 'o, 'r) handler" where
  "handleLeaveGroup e t s p body =
     (case DecodeLeaveGroupRequest body of
        Inl err \<Rightarrow> (s, respond_error OpLeaveGroup StatusInvalidRequest (err_Error err))
      | Inr req \<Rightarrow>
     (case sv_groups s of
        None \<Rightarrow> (s, respond OpLeaveGroup [])
      | Some mgr \<Rightarrow>
     (case mg_Leave mgr (lq_Group req) (lq_MemberID req) of
        (mgr, Inl err) \<Rightarrow> (s\<lparr>sv_groups := Some mgr\<rparr>, respond_error OpLeaveGroup StatusInternal (err_Error err))
      | (mgr, Inr _) \<Rightarrow> (s\<lparr>sv_groups := Some mgr\<rparr>, respond OpLeaveGroup []))))"

section \<open>Dispatch\<close>

definition dispatch :: "('st, 'o, 'r) env \<Rightarrow> tick \<Rightarrow> ('st, 'o, 'r) Server \<Rightarrow> byte \<Rightarrow> Principal \<Rightarrow> bytes \<Rightarrow> ('st, 'o, 'r) Server \<times> outcome" where
  "dispatch e t s op p body =
     (if op = OpProduce then handleProduce e t s p body
      else if op = OpFetch then handleFetch e t s p body
      else if op = OpMetadata then handleMetadata e t s p body
      else if op = OpCreateTopic then handleCreateTopic e t s p body
      else if op = OpHighWater then handleHighWater e t s p body
      else if op = OpClusterMembers then handleClusterMembers e t s p body
      else if op = OpAddVoter then handleAddVoter e t s p body
      else if op = OpRemoveVoter then handleRemoveVoter e t s p body
      else if op = OpListSegments then handleListSegments e t s p body
      else if op = OpFetchSegmentChunk then handleFetchSegmentChunk e t s p body
      else if op = OpDeleteTopic then handleDeleteTopic e t s p body
      else if op = OpListTopics then handleListTopics e t s p body
      else if op = OpListGroups then handleListGroups e t s p body
      else if op = OpDescribeGroup then handleDescribeGroup e t s p body
      else if op = OpListGroupOffsets then handleListGroupOffsets e t s p body
      else if op = OpDeleteGroup then handleDeleteGroup e t s p body
      else if op = OpClusterStatus then handleClusterStatus e t s p body
      else if op = OpUpdateTopicConfig then handleUpdateTopicConfig e t s p body
      else if op = OpCommit then handleCommit e t s p body
      else if op = OpJoinGroup then handleJoinGroup e t s p body
      else if op = OpHeartbeat then handleHeartbeat e t s p body
      else if op = OpLeaveGroup then handleLeaveGroup e t s p body
      else if op = OpSync then handleSync e t s p body
      else if op = OpProduceBatch then handleProduceBatch e t s p body
      else (s, respond_error op StatusInvalidRequest ''unknown opcode''))"

section \<open>Connections\<close>

text \<open>The buffered writer of a connection: what has reached the connection, and what waits for a \<^verbatim>\<open>Flush\<close>.\<close>

definition bw_Write :: "bytes \<times> bytes \<Rightarrow> bytes \<Rightarrow> bytes \<times> bytes" where
  "bw_Write w b = (let (written, buf) = bufio_Write (snd w) b in (fst w @ written, buf))"

definition bw_Flush :: "bytes \<times> bytes \<Rightarrow> bytes \<times> bytes" where
  "bw_Flush w = (fst w @ snd w, [])"

definition write_response :: "bytes \<times> bytes \<Rightarrow> response \<Rightarrow> bytes \<times> bytes" where
  "write_response w r = (let frame = response_bytes r in bw_Write (bw_Write w (take 5 frame)) (drop 5 frame))"

definition handshake :: "('st, 'o, 'r) Server \<Rightarrow> bytes \<Rightarrow> response option \<times> (Principal \<times> bytes) result" where
  "handshake s input =
     (case ReadFrame input of
        Inl err \<Rightarrow> (None, Inl err)
      | Inr (op, body, rest) \<Rightarrow>
          (let fail = (\<lambda>status msg. Some \<lparr>rs_op = op, rs_status = status, rs_body = encodeString [] msg\<rparr>) in
           if op \<noteq> OpHandshake then (fail StatusInvalidRequest ''expected handshake'', Inl (ErrNew ''handshake: wrong opcode''))
           else case DecodeHandshakeRequest body of
                  Inl err \<Rightarrow> (fail StatusInvalidRequest (err_Error err), Inl err)
                | Inr hs \<Rightarrow>
                    if hs_Version hs \<noteq> WireVersion
                    then (fail StatusVersionMismatch ''server and client speak different versions'', Inl (ErrNew ''handshake: version mismatch''))
                    else case sv_verifier s \<lparr>cr_Kind = hs_CredentialKind hs, cr_Bytes = hs_Credential hs\<rparr> of
                           Inl err \<Rightarrow> (fail StatusUnauthorized (err_Error err), Inl (ErrWrap ''handshake'' err))
                         | Inr prin \<Rightarrow> (Some \<lparr>rs_op = op, rs_status = StatusOK, rs_body = [WireVersion]\<rparr>, Inr (prin, rest))))"

datatype conn_phase = Handshaking | Serving Principal | Busy Principal outcome | Closed

record conn =
  cn_in :: bytes
  cn_w :: "bytes \<times> bytes"
  cn_phase :: conn_phase

text \<open>
  One step of \<^verbatim>\<open>serveConn\<close>: the handshake, the next request, or another round of a request that waits. A
  finished request is answered and flushed; what is left in the buffer of a closed connection is lost.
\<close>

definition conn_answer :: "conn \<Rightarrow> Principal \<Rightarrow> outcome \<Rightarrow> conn" where
  "conn_answer c p res =
     (case res of
        Respond r \<Rightarrow> c\<lparr>cn_w := bw_Flush (write_response (cn_w c) r), cn_phase := Serving p\<rparr>
      | _ \<Rightarrow> c\<lparr>cn_phase := Busy p res\<rparr>)"

definition serve_step :: "('st, 'o, 'r) env \<Rightarrow> tick \<Rightarrow> ('st, 'o, 'r) Server \<Rightarrow> conn \<Rightarrow> ('st, 'o, 'r) Server \<times> conn" where
  "serve_step e t s c =
     (case cn_phase c of
        Handshaking \<Rightarrow>
          (case handshake s (cn_in c) of
             (resp, res) \<Rightarrow>
               (let w = (case resp of None \<Rightarrow> cn_w c | Some r \<Rightarrow> write_response (cn_w c) r) in
                case res of
                  Inl err \<Rightarrow> (s, c\<lparr>cn_w := w, cn_phase := Closed\<rparr>)
                | Inr (p, rest) \<Rightarrow> (s, c\<lparr>cn_in := rest, cn_w := bw_Flush w, cn_phase := Serving p\<rparr>)))
      | Serving p \<Rightarrow>
          (case ReadFrame (cn_in c) of
             Inl err \<Rightarrow>
               if errors_Is err EOF then (s, c\<lparr>cn_phase := Closed\<rparr>)
               else (s, c\<lparr>cn_w := bw_Flush (write_response (cn_w c) \<lparr>rs_op = 0, rs_status = StatusInternal,
                            rs_body = encodeString [] (err_Error err)\<rparr>), cn_phase := Closed\<rparr>)
           | Inr (op, body, rest) \<Rightarrow>
               (case dispatch e t s op p body of (s, res) \<Rightarrow> (s, conn_answer (c\<lparr>cn_in := rest\<rparr>) p res)))
      | Busy p (FetchPoll w) \<Rightarrow> (case fetch_poll e t s p w of (s, res) \<Rightarrow> (s, conn_answer c p res))
      | Busy p (HeartbeatPoll groupName wake) \<Rightarrow> (case heartbeat_end t s groupName wake of (s, res) \<Rightarrow> (s, conn_answer c p res))
      | Busy p (Respond r) \<Rightarrow> (s, conn_answer c p (Respond r))
      | Closed \<Rightarrow> (s, c))"

end
