(* ===== verification/Server_Props.thy ===== *)
theory Server_Props
  imports Server_Core Store_Memory Broker_Publish Group_Manager_Props
begin

text \<open>
  Properties of the server: what a request may do to the broker, which requests the authorizer does not
  see, what a client reads back, and what a refused client sees.
\<close>

section \<open>Opcodes\<close>

definition echoes :: "byte \<Rightarrow> outcome \<Rightarrow> bool" where
  "echoes op res \<longleftrightarrow>
     (case res of Respond r \<Rightarrow> rs_op r = op | FetchPoll w \<Rightarrow> op = OpFetch | HeartbeatPoll g wake \<Rightarrow> op = OpHeartbeat)"

lemma echoes_respond [simp]: "echoes op (respond op' body) \<longleftrightarrow> op' = op" "echoes op (respond_error op' st msg) \<longleftrightarrow> op' = op"
  "echoes OpFetch (FetchPoll w)" "echoes OpHeartbeat (HeartbeatPoll g wake)"
  by (simp_all add: echoes_def respond_def respond_error_def)

lemma echoes_respondError [simp]: "echoes op (srv_respondError op' err) \<longleftrightarrow> op' = op"
  by (simp add: srv_respondError_def split: option.splits)

lemma echoes_heartbeat [simp]: "echoes OpHeartbeat (heartbeat_reply needed err)" "echoes OpHeartbeat (wait_reply needed err)"
  by (simp_all add: heartbeat_reply_def wait_reply_def split: option.splits)

lemma echoes_fetch_poll: "echoes OpFetch (snd (fetch_poll e t s p w))"
  by (simp add: fetch_poll_def fetch_reply_def Let_def split: prod.splits sum.splits bool.splits)

lemmas handler_splits = sum.splits option.splits prod.splits bool.splits list.splits wait.splits

lemma echoes_handlers:
  "echoes OpProduce (snd (handleProduce e t s p body))"
  "echoes OpFetch (snd (handleFetch e t s p body))"
  "echoes OpMetadata (snd (handleMetadata e t s p body))"
  "echoes OpCreateTopic (snd (handleCreateTopic e t s p body))"
  "echoes OpHighWater (snd (handleHighWater e t s p body))"
  "echoes OpClusterMembers (snd (handleClusterMembers e t s p body))"
  "echoes OpAddVoter (snd (handleAddVoter e t s p body))"
  "echoes OpRemoveVoter (snd (handleRemoveVoter e t s p body))"
  "echoes OpListSegments (snd (handleListSegments e t s p body))"
  "echoes OpFetchSegmentChunk (snd (handleFetchSegmentChunk e t s p body))"
  "echoes OpDeleteTopic (snd (handleDeleteTopic e t s p body))"
  "echoes OpListTopics (snd (handleListTopics e t s p body))"
  "echoes OpListGroups (snd (handleListGroups e t s p body))"
  "echoes OpDescribeGroup (snd (handleDescribeGroup e t s p body))"
  "echoes OpListGroupOffsets (snd (handleListGroupOffsets e t s p body))"
  "echoes OpDeleteGroup (snd (handleDeleteGroup e t s p body))"
  "echoes OpClusterStatus (snd (handleClusterStatus e t s p body))"
  "echoes OpUpdateTopicConfig (snd (handleUpdateTopicConfig e t s p body))"
  "echoes OpCommit (snd (handleCommit e t s p body))"
  "echoes OpJoinGroup (snd (handleJoinGroup e t s p body))"
  "echoes OpHeartbeat (snd (handleHeartbeat e t s p body))"
  "echoes OpLeaveGroup (snd (handleLeaveGroup e t s p body))"
  "echoes OpSync (snd (handleSync e t s p body))"
  "echoes OpProduceBatch (snd (handleProduceBatch e t s p body))"
  by (simp_all add: handleProduce_def handleFetch_def handleMetadata_def handleCreateTopic_def handleHighWater_def
      handleClusterMembers_def handleAddVoter_def handleRemoveVoter_def handleListSegments_def handleFetchSegmentChunk_def
      handleDeleteTopic_def handleListTopics_def handleListGroups_def handleDescribeGroup_def handleListGroupOffsets_def
      handleDeleteGroup_def handleClusterStatus_def handleUpdateTopicConfig_def handleCommit_def handleJoinGroup_def
      handleHeartbeat_def handleLeaveGroup_def handleSync_def handleProduceBatch_def echoes_fetch_poll Let_def
      split: handler_splits)

text \<open>A fact about every request is a fact about every handler and the reply to an unknown opcode.\<close>

lemma dispatch_handlers:
  assumes "P OpProduce (handleProduce e t s p body)"
    "P OpFetch (handleFetch e t s p body)"
    "P OpMetadata (handleMetadata e t s p body)"
    "P OpCreateTopic (handleCreateTopic e t s p body)"
    "P OpHighWater (handleHighWater e t s p body)"
    "P OpClusterMembers (handleClusterMembers e t s p body)"
    "P OpAddVoter (handleAddVoter e t s p body)"
    "P OpRemoveVoter (handleRemoveVoter e t s p body)"
    "P OpListSegments (handleListSegments e t s p body)"
    "P OpFetchSegmentChunk (handleFetchSegmentChunk e t s p body)"
    "P OpDeleteTopic (handleDeleteTopic e t s p body)"
    "P OpListTopics (handleListTopics e t s p body)"
    "P OpListGroups (handleListGroups e t s p body)"
    "P OpDescribeGroup (handleDescribeGroup e t s p body)"
    "P OpListGroupOffsets (handleListGroupOffsets e t s p body)"
    "P OpDeleteGroup (handleDeleteGroup e t s p body)"
    "P OpClusterStatus (handleClusterStatus e t s p body)"
    "P OpUpdateTopicConfig (handleUpdateTopicConfig e t s p body)"
    "P OpCommit (handleCommit e t s p body)"
    "P OpJoinGroup (handleJoinGroup e t s p body)"
    "P OpHeartbeat (handleHeartbeat e t s p body)"
    "P OpLeaveGroup (handleLeaveGroup e t s p body)"
    "P OpSync (handleSync e t s p body)"
    "P OpProduceBatch (handleProduceBatch e t s p body)"
    "P op (s, respond_error op StatusInvalidRequest ''unknown opcode'')"
  shows "P op (dispatch e t s op p body)"
proof -
  have branch: "P a x \<Longrightarrow> P op y \<Longrightarrow> P op (if op = a then x else y)" for a x y by simp
  show ?thesis unfolding dispatch_def by (intro branch assms)
qed

text \<open>
  C36: Every response carries the opcode of its request, whatever the request and the state of the server; only a
  fetch and a heartbeat may wait, and they answer with their own opcode when they end.
\<close>

theorem responses_echo_opcode:
  "echoes op (snd (dispatch e t s op p body)) \<and> echoes OpFetch (snd (fetch_poll e t s p w))
    \<and> echoes OpHeartbeat (snd (heartbeat_end t s g wake))"
proof (intro conjI)
  show "echoes op (snd (dispatch e t s op p body))"
    by (rule dispatch_handlers [where P = "\<lambda>op res. echoes op (snd res)"]) (simp_all add: echoes_handlers)
  show "echoes OpFetch (snd (fetch_poll e t s p w))" by (rule echoes_fetch_poll)
  show "echoes OpHeartbeat (snd (heartbeat_end t s g wake))"
    by (simp add: heartbeat_end_def split: handler_splits beat_event.splits)
qed

section \<open>Authorization\<close>

text \<open>
  The broker operations a request may perform when \<open>allowed\<close> names the granted actions: publishing needs
  produce, reading needs consume, changing the topics needs admin. Querying the high-water mark, syncing
  and the transfer of segments need no grant.
\<close>

inductive broker_call :: "('st, 'o, 'r) env \<Rightarrow> (string \<Rightarrow> string \<Rightarrow> bool) \<Rightarrow> 'st Broker \<Rightarrow> 'st Broker \<Rightarrow> bool"
  for e allowed where
  publish: "srv_publish e t b q r = (b', off, err) \<Longrightarrow> allowed ActionProduce (p_Topic q) \<Longrightarrow> broker_call e allowed b b'"
| read: "bk_Read (en_store e) None b q fo n = (b', rres) \<Longrightarrow> allowed ActionConsume (p_Topic q) \<Longrightarrow> broker_call e allowed b b'"
| create: "bk_CreateTopic b spec = (b', res) \<Longrightarrow> allowed ActionAdmin (sp_Name spec) \<Longrightarrow> broker_call e allowed b b'"
| update: "bk_UpdateTopicConfig b name retention bytes = (b', res) \<Longrightarrow> allowed ActionAdmin name \<Longrightarrow> broker_call e allowed b b'"
| delete: "bk_DeleteTopic (en_store e) b name = (b', res) \<Longrightarrow> allowed ActionAdmin name \<Longrightarrow> broker_call e allowed b b'"
| highwater: "bk_HighWater (en_store e) None b q = (b', hres) \<Longrightarrow> broker_call e allowed b b'"
| sync: "bk_Sync (en_store e) None b q = (b', res) \<Longrightarrow> broker_call e allowed b b'"
| segments: "bk_ListSegments (en_snapper e) None b q = (b', sres) \<Longrightarrow> broker_call e allowed b b'"
| chunk: "bk_FetchSegmentChunk (en_snapper e) None b q base kind offset maxBytes = (b', cres) \<Longrightarrow> broker_call e allowed b b'"

abbreviation granted_to :: "('st, 'o, 'r) Server \<Rightarrow> Principal \<Rightarrow> string \<Rightarrow> string \<Rightarrow> bool" where
  "granted_to s p \<equiv> (\<lambda>action resource. srv_authorize s p action resource = Inr ())"

text \<open>What a step of the server for a principal may change.\<close>

definition mediated :: "('st, 'o, 'r) env \<Rightarrow> Principal \<Rightarrow> ('st, 'o, 'r) Server \<Rightarrow> ('st, 'o, 'r) Server \<Rightarrow> bool" where
  "mediated e p s s' \<longleftrightarrow> (broker_call e (granted_to s p))\<^sup>*\<^sup>* (sv_core s) (sv_core s')
     \<and> (granted_to s p ActionAdmin [] \<or> sv_raft s' = sv_raft s) \<and> sv_authorizer s' = sv_authorizer s \<and> sv_verifier s' = sv_verifier s"

lemma mediated_refl [simp]: "mediated e p s s"
  by (simp add: mediated_def)

lemma mediated_call: "broker_call e (granted_to s p) (sv_core s) b \<Longrightarrow> mediated e p s (set_core s b)"
  by (auto simp: mediated_def set_core_def)

lemma mediated_trans: "mediated e p s s' \<Longrightarrow> mediated e p s' s'' \<Longrightarrow> mediated e p s s''"
  by (auto simp: mediated_def srv_authorize_def)

lemma mediated_groups [simp]: "mediated e p s (s\<lparr>sv_groups := g\<rparr>)"
  by (simp add: mediated_def)

lemma mediated_quota:
  "take_produce refill now s subj n = (s', b) \<Longrightarrow> mediated e p s s' \<and> sv_core s' = sv_core s"
  "take_fetch refill now s subj n = (s', b) \<Longrightarrow> mediated e p s s' \<and> sv_core s' = sv_core s"
  by (auto simp: mediated_def take_produce_def take_fetch_def Let_def split: option.splits prod.splits)

lemma unit_result: "(res :: unit result) = Inr u \<longleftrightarrow> res = Inr ()"
  by simp

lemma publish_mediated:
  assumes "take_produce refill now s subj n = (s', True)" "srv_publish e t (sv_core s') q r = (b, off, err)"
    "granted_to s p ActionProduce (p_Topic q)"
  shows "mediated e p s (set_core s' b)"
proof -
  have "mediated e p s s'" by (rule mediated_quota(1) [OF assms(1), THEN conjunct1])
  moreover from this have "mediated e p s' (set_core s' b)"
    using assms(2,3) by (intro mediated_call broker_call.publish) (auto simp: mediated_def srv_authorize_def)
  ultimately show ?thesis by (rule mediated_trans)
qed

lemma publish_rest_calls:
  "publish_rest e t b q rs = (b', err) \<Longrightarrow> allowed ActionProduce (p_Topic q) \<Longrightarrow> (broker_call e allowed)\<^sup>*\<^sup>* b b'"
  by (induction rs arbitrary: b)
    (auto split: prod.splits option.splits intro: broker_call.publish converse_rtranclp_into_rtranclp)

lemma offset_entries_calls: "offset_entries e b cs = (b', es) \<Longrightarrow> (broker_call e allowed)\<^sup>*\<^sup>* b b'"
  by (induction cs arbitrary: b es)
    (auto simp: Let_def split: prod.splits intro: broker_call.highwater converse_rtranclp_into_rtranclp)

lemma produce_mediated: "mediated e p s (fst (handleProduce e t s p body))"
proof -
  have "mediated e p s (set_core s' b)"
    if "srv_authorize s p ActionProduce (pq_Topic req) = Inr ()"
      "take_produce (en_refill e) (tk_now t) s (pr_Subject p) n = (s', True)"
      "srv_publish e t (sv_core s') \<lparr>p_Topic = pq_Topic req, p_Index = i\<rparr> r = (b, off, err)" for req s' n i r b off err
    using that by (intro publish_mediated) auto
  then show ?thesis
    unfolding handleProduce_def
    by (auto simp: mediated_quota(1) [THEN conjunct1] split: handler_splits)
qed

lemma batch_mediated: "mediated e p s (fst (handleProduceBatch e t s p body))"
proof -
  have first: "mediated e p s (set_core s' b)"
    if "srv_authorize s p ActionProduce (pbq_Topic req) = Inr ()"
      "take_produce (en_refill e) (tk_now t) s (pr_Subject p) n = (s', True)"
      "srv_publish e t (sv_core s') \<lparr>p_Topic = pbq_Topic req, p_Index = i\<rparr> r = (b, off, err)" for req s' n i r b off err
    using that by (intro publish_mediated) auto
  have rest: "mediated e p s (set_core s' b')"
    if m: "mediated e p s (set_core s' b)" and a: "srv_authorize s p ActionProduce topic = Inr ()"
      and r: "publish_rest e t b \<lparr>p_Topic = topic, p_Index = i\<rparr> rs = (b', err)" for s' b b' topic i rs err
    using m a publish_rest_calls [OF r, of "granted_to s p"]
    by (auto simp: mediated_def set_core_def intro: rtranclp_trans)
  show ?thesis
    unfolding handleProduceBatch_def Let_def
    by (auto simp: mediated_quota(1) [THEN conjunct1] split: handler_splits intro: first rest [OF first])
qed

lemma fetch_poll_mediated:
  assumes "granted_to s p ActionConsume (fq_Topic (fw_req w))"
  shows "mediated e p s (fst (fetch_poll e t s p w))"
proof -
  have read: "mediated e p s (set_core s b)"
    if "bk_Read (en_store e) None (sv_core s) \<lparr>p_Topic = fq_Topic (fw_req w), p_Index = i\<rparr> fo n = (b, res)" for i fo n b res
    using assms by (intro mediated_call broker_call.read [OF that]) auto
  have "mediated e p s s'" if "mediated e p s s0" "take_fetch refill now s0 subj n = (s', ok)" for s' s0 refill now subj n ok
    using mediated_trans [OF that(1) mediated_quota(2) [OF that(2), THEN conjunct1]] .
  note quota = this
  show ?thesis
    unfolding fetch_poll_def Let_def by (auto split: handler_splits intro: read quota [OF read])
qed

lemma mediated_handlers:
  "mediated e p s (fst (handleFetch e t s p body))"
  "mediated e p s (fst (handleMetadata e t s p body))"
  "mediated e p s (fst (handleCreateTopic e t s p body))"
  "mediated e p s (fst (handleHighWater e t s p body))"
  "mediated e p s (fst (handleClusterMembers e t s p body))"
  "mediated e p s (fst (handleListSegments e t s p body))"
  "mediated e p s (fst (handleFetchSegmentChunk e t s p body))"
  "mediated e p s (fst (handleDeleteTopic e t s p body))"
  "mediated e p s (fst (handleListTopics e t s p body))"
  "mediated e p s (fst (handleListGroups e t s p body))"
  "mediated e p s (fst (handleDescribeGroup e t s p body))"
  "mediated e p s (fst (handleDeleteGroup e t s p body))"
  "mediated e p s (fst (handleClusterStatus e t s p body))"
  "mediated e p s (fst (handleUpdateTopicConfig e t s p body))"
  "mediated e p s (fst (handleCommit e t s p body))"
  "mediated e p s (fst (handleJoinGroup e t s p body))"
  "mediated e p s (fst (handleHeartbeat e t s p body))"
  "mediated e p s (fst (handleLeaveGroup e t s p body))"
  "mediated e p s (fst (handleSync e t s p body))"
  unfolding handleFetch_def handleMetadata_def handleCreateTopic_def handleHighWater_def
    handleClusterMembers_def handleListSegments_def handleFetchSegmentChunk_def
    handleDeleteTopic_def handleListTopics_def handleListGroups_def handleDescribeGroup_def
    handleDeleteGroup_def handleClusterStatus_def handleUpdateTopicConfig_def handleCommit_def handleJoinGroup_def
    handleHeartbeat_def handleLeaveGroup_def handleSync_def Let_def
  by (auto intro!: mediated_call fetch_poll_mediated intro: broker_call.intros split: handler_splits)

lemma raft_mediated:
  assumes "granted_to s p ActionAdmin []" shows "mediated e p s (s\<lparr>sv_raft := r\<rparr>)"
  using assms by (simp add: mediated_def)

lemma voter_mediated:
  "mediated e p s (fst (handleAddVoter e t s p body))" "mediated e p s (fst (handleRemoveVoter e t s p body))"
  unfolding handleAddVoter_def handleRemoveVoter_def by (auto split: handler_splits intro!: raft_mediated)

lemma offsets_mediated: "mediated e p s (fst (handleListGroupOffsets e t s p body))"
  unfolding handleListGroupOffsets_def
  by (auto simp: mediated_def set_core_def split: handler_splits intro: offset_entries_calls)

lemma dispatch_mediated: "mediated e p s (fst (dispatch e t s op p body))"
  by (rule dispatch_handlers [where P = "\<lambda>_ res. mediated e p s (fst res)"])
    (simp_all add: mediated_handlers produce_mediated batch_mediated voter_mediated offsets_mediated)

lemma heartbeat_end_mediated: "mediated e p s (fst (heartbeat_end t s g wake))"
  unfolding heartbeat_end_def by (auto simp: Let_def split: handler_splits beat_event.splits)

text \<open>A request that waits was authorized when it arrived.\<close>

definition poll_ok :: "('st, 'o, 'r) Server \<Rightarrow> Principal \<Rightarrow> outcome \<Rightarrow> bool" where
  "poll_ok s p res \<longleftrightarrow> (case res of FetchPoll w \<Rightarrow> granted_to s p ActionConsume (fq_Topic (fw_req w)) | _ \<Rightarrow> True)"

lemma poll_ok_simps [simp]:
  "poll_ok s p (respond op body)" "poll_ok s p (respond_error op st msg)" "poll_ok s p (srv_respondError op err)"
  "poll_ok s p (HeartbeatPoll g wake)" "poll_ok s p (heartbeat_reply needed err')" "poll_ok s p (wait_reply needed err')"
  "poll_ok s p (fetch_reply e req recs)"
  by (simp_all add: poll_ok_def respond_def respond_error_def srv_respondError_def heartbeat_reply_def wait_reply_def fetch_reply_def
      split: option.splits)

lemma fetch_poll_ok:
  "granted_to s p ActionConsume (fq_Topic (fw_req w)) \<Longrightarrow> poll_ok s p (snd (fetch_poll e t s p w))"
  unfolding fetch_poll_def Let_def by (auto split: handler_splits simp: poll_ok_def [of _ _ "FetchPoll _"])

lemma dispatch_poll_ok: "poll_ok s p (snd (dispatch e t s op p body))"
proof (cases "op = OpFetch")
  case True
  then have "dispatch e t s op p body = handleFetch e t s p body" by (simp add: dispatch_def op_defs)
  then show ?thesis unfolding handleFetch_def by (auto split: handler_splits intro: fetch_poll_ok)
next
  case False
  have "echoes op (snd (dispatch e t s op p body))"
    by (rule dispatch_handlers [where P = "\<lambda>op res. echoes op (snd res)"]) (simp_all add: echoes_handlers)
  with False show ?thesis by (auto simp: echoes_def poll_ok_def split: outcome.splits)
qed

lemma poll_ok_mediated: "mediated e p s s' \<Longrightarrow> poll_ok s' p res \<longleftrightarrow> poll_ok s p res"
  by (simp add: mediated_def poll_ok_def srv_authorize_def split: outcome.splits)

definition conn_ok :: "('st, 'o, 'r) Server \<Rightarrow> Principal \<Rightarrow> conn \<Rightarrow> bool" where
  "conn_ok s p c \<longleftrightarrow>
     (case cn_phase c of Handshaking \<Rightarrow> False | Serving q \<Rightarrow> q = p | Busy q res \<Rightarrow> q = p \<and> poll_ok s p res | Closed \<Rightarrow> True)"

lemma conn_answer_ok: "poll_ok s p res \<Longrightarrow> conn_ok s p (conn_answer c p res)"
  by (cases res) (simp_all add: conn_answer_def conn_ok_def)

primrec serve_run :: "('st, 'o, 'r) env \<Rightarrow> tick list \<Rightarrow> ('st, 'o, 'r) Server \<times> conn \<Rightarrow> ('st, 'o, 'r) Server \<times> conn" where
  "serve_run e [] sc = sc"
| "serve_run e (t # ts) sc = serve_run e ts (serve_step e t (fst sc) (snd sc))"

lemma serve_step_mediated:
  assumes "conn_ok s p c" "serve_step e t s c = (s', c')"
  shows "mediated e p s s' \<and> conn_ok s' p c'"
proof -
  have fin: "mediated e p s s' \<and> conn_ok s' p c'"
    if "x = (s', res)" "c' = conn_answer c0 p res" "mediated e p s (fst x)" "poll_ok s p (snd x)" for x res c0
    using that conn_answer_ok [of s' p res c0] poll_ok_mediated [of e p s s' res] by auto
  show ?thesis
  proof (cases "cn_phase c")
    case (Serving q)
    then have "q = p" using assms(1) by (simp add: conn_ok_def)
    show ?thesis
    proof (cases "ReadFrame (cn_in c)")
      case (Inl err)
      then show ?thesis using assms(2) Serving by (auto simp: serve_step_def conn_ok_def split: if_splits)
    next
      case (Inr x)
      obtain op body rest where x: "x = (op, body, rest)" by (cases x)
      obtain s1 res where d: "dispatch e t s op p body = (s1, res)" by fastforce
      with assms(2) Serving Inr x \<open>q = p\<close> have "s1 = s'" "c' = conn_answer (c\<lparr>cn_in := rest\<rparr>) p res" by (simp_all add: serve_step_def)
      with d show ?thesis by (intro fin [OF _ _ dispatch_mediated dispatch_poll_ok]) auto
    qed
  next
    case (Busy q res)
    then have q: "q = p" "poll_ok s p res" using assms(1) by (simp_all add: conn_ok_def)
    show ?thesis
    proof (cases res)
      case (FetchPoll w)
      then have "granted_to s p ActionConsume (fq_Topic (fw_req w))" using q(2) by (simp add: poll_ok_def)
      moreover obtain s1 res1 where d: "fetch_poll e t s p w = (s1, res1)" by fastforce
      moreover from d have "s1 = s'" "c' = conn_answer c p res1" using assms(2) Busy q(1) FetchPoll by (simp_all add: serve_step_def)
      ultimately show ?thesis by (intro fin [OF _ _ fetch_poll_mediated fetch_poll_ok]) auto
    next
      case (HeartbeatPoll g wake)
      have "poll_ok s p (snd (heartbeat_end t s g wake))"
        unfolding heartbeat_end_def by (auto simp: Let_def split: handler_splits beat_event.splits)
      moreover obtain s1 res1 where d: "heartbeat_end t s g wake = (s1, res1)" by fastforce
      moreover from d have "s1 = s'" "c' = conn_answer c p res1" using assms(2) Busy q(1) HeartbeatPoll by (simp_all add: serve_step_def)
      ultimately show ?thesis by (intro fin [OF _ _ heartbeat_end_mediated]) auto
    next
      case (Respond r)
      then show ?thesis using assms(2) Busy q(1)
        by (auto simp: serve_step_def conn_answer_def conn_ok_def)
    qed
  qed (use assms in \<open>auto simp: serve_step_def conn_ok_def\<close>)
qed

lemma serve_run_mediated:
  assumes "conn_ok s p c" "serve_run e ts (s, c) = (s', c')"
  shows "mediated e p s s' \<and> conn_ok s' p c'"
  using assms
proof (induction ts arbitrary: s c)
  case (Cons t ts)
  obtain s1 c1 where st: "serve_step e t s c = (s1, c1)" by fastforce
  from serve_step_mediated [OF Cons.prems(1) st] Cons.IH [of s1 c1] Cons.prems(2) st mediated_trans show ?case by fastforce
qed simp


text \<open>A broker with the topics \<open>events\<close> and \<open>orders\<close>, and a client that may produce to the first.\<close>

definition srv_registry :: Registry where
  "srv_registry = Hydrate (NewRegistry None)
     [\<lparr>tc_Name = ''events'', tc_PartitionCount = 1, tc_RetentionMs = 0, tc_SegmentBytes = 0\<rparr>,
      \<lparr>tc_Name = ''orders'', tc_PartitionCount = 1, tc_RetentionMs = 0, tc_SegmentBytes = 0\<rparr>]"

definition srv_env :: "(MemoryStore, entries, unit) env" where
  "srv_env = \<lparr>en_store = memory_ops, en_snapper = None, en_offsets = mos_ops,
     en_raft = \<lparr>ro_Members = (\<lambda>_. []), ro_NodeID = (\<lambda>_. []), ro_LeaderAddr = (\<lambda>_. []), ro_AddVoter = (\<lambda>r _ _. (r, Inr ())),
       ro_RemoveVoter = (\<lambda>r _. (r, Inr ()))\<rparr>,
     en_compress = (\<lambda>_ b. Inr []), en_uncompress = (\<lambda>b _. Inr b), en_refill = (\<lambda>_ _. 0)\<rparr>"

definition srv_sample :: "(MemoryStore, entries, unit) Server" where
  "srv_sample = SetAuthorizer (NewServer (NewBroker NewMemoryStore srv_registry None 0 []) (Some (NewManager [] 10 RangeStrategy)) ()) (Some ScopeAuthorizer)"

definition srv_principal :: Principal where
  "srv_principal = \<lparr>pr_Subject = ''svc'', pr_Account = [], pr_Scopes = [''produce:events''], pr_Source = SourceJWT\<rparr>"

definition srv_tick :: tick where
  "srv_tick = \<lparr>tk_now = 5, tk_now' = 5, tk_fresh = ''m'', tk_beat = BeatTimer\<rparr>"

definition srv_record :: Record where
  "srv_record = \<lparr>r_Offset = 0, r_Timestamp = 3, r_Key = None, r_Value = Some [1], r_Headers = []\<rparr>"

definition srv_conn :: conn where
  "srv_conn = \<lparr>cn_in = WriteFrame OpProduce (ProduceRequest_Encode \<lparr>pq_Topic = ''events'', pq_Partition = 0, pq_Record = srv_record\<rparr>)
       @ WriteFrame OpProduce (ProduceRequest_Encode \<lparr>pq_Topic = ''orders'', pq_Partition = 0, pq_Record = srv_record\<rparr>)
       @ WriteFrame OpDeleteTopic (DeleteTopicRequest_Encode \<lparr>dt_Name = ''orders''\<rparr>),
     cn_w = ([], []), cn_phase = Serving srv_principal\<rparr>"


section \<open>A topic without grants\<close>

text \<open>The records of the partitions of a topic and its configuration, on the in-memory store.\<close>

definition same_topic :: "string \<Rightarrow> MemoryStore Broker \<Rightarrow> MemoryStore Broker \<Rightarrow> bool" where
  "same_topic topic b b' \<longleftrightarrow>
     (\<forall>i. mem_log (bk_store b') \<lparr>p_Topic = topic, p_Index = i\<rparr> = mem_log (bk_store b) \<lparr>p_Topic = topic, p_Index = i\<rparr>)
     \<and> map_of (rg_topics (bk_registry b')) topic = map_of (rg_topics (bk_registry b)) topic
     \<and> bk_cluster b' = bk_cluster b \<and> bk_dedupTopic b' = bk_dedupTopic b"

lemma reg_other_topic:
  "sp_Name spec \<noteq> topic \<Longrightarrow> map_of (rg_topics (fst (reg_Create r spec))) topic = map_of (rg_topics r) topic"
  "n \<noteq> topic \<Longrightarrow> map_of (rg_topics (fst (reg_UpdateConfig r n a d))) topic = map_of (rg_topics r) topic"
  "n \<noteq> topic \<Longrightarrow> map_of (rg_topics (fst (reg_Delete r n))) topic = map_of (rg_topics r) topic"
  by (simp_all add: reg_Create_def reg_UpdateConfig_def reg_Delete_def Let_def update_conv' delete_conv' split: option.splits)

lemma mem_store_same:
  "fst (mem_Read ctx st q fo n) = st" "fst (mem_HighWater ctx st q) = st" "fst (mem_Sync ctx st q) = st"
  by (simp_all add: mem_Read_def mem_HighWater_def mem_Sync_def split: option.splits)

lemma dedup_note_same:
  "topic \<noteq> bk_dedupTopic b \<Longrightarrow> same_topic topic b (dedup_note memory_ops now now' b q idemp offset)"
  by (auto simp: dedup_note_def same_topic_def persistDedupCheckpoint_def memory_ops_def mem_Append_run mem_log_update Let_def
      split: option.splits)

lemma same_topic_trans: "same_topic topic a b \<Longrightarrow> same_topic topic b c \<Longrightarrow> same_topic topic a c"
  by (simp add: same_topic_def)

lemma fan_out_same: "same_topic topic b (fst (fan_out stop r chs b))"
  by (simp add: same_topic_def)

lemma publish_same:
  assumes "bk_cluster b = None" "p_Topic q \<noteq> topic" "topic \<noteq> bk_dedupTopic b"
  shows "same_topic topic b (fst (bk_Publish memory_ops None now now' stop b q r))"
proof (cases "bk_validate b q")
  case (Inl err)
  then show ?thesis by (simp add: bk_Publish_def same_topic_def)
next
  case (Inr u)
  define ps where "ps = (if producerIdempKey r = None then part_state b q else evictStaleDedupLocked (bk_dedupTTL b) now (part_state b q))"
  define rec where "rec = (if r_Timestamp r = 0 then r\<lparr>r_Timestamp := now'\<rparr> else r)"
  define b1 where "b1 = (put_part b q ps)\<lparr>bk_store := fst (mem_Append None now' (bk_store b) q rec)\<rparr>"
  define off where "off = mem_hw (bk_store b) q"
  have b1: "same_topic topic b b1"
    using assms(2) by (auto simp: b1_def same_topic_def mem_Append_run mem_log_update)
  show ?thesis
  proof (cases "dedup_lookup (producerIdempKey r) ps")
    case None
    then have "fst (bk_Publish memory_ops None now now' stop b q r)
        = fst (fan_out stop (rec\<lparr>r_Offset := off\<rparr>) (ps_subscribers ps) (dedup_note memory_ops now now' b1 q (producerIdempKey r) off))"
      using Inr assms(1)
      by (simp add: bk_Publish_def ps_def [symmetric] rec_def [symmetric] Let_def memory_ops_def mem_Append_run b1_def off_def split_beta)
    moreover have "topic \<noteq> bk_dedupTopic b1" using assms(3) by (simp add: b1_def)
    ultimately show ?thesis
      using same_topic_trans [OF b1 same_topic_trans [OF dedup_note_same fan_out_same]] by simp
  next
    case (Some o')
    then show ?thesis using Inr assms(1)
      by (simp add: bk_Publish_def ps_def [symmetric] Let_def same_topic_def)
  qed
qed

lemma broker_call_same:
  assumes "broker_call e allowed b b'" "en_store e = memory_ops" "en_snapper e = None" "bk_cluster b = None" "topic \<noteq> bk_dedupTopic b"
    "\<not> allowed ActionProduce topic" "\<not> allowed ActionAdmin topic"
  shows "same_topic topic b b'"
  using assms(1)
proof cases
  case (publish t q r off err)
  then have "p_Topic q \<noteq> topic" using assms(6) by auto
  from publish_same [OF assms(4) this assms(5), of "tk_now t" "tk_now' t" None r] publish(1) show ?thesis
    by (simp add: srv_publish_def assms(2))
next
  case (create spec res)
  then have "sp_Name spec \<noteq> topic" using assms(7) by auto
  then show ?thesis using create assms(4) reg_other_topic(1) [of spec topic "bk_registry b"]
    by (auto simp: bk_CreateTopic_def same_topic_def split: prod.splits)
next
  case (update name retention bytes res)
  then have "name \<noteq> topic" using assms(7) by auto
  then show ?thesis using update assms(4) reg_other_topic(2) [of name topic "bk_registry b" retention bytes]
    by (auto simp: bk_UpdateTopicConfig_def same_topic_def split: prod.splits)
next
  case (delete name res)
  then have "name \<noteq> topic" using assms(7) by auto
  then show ?thesis using delete assms(2,4) reg_other_topic(3) [of name topic "bk_registry b"]
    by (auto simp: bk_DeleteTopic_def same_topic_def memory_ops_def mem_DeleteTopic_def mem_DeleteTopic_log split: prod.splits sum.splits)
next
  case (read q fo n rres)
  then show ?thesis using mem_store_same(1) [of None "bk_store b" q fo n] assms(2)
    by (auto simp: bk_Read_def same_topic_def memory_ops_def split: sum.splits prod.splits)
next
  case (highwater q hres)
  then show ?thesis using mem_store_same(2) [of None "bk_store b" q] assms(2)
    by (auto simp: bk_HighWater_def same_topic_def memory_ops_def split: sum.splits prod.splits)
next
  case (sync q res)
  then show ?thesis using mem_store_same(3) [of None "bk_store b" q] assms(2)
    by (auto simp: bk_Sync_def same_topic_def memory_ops_def split: sum.splits prod.splits)
next
  case (segments q sres)
  then show ?thesis using assms(3) by (auto simp: bk_ListSegments_def same_topic_def split: sum.splits)
next
  case (chunk q base kind offset maxBytes cres)
  then show ?thesis using assms(3) by (auto simp: bk_FetchSegmentChunk_def same_topic_def split: sum.splits)
qed

lemma broker_calls_same:
  assumes "(broker_call e allowed)\<^sup>*\<^sup>* b b'" "en_store e = memory_ops" "en_snapper e = None" "bk_cluster b = None" "topic \<noteq> bk_dedupTopic b"
    "\<not> allowed ActionProduce topic" "\<not> allowed ActionAdmin topic"
  shows "same_topic topic b b'"
  using assms(1)
proof (induction rule: rtranclp_induct)
  case base
  then show ?case by (simp add: same_topic_def)
next
  case (step y z)
  then have "same_topic topic y z"
    using assms(4,5) by (intro broker_call_same [OF step.hyps(2) assms(2,3) _ _ assms(6,7)]) (auto simp: same_topic_def)
  with step.IH show ?case by (rule same_topic_trans)
qed



section \<open>Requests the authorizer does not see\<close>

lemma ungated_handlers:
  "handleMetadata e t (s\<lparr>sv_authorizer := az\<rparr>) p body = apfst (\<lambda>s. s\<lparr>sv_authorizer := az\<rparr>) (handleMetadata e t s q body)"
  "handleHighWater e t (s\<lparr>sv_authorizer := az\<rparr>) p body = apfst (\<lambda>s. s\<lparr>sv_authorizer := az\<rparr>) (handleHighWater e t s q body)"
  "handleClusterMembers e t (s\<lparr>sv_authorizer := az\<rparr>) p body = apfst (\<lambda>s. s\<lparr>sv_authorizer := az\<rparr>) (handleClusterMembers e t s q body)"
  "handleListSegments e t (s\<lparr>sv_authorizer := az\<rparr>) p body = apfst (\<lambda>s. s\<lparr>sv_authorizer := az\<rparr>) (handleListSegments e t s q body)"
  "handleFetchSegmentChunk e t (s\<lparr>sv_authorizer := az\<rparr>) p body = apfst (\<lambda>s. s\<lparr>sv_authorizer := az\<rparr>) (handleFetchSegmentChunk e t s q body)"
  "handleListTopics e t (s\<lparr>sv_authorizer := az\<rparr>) p body = apfst (\<lambda>s. s\<lparr>sv_authorizer := az\<rparr>) (handleListTopics e t s q body)"
  "handleListGroups e t (s\<lparr>sv_authorizer := az\<rparr>) p body = apfst (\<lambda>s. s\<lparr>sv_authorizer := az\<rparr>) (handleListGroups e t s q body)"
  "handleDescribeGroup e t (s\<lparr>sv_authorizer := az\<rparr>) p body = apfst (\<lambda>s. s\<lparr>sv_authorizer := az\<rparr>) (handleDescribeGroup e t s q body)"
  "handleListGroupOffsets e t (s\<lparr>sv_authorizer := az\<rparr>) p body = apfst (\<lambda>s. s\<lparr>sv_authorizer := az\<rparr>) (handleListGroupOffsets e t s q body)"
  "handleDeleteGroup e t (s\<lparr>sv_authorizer := az\<rparr>) p body = apfst (\<lambda>s. s\<lparr>sv_authorizer := az\<rparr>) (handleDeleteGroup e t s q body)"
  "handleClusterStatus e t (s\<lparr>sv_authorizer := az\<rparr>) p body = apfst (\<lambda>s. s\<lparr>sv_authorizer := az\<rparr>) (handleClusterStatus e t s q body)"
  "handleCommit e t (s\<lparr>sv_authorizer := az\<rparr>) p body = apfst (\<lambda>s. s\<lparr>sv_authorizer := az\<rparr>) (handleCommit e t s q body)"
  "handleJoinGroup e t (s\<lparr>sv_authorizer := az\<rparr>) p body = apfst (\<lambda>s. s\<lparr>sv_authorizer := az\<rparr>) (handleJoinGroup e t s q body)"
  "handleHeartbeat e t (s\<lparr>sv_authorizer := az\<rparr>) p body = apfst (\<lambda>s. s\<lparr>sv_authorizer := az\<rparr>) (handleHeartbeat e t s q body)"
  "handleLeaveGroup e t (s\<lparr>sv_authorizer := az\<rparr>) p body = apfst (\<lambda>s. s\<lparr>sv_authorizer := az\<rparr>) (handleLeaveGroup e t s q body)"
  "handleSync e t (s\<lparr>sv_authorizer := az\<rparr>) p body = apfst (\<lambda>s. s\<lparr>sv_authorizer := az\<rparr>) (handleSync e t s q body)"
  by (cases s; simp add: handleMetadata_def handleHighWater_def handleClusterMembers_def handleListSegments_def handleFetchSegmentChunk_def
      handleListTopics_def handleListGroups_def handleDescribeGroup_def handleListGroupOffsets_def
      handleDeleteGroup_def handleClusterStatus_def handleCommit_def handleJoinGroup_def
      handleHeartbeat_def handleLeaveGroup_def handleSync_def set_core_def Let_def
      split: handler_splits)+

definition gated_ops :: "byte list" where
  "gated_ops = [OpProduce, OpProduceBatch, OpFetch, OpCreateTopic, OpUpdateTopicConfig, OpDeleteTopic, OpAddVoter, OpRemoveVoter]"

text \<open>
  C37: Every other request is served alike for every principal and under every authorizer. Among them are
  commits, joins and deletions of consumer groups and the download of the segment files of a topic,
  although the consume action is documented to gate the read side of a topic.
\<close>

theorem ungated_requests:
  assumes "op \<notin> set gated_ops"
  shows "dispatch e t (s\<lparr>sv_authorizer := az\<rparr>) op p body = apfst (\<lambda>s. s\<lparr>sv_authorizer := az\<rparr>) (dispatch e t s op q body)"
proof -
  have unknown: "(s\<lparr>sv_authorizer := az\<rparr>, x) = apfst (\<lambda>s. s\<lparr>sv_authorizer := az\<rparr>) (s, x)" for x by simp
  have branch: "(if b then x else y) = apfst (\<lambda>s. s\<lparr>sv_authorizer := az\<rparr>) (if b then x' else y')"
    if "x = apfst (\<lambda>s. s\<lparr>sv_authorizer := az\<rparr>) x'" "y = apfst (\<lambda>s. s\<lparr>sv_authorizer := az\<rparr>) y'"
    for b and x y x' y' :: "('a, 'b, 'c) Server \<times> outcome"
    using that by simp
  from assms show ?thesis
    unfolding dispatch_def gated_ops_def
    by (simp only: list.set insert_iff empty_iff de_Morgan_disj if_False simp_thms) (intro branch ungated_handlers unknown)
qed

theorem ungated_requests_witness:
  "(\<exists>s' r. dispatch srv_env srv_tick (srv_sample\<lparr>sv_authorizer := (\<lambda>_ _ _. Inl ErrUnauthorized)\<rparr>) OpCommit Anonymous
      (CommitRequest_Encode \<lparr>cq_Group = ''g'', cq_Topic = ''orders'', cq_Partition = 0, cq_Offset = 7\<rparr>) = (s', Respond r) \<and> rs_status r = StatusOK
      \<and> map_option (\<lambda>m. mg_Committed mos_ops m ''g'' ''orders'' 0) (sv_groups s') = Some (Inr 7))"
proof -
  let ?body = "CommitRequest_Encode \<lparr>cq_Group = ''g'', cq_Topic = ''orders'', cq_Partition = 0, cq_Offset = 7\<rparr>"
  let ?m = "NewManager [] 10 RangeStrategy"
  have dec: "DecodeCommitRequest ?body = Inr \<lparr>cq_Group = ''g'', cq_Topic = ''orders'', cq_Partition = 0, cq_Offset = 7\<rparr>"
    by (rule CommitRequest.Decode_Encode) (simp_all add: int32_ok_def int64_ok_def buf32_def CommitRequest_Encode_def encodeString_def)
  obtain off where off: "oo_Commit mos_ops [] ''g'' ''orders'' 0 7 = (off, Inr ())" "oo_Lookup mos_ops off ''g'' ''orders'' 0 = Inr 7"
    by (simp add: mos_ops_def mos_Commit_def mos_Lookup_def entries_lookup_def)
  have "dispatch srv_env srv_tick srv_sample OpCommit srv_principal ?body
      = (srv_sample\<lparr>sv_groups := Some (?m\<lparr>mg_offsets := off\<rparr>)\<rparr>, respond OpCommit [])"
    using dec off by (simp add: dispatch_def op_defs handleCommit_def srv_sample_def SetAuthorizer_def NewServer_def srv_env_def mg_Commit_def
        NewManager_def)
  then have "\<exists>s' r. dispatch srv_env srv_tick srv_sample OpCommit srv_principal ?body = (s', Respond r) \<and> rs_status r = StatusOK
      \<and> map_option (\<lambda>m. mg_Committed mos_ops m ''g'' ''orders'' 0) (sv_groups s') = Some (Inr 7)"
    using off(2) by (simp add: respond_def mg_Committed_def)
  moreover have "OpCommit \<notin> set gated_ops" by (simp add: gated_ops_def op_defs)
  ultimately show ?thesis
    by (auto simp: ungated_requests [of OpCommit srv_env srv_tick "\<lambda>_ _ _. Inl ErrUnauthorized" srv_sample Anonymous _ srv_principal])
qed

section \<open>Refused handshakes\<close>

text \<open>
  C38: A client whose handshake is refused never sees why: the error response is written to the buffer of the connection, the
  connection is closed without a flush, and no byte reaches the client.
\<close>

theorem refused_handshake_unseen:
  assumes "cn_phase c = Handshaking" "cn_w c = ([], [])" "handshake s (cn_in c) = (Some r, Inl err)" "length (rs_body r) \<le> 4000"
  shows "\<exists>c'. serve_run e (t # ts) (s, c) = (s, c') \<and> cn_phase c' = Closed \<and> cn_w c' = ([], response_bytes r)"
proof -
  let ?c = "c\<lparr>cn_w := ([], response_bytes r), cn_phase := Closed\<rparr>"
  have "length (response_bytes r) = length (rs_body r) + 6" by (simp add: response_bytes_def WriteResponse_def WriteFrame_def)
  then have "write_response ([], []) r = ([], response_bytes r)"
    using assms(4) by (simp add: write_response_def bw_Write_def Let_def bufio_Write.simps defaultBufSize_def)
  then have "serve_step e t s c = (s, ?c)" using assms(1-3) by (simp add: serve_step_def Let_def)
  moreover have "serve_run e ts (s, ?c) = (s, ?c)" by (induction ts) (simp_all add: serve_step_def)
  ultimately show ?thesis by simp
qed

definition bad_hello :: HandshakeRequest where
  "bad_hello = \<lparr>hs_Version = WireVersion, hs_CredentialKind = CredentialAPIKey, hs_Credential = Some [1]\<rparr>"

theorem refused_handshake_unseen_witness:
  "\<exists>c' r. serve_run srv_env [srv_tick] (SetAPIKeys srv_sample [''key''],
      \<lparr>cn_in = WriteFrame OpHandshake (HandshakeRequest_Encode bad_hello), cn_w = ([], []), cn_phase = Handshaking\<rparr>)
      = (SetAPIKeys srv_sample [''key''], c') \<and> rs_status r = StatusUnauthorized \<and> cn_phase c' = Closed \<and> cn_w c' = ([], response_bytes r)"
proof -
  let ?c = "\<lparr>cn_in = WriteFrame OpHandshake (HandshakeRequest_Encode bad_hello), cn_w = ([], []), cn_phase = Handshaking\<rparr>"
  let ?r = "\<lparr>rs_op = OpHandshake, rs_status = StatusUnauthorized, rs_body = encodeString [] ''auth: invalid API key''\<rparr>"
  have "ReadFrame (WriteFrame OpHandshake (HandshakeRequest_Encode bad_hello) @ []) = Inr (OpHandshake, HandshakeRequest_Encode bad_hello, [])"
    by (rule ReadFrame_WriteFrame) (simp add: HandshakeRequest_Encode_def bad_hello_def encodeBytes_def maxFrameBytes_def)
  moreover have "DecodeHandshakeRequest (HandshakeRequest_Encode bad_hello) = Inr bad_hello"
    using HandshakeRequest.Decode_Encode [of bad_hello]
    by (simp add: HandshakeRequest_Encode_def bad_hello_def encodeBytes_def buf32_def norm_bytes_Some)
  moreover have "APIKeyVerifier (NewAPIKeyVerifier [''key'']) \<lparr>cr_Kind = CredentialAPIKey, cr_Bytes = Some [1]\<rparr> = Inl (ErrNew ''auth: invalid API key'')"
    by code_simp
  ultimately have "handshake (SetAPIKeys srv_sample [''key'']) (cn_in ?c)
      = (Some ?r, Inl (ErrWrap ''handshake'' (ErrNew ''auth: invalid API key'')))"
    by (simp add: handshake_def Let_def SetAPIKeys_def SetVerifier_def bad_hello_def)
  moreover have "length (rs_body ?r) \<le> 4000" by (simp add: encodeString_def)
  ultimately obtain c' where "serve_run srv_env [srv_tick] (SetAPIKeys srv_sample [''key''], ?c) = (SetAPIKeys srv_sample [''key''], c')"
    "cn_phase c' = Closed" "cn_w c' = ([], response_bytes ?r)"
    using refused_handshake_unseen [of ?c "SetAPIKeys srv_sample [''key'']" ?r _ srv_env srv_tick "[]"] by fastforce
  moreover have "rs_status ?r = StatusUnauthorized" by simp
  ultimately show ?thesis by blast
qed

end
