(* ===== verification/Server_Client.thy ===== *)
theory Server_Client
  imports Server_Props Broker_Props
begin

text \<open>
  What a client of the server reads back: the whole path from the bytes of a produce request over the
  connection, the dispatch, the broker and the store to the bytes of the fetch response, and the status
  codes of failed requests.
\<close>

section \<open>Produce and fetch\<close>

lemma no_limiter:
  "map_of (sv_produceQuotas s) subj = None \<Longrightarrow> take_produce refill now s subj n = (s, True)"
  "map_of (sv_fetchQuotas s) subj = None \<Longrightarrow> take_fetch refill now s subj n = (s, True)"
  by (simp_all add: take_produce_def take_fetch_def)

lemma dispatch_ops [simp]:
  "dispatch e t s OpProduce p body = handleProduce e t s p body" "dispatch e t s OpFetch p body = handleFetch e t s p body"
  by (simp_all add: dispatch_def op_defs)

lemma part_eta: "\<lparr>p_Topic = p_Topic q, p_Index = p_Index q\<rparr> = q"
  by (cases q) simp

text \<open>A response that is written and flushed reaches the client as it is.\<close>

lemma write_flush: "bw_Flush (write_response (out, []) r) = (out @ response_bytes r, [])"
proof -
  have w: "fst (bw_Write w b) @ snd (bw_Write w b) = fst w @ snd w @ b" for w b
    using bufio_Write_append [of "snd w" b] by (simp add: bw_Write_def split_beta)
  show ?thesis using w [of "bw_Write (out, []) (take 5 (response_bytes r))" "drop 5 (response_bytes r)"]
      w [of "(out, [])" "take 5 (response_bytes r)"]
    by (simp add: bw_Flush_def write_response_def Let_def) (metis append_assoc append_take_drop_id)
qed

lemma serve_request:
  assumes "cn_phase c = Serving p" "cn_w c = (out, [])" "cn_in c = WriteFrame op body @ rest" "length body < maxFrameBytes"
    and "dispatch e t s op p body = (s', Respond r)"
  shows "serve_step e t s c = (s', c\<lparr>cn_in := rest, cn_w := (out @ response_bytes r, []), cn_phase := Serving p\<rparr>)"
  using assms ReadFrame_WriteFrame [OF assms(4), of op rest]
  by (simp add: serve_step_def conn_answer_def write_flush)

text \<open>Two requests in a row are answered in order, and the client reads the two responses.\<close>

lemma two_requests:
  assumes "cn_phase c = Serving p" "cn_w c = ([], [])" "cn_in c = WriteFrame op1 body1 @ WriteFrame op2 body2"
    and "length body1 < maxFrameBytes" "length body2 < maxFrameBytes"
    and "dispatch e t s op1 p body1 = (s1, respond op1 out1)" "dispatch e t' s1 op2 p body2 = (s2, respond op2 out2)"
    and "length out1 + 1 < maxFrameBytes" "length out2 + 1 < maxFrameBytes"
  obtains c' rest where "serve_run e [t, t'] (s, c) = (s2, c')" "ReadResponse (fst (cn_w c')) op1 = Inr (out1, rest)"
    "ReadResponse rest op2 = Inr (out2, [])"
proof -
  let ?r1 = "\<lparr>rs_op = op1, rs_status = StatusOK, rs_body = out1\<rparr>" and ?r2 = "\<lparr>rs_op = op2, rs_status = StatusOK, rs_body = out2\<rparr>"
  let ?c1 = "c\<lparr>cn_in := WriteFrame op2 body2, cn_w := ([] @ response_bytes ?r1, []), cn_phase := Serving p\<rparr>"
  let ?c2 = "c\<lparr>cn_in := [], cn_w := (response_bytes ?r1 @ response_bytes ?r2, []), cn_phase := Serving p\<rparr>"
  have "serve_step e t s c = (s1, ?c1)"
    using assms(6) by (intro serve_request [OF assms(1-4)]) (simp add: respond_def)
  moreover have "serve_step e t' s1 ?c1 = (s2, ?c2)"
    using serve_request [of ?c1 p "response_bytes ?r1" op2 body2 "[]" e t' s1 s2 ?r2] assms(5,7) by (simp add: respond_def)
  ultimately have "serve_run e [t, t'] (s, c) = (s2, ?c2)" by simp
  moreover have "ReadResponse (response_bytes ?r1 @ response_bytes ?r2) op1 = Inr (out1, response_bytes ?r2)"
    using ReadResponse_WriteResponse [OF assms(8)] by (simp add: response_bytes_def)
  moreover have "ReadResponse (response_bytes ?r2) op2 = Inr (out2, [])"
    using ReadResponse_WriteResponse [OF assms(9), of op2 "[]"] by (simp add: response_bytes_def)
  ultimately show thesis using that by simp
qed

text \<open>The record a client sent, as a store keeps and a reader sees it.\<close>

definition delivered :: "int \<Rightarrow> int \<Rightarrow> Record \<Rightarrow> Record" where
  "delivered now off r = norm_record (r\<lparr>r_Offset := off, r_Timestamp := (if r_Timestamp r = 0 then now else r_Timestamp r)\<rparr>)"

definition stored_response :: "FetchRequest \<Rightarrow> Record list \<Rightarrow> FetchResponse" where
  "stored_response fq rs = \<lparr>fs_Records = rs, fs_Codec = (if fq_AcceptCodec fq = CodecLZ4 \<and> fetchCompressionWorthIt rs then CodecLZ4 else CodecNone)\<rparr>"

lemma log_entry_delivered:
  assumes "\<And>x. norm_record (nrm x) = norm_record x"
  shows "norm_record (log_entry nrm now off (norm_record r)) = delivered now off r"
  using assms by (cases r) (simp add: log_entry_def timed_def delivered_def norm_record_def norm_header_def)

context store
begin

lemma handleProduce_new:
  assumes "inv (bk_store (sv_core s))" "en_store e = ops"
    and "pub_ok ops fits addressable (tk_now t) (tk_now' t) (sv_core s) q (norm_record r)"
    and "dedup_lookup (producerIdempKey (norm_record r)) (pub_state (tk_now t) (sv_core s) q (norm_record r)) = None"
    and "sv_authorizer s p ActionProduce (p_Topic q) = Inr ()" "map_of (sv_produceQuotas s) (pr_Subject p) = None"
    and "wf_ProduceRequest \<lparr>pq_Topic = p_Topic q, pq_Partition = p_Index q, pq_Record = r\<rparr>"
      "buf32 (ProduceRequest_Encode \<lparr>pq_Topic = p_Topic q, pq_Partition = p_Index q, pq_Record = r\<rparr>)"
  defines "off \<equiv> hw_of (bk_store (sv_core s)) q"
  obtains b where
    "handleProduce e t s p (ProduceRequest_Encode \<lparr>pq_Topic = p_Topic q, pq_Partition = p_Index q, pq_Record = r\<rparr>)
       = (set_core s b, respond OpProduce (ProduceResponse_Encode \<lparr>ps_Offset = off\<rparr>))"
    "inv (bk_store b)" "log_of (bk_store b) q = log_of (bk_store (sv_core s)) q @ [log_entry nrm (tk_now' t) off (norm_record r)]"
    "bk_registry b = bk_registry (sv_core s)"
proof -
  obtain b err where pub: "bk_Publish ops None (tk_now t) (tk_now' t) None (sv_core s) q (norm_record r) = (b, off, err)" "inv (bk_store b)"
    "log_of (bk_store b) = (let L = (log_of (bk_store (sv_core s)))(q := log_of (bk_store (sv_core s)) q @ [log_entry nrm (tk_now' t) off (norm_record r)])
       in if persists (sv_core s) q (norm_record r)
          then L(dedup_part (sv_core s) := L (dedup_part (sv_core s)) @ [dedup_entry nrm (tk_now t) (tk_now' t) (hw_of (bk_store (sv_core s)) (dedup_part (sv_core s))) q off (norm_record r)])
          else L)"
    "bk_registry b = bk_registry (sv_core s)" "err = None"
    by (rule publish_effect [OF assms(1,3,4), of None, folded off_def]) (erule that, simp_all)
  have log: "log_of (bk_store b) q = log_of (bk_store (sv_core s)) q @ [log_entry nrm (tk_now' t) off (norm_record r)]"
    using pub(3) persists_other [of "sv_core s" q "norm_record r"] by (auto simp: Let_def split: if_splits)
  have "handleProduce e t s p (ProduceRequest_Encode \<lparr>pq_Topic = p_Topic q, pq_Partition = p_Index q, pq_Record = r\<rparr>)
       = (set_core s b, respond OpProduce (ProduceResponse_Encode \<lparr>ps_Offset = off\<rparr>))"
    using ProduceRequest.Decode_Encode [OF assms(7,8)] assms(2,5) pub(1,5)
    by (simp add: handleProduce_def no_limiter(1) [OF assms(6)] srv_authorize_def srv_publish_def part_eta)
  from that [OF this pub(2) log pub(4)] show thesis .
qed

lemma handleFetch_records:
  assumes "inv (bk_store (sv_core s))" "en_store e = ops" "bk_validate (sv_core s) q = Inr ()" "addressable q"
    and "sv_authorizer s p ActionConsume (p_Topic q) = Inr ()" "map_of (sv_fetchQuotas s) (pr_Subject p) = None"
    and "wf_FetchRequest fq" "buf32 (FetchRequest_Encode fq)" "fq_Topic fq = p_Topic q" "fq_Partition fq = p_Index q"
      "0 \<le> fq_FromOffset fq"
  defines "rs \<equiv> take (nat (if fq_MaxRecords fq \<le> 0 then 1 else fq_MaxRecords fq))
      (filter (\<lambda>r. fq_FromOffset fq \<le> r_Offset r) (log_of (bk_store (sv_core s)) q))"
  assumes "rs \<noteq> []"
  obtains s' where "handleFetch e t s p (FetchRequest_Encode fq)
      = (s', respond OpFetch (FetchResponse_Encode (en_compress e) (stored_response fq rs)))"
proof -
  have q: "\<lparr>p_Topic = fq_Topic fq, p_Index = fq_Partition fq\<rparr> = q" using assms(9,10) by (cases q) simp
  obtain st where "so_Read ops None (bk_store (sv_core s)) q (fq_FromOffset fq) (if fq_MaxRecords fq \<le> 0 then 1 else fq_MaxRecords fq) = (st, Inr rs)"
    using read_law [OF assms(1,4,11)] unfolding rs_def by blast
  then have "bk_Read ops None (sv_core s) q (fq_FromOffset fq) (if fq_MaxRecords fq \<le> 0 then 1 else fq_MaxRecords fq)
      = ((sv_core s)\<lparr>bk_store := st\<rparr>, Inr rs)"
    using assms(3) by (simp add: bk_Read_def)
  moreover have "map_of (sv_fetchQuotas (set_core s b)) (pr_Subject p) = None" for b using assms(6) by (simp add: set_core_def)
  ultimately have "fetch_poll e t s p \<lparr>fw_req = fq, fw_deadline = d\<rparr>
      = (set_core s ((sv_core s)\<lparr>bk_store := st\<rparr>), respond OpFetch (FetchResponse_Encode (en_compress e) (stored_response fq rs)))" for d
    using assms(2,13) by (simp add: fetch_poll_def Let_def q no_limiter(2) fetch_reply_def stored_response_def)
  then show thesis
    using FetchRequest.Decode_Encode [OF assms(7,8)] assms(5,9) that by (simp add: handleFetch_def srv_authorize_def)
qed

text \<open>The appended record is the only one at or above its offset.\<close>

lemma new_record_only:
  assumes "inv st" "log_of st' q = log_of st q @ [x]" "r_Offset x = hw_of st q" "0 < n"
  shows "take n (filter (\<lambda>r. hw_of st q \<le> r_Offset r) (log_of st' q)) = [x]"
proof -
  have "filter (\<lambda>r. hw_of st q \<le> r_Offset r) (log_of st q) = []"
    using log_bounds [OF assms(1)] by (force simp: filter_empty_conv)
  then show ?thesis using assms(2-4) by simp
qed

lemma produce_fetch_run:
  fixes q :: PartitionRef and t :: tick and r :: Record
  assumes env: "inv (bk_store (sv_core s))" "en_store e = ops" "lz4_library (en_compress e) ub"
    and ok: "pub_ok ops fits addressable (tk_now t) (tk_now' t) (sv_core s) q (norm_record r)"
      "dedup_lookup (producerIdempKey (norm_record r)) (pub_state (tk_now t) (sv_core s) q (norm_record r)) = None"
    and grants: "sv_authorizer s p ActionProduce (p_Topic q) = Inr ()" "sv_authorizer s p ActionConsume (p_Topic q) = Inr ()"
      "map_of (sv_produceQuotas s) (pr_Subject p) = None" "map_of (sv_fetchQuotas s) (pr_Subject p) = None"
    and req: "pq = \<lparr>pq_Topic = p_Topic q, pq_Partition = p_Index q, pq_Record = r\<rparr>" "wf_ProduceRequest pq" "wf_FetchRequest fq"
      "fq_Topic fq = p_Topic q" "fq_Partition fq = p_Index q" "fq_FromOffset fq = hw_of (bk_store (sv_core s)) q"
    and x: "x = log_entry nrm (tk_now' t) (hw_of (bk_store (sv_core s)) q) (norm_record r)"
    and small: "length (ProduceRequest_Encode pq) < maxFrameBytes" "length (FetchRequest_Encode fq) < maxFrameBytes"
      "buf32 (fetchPayload (stored_response fq [x]))"
      "length (FetchResponse_Encode (en_compress e) (stored_response fq [x])) + 1 < maxFrameBytes"
    and conn: "cn_phase c = Serving p" "cn_w c = ([], [])"
      "cn_in c = WriteFrame OpProduce (ProduceRequest_Encode pq) @ WriteFrame OpFetch (FetchRequest_Encode fq)"
  shows "\<exists>s' c' body1 body2 rest codec. serve_run e [t, t'] (s, c) = (s', c')
    \<and> ReadResponse (fst (cn_w c')) OpProduce = Inr (body1, rest)
    \<and> DecodeProduceResponse body1 = Inr \<lparr>ps_Offset = hw_of (bk_store (sv_core s)) q\<rparr>
    \<and> ReadResponse rest OpFetch = Inr (body2, [])
    \<and> DecodeFetchResponse ub body2 = Inr \<lparr>fs_Records = [delivered (tk_now' t) (hw_of (bk_store (sv_core s)) q) r], fs_Codec = codec\<rparr>"
proof -
  define off where "off = hw_of (bk_store (sv_core s)) q"
  have off64: "int64_ok off" "0 \<le> off" using req(3,6) hw_nonneg [OF env(1)] by (simp_all add: wf_FetchRequest_def off_def)
  have buf: "buf32 (ProduceRequest_Encode pq)" "buf32 (FetchRequest_Encode fq)" using small(1,2) by (simp_all add: buf32_def maxFrameBytes_def)
  obtain b where prod: "handleProduce e t s p (ProduceRequest_Encode pq) = (set_core s b, respond OpProduce (ProduceResponse_Encode \<lparr>ps_Offset = off\<rparr>))"
    and b: "inv (bk_store b)" "log_of (bk_store b) q = log_of (bk_store (sv_core s)) q @ [x]" "bk_registry b = bk_registry (sv_core s)"
    unfolding x off_def req(1)
    by (rule handleProduce_new [OF env(1,2) ok grants(1,3) req(2) [unfolded req(1)] buf(1) [unfolded req(1)]]) blast
  have xoff: "r_Offset x = off" by (simp add: x log_entry_def nrm_keeps off_def)
  have only: "take (nat (if fq_MaxRecords fq \<le> 0 then 1 else fq_MaxRecords fq))
      (filter (\<lambda>r. fq_FromOffset fq \<le> r_Offset r) (log_of (bk_store (sv_core (set_core s b))) q)) = [x]"
    using new_record_only [OF env(1) b(2) xoff [unfolded off_def]] by (simp add: set_core_def req(6))
  have valid: "bk_validate (sv_core (set_core s b)) q = Inr ()" "addressable q"
    using ok(1) bk_validate_cong [of b "sv_core s" q] b(3) by (auto simp: set_core_def pub_ok_def)
  have s1: "inv (bk_store (sv_core (set_core s b)))" "sv_authorizer (set_core s b) p ActionConsume (p_Topic q) = Inr ()"
    "map_of (sv_fetchQuotas (set_core s b)) (pr_Subject p) = None"
    using b(1) grants(2,4) by (simp_all add: set_core_def)
  have "0 \<le> fq_FromOffset fq" using off64(2) by (simp add: req(6) off_def)
  from handleFetch_records [OF s1(1) env(2) valid s1(2,3) req(3) buf(2) req(4,5) this, of t', unfolded only]
  obtain s2 where fetch: "handleFetch e t' (set_core s b) p (FetchRequest_Encode fq)
      = (s2, respond OpFetch (FetchResponse_Encode (en_compress e) (stored_response fq [x])))" by auto
  obtain c' rest where "serve_run e [t, t'] (s, c) = (s2, c')"
    "ReadResponse (fst (cn_w c')) OpProduce = Inr (ProduceResponse_Encode \<lparr>ps_Offset = off\<rparr>, rest)"
    "ReadResponse rest OpFetch = Inr (FetchResponse_Encode (en_compress e) (stored_response fq [x]), [])"
    by (rule two_requests [OF conn small(1,2) _ _ _ small(4), of e t s "set_core s b" "ProduceResponse_Encode \<lparr>ps_Offset = off\<rparr>" t' s2])
      (use prod fetch in \<open>simp_all add: ProduceResponse_Encode_def maxFrameBytes_def\<close>)
  note run = this
  have dec1: "DecodeProduceResponse (ProduceResponse_Encode \<lparr>ps_Offset = off\<rparr>) = Inr \<lparr>ps_Offset = off\<rparr>"
    using ProduceResponse.Decode_Encode [of "\<lparr>ps_Offset = off\<rparr>"] off64(1) by (simp add: buf32_def ProduceResponse_Encode_def)
  have "wf_record x"
    using off64 ok(1) req(1,2) xoff
    by (simp add: wf_record_def x log_entry_def nrm_keeps timed_def pub_ok_def wf_ProduceRequest_def norm_record_def)
  then have "wf_FetchResponse (stored_response fq [x])" using small(3) by (simp add: wf_FetchResponse_def stored_response_def)
  from FetchResponse_decode [OF env(3) this] have dec2: "\<exists>codec. DecodeFetchResponse ub (FetchResponse_Encode (en_compress e) (stored_response fq [x]))
      = Inr \<lparr>fs_Records = [delivered (tk_now' t) off r], fs_Codec = codec\<rparr>"
    using log_entry_delivered [of nrm "tk_now' t" off r, OF nrm_norm] by (simp add: stored_response_def x off_def)
  show ?thesis using run dec1 dec2 unfolding off_def [symmetric] by blast
qed

end

text \<open>
  C3: End to end over the wire: a client with the grants for a topic of a disk broker that writes a produce request and a
  fetch request to its connection reads back two responses. The first decodes to the offset at the end of the
  partition, the second to exactly the record it sent, at that offset, with the missing timestamp filled
  in and nil for empty byte slices; compressed or not, for any LZ4 library that inverts itself.
\<close>

theorem produce_fetch_end_to_end:
  fixes e :: "(FileStore, 'o, 'r) env" and q :: PartitionRef and t :: tick and r :: Record
  assumes "file_inv (bk_store (sv_core s))" "en_store e = file_ops" "lz4_library (en_compress e) ub"
    and "pub_ok file_ops file_fits file_addressable (tk_now t) (tk_now' t) (sv_core s) q (norm_record r)"
      "dedup_lookup (producerIdempKey (norm_record r)) (pub_state (tk_now t) (sv_core s) q (norm_record r)) = None"
    and "sv_authorizer s p ActionProduce (p_Topic q) = Inr ()" "sv_authorizer s p ActionConsume (p_Topic q) = Inr ()"
      "map_of (sv_produceQuotas s) (pr_Subject p) = None" "map_of (sv_fetchQuotas s) (pr_Subject p) = None"
    and "pq = \<lparr>pq_Topic = p_Topic q, pq_Partition = p_Index q, pq_Record = r\<rparr>" "wf_ProduceRequest pq" "wf_FetchRequest fq"
      "fq_Topic fq = p_Topic q" "fq_Partition fq = p_Index q" "fq_FromOffset fq = file_hw (bk_store (sv_core s)) q"
    and "x = log_entry norm_record (tk_now' t) (file_hw (bk_store (sv_core s)) q) (norm_record r)"
    and "length (ProduceRequest_Encode pq) < maxFrameBytes" "length (FetchRequest_Encode fq) < maxFrameBytes"
      "buf32 (fetchPayload (stored_response fq [x]))"
      "length (FetchResponse_Encode (en_compress e) (stored_response fq [x])) + 1 < maxFrameBytes"
    and "cn_phase c = Serving p" "cn_w c = ([], [])"
      "cn_in c = WriteFrame OpProduce (ProduceRequest_Encode pq) @ WriteFrame OpFetch (FetchRequest_Encode fq)"
  shows "\<exists>s' c' body1 body2 rest codec. serve_run e [t, t'] (s, c) = (s', c')
    \<and> ReadResponse (fst (cn_w c')) OpProduce = Inr (body1, rest)
    \<and> DecodeProduceResponse body1 = Inr \<lparr>ps_Offset = file_hw (bk_store (sv_core s)) q\<rparr>
    \<and> ReadResponse rest OpFetch = Inr (body2, [])
    \<and> DecodeFetchResponse ub body2 = Inr \<lparr>fs_Records = [delivered (tk_now' t) (file_hw (bk_store (sv_core s)) q) r], fs_Codec = codec\<rparr>"
  using assms by (rule fil.produce_fetch_run)

definition cl_env :: "(FileStore, entries, unit) env" where
  "cl_env = \<lparr>en_store = file_ops, en_snapper = None, en_offsets = mos_ops,
     en_raft = \<lparr>ro_Members = (\<lambda>_. []), ro_NodeID = (\<lambda>_. []), ro_LeaderAddr = (\<lambda>_. []), ro_AddVoter = (\<lambda>r _ _. (r, Inr ())),
       ro_RemoveVoter = (\<lambda>r _. (r, Inr ()))\<rparr>,
     en_compress = (\<lambda>_ _. Inl EOF), en_uncompress = (\<lambda>_ _. Inl EOF), en_refill = (\<lambda>_ _. 0)\<rparr>"

definition cl_server :: "(FileStore, entries, unit) Server" where
  "cl_server = NewServer (NewBroker (NewFileStore [''d''] 10) sample_registry None 0 []) None ()"

definition cl_tick :: tick where
  "cl_tick = \<lparr>tk_now = 1, tk_now' = 1, tk_fresh = [], tk_beat = BeatTimer\<rparr>"

definition cl_produce :: ProduceRequest where
  "cl_produce = \<lparr>pq_Topic = ''t'', pq_Partition = 0, pq_Record = sample_idemp\<rparr>"

definition cl_fetch :: FetchRequest where
  "cl_fetch = \<lparr>fq_Topic = ''t'', fq_Partition = 0, fq_FromOffset = 0, fq_MaxRecords = 5, fq_MaxWaitMs = 0, fq_AcceptCodec = CodecLZ4\<rparr>"

definition cl_conn :: conn where
  "cl_conn = \<lparr>cn_in = WriteFrame OpProduce (ProduceRequest_Encode cl_produce) @ WriteFrame OpFetch (FetchRequest_Encode cl_fetch),
     cn_w = ([], []), cn_phase = Serving Anonymous\<rparr>"

lemma cl_norm: "norm_record sample_idemp = sample_idemp"
  by (simp add: sample_idemp_def sample_record_def norm_record_def norm_header_def norm_bytes_Some)

theorem produce_fetch_end_to_end_witness:
  "\<exists>s' c' body1 body2 rest codec. serve_run cl_env [cl_tick, cl_tick] (cl_server, cl_conn) = (s', c')
    \<and> ReadResponse (fst (cn_w c')) OpProduce = Inr (body1, rest) \<and> DecodeProduceResponse body1 = Inr \<lparr>ps_Offset = 0\<rparr>
    \<and> ReadResponse rest OpFetch = Inr (body2, [])
    \<and> DecodeFetchResponse (\<lambda>_ _. Inl EOF) body2 = Inr \<lparr>fs_Records = [delivered 1 0 sample_idemp], fs_Codec = codec\<rparr>"
proof -
  let ?b = "NewBroker (NewFileStore [''d''] 10) sample_registry None 0 []"
  have ok: "pub_ok file_ops file_fits file_addressable 1 1 ?b sample_part sample_idemp" by (rule sample_pub_ok) (simp_all add: NewBroker_def)
  have nw: "dedup_lookup (producerIdempKey sample_idemp) (pub_state 1 ?b sample_part sample_idemp) = None"
    by (simp add: sample_key dedup_lookup_def pub_state_def evictStaleDedupLocked_def part_state_def NewBroker_def)
  have x: "log_entry norm_record 1 0 sample_idemp = sample_idemp"
    by (simp add: log_entry_def timed_def) (simp add: sample_idemp_def sample_record_def norm_record_def norm_header_def norm_bytes_Some)
  have hw: "file_hw (bk_store ?b) sample_part = 0" by (simp add: NewBroker_def new_file_store)
  have len: "length (encodeRecord [] sample_idemp) < 200"
    by (simp add: length_encodeRecord sample_idemp_def sample_record_def HeaderProducerID_def HeaderProducerSeq_def)
  have sizes: "length (ProduceRequest_Encode cl_produce) < maxFrameBytes" "length (FetchRequest_Encode cl_fetch) < maxFrameBytes"
    "buf32 (fetchPayload (stored_response cl_fetch [sample_idemp]))"
    "length (FetchResponse_Encode (\<lambda>_ _. Inl EOF) (stored_response cl_fetch [sample_idemp])) + 1 < maxFrameBytes"
    using len by (simp_all add: cl_produce_def cl_fetch_def ProduceRequest_Encode_def FetchRequest_Encode_def FetchResponse_Encode_def stored_response_def
        fetchPayload_def maxFrameBytes_def buf32_def Let_def lz4Compress_def lz4CompressLevel_def encodeRecord_append encodeFramedRecord_eq)
  have srv: "sv_core cl_server = ?b" "sv_authorizer cl_server = AllowAllAuthorizer" "sv_produceQuotas cl_server = []" "sv_fetchQuotas cl_server = []"
    by (simp_all add: cl_server_def NewServer_def)
  have en: "en_store cl_env = file_ops" "en_compress cl_env = (\<lambda>_ _. Inl EOF)" by (simp_all add: cl_env_def)
  have tk: "tk_now cl_tick = 1" "tk_now' cl_tick = 1" by (simp_all add: cl_tick_def)
  have inv0: "file_inv (bk_store ?b)" by (simp add: NewBroker_def new_file_store)
  note main = produce_fetch_end_to_end [of cl_server cl_env "\<lambda>_ _. Inl EOF" cl_tick sample_part sample_idemp Anonymous cl_produce cl_fetch
      sample_idemp cl_conn cl_tick, unfolded srv en tk cl_norm hw, OF inv0 refl _ ok nw]
  show ?thesis
    by (rule main) (use x sizes in \<open>simp_all add: lz4_library_def AllowAllAuthorizer_def cl_produce_def cl_fetch_def cl_conn_def sample_part_def
        wf_ProduceRequest_def wf_FetchRequest_def int32_ok_def int64_ok_def wf_record_def sample_idemp_def sample_record_def\<close>)
qed

end
