(* ===== verification/Store_Bootstrap.thy ===== *)
theory Store_Bootstrap
  imports Store_Properties Wire_Data
begin

text \<open>
  Seeding the data directory of a new broker from a peer (\<^verbatim>\<open>broker/embed/bootstrap.go\<close>): the peer lists the
  segment files of a partition with their sizes, and each file is fetched chunk by chunk up to the listed
  size. The peer is the interface \<^verbatim>\<open>PartitionSnapshotter\<close>; the one proved about is a disk store, whose
  listing syncs every segment first. The chunk loop ends for every peer, because an empty chunk stops it
  and any other chunk moves its offset; what the opened copy serves is stated exactly, its high water
  included.
\<close>

section \<open>The peer\<close>

record 'st PartitionSnapshotter =
  sp_ListSegments :: "'st \<Rightarrow> PartitionRef \<Rightarrow> 'st \<times> SegmentInfo list result"
  sp_FetchSegmentChunk :: "'st \<Rightarrow> PartitionRef \<Rightarrow> int \<Rightarrow> byte \<Rightarrow> int \<Rightarrow> int \<Rightarrow> 'st \<times> bytes result"

definition file_snapshotter :: "FileStore PartitionSnapshotter" where
  "file_snapshotter = \<lparr>
     sp_ListSegments = (\<lambda>s p. case file_ListSegments None s p of
         (s, Inl e) \<Rightarrow> (s, Inl e)
       | (s, Inr infos) \<Rightarrow> (s, Inr (map (\<lambda>i. \<lparr>si_Base = ss_Base i, si_LogSize = int (ss_LogSize i),
             si_IdxSize = int (ss_IdxSize i)\<rparr>) infos))),
     sp_FetchSegmentChunk = file_FetchSegmentChunk None\<rparr>"

section \<open>The copy\<close>

definition bootstrapChunkSize :: int where
  "bootstrapChunkSize = 2 ^ 20"

definition want_bytes :: "int \<Rightarrow> int \<Rightarrow> int" where
  "want_bytes listedSize offset =
     (let want = listedSize - offset in if bootstrapChunkSize < want then bootstrapChunkSize else want)"

text \<open>\<^verbatim>\<open>os.Create\<close> truncates a file that exists.\<close>

definition os_Create :: "dir \<Rightarrow> string \<Rightarrow> dir \<times> os_File" where
  "os_Create d name = (AList.update name \<lparr>fl_data = [], fl_synced = 0\<rparr> d, \<lparr>f_pos = 0, f_append = False, f_rdonly = False\<rparr>)"

function fetch_loop :: "'st PartitionSnapshotter \<Rightarrow> PartitionRef \<Rightarrow> int \<Rightarrow> byte \<Rightarrow> int \<Rightarrow> string
    \<Rightarrow> 'st \<Rightarrow> dir \<Rightarrow> os_File \<Rightarrow> int \<Rightarrow> 'st \<times> dir \<times> unit result" where
  "fetch_loop peer p base wireKind listedSize path st d f offset =
     (if offset < listedSize then
        (case sp_FetchSegmentChunk peer st p base wireKind offset (int32_of (uint32_of (want_bytes listedSize offset))) of
           (st, Inl e) \<Rightarrow> (st, d, Inl (ErrWrap ''embed: fetch chunk'' e))
         | (st, Inr chunk) \<Rightarrow>
             if length chunk = 0 then (st, d, Inr ())
             else let (d, f) = os_Write d path f chunk
                  in fetch_loop peer p base wireKind listedSize path st d f (offset + int (length chunk)))
      else (st, d, Inr ()))"
  by pat_completeness auto
termination
  by (relation "measure (\<lambda>(peer, p, base, wireKind, listedSize, path, st, d, f, offset). nat (listedSize - offset))") auto

declare fetch_loop.simps [simp del]

definition fetchSegmentFile :: "'st PartitionSnapshotter \<Rightarrow> PartitionRef \<Rightarrow> int \<Rightarrow> byte \<Rightarrow> int
    \<Rightarrow> 'st \<Rightarrow> dir \<Rightarrow> 'st \<times> dir \<times> unit result" where
  "fetchSegmentFile peer p base kind listedSize st d =
     (let path = SegmentFileName base kind;
          (d, f) = os_Create d path;
          wireKind = (if kind = SegmentIdx then SegmentIdx else SegmentLog)
      in case fetch_loop peer p base wireKind listedSize path st d f 0 of
           (st, d, Inl e) \<Rightarrow> (st, d, Inl e)
         | (st, d, Inr _) \<Rightarrow> (st, os_Sync d path, Inr ()))"

primrec fetch_segments :: "'st PartitionSnapshotter \<Rightarrow> PartitionRef \<Rightarrow> SegmentInfo list \<Rightarrow> int
    \<Rightarrow> 'st \<Rightarrow> dir \<Rightarrow> 'st \<times> dir \<times> int \<times> go_error option" where
  "fetch_segments peer p [] written st d = (st, d, written, None)"
| "fetch_segments peer p (info # infos) written st d =
     (if si_LogSize info = 0 \<and> si_IdxSize info = 0 then fetch_segments peer p infos written st d
      else case fetchSegmentFile peer p (si_Base info) SegmentLog (si_LogSize info) st d of
             (st, d, Inl e) \<Rightarrow> (st, d, written, Some e)
           | (st, d, Inr _) \<Rightarrow>
               (case fetchSegmentFile peer p (si_Base info) SegmentIdx (si_IdxSize info) st d of
                  (st, d, Inl e) \<Rightarrow> (st, d, written + 1, Some e)
                | (st, d, Inr _) \<Rightarrow> fetch_segments peer p infos (written + 2) st d))"

text \<open>The directory tree under \<^verbatim>\<open>dataDir\<close> is the association list a disk store keeps.\<close>

definition BootstrapPartitionFromPeer :: "'st PartitionSnapshotter option \<Rightarrow> path \<Rightarrow> PartitionRef \<Rightarrow> 'st \<Rightarrow> (path \<times> dir) list
    \<Rightarrow> 'st \<times> (path \<times> dir) list \<times> int \<times> go_error option" where
  "BootstrapPartitionFromPeer peer dataDir p st tree =
     (case peer of
        None \<Rightarrow> (st, tree, 0, Some (ErrNew ''embed: BootstrapPartitionFromPeer needs a non-nil peer''))
      | Some peer \<Rightarrow>
     (case sp_ListSegments peer st p of
        (st, Inl e) \<Rightarrow> (st, tree, 0, Some (ErrWrap ''embed: list segments'' e))
      | (st, Inr infos) \<Rightarrow>
     (if length infos = 0 then (st, tree, 0, None)
      else let dir = PartitionDir dataDir p;
               d = (case map_of tree dir of None \<Rightarrow> [] | Some d \<Rightarrow> d)
           in case fetch_segments peer p infos 0 st d of
                (st, d, written, err) \<Rightarrow> (st, AList.update dir d tree, written, err))))"

section \<open>Snapshots of a segment\<close>

lemma snapshotSync_repr:
  assumes r: "seg_repr d s rs" and e: "at_end d s" and b: "int64_ok (sg_baseOffset s)"
  shows "\<exists>d' s'. seg_snapshotSync d s = Inr (d', s') \<and> seg_repr d' s' rs \<and> at_end d' s'
    \<and> sg_logBuf s' = map_option (\<lambda>_. []) (sg_logBuf s)
    \<and> s' = s\<lparr>sg_logBuf := sg_logBuf s', sg_logFile := sg_logFile s'\<rparr>
    \<and> f_append (sg_logFile s') = f_append (sg_logFile s)
    \<and> same_except (insert (seg_logPath s) (idx_names s)) d d'
    \<and> map_of d' (seg_logPath s) = Some \<lparr>fl_data = frames rs, fl_synced = length (frames rs)\<rparr>
    \<and> map_of d' (seg_idxPath s)
        = Some \<lparr>fl_data = index_writeTo (sg_idx s), fl_synced = length (index_writeTo (sg_idx s))\<rparr>"
proof -
  obtain d1 s1 where fl: "seg_flushIfActive d s = (d1, s1)" by fastforce
  note fl1 = flush_repr [OF r e fl]
  have sel: "seg_logPath s1 = seg_logPath s" "seg_idxPath s1 = seg_idxPath s" "sg_idx s1 = sg_idx s"
    by (subst fl1(6), simp add: seg_logPath_def seg_idxPath_def)+
  define d2 where "d2 = os_Sync d1 (seg_logPath s)"
  obtain d3 where d3: "seg_persistIndex d2 s1 = Inr d3" "same_except (idx_names s) d2 d3"
    "map_of d3 (seg_idxPath s)
      = Some \<lparr>fl_data = index_writeTo (sg_idx s), fl_synced = length (index_writeTo (sg_idx s))\<rparr>"
    using persistIndex_run [of d2 s1] by (auto simp: sel idx_names_def)
  obtain fl where f: "map_of d1 (seg_logPath s) = Some fl"
    using fl1(1) sel by (auto simp: seg_repr_def)
  have log: "seg_logPath s \<notin> idx_names s" by (rule logPath_not_idx [OF b b])
  have d12: "same_except {seg_logPath s} d d2"
    using fl1(4) by (simp add: same_except_def d2_def map_of_os_Sync)
  have m: "map_of d3 (seg_logPath s) = Some \<lparr>fl_data = frames rs, fl_synced = length (frames rs)\<rparr>"
    using same_exceptD [OF d3(2) log] f fl1(3) by (simp add: d2_def map_of_os_Sync file_data_def)
  then have "file_data d3 (seg_logPath s) = file_data d1 (seg_logPath s)" "map_of d3 (seg_logPath s) \<noteq> None"
    using fl1(3) by (simp_all add: file_data_def)
  then have "seg_repr d3 s1 rs" "at_end d3 s1"
    using fl1(1,2) by (simp_all add: seg_repr_def at_end_def sel)
  moreover have "seg_snapshotSync d s = Inr (d3, s1)"
    by (simp add: seg_snapshotSync_def fl Let_def sel d2_def [symmetric] d3(1))
  moreover have "same_except (insert (seg_logPath s) (idx_names s)) d d3"
    using same_except_trans [OF d12 d3(2)] by simp
  ultimately show ?thesis
    using fl1(5,6,7) m d3(3) by (intro exI [of _ d3] exI [of _ s1]) simp
qed

text \<open>Both files of a segment are on disk, whole and synced.\<close>

definition whole_file :: "bytes \<Rightarrow> disk_file" where
  "whole_file b = \<lparr>fl_data = b, fl_synced = length b\<rparr>"

definition seg_files :: "dir \<Rightarrow> segment \<Rightarrow> Record list \<Rightarrow> bool" where
  "seg_files d s rs \<longleftrightarrow> map_of d (seg_logPath s) = Some (whole_file (frames rs))
     \<and> map_of d (seg_idxPath s) = Some (whole_file (index_writeTo (sg_idx s)))"

definition seg_names :: "segment \<Rightarrow> string set" where
  "seg_names s = insert (seg_logPath s) (idx_names s)"

lemma seg_names_disjoint:
  assumes "seg_plain s" "seg_plain t" "sg_baseOffset s \<noteq> sg_baseOffset t"
  shows "seg_names s \<inter> seg_names t = {}"
proof -
  have len: "length (segmentIndexName (sg_baseOffset s)) = 24" "length (segmentIndexName (sg_baseOffset t)) = 24"
    using assms by (simp_all add: seg_plain_def segment_name_length)
  have "segmentIndexName (sg_baseOffset s) \<noteq> segmentIndexName (sg_baseOffset t)"
    using assms by (simp add: seg_plain_def segmentIndexName_def fmt_0d_inject)
  moreover have "segmentIndexName (sg_baseOffset s) \<noteq> segmentIndexName (sg_baseOffset t) @ ''.tmp''"
    "segmentIndexName (sg_baseOffset s) @ ''.tmp'' \<noteq> segmentIndexName (sg_baseOffset t)"
    by (metis len add_cancel_left_right length_append length_0_conv list.distinct(1))+
  ultimately have "idx_names s \<inter> idx_names t = {}"
    using assms(1,2) by (auto simp: idx_names_def seg_plain_path)
  then show ?thesis
    using assms seg_plain_path_inject [OF assms] seg_plain_log_not_idx [of s t] seg_plain_log_not_idx [of t s]
    by (auto simp: seg_names_def)
qed

lemma seg_files_same:
  assumes "seg_files d s rs" "same_except ns d d'" "seg_names s \<inter> ns = {}"
  shows "seg_files d' s rs"
proof -
  have "seg_logPath s \<notin> ns" "seg_idxPath s \<notin> ns" using assms(3) by (auto simp: seg_names_def idx_names_def)
  with assms(1) same_exceptD [OF assms(2)] show ?thesis by (simp add: seg_files_def)
qed

lemma seg_moved_idx: "seg_moved s s' \<Longrightarrow> sg_idx s' = sg_idx s"
  by (cases s; cases s') (simp add: seg_moved_def)

lemma sync_segments_run:
  assumes "segs_repr d ss rss" "list_all (at_end d) ss"
  shows "\<exists>d' ss'. sync_segments ss d = Inr (d', ss') \<and> list_all2 seg_moved ss ss' \<and> segs_repr d' ss' rss
    \<and> list_all (at_end d') ss' \<and> list_all2 (seg_files d') ss' rss \<and> same_except (\<Union> (seg_names ` set ss)) d d'"
  using assms
proof (induction ss arbitrary: d rss)
  case Nil
  then show ?case by (simp add: segs_repr_def)
next
  case (Cons s ss)
  from Cons.prems(1) obtain rs rss' where rss: "rss = rs # rss'" by (cases rss) (auto simp: segs_repr_def)
  have r: "segs_repr d ss rss'" "seg_repr d s rs" "fits32 (sg_baseOffset s) rs" "seg_plain s" "list_all (\<lambda>t. seg_before s t) ss"
    and e: "at_end d s" "list_all (at_end d) ss"
    using Cons.prems by (simp_all add: rss segs_repr_Cons)
  have plain: "seg_plain t" "sg_baseOffset s \<noteq> sg_baseOffset t" if "t \<in> set ss" for t
    using r(1,5) that by (auto simp: segs_repr_def list_all_iff seg_before_def)
  have disj: "seg_names s \<inter> seg_names t = {}" if "t \<in> set ss" for t
    using seg_names_disjoint [OF r(4) plain [OF that]] .
  obtain d1 s1 where one: "seg_snapshotSync d s = Inr (d1, s1)" "seg_repr d1 s1 rs" "at_end d1 s1"
      "seg_moved s s1" "same_except (seg_names s) d d1" "seg_files d1 s1 rs"
  proof -
    have "int64_ok (sg_baseOffset s)" using r(4) by (simp add: seg_plain_def)
    from snapshotSync_repr [OF r(2) e(1) this] obtain d1 s1 where one: "seg_snapshotSync d s = Inr (d1, s1)"
      "seg_repr d1 s1 rs" "at_end d1 s1" "sg_logBuf s1 = map_option (\<lambda>_. []) (sg_logBuf s)"
      "s1 = s\<lparr>sg_logBuf := sg_logBuf s1, sg_logFile := sg_logFile s1\<rparr>" "f_append (sg_logFile s1) = f_append (sg_logFile s)"
      "same_except (insert (seg_logPath s) (idx_names s)) d d1"
      "map_of d1 (seg_logPath s) = Some \<lparr>fl_data = frames rs, fl_synced = length (frames rs)\<rparr>"
      "map_of d1 (seg_idxPath s) = Some \<lparr>fl_data = index_writeTo (sg_idx s), fl_synced = length (index_writeTo (sg_idx s))\<rparr>"
      by blast
    have mv: "seg_moved s s1" using one(4-6) by (simp add: seg_moved_def)
    have "seg_files d1 s1 rs"
      using one(8,9) seg_moved_sel [OF mv] seg_moved_idx [OF mv] by (simp add: seg_files_def whole_file_def)
    with one mv that show thesis by (simp add: seg_names_def)
  qed
  have out: "seg_logPath t \<notin> seg_names s" if "t \<in> set ss" for t
    using disj [OF that] by (auto simp: seg_names_def)
  have "list_all (at_end d1) ss"
    using e(2) at_end_same [OF _ one(5)] out by (simp add: list_all_iff)
  from Cons.IH [OF segs_repr_same [OF r(1) one(5) out] this] obtain d' ss' where
    IH: "sync_segments ss d1 = Inr (d', ss')" "list_all2 seg_moved ss ss'" "segs_repr d' ss' rss'"
      "list_all (at_end d') ss'" "list_all2 (seg_files d') ss' rss'" "same_except (\<Union> (seg_names ` set ss)) d1 d'"
    by blast
  note sel = seg_moved_sel [OF one(4)]
  have names: "seg_names s1 = seg_names s" by (simp add: seg_names_def idx_names_def sel)
  have d1: "seg_names s1 \<inter> \<Union> (seg_names ` set ss) = {}" using disj names by auto
  then have o1: "seg_logPath s1 \<notin> \<Union> (seg_names ` set ss)" by (auto simp: seg_names_def)
  have "list_all (\<lambda>t. seg_before s1 t) ss'"
    using IH(2) r(5) sel seg_moved_sel by (fastforce simp: list_all2_conv_all_nth list_all_length seg_before_def)
  then have "segs_repr d' (s1 # ss') (rs # rss')"
    using IH(3) seg_repr_same [OF one(2) IH(6) o1] r(3,4) sel by (simp add: segs_repr_Cons)
  moreover have "same_except (\<Union> (seg_names ` set (s # ss))) d d'"
    using same_except_trans [OF one(5) IH(6)] by simp
  ultimately show ?case
    using IH one at_end_same [OF one(3) IH(6) o1] seg_files_same [OF one(6) IH(6) d1]
    by (intro exI [of _ d'] exI [of _ "s1 # ss'"]) (simp add: rss)
qed

lemma dir_clean_names:
  assumes "dir_clean d (sg_baseOffset ` S)" "same_except (\<Union> (seg_names ` S)) d d'" "\<And>s. s \<in> S \<Longrightarrow> seg_plain s"
  shows "dir_clean d' (sg_baseOffset ` S)"
  unfolding dir_clean_def
proof (intro allI impI)
  fix n assume n: "map_of d' n \<noteq> None"
  show "(\<exists>b\<in>sg_baseOffset ` S. n = segmentLogName b) \<or>
    (\<exists>b. int64_ok b \<and> (n = segmentIndexName b \<or> n = segmentIndexName b @ ''.tmp''))"
  proof (cases "n \<in> \<Union> (seg_names ` S)")
    case True
    then obtain s where s: "s \<in> S" "n \<in> seg_names s" by auto
    have "seg_plain s" by (rule assms(3) [OF s(1)])
    moreover from this have "int64_ok (sg_baseOffset s)" by (simp add: seg_plain_def)
    ultimately show ?thesis
      using s by (auto simp: seg_names_def idx_names_def seg_plain_path)
  next
    case False
    with assms(1) n same_exceptD [OF assms(2)] show ?thesis by (simp add: dir_clean_def)
  qed
qed

definition seg_info :: "segment \<Rightarrow> SegmentSnapshot" where
  "seg_info s = \<lparr>ss_Base = sg_baseOffset s, ss_LogSize = sg_size s, ss_IdxSize = index_sizeBytes (sg_idx s)\<rparr>"

lemma Snapshot_run:
  assumes inv: "log_inv (d, l) rss"
  shows "\<exists>d' l'. part_Snapshot d l = Inr (d', l', map seg_info (pl_segments l')) \<and> log_inv (d', l') rss
    \<and> list_all2 (seg_files d') (pl_segments l') rss \<and> part_HighWater l' = part_HighWater l"
proof -
  have p: "part_repr d l rss" "at_end d (active l)" "f_append (sg_logFile (active l))" using inv by (simp_all add: log_inv_def)
  have ne: "pl_segments l \<noteq> []" and r: "segs_repr d (pl_segments l) rss" and sl: "list_all (sealed_on d) (butlast (pl_segments l))"
    and act: "sg_logBuf (active l) \<noteq> None" and clean: "dir_clean d (sg_baseOffset ` set (pl_segments l))"
    using p(1) by (simp_all add: part_repr_def)
  have "list_all (at_end d) (butlast (pl_segments l) @ [active l])"
    using sl p(2) by (auto simp: list_all_iff sealed_on_def at_end_def)
  then have e: "list_all (at_end d) (pl_segments l)" using ne by simp
  from sync_segments_run [OF r e] obtain d' ss' where run: "sync_segments (pl_segments l) d = Inr (d', ss')"
      "list_all2 seg_moved (pl_segments l) ss'" "segs_repr d' ss' rss" "list_all (at_end d') ss'"
      "list_all2 (seg_files d') ss' rss" "same_except (\<Union> (seg_names ` set (pl_segments l))) d d'"
    by blast
  let ?l = "l\<lparr>pl_segments := ss'\<rparr>"
  have len: "length ss' = length (pl_segments l)" using run(2) by (simp add: list_all2_lengthD)
  have mv: "seg_moved (pl_segments l ! i) (ss' ! i)" if "i < length ss'" for i
    using run(2) that len by (simp add: list_all2_conv_all_nth)
  have "map sg_baseOffset ss' = map sg_baseOffset (pl_segments l)"
    by (rule nth_equalityI) (simp_all add: len seg_moved_sel(1) [OF mv])
  then have bases: "sg_baseOffset ` set ss' = sg_baseOffset ` set (pl_segments l)"
    unfolding set_map [symmetric] by simp
  have plain: "seg_plain s" if "s \<in> set (pl_segments l)" for s using r that by (simp add: segs_repr_def list_all_iff)
  have ne': "ss' \<noteq> []" using ne len by auto
  have last: "seg_moved (active l) (last ss')"
    using mv [of "length ss' - 1"] ne ne' len by (simp add: last_conv_nth)
  have "list_all (sealed_on d') (butlast ss')"
  proof (clarsimp simp: list_all_length nth_butlast)
    fix i assume i: "i < length ss' - Suc 0"
    have "sealed_on d (butlast (pl_segments l) ! i)" using sl i len by (simp add: list_all_length)
    then have "sg_logBuf (ss' ! i) = None"
      using mv [of i] i len by (simp add: nth_butlast sealed_on_def seg_moved_def)
    moreover have "seg_files d' (ss' ! i) (rss ! i)" using run(5) i by (simp add: list_all2_conv_all_nth)
    ultimately show "sealed_on d' (ss' ! i)" by (simp add: sealed_on_def seg_files_def whole_file_def)
  qed
  moreover have "dir_clean d' (sg_baseOffset ` set ss')"
    unfolding bases by (rule dir_clean_names [OF clean run(6) plain])
  ultimately have "part_repr d' ?l rss"
    using run(3) ne' act seg_moved_sel(7) [OF last] by (simp add: part_repr_def)
  moreover have hw: "part_HighWater ?l = part_HighWater l"
    using ne ne' seg_moved_sel(2) [OF last] by (simp add: part_HighWater_def)
  moreover have "at_end d' (last ss')" using run(4) ne' by (simp add: list_all_iff)
  ultimately have "log_inv (d', ?l) rss"
    using inv seg_moved_sel(8) [OF last] by (simp add: log_inv_def)
  with run(1,5) hw show ?thesis
    by (intro exI [of _ d'] exI [of _ ?l]) (simp add: part_Snapshot_def seg_info_def)
qed

section \<open>The chunk loop\<close>

lemma want_bytes_int32: "offset < listedSize \<Longrightarrow> int32_of (uint32_of (want_bytes listedSize offset)) = want_bytes listedSize offset"
  by (intro int32_of_uint32_of) (simp add: want_bytes_def bootstrapChunkSize_def int32_ok_def Let_def)

text \<open>
  A peer that keeps answering with the ranges of one file fills the local file with that file's bytes.
\<close>

lemma fetch_loop_copies:
  assumes peer: "\<And>n off. 0 < n \<Longrightarrow> 0 \<le> off \<Longrightarrow>
      sp_FetchSegmentChunk peer st p base kind off n = (st, Inr (take (nat n) (drop (nat off) b)))"
    and at: "0 \<le> offset" "offset \<le> int (length b)" "f_pos f = nat offset" "\<not> f_append f"
    and old: "map_of d path = Some \<lparr>fl_data = take (nat offset) b, fl_synced = 0\<rparr>"
  shows "\<exists>d'. fetch_loop peer p base kind (int (length b)) path st d f offset = (st, d', Inr ())
    \<and> map_of d' path = Some \<lparr>fl_data = b, fl_synced = 0\<rparr> \<and> same_except {path} d d'"
  using at old
proof (induction "nat (int (length b) - offset)" arbitrary: offset d f rule: less_induct)
  case less
  show ?case
  proof (cases "offset < int (length b)")
    case False
    then have "offset = int (length b)" using less.prems by simp
    with less.prems show ?thesis by (simp add: fetch_loop.simps)
  next
    case True
    define n where "n = want_bytes (int (length b)) offset"
    define chunk where "chunk = take (nat n) (drop (nat offset) b)"
    have n: "0 < n" "n \<le> int (length b) - offset"
      using True by (simp_all add: n_def want_bytes_def bootstrapChunkSize_def Let_def)
    have len: "int (length chunk) = n" using n less.prems(1) by (simp add: chunk_def)
    obtain d1 f1 where w: "os_Write d path f chunk = (d1, f1)" by fastforce
    have fd: "file_data d path = take (nat offset) b" using less.prems(5) by (simp add: file_data_def)
    have l: "length (take (nat offset) b) = nat offset" using less.prems(2) by simp
    have "take (nat offset) b @ chunk = take (nat (offset + n)) b"
      using n less.prems(1) by (simp add: chunk_def take_add [symmetric] nat_add_distrib)
    then have d1: "map_of d1 path = Some \<lparr>fl_data = take (nat (offset + n)) b, fl_synced = 0\<rparr>" "same_except {path} d d1"
      and f1: "f_pos f1 = nat (offset + n)" "\<not> f_append f1"
      using w less.prems(3,4,5) fd l len less.prems(1) n
      by (auto simp: os_Write_def Let_def map_of_set_data same_except_def nat_add_distrib)
    have step: "fetch_loop peer p base kind (int (length b)) path st d f offset
        = fetch_loop peer p base kind (int (length b)) path st d1 f1 (offset + n)"
    proof -
      have "int32_of (uint32_of (want_bytes (int (length b)) offset)) = n"
        unfolding n_def by (rule want_bytes_int32 [OF True])
      moreover have "sp_FetchSegmentChunk peer st p base kind offset n = (st, Inr chunk)"
        unfolding chunk_def by (rule peer [OF n(1) less.prems(1)])
      moreover have "chunk \<noteq> []" using len n(1) by auto
      ultimately show ?thesis using True w len by (subst fetch_loop.simps) simp
    qed
    have "\<exists>d'. fetch_loop peer p base kind (int (length b)) path st d1 f1 (offset + n) = (st, d', Inr ())
        \<and> map_of d' path = Some \<lparr>fl_data = b, fl_synced = 0\<rparr> \<and> same_except {path} d1 d'"
      using n less.prems(1) d1(1) f1 True by (intro less.hyps) simp_all
    with step same_except_trans [OF d1(2)] show ?thesis by fastforce
  qed
qed

lemma fetchSegmentFile_copies:
  assumes peer: "\<And>n off. 0 < n \<Longrightarrow> 0 \<le> off \<Longrightarrow>
      sp_FetchSegmentChunk peer st p base kind off n = (st, Inr (take (nat n) (drop (nat off) b)))"
    and kind: "kind = SegmentLog \<or> kind = SegmentIdx"
  shows "\<exists>d'. fetchSegmentFile peer p base kind (int (length b)) st d = (st, d', Inr ())
    \<and> map_of d' (SegmentFileName base kind) = Some (whole_file b) \<and> same_except {SegmentFileName base kind} d d'"
proof -
  let ?path = "SegmentFileName base kind"
  have wk: "(if kind = SegmentIdx then SegmentIdx else SegmentLog) = kind" using kind by auto
  define d1 where "d1 = AList.update ?path \<lparr>fl_data = [], fl_synced = 0\<rparr> d"
  have "map_of d1 ?path = Some \<lparr>fl_data = take (nat 0) b, fl_synced = 0\<rparr>" "same_except {?path} d d1"
    by (simp_all add: d1_def same_except_def)
  moreover from this(1) obtain d2 where "fetch_loop peer p base kind (int (length b)) ?path st d1
      \<lparr>f_pos = 0, f_append = False, f_rdonly = False\<rparr> 0 = (st, d2, Inr ())"
    "map_of d2 ?path = Some \<lparr>fl_data = b, fl_synced = 0\<rparr>" "same_except {?path} d1 d2"
    using fetch_loop_copies [OF peer, of 0 "\<lparr>f_pos = 0, f_append = False, f_rdonly = False\<rparr>" d1 ?path] by auto
  ultimately show ?thesis
    by (intro exI [of _ "os_Sync d2 ?path"])
      (auto simp: fetchSegmentFile_def os_Create_def wk d1_def [symmetric] Let_def map_of_os_Sync whole_file_def same_except_def)
qed

section \<open>All segments of a partition\<close>

definition wire_info :: "segment \<Rightarrow> SegmentInfo" where
  "wire_info s = \<lparr>si_Base = sg_baseOffset s, si_LogSize = int (sg_size s), si_IdxSize = int (index_sizeBytes (sg_idx s))\<rparr>"

definition serves :: "'st PartitionSnapshotter \<Rightarrow> 'st \<Rightarrow> PartitionRef \<Rightarrow> segment \<Rightarrow> Record list \<Rightarrow> bool" where
  "serves peer st p s rs \<longleftrightarrow> seg_plain s \<and> sg_size s = length (frames rs) \<and> (rs = [] \<longrightarrow> sg_idx s = [])
     \<and> (\<forall>n off. 0 < n \<and> 0 \<le> off \<longrightarrow>
          sp_FetchSegmentChunk peer st p (sg_baseOffset s) SegmentLog off n = (st, Inr (take (nat n) (drop (nat off) (frames rs))))
        \<and> sp_FetchSegmentChunk peer st p (sg_baseOffset s) SegmentIdx off n
            = (st, Inr (take (nat n) (drop (nat off) (index_writeTo (sg_idx s))))))"

abbreviation filled :: "(segment \<times> Record list) list \<Rightarrow> (segment \<times> Record list) list" where
  "filled ps \<equiv> filter (\<lambda>x. snd x \<noteq> []) ps"

definition pair_names :: "(segment \<times> Record list) list \<Rightarrow> string set" where
  "pair_names ps = (\<Union>x \<in> set ps. {seg_logPath (fst x), seg_idxPath (fst x)})"

lemma frames_ne: "rs \<noteq> [] \<Longrightarrow> 0 < length (frames rs)"
  by (cases rs) simp_all

lemma fetch_segment_copies:
  assumes "serves peer st p s rs"
  shows "\<exists>d1 d2. fetchSegmentFile peer p (sg_baseOffset s) SegmentLog (int (sg_size s)) st d = (st, d1, Inr ())
    \<and> fetchSegmentFile peer p (sg_baseOffset s) SegmentIdx (int (index_sizeBytes (sg_idx s))) st d1 = (st, d2, Inr ())
    \<and> seg_files d2 s rs \<and> same_except {seg_logPath s, seg_idxPath s} d d2"
proof -
  have s: "seg_plain s" "sg_size s = length (frames rs)" using assms by (simp_all add: serves_def)
  have names: "SegmentFileName (sg_baseOffset s) SegmentLog = seg_logPath s" "SegmentFileName (sg_baseOffset s) SegmentIdx = seg_idxPath s"
    using s(1) by (simp_all add: SegmentFileName_def SegmentLog_def SegmentIdx_def seg_plain_path)
  have ne: "seg_logPath s \<noteq> seg_idxPath s"
    using seg_plain_log_not_idx [OF s(1) s(1)] by (simp add: idx_names_def)
  obtain d1 where d1: "fetchSegmentFile peer p (sg_baseOffset s) SegmentLog (int (sg_size s)) st d = (st, d1, Inr ())"
      "map_of d1 (seg_logPath s) = Some (whole_file (frames rs))" "same_except {seg_logPath s} d d1"
    using fetchSegmentFile_copies [of peer st p "sg_baseOffset s" SegmentLog "frames rs" d] assms names s(2)
    by (auto simp: serves_def)
  obtain d2 where d2: "fetchSegmentFile peer p (sg_baseOffset s) SegmentIdx (int (index_sizeBytes (sg_idx s))) st d1 = (st, d2, Inr ())"
      "map_of d2 (seg_idxPath s) = Some (whole_file (index_writeTo (sg_idx s)))" "same_except {seg_idxPath s} d1 d2"
    using fetchSegmentFile_copies [of peer st p "sg_baseOffset s" SegmentIdx "index_writeTo (sg_idx s)" d1] assms names
    by (auto simp: serves_def length_index_writeTo)
  have "seg_files d2 s rs"
    using d1(2) d2(2) same_exceptD [OF d2(3), of "seg_logPath s"] ne by (simp add: seg_files_def)
  moreover have "same_except {seg_logPath s, seg_idxPath s} d d2"
    using same_except_trans [OF d1(3) d2(3)] by (simp add: insert_commute)
  ultimately show ?thesis using d1(1) d2(1) by blast
qed

lemma fetch_segments_copies:
  assumes "\<forall>x \<in> set ps. serves peer st p (fst x) (snd x)" "distinct (map (\<lambda>x. sg_baseOffset (fst x)) ps)"
  shows "\<exists>d'. fetch_segments peer p (map (\<lambda>x. wire_info (fst x)) ps) w st d = (st, d', w + 2 * int (length (filled ps)), None)
    \<and> (\<forall>x \<in> set (filled ps). seg_files d' (fst x) (snd x)) \<and> same_except (pair_names (filled ps)) d d'"
  using assms
proof (induction ps arbitrary: d w)
  case Nil
  then show ?case by simp
next
  case (Cons x ps)
  obtain s rs where x: "x = (s, rs)" by (cases x)
  have sv: "serves peer st p s rs" using Cons.prems by (simp add: x)
  have IH: "\<exists>d'. fetch_segments peer p (map (\<lambda>x. wire_info (fst x)) ps) w st d = (st, d', w + 2 * int (length (filled ps)), None)
    \<and> (\<forall>x \<in> set (filled ps). seg_files d' (fst x) (snd x)) \<and> same_except (pair_names (filled ps)) d d'" for d w
    using Cons.prems by (intro Cons.IH) simp_all
  show ?case
  proof (cases "rs = []")
    case True
    then have "sg_size s = 0" "sg_idx s = []" using sv by (simp_all add: serves_def)
    with IH [of w d] True show ?thesis by (simp add: x wire_info_def index_sizeBytes_def)
  next
    case False
    then have size: "0 < sg_size s" using sv frames_ne by (simp add: serves_def)
    obtain d1 d2 where one: "fetchSegmentFile peer p (sg_baseOffset s) SegmentLog (int (sg_size s)) st d = (st, d1, Inr ())"
        "fetchSegmentFile peer p (sg_baseOffset s) SegmentIdx (int (index_sizeBytes (sg_idx s))) st d1 = (st, d2, Inr ())"
        "seg_files d2 s rs" "same_except {seg_logPath s, seg_idxPath s} d d2"
      using fetch_segment_copies [OF sv] by blast
    obtain d' where rest: "fetch_segments peer p (map (\<lambda>x. wire_info (fst x)) ps) (w + 2) st d2
          = (st, d', w + 2 + 2 * int (length (filled ps)), None)"
        "\<forall>x \<in> set (filled ps). seg_files d' (fst x) (snd x)" "same_except (pair_names (filled ps)) d2 d'"
      using IH by blast
    have "seg_names s \<inter> pair_names (filled ps) = {}"
    proof -
      have "seg_names s \<inter> seg_names (fst y) = {}" if "y \<in> set ps" for y
        using Cons.prems that sv by (intro seg_names_disjoint) (auto simp: serves_def x)
      then show ?thesis by (fastforce simp: pair_names_def seg_names_def idx_names_def)
    qed
    then have "seg_files d' s rs" by (rule seg_files_same [OF one(3) rest(3)])
    moreover have "same_except (pair_names (filled (x # ps))) d d'"
      using same_except_trans [OF one(4) rest(3)] False by (simp add: pair_names_def x)
    ultimately show ?thesis
      using size one(1,2) rest(1,2) False by (intro exI [of _ d']) (simp add: x wire_info_def)
  qed
qed

section \<open>A disk store as the donor\<close>

lemma find_base:
  assumes "distinct (map sg_baseOffset ss)" "s \<in> set ss"
  shows "find (\<lambda>t. sg_baseOffset t = sg_baseOffset s) ss = Some s"
  using assms by (induction ss) (auto simp: image_iff)

lemma file_serves:
  assumes look: "fs_lookup st p = Some l" and r: "segs_repr d0 (pl_segments l) rss"
    and files: "list_all2 (seg_files (fs_dir st p)) (pl_segments l) rss" and x: "x \<in> set (zip (pl_segments l) rss)"
  shows "serves file_snapshotter st p (fst x) (snd x)"
proof -
  obtain s rs where sr: "x = (s, rs)" by (cases x)
  have s: "s \<in> set (pl_segments l)" using x by (auto simp: sr dest: set_zip_leftD)
  have f: "seg_files (fs_dir st p) s rs" and rep: "seg_repr d0 s rs" and plain: "seg_plain s"
    using files r x s by (auto simp: sr list_all2_iff segs_repr_def list_all_iff)
  have "sorted_wrt seg_before (pl_segments l)" using r by (simp add: segs_repr_def)
  then have "sorted_wrt (<) (map sg_baseOffset (pl_segments l))"
    unfolding sorted_wrt_map by (rule sorted_wrt_mono_rel [rotated]) (simp add: seg_before_def)
  then have "distinct (map sg_baseOffset (pl_segments l))" using strict_sorted_iff by blast
  note fnd = find_base [OF this s]
  have "rs = [] \<longrightarrow> sg_idx s = []" using rep by (auto simp: seg_repr_def tracked_Nil)
  with f plain seg_repr_sums(1) [OF rep] fnd look show ?thesis
    by (simp add: sr serves_def file_snapshotter_def file_FetchSegmentChunk_def openLog_def part_ReadSegmentBytes_def
        seg_files_def whole_file_def SegmentLog_def SegmentIdx_def)
qed

lemma segs_repr_filled:
  assumes "segs_repr d ss rss"
  shows "segs_repr d (map fst (filled (zip ss rss))) (map snd (filled (zip ss rss)))"
    "concat (map snd (filled (zip ss rss))) = concat rss"
proof -
  let ?ps = "filled (zip ss rss)"
  have len: "length ss = length rss" using assms by (auto simp: segs_repr_def dest: list_all2_lengthD)
  have "sorted_wrt (\<lambda>x y. seg_before (fst x) (fst y)) (zip ss rss)"
    using assms len by (simp add: segs_repr_def sorted_wrt_map [symmetric, of _ fst])
  then have "sorted_wrt seg_before (map fst ?ps)" by (simp add: sorted_wrt_map sorted_wrt_filter)
  moreover have "list_all seg_plain (map fst ?ps)"
    using assms by (auto simp: segs_repr_def list_all_iff dest: set_zip_leftD)
  ultimately show "segs_repr d (map fst ?ps) (map snd ?ps)"
    using assms by (auto simp: segs_repr_def list_all2_iff zip_map_fst_snd)
  show "concat (map snd ?ps) = concat rss"
    using len by (induction ss rss rule: list_induct2) auto
qed

text \<open>Opening the copied directory.\<close>

lemma Open_copied:
  assumes r: "segs_repr d0 ss rss" and files: "\<forall>x \<in> set (filled (zip ss rss)). seg_files d (fst x) (snd x)"
    and names: "same_except (pair_names (filled (zip ss rss))) [] d"
  shows "\<exists>d' l rss'. OpenPartition d mb = Inr (d', l) \<and> part_repr d' l rss' \<and> at_end d' (active l) \<and> concat rss' = concat rss
    \<and> part_HighWater l = (if concat rss = [] then 0 else r_Offset (last (concat rss)) + 1)"
proof (cases "filled (zip ss rss)" rule: rev_cases)
  case Nil
  then have "concat rss = []" using segs_repr_filled(2) [OF r] by simp
  moreover have "d = []"
  proof -
    have "map_of d n = None" for n using same_exceptD [OF names, of n] Nil by (simp add: pair_names_def)
    then show ?thesis by (cases d) (auto split: if_splits, metis option.distinct(1) fun_upd_same)
  qed
  moreover obtain d' l where "OpenPartition [] mb = Inr (d', l)" "log_inv (d', l) [[]]"
    using Open_new by (metis prod.collapse)
  moreover from this have "part_HighWater l = 0"
    by (auto simp: OpenPartition_def recoverCompactingSegments_def os_ReadDir_def discoverSegments_def
        createSegment_def createSegmentWithSuffix_def Let_def part_HighWater_def)
  ultimately show ?thesis by (auto simp: log_inv_def intro!: exI [of _ "[[]]"])
next
  case (snoc ps x)
  obtain a rs where x: "x = (a, rs)" by (cases x)
  let ?ss = "map fst ps" and ?rss = "map snd ps"
  have all: "segs_repr d0 (?ss @ [a]) (?rss @ [rs])" "concat ?rss @ rs = concat rss"
    using segs_repr_filled [OF r] snoc by (simp_all add: x)
  then have q: "segs_repr d0 ?ss ?rss" "seg_repr d0 a rs" "fits32 (sg_baseOffset a) rs" "seg_plain a" "list_all (\<lambda>s. seg_before s a) ?ss"
    by (simp_all add: segs_repr_snoc)
  have "x \<in> set (filled (zip ss rss))" by (simp add: snoc)
  then have ne: "rs \<noteq> []" by (simp add: x)
  have plain: "seg_plain (fst y)" if "y \<in> set ps" for y using q(1) that by (auto simp: segs_repr_def list_all_iff)
  have path: "map_of d (segmentLogName (sg_baseOffset (fst y))) = Some (whole_file (frames (snd y)))" if "y \<in> set (ps @ [x])" for y
  proof -
    have "seg_plain (fst y)" using that plain [of y] q(4) by (cases "y = x") (simp_all add: x)
    moreover have "seg_files d (fst y) (snd y)" by (rule bspec [OF files]) (use that in \<open>simp add: snoc\<close>)
    ultimately show ?thesis by (simp add: seg_files_def seg_plain_path)
  qed
  have disk: "list_all2 (on_disk d) (map sg_baseOffset ?ss) ?rss"
  proof -
    have "recs_ok (sg_baseOffset (fst y)) (snd y)" if "y \<in> set ps" for y
      using q(1) that by (auto simp: segs_repr_def seg_repr_def list_all2_map1 list_all2_map2 list_all2_same)
    with path show ?thesis
      by (simp add: list_all2_map1 list_all2_map2 list_all2_same on_disk_def whole_file_def)
  qed
  have clean: "dir_clean d (insert (sg_baseOffset a) (set (map sg_baseOffset ?ss)))"
    unfolding dir_clean_def
  proof (intro allI impI)
    fix n assume n: "map_of d n \<noteq> None"
    then have "n \<in> pair_names (ps @ [x])" using same_exceptD [OF names [unfolded snoc], of n] by (cases "n \<in> pair_names (ps @ [x])") auto
    then obtain y where y: "y \<in> set (ps @ [x])" "n = seg_logPath (fst y) \<or> n = seg_idxPath (fst y)"
      unfolding pair_names_def by blast
    have "seg_plain (fst y)" using y(1) plain [of y] q(4) by (cases "y = x") (simp_all add: x)
    moreover from this have "int64_ok (sg_baseOffset (fst y))" by (simp add: seg_plain_def)
    ultimately show "(\<exists>b\<in>insert (sg_baseOffset a) (set (map sg_baseOffset ?ss)). n = segmentLogName b) \<or>
        (\<exists>b. int64_ok b \<and> (n = segmentIndexName b \<or> n = segmentIndexName b @ ''.tmp''))"
      using y by (auto simp: seg_plain_path x)
  qed
  have "recs_ok (sg_baseOffset a) rs" "sg_highWater a = next_offset (sg_baseOffset a) rs"
    using q(2) seg_repr_sums(2) [OF q(2)] by (simp_all add: seg_repr_def)
  from Open_repr [OF q(1,5,4) this(1) q(3) this(2) disk, of "whole_file (frames rs)" "length (frames rs)" mb] path clean
  obtain d' l where o: "OpenPartition d mb = Inr (d', l)" "part_repr d' l (?rss @ [rs])" "at_end d' (active l)"
    by (auto simp: x whole_file_def whole_frames_all)
  from o(2) obtain ss1 a1 rss1 rs1 where "pl_segments l = ss1 @ [a1]" "?rss @ [rs] = rss1 @ [rs1]" "seg_repr d' a1 rs1"
    by (rule part_repr_cases)
  then have "part_HighWater l = r_Offset (last rs) + 1"
    using seg_repr_sums(2) ne by (auto simp: part_HighWater_def next_offset_def)
  moreover have "last (concat rss) = last rs" "concat rss \<noteq> []" unfolding all(2) [symmetric] using ne by simp_all
  ultimately show ?thesis using o all(2) by (intro exI [of _ d'] exI [of _ l] exI [of _ "?rss @ [rs]"]) auto
qed

section \<open>The copy serves the donor's log\<close>

lemma ListSegments_run:
  assumes "file_inv s" "file_addressable p"
  shows "\<exists>s' l rss. sp_ListSegments file_snapshotter s p = (s', Inr (map wire_info (pl_segments l)))
    \<and> file_inv s' \<and> file_log s' = file_log s \<and> file_hw s' = file_hw s \<and> fs_lookup s' p = Some l
    \<and> log_inv (fs_dir s' p, l) rss \<and> list_all2 (seg_files (fs_dir s' p)) (pl_segments l) rss \<and> concat rss = file_log s p"
proof -
  from openLog_run [OF assms] obtain s1 l rss where o: "openLog s p = (s1, Inr l)" "file_inv s1" "log_inv (fs_dir s1 p, l) rss"
      "concat rss = file_log s p" "file_log s1 = file_log s" "file_hw s1 = file_hw s" "fs_lookup s1 p = Some l"
    by blast
  from Snapshot_run [OF o(3)] obtain d' l' where sn: "part_Snapshot (fs_dir s1 p) l = Inr (d', l', map seg_info (pl_segments l'))"
      "log_inv (d', l') rss" "list_all2 (seg_files d') (pl_segments l') rss" "part_HighWater l' = part_HighWater l"
    by blast
  let ?s = "fs_put s1 p d' l'"
  note put = fs_put_inv [OF o(2) assms(2) sn(2)]
  have logs: "fs_logs s1 \<noteq> None" using o(2) by (simp add: file_inv_def)
  have "file_hw s1 p = part_HighWater l" using o(7) by (simp add: file_hw_def)
  then have "file_log ?s = file_log s" "file_hw ?s = file_hw s"
    using put(2,3) o(4-6) sn(4) by (auto simp: fun_eq_iff)
  moreover have "sp_ListSegments file_snapshotter s p = (?s, Inr (map wire_info (pl_segments l')))"
    using o(1) sn(1) by (simp add: file_snapshotter_def file_ListSegments_def wire_info_def seg_info_def comp_def)
  ultimately show ?thesis
    using put(1) sn o(4) logs fs_put_sel(3,4) by (intro exI [of _ ?s] exI [of _ l'] exI [of _ rss]) simp
qed

lemma map_zip_fst: "length xs = length ys \<Longrightarrow> map (\<lambda>x. f (fst x)) (zip xs ys) = map f xs"
  by (induction xs ys rule: list_induct2) simp_all

lemma bootstrap_run:
  assumes "file_inv s" "file_addressable p" "map_of tree (PartitionDir root p) = None"
    and run: "BootstrapPartitionFromPeer (Some file_snapshotter) root p s tree = (s', tree', written, err)"
    and r: "r = (NewFileStore root sz)\<lparr>fs_disk := tree'\<rparr>"
  shows "err = None" "file_log s' = file_log s"
    "0 \<le> fo \<Longrightarrow> snd (file_Read None r p fo n) = Inr (take (nat n) (filter (\<lambda>x. fo \<le> r_Offset x) (file_log s p)))"
    "snd (file_HighWater None r p) = Inr (if file_log s p = [] then 0 else r_Offset (last (file_log s p)) + 1)"
proof -
  from ListSegments_run [OF assms(1,2)] obtain s1 l rss where ls: "sp_ListSegments file_snapshotter s p = (s1, Inr (map wire_info (pl_segments l)))"
      "file_inv s1" "file_log s1 = file_log s" "fs_lookup s1 p = Some l" "log_inv (fs_dir s1 p, l) rss"
      "list_all2 (seg_files (fs_dir s1 p)) (pl_segments l) rss" "concat rss = file_log s p"
    by blast
  let ?ps = "zip (pl_segments l) rss"
  have rep: "segs_repr (fs_dir s1 p) (pl_segments l) rss" and ne: "pl_segments l \<noteq> []"
    using ls(5) by (simp_all add: log_inv_def part_repr_def)
  have len: "length (pl_segments l) = length rss" using ls(6) by (rule list_all2_lengthD)
  have infos: "map (\<lambda>x. wire_info (fst x)) ?ps = map wire_info (pl_segments l)"
    by (rule map_zip_fst [OF len])
  have dist: "distinct (map (\<lambda>x. sg_baseOffset (fst x)) ?ps)"
  proof -
    have "sorted_wrt seg_before (pl_segments l)" using rep by (simp add: segs_repr_def)
    then have "sorted_wrt (<) (map sg_baseOffset (pl_segments l))"
      unfolding sorted_wrt_map by (rule sorted_wrt_mono_rel [rotated]) (simp add: seg_before_def)
    moreover have "map (\<lambda>x. sg_baseOffset (fst x)) ?ps = map sg_baseOffset (pl_segments l)"
      by (rule map_zip_fst [OF len])
    ultimately show ?thesis by (simp add: strict_sorted_iff)
  qed
  have "\<forall>x \<in> set ?ps. serves file_snapshotter s1 p (fst x) (snd x)"
    using file_serves [OF ls(4) rep ls(6)] by blast
  from fetch_segments_copies [OF this dist, of 0 "[]"] obtain d where
    f: "fetch_segments file_snapshotter p (map wire_info (pl_segments l)) 0 s1 [] = (s1, d, 2 * int (length (filled ?ps)), None)"
      "\<forall>x \<in> set (filled ?ps). seg_files d (fst x) (snd x)" "same_except (pair_names (filled ?ps)) [] d"
    unfolding infos by auto
  then have res: "s' = s1" "tree' = AList.update (PartitionDir root p) d tree" "err = None"
    using run ls(1) ne assms(3) by (simp_all add: BootstrapPartitionFromPeer_def)
  from Open_copied [OF rep f(2,3), of sz] obtain d' l' rss' where o: "OpenPartition d sz = Inr (d', l')" "part_repr d' l' rss'"
      "at_end d' (active l')" "concat rss' = file_log s p"
      "part_HighWater l' = (if file_log s p = [] then 0 else r_Offset (last (file_log s p)) + 1)"
    unfolding ls(7) by blast
  have "fs_dir r p = d" by (simp add: r res fs_dir_def NewFileStore_def)
  then have op: "openLog r p = (fs_put r p d' l', Inr l')"
    using o(1) by (simp add: openLog_def r fs_lookup_def NewFileStore_def)
  show "err = None" "file_log s' = file_log s" using res ls(3) by simp_all
  show "snd (file_HighWater None r p) = Inr (if file_log s p = [] then 0 else r_Offset (last (file_log s p)) + 1)"
    using op o(5) by (simp add: file_HighWater_def)
  assume fo: "0 \<le> fo"
  obtain d2 l2 res2 where rd: "part_Read d' l' fo n = (d2, l2, res2)" by (metis prod.collapse)
  from Read_repr [OF o(2,3) rd] o(4) op rd fo
  show "snd (file_Read None r p fo n) = Inr (take (nat n) (filter (\<lambda>x. fo \<le> r_Offset x) (file_log s p)))"
    by (simp add: file_Read_def fs_put_sel)
qed

text \<open>
  C19: A partition bootstrapped from a disk store, opened by a new broker, serves exactly the records the donor held when it was
  listed, for every read, and the donor's log is unchanged. The copy's high water is one past its last record, or zero when the
  donor holds no record; the donor's own high water is not transferred.
\<close>

theorem bootstrap_serves_donor_log:
  assumes "file_inv s" "file_addressable p" "map_of tree (PartitionDir root p) = None"
    and "BootstrapPartitionFromPeer (Some file_snapshotter) root p s tree = (s', tree', written, err)"
    and "r = (NewFileStore root sz)\<lparr>fs_disk := tree'\<rparr>"
  shows "err = None \<and> file_log s' = file_log s
    \<and> (\<forall>fo \<ge> 0. \<forall>n. snd (file_Read None r p fo n) = Inr (take (nat n) (filter (\<lambda>x. fo \<le> r_Offset x) (file_log s p))))
    \<and> snd (file_HighWater None r p) = Inr (if file_log s p = [] then 0 else r_Offset (last (file_log s p)) + 1)"
  using bootstrap_run [OF assms] by simp

definition bs_part :: PartitionRef where
  "bs_part = \<lparr>p_Topic = ''t'', p_Index = 0\<rparr>"

definition bs_donor :: FileStore where
  "bs_donor = fst (file_Append None 5 (NewFileStore [''data''] 100) bs_part (rec_at 0 1 2))"

lemma bs_donor_log: "file_inv bs_donor" "file_addressable bs_part" "file_log bs_donor bs_part = [norm_record (stamp 5 0 (rec_at 0 1 2))]"
proof -
  show p: "file_addressable bs_part" by (simp add: bs_part_def file_addressable_def good_name_def int64_ok_def)
  have f: "file_fits (NewFileStore [''data''] 100) bs_part (rec_at 0 1 2)"
    by (simp add: file_fits_def NewFileStore_def fs_lookup_def file_hw_def OpenPartition_def recoverCompactingSegments_def
        os_ReadDir_def discoverSegments_def createSegment_def createSegmentWithSuffix_def Let_def append_fits_def
        part_HighWater_def int64_ok_def frame_fits_def wf_record_def buf32_def length_frame length_encodeRecord rec_at_def)
  have n: "file_log (NewFileStore [''data''] 100) bs_part = []" "file_hw (NewFileStore [''data''] 100) bs_part = 0"
    by (simp_all add: file_log_def file_hw_def NewFileStore_def fs_lookup_def)
  have "int64_ok 5" by (simp add: int64_ok_def)
  from file_append_law [OF new_file_store(1) p f this] n
  show "file_inv bs_donor" "file_log bs_donor bs_part = [norm_record (stamp 5 0 (rec_at 0 1 2))]"
    by (auto simp: bs_donor_def)
qed

lemma bootstrap_serves_donor_log_witness:
  "\<exists>s' tree' written. BootstrapPartitionFromPeer (Some file_snapshotter) [''copy''] bs_part bs_donor [] = (s', tree', written, None)
    \<and> snd (file_Read None ((NewFileStore [''copy''] 100)\<lparr>fs_disk := tree'\<rparr>) bs_part 0 10) = Inr [norm_record (stamp 5 0 (rec_at 0 1 2))]
    \<and> snd (file_HighWater None ((NewFileStore [''copy''] 100)\<lparr>fs_disk := tree'\<rparr>) bs_part) = Inr 1"
proof -
  obtain s' tree' written err where run: "BootstrapPartitionFromPeer (Some file_snapshotter) [''copy''] bs_part bs_donor [] = (s', tree', written, err)"
    by (metis prod.collapse)
  from bootstrap_serves_donor_log [OF bs_donor_log(1,2) _ run refl, of 100] run bs_donor_log(3)
  show ?thesis by (auto simp: norm_record_def stamp_def rec_at_def)
qed

section \<open>Termination of the chunk loop\<close>

text \<open>A peer that counts the chunks it is asked for.\<close>

definition counted :: "'st PartitionSnapshotter \<Rightarrow> ('st \<times> nat) PartitionSnapshotter" where
  "counted peer = \<lparr>
     sp_ListSegments = (\<lambda>st p. case sp_ListSegments peer (fst st) p of (st', res) \<Rightarrow> ((st', snd st), res)),
     sp_FetchSegmentChunk = (\<lambda>st p base kind offset n.
       case sp_FetchSegmentChunk peer (fst st) p base kind offset n of (st', res) \<Rightarrow> ((st', Suc (snd st)), res))\<rparr>"

lemma fetch_loop_counted:
  "\<exists>c'. fetch_loop (counted peer) p base kind listedSize path (st, c) d f offset
      = (case fetch_loop peer p base kind listedSize path st d f offset of (st', d', res) \<Rightarrow> ((st', c'), d', res))
    \<and> c' \<le> c + nat (listedSize - offset)"
proof (induction peer p base kind listedSize path st d f offset arbitrary: c rule: fetch_loop.induct)
  case (1 peer p base kind listedSize path st d f offset)
  let ?want = "int32_of (uint32_of (want_bytes listedSize offset))"
  obtain st1 res where call: "sp_FetchSegmentChunk peer st p base kind offset ?want = (st1, res)" by fastforce
  then have call': "sp_FetchSegmentChunk (counted peer) (st, c) p base kind offset ?want = ((st1, Suc c), res)"
    by (simp add: counted_def)
  show ?case
  proof (cases "offset < listedSize \<and> (\<exists>chunk. res = Inr chunk \<and> chunk \<noteq> [])")
    case True
    then obtain chunk where ch: "offset < listedSize" "res = Inr chunk" "chunk \<noteq> []" by blast
    obtain d1 f1 where w: "os_Write d path f chunk = (d1, f1)" by fastforce
    from "1.IH" [OF ch(1) call [unfolded ch(2), symmetric] refl _ w [symmetric] refl, of "Suc c"] ch(3) obtain c' where
      "fetch_loop (counted peer) p base kind listedSize path (st1, Suc c) d1 f1 (offset + int (length chunk))
        = (case fetch_loop peer p base kind listedSize path st1 d1 f1 (offset + int (length chunk)) of (st', d', res) \<Rightarrow> ((st', c'), d', res))"
      "c' \<le> Suc c + nat (listedSize - (offset + int (length chunk)))"
      by auto
    moreover have "0 < length chunk" using ch(3) by simp
    then have "Suc c + nat (listedSize - (offset + int (length chunk))) \<le> c + nat (listedSize - offset)" using ch(1) by linarith
    ultimately show ?thesis
      using ch call call' w by (intro exI [of _ c']) (subst (1 2) fetch_loop.simps, simp)
  next
    case False
    then show ?thesis
      using call call' by (intro exI [of _ "if offset < listedSize then Suc c else c"])
        (subst (1 2) fetch_loop.simps, auto split: sum.splits)
  qed
qed

text \<open>
  C23: Fetching one segment file ends whatever the peer answers: it asks for at most one chunk per listed byte, and counting the
  requests changes neither the file nor the outcome.
\<close>

theorem bootstrap_fetch_ends:
  "\<exists>c \<le> nat listedSize. fetchSegmentFile (counted peer) p base kind listedSize (st, 0) d
    = (case fetchSegmentFile peer p base kind listedSize st d of (st', d', res) \<Rightarrow> ((st', c), d', res))"
proof -
  let ?k = "if kind = SegmentIdx then SegmentIdx else SegmentLog" and ?path = "SegmentFileName base kind"
  let ?d = "fst (os_Create d ?path)" and ?f = "snd (os_Create d ?path)"
  from fetch_loop_counted [of peer p base ?k listedSize ?path st 0 ?d ?f 0] obtain c where
    "fetch_loop (counted peer) p base ?k listedSize ?path (st, 0) ?d ?f 0
      = (case fetch_loop peer p base ?k listedSize ?path st ?d ?f 0 of (st', d', res) \<Rightarrow> ((st', c), d', res))" "c \<le> nat listedSize"
    by auto
  then show ?thesis
    by (intro exI [of _ c]) (auto simp: fetchSegmentFile_def Let_def case_prod_beta split: sum.splits)
qed

end
