(* ===== verification/Sdk_Partitioner.thy ===== *)
theory Sdk_Partitioner
  imports Wire_Primitives
begin

text \<open>
  The routing of produced records (\<^verbatim>\<open>sdk/partitioner.go\<close>): FNV-1a of the key, a 32-bit round-robin counter for records
  without one, and the sticky wrapper that repeats the last choice during a time window. The two strategies
  of the source are the constructors of one type, so that a wrapper can wrap a wrapper. The lemmas give the index of every
  record, and show that the sticky wrapper's memory is not tied to a topic.
\<close>

section \<open>FNV-1a\<close>

definition fnv_offset32 :: "32 word" where
  "fnv_offset32 = 2166136261"

definition fnv_prime32 :: "32 word" where
  "fnv_prime32 = 16777619"

definition fnv32a :: "bytes \<Rightarrow> 32 word" where
  "fnv32a b = foldl (\<lambda>h c. (h XOR ucast c) * fnv_prime32) fnv_offset32 b"

section \<open>Partitioners\<close>

datatype Partitioner =
    DefaultPartitioner "32 word"
  | StickyPartitioner Partitioner int int "int option"

definition NewStickyPartitioner :: "Partitioner \<Rightarrow> int \<Rightarrow> Partitioner" where
  "NewStickyPartitioner underlying stickWindow = StickyPartitioner underlying stickWindow 0 None"

text \<open>
  \<open>now\<close> is the clock in nanoseconds; the zero \<^verbatim>\<open>time.Time\<close> of a new wrapper is \<open>None\<close> and lies before every instant.
\<close>

fun Partition :: "int \<Rightarrow> Partitioner \<Rightarrow> Record \<Rightarrow> int \<Rightarrow> Partitioner \<times> int" where
  "Partition now (DefaultPartitioner counter) r numPartitions =
     (if numPartitions \<le> 0 then (DefaultPartitioner counter, 0)
      else if 0 < length (gb (r_Key r)) then
        (DefaultPartitioner counter, int32_of (fnv32a (gb (r_Key r)) mod uint32_of numPartitions))
      else (DefaultPartitioner (counter + 1), int32_of (counter mod uint32_of numPartitions)))"
| "Partition now (StickyPartitioner underlying stickWindow last_idx until) r numPartitions =
     (if 0 < length (gb (r_Key r)) then
        (let (u, p) = Partition now underlying r numPartitions in (StickyPartitioner u stickWindow last_idx until, p))
      else if stickWindow \<le> 0 then
        (let (u, p) = Partition now underlying r numPartitions in (StickyPartitioner u stickWindow last_idx until, p))
      else if (case until of None \<Rightarrow> False | Some t \<Rightarrow> now < t) then
        (StickyPartitioner underlying stickWindow last_idx until, last_idx)
      else
        (let (u, p) = Partition now underlying r numPartitions
         in (StickyPartitioner u stickWindow p (Some (now + stickWindow)), p)))"

section \<open>Routing\<close>

lemma int32_mod:
  assumes "0 < n" "n < 2 ^ 31"
  shows "int32_of (w mod uint32_of n) = uint w mod n"
proof -
  have n: "uint (uint32_of n) = n" using assms by (simp add: uint32_of_def uint_word_of_int_eq take_bit_int_eq_self)
  have "uint w mod n < n" "0 \<le> uint w mod n" using assms(1) by simp_all
  then have "uint w mod n < 2 ^ 31" "0 \<le> uint w mod n" using assms(2) by linarith+
  then show ?thesis
    by (simp add: int32_of_def sint_uint uint_mod_distrib n signed_take_bit_int_eq_self)
qed

text \<open>A keyed record is routed by its key alone, through any number of wrappers.\<close>

primrec unwrapped :: "Partitioner \<Rightarrow> 32 word" where
  "unwrapped (DefaultPartitioner c) = c"
| "unwrapped (StickyPartitioner u w l t) = unwrapped u"

lemma Partition_keyed:
  assumes "gb (r_Key r) \<noteq> []" "0 < n" "n < 2 ^ 31"
  shows "Partition now pt r n = (pt, uint (fnv32a (gb (r_Key r))) mod n)"
  using assms by (induction pt) (simp_all add: int32_mod)

fun route_all :: "int \<Rightarrow> Partitioner \<Rightarrow> Record list \<Rightarrow> int \<Rightarrow> int list" where
  "route_all now pt [] n = []"
| "route_all now pt (r # rs) n = (case Partition now pt r n of (pt, i) \<Rightarrow> i # route_all now pt rs n)"

lemma route_all_round_robin:
  assumes "0 < n" "n < 2 ^ 31" "\<forall>r \<in> set rs. gb (r_Key r) = []" "uint c + int (length rs) \<le> 2 ^ 32"
  shows "route_all now (DefaultPartitioner c) rs n = map (\<lambda>k. (uint c + int k) mod n) [0..<length rs]"
  using assms(3,4)
proof (induction rs arbitrary: c)
  case (Cons r rs)
  show ?case
  proof (cases "rs = []")
    case True
    with Cons.prems assms show ?thesis by (simp add: int32_mod)
  next
    case False
    then have lt: "uint c + 1 < 2 ^ 32" using Cons.prems(2) by (cases rs) simp_all
    then have c: "uint (c + 1) = uint c + 1" by (simp add: uint_plus_if' size_word_def)
    have "map (\<lambda>k. (uint (c + 1) + int k) mod n) [0..<length rs] = map (\<lambda>k. (uint c + int k) mod n) [Suc 0..<Suc (length rs)]"
      by (simp add: c [unfolded add.commute [of c 1]] map_Suc_upt [symmetric] algebra_simps del: upt_Suc)
    with Cons c lt assms show ?thesis
      by (simp add: int32_mod upt_conv_Cons del: upt_Suc)
  qed
qed simp

lemma one_round:
  assumes "0 < n"
  shows "distinct (map (\<lambda>k. (a + int k) mod n) [0..<nat n])" "set (map (\<lambda>k. (a + int k) mod n) [0..<nat n]) = {0..<n}"
proof -
  have inj: "inj_on (\<lambda>k. (a + int k) mod n) {0..<nat n}"
  proof (rule inj_onI)
    fix i j assume ij: "i \<in> {0..<nat n}" "j \<in> {0..<nat n}" "(a + int i) mod n = (a + int j) mod n"
    then have "(a + int i - (a + int j)) mod n = 0" by (simp add: mod_eq_0_iff_dvd mod_eq_dvd_iff)
    then have d: "n dvd int i - int j" by (simp add: mod_eq_0_iff_dvd)
    have "\<bar>int i - int j\<bar> < \<bar>n\<bar>" using ij(1,2) by auto
    then have "int i - int j = 0" using dvd_imp_le_int [OF _ d] by (cases "int i - int j = 0") auto
    then show "i = j" by simp
  qed
  then show "distinct (map (\<lambda>k. (a + int k) mod n) [0..<nat n])" by (simp add: distinct_map atLeast_upt [symmetric])
  have "(\<lambda>k. (a + int k) mod n) ` {0..<nat n} \<subseteq> {0..<n}" using assms by auto
  moreover have "card ((\<lambda>k. (a + int k) mod n) ` {0..<nat n}) = card {0..<n}" by (simp add: card_image [OF inj])
  ultimately have "(\<lambda>k. (a + int k) mod n) ` {0..<nat n} = {0..<n}" by (intro card_subset_eq) simp_all
  then show "set (map (\<lambda>k. (a + int k) mod n) [0..<nat n]) = {0..<n}" by (simp add: atLeast_upt)
qed

text \<open>
  C24: Records with a key go to the partition given by the key's hash, whatever was sent before and however the strategy is
  wrapped. Keyless records visit the partitions in turn, and a round of as many records as there are partitions reaches each
  of them exactly once; the counter may be anywhere short of wrapping around.
\<close>

theorem partitioner_routes:
  assumes "0 < n" "n < 2 ^ 31"
  shows "(gb (r_Key r) \<noteq> [] \<longrightarrow> Partition now pt r n = (pt, uint (fnv32a (gb (r_Key r))) mod n))
    \<and> ((\<forall>r \<in> set rs. gb (r_Key r) = []) \<and> uint c + int (length rs) \<le> 2 ^ 32 \<longrightarrow>
         route_all now (DefaultPartitioner c) rs n = map (\<lambda>k. (uint c + int k) mod n) [0..<length rs]
       \<and> (length rs = nat n \<longrightarrow> distinct (route_all now (DefaultPartitioner c) rs n)
            \<and> set (route_all now (DefaultPartitioner c) rs n) = {0..<n}))"
proof (intro conjI impI)
  show "gb (r_Key r) \<noteq> [] \<Longrightarrow> Partition now pt r n = (pt, uint (fnv32a (gb (r_Key r))) mod n)"
    by (rule Partition_keyed [OF _ assms])
  assume rs: "(\<forall>r \<in> set rs. gb (r_Key r) = []) \<and> uint c + int (length rs) \<le> 2 ^ 32"
  then show eq: "route_all now (DefaultPartitioner c) rs n = map (\<lambda>k. (uint c + int k) mod n) [0..<length rs]"
    by (intro route_all_round_robin [OF assms]) simp_all
  assume "length rs = nat n"
  then show "distinct (route_all now (DefaultPartitioner c) rs n)" "set (route_all now (DefaultPartitioner c) rs n) = {0..<n}"
    using one_round [OF assms(1), of "uint c"] unfolding eq by simp_all
qed

definition keyless :: Record where
  "keyless = \<lparr>r_Offset = 0, r_Timestamp = 0, r_Key = None, r_Value = Some [1], r_Headers = []\<rparr>"

lemma partitioner_routes_witness:
  "Partition 9 (DefaultPartitioner 4) (keyless\<lparr>r_Key := Some [97]\<rparr>) 3 = (DefaultPartitioner 4, 1)
    \<and> route_all 9 (DefaultPartitioner 4) [keyless, keyless, keyless] 3 = [1, 2, 0]"
proof -
  let ?r = "keyless\<lparr>r_Key := Some [97]\<rparr>" and ?rs = "[keyless, keyless, keyless]"
  have h: "uint (fnv32a [97]) mod 3 = 1" by (simp add: fnv32a_def fnv_offset32_def fnv_prime32_def)
  have "gb (r_Key ?r) = [97]" "\<forall>r \<in> set ?rs. gb (r_Key r) = []" by (simp_all add: keyless_def)
  moreover have "uint (4 :: 32 word) + int (length ?rs) \<le> 2 ^ 32" "length ?rs = nat 3" by simp_all
  ultimately show ?thesis
    using partitioner_routes [of 3 ?r 9 "DefaultPartitioner 4" ?rs 4] h by (simp del: route_all.simps Partition.simps)
qed

section \<open>The sticky window\<close>

text \<open>
  With one topic the remembered index stays in range; the wrapper remembers an index, not the topic it was chosen for.
\<close>

primrec stuck_in :: "int \<Rightarrow> Partitioner \<Rightarrow> bool" where
  "stuck_in n (DefaultPartitioner c) = True"
| "stuck_in n (StickyPartitioner u w l t) = (stuck_in n u \<and> 0 \<le> l \<and> l < n)"

lemma Partition_in_range:
  assumes "0 < n" "n < 2 ^ 31" "stuck_in n pt" "Partition now pt r n = (pt', i)"
  shows "0 \<le> i \<and> i < n \<and> stuck_in n pt'"
  using assms(3,4)
proof (induction pt arbitrary: pt' i)
  case (DefaultPartitioner c)
  then show ?case using assms(1,2) by (auto simp: int32_mod split: if_splits)
next
  case (StickyPartitioner u w l t)
  obtain u' j where u: "Partition now u r n = (u', j)" by fastforce
  have ih: "0 \<le> j \<and> j < n \<and> stuck_in n u'" using StickyPartitioner.IH [OF _ u] StickyPartitioner.prems(1) by simp
  have "(pt', i) = (StickyPartitioner u' w l t, j) \<or> (pt', i) = (StickyPartitioner u w l t, l)
      \<or> (pt', i) = (StickyPartitioner u' w j (Some (now + w)), j)"
    using StickyPartitioner.prems(2) by (simp only: Partition.simps u) (simp split: if_split_asm, blast+)
  with ih StickyPartitioner.prems(1) show ?case by (elim disjE) simp_all
qed

text \<open>
  C39: Inside the window the wrapper repeats the index it chose last even when it is asked about a topic with fewer partitions,
  so a keyless record can be sent to a partition its topic does not have.
\<close>

theorem sticky_index_crosses_topics:
  assumes "0 < w" "0 < n" "gb (r_Key r) = []" "gb (r_Key r') = []" "now \<le> now'" "now' < now + w"
    and "NewStickyPartitioner u w = pt" "Partition now pt r n = (pt', i)"
  shows "Partition now' pt' r' m = (pt', i)"
  using assms by (auto simp: NewStickyPartitioner_def split: prod.splits)

lemma sticky_index_crosses_topics_witness:
  "\<exists>pt'. Partition 100 (NewStickyPartitioner (DefaultPartitioner 5) 50) keyless 8 = (pt', 5) \<and> snd (Partition 120 pt' keyless 2) = 5"
proof -
  obtain pt' i where run: "Partition 100 (NewStickyPartitioner (DefaultPartitioner 5) 50) keyless 8 = (pt', i)" by fastforce
  then have i: "i = 5" by (auto simp: NewStickyPartitioner_def keyless_def int32_mod)
  from sticky_index_crosses_topics [OF _ _ _ _ _ _ refl run, of keyless 120 2] show ?thesis
    unfolding run by (simp add: i keyless_def)
qed

end
