(* ===== verification/Sdk_Producer.thy ===== *)
theory Sdk_Producer
  imports Sdk_Partitioner Server_Core
begin

text \<open>
  The producer of the client library and its per-partition batchers (\<^verbatim>\<open>sdk/producer.go\<close>, \<^verbatim>\<open>sdk/batcher.go\<close>). The transport is
  the record of the four calls a producer makes, over a state of its own. A call that waits on a result channel is split:
  \<^verbatim>\<open>Send\<close> with a linger window returns the channel it waits on, and a flush is the taking of the pending records under the
  batcher's lock followed, later, by the publication and the answers. A waiting \<^verbatim>\<open>Send\<close> whose context ends returns the context's error and
  leaves its record in the batch. Result channels hold one value each; the calls of the
  hooks and the waits between retries are recorded in the order they happen. The compression settings, which only the
  network transport uses, are left out.
\<close>

section \<open>State\<close>

record 't Transport =
  tp_Publish :: "'t \<Rightarrow> PartitionRef \<Rightarrow> Record \<Rightarrow> 't \<times> int \<times> go_error option"
  tp_PublishBatch :: "'t \<Rightarrow> PartitionRef \<Rightarrow> Record list \<Rightarrow> 't \<times> int \<times> go_error option"
  tp_PartitionsFor :: "'t \<Rightarrow> string \<Rightarrow> 't \<times> int result"
  tp_Sync :: "'t \<Rightarrow> PartitionRef \<Rightarrow> 't \<times> unit result"

datatype Acks = AcksLocal | AcksDurable | AcksNone

record batchResult =
  br_offset :: int
  br_err :: "go_error option"

text \<open>
  The result channel of a record is a number, and absent for a record nobody waits for. \<open>bt_spawned\<close> counts the goroutines and
  fired timers that are about to call \<^verbatim>\<open>flushNow\<close>.
\<close>

record batcher =
  bt_pending :: "Record list"
  bt_results :: "nat option list"
  bt_timer :: bool
  bt_closed :: bool
  bt_spawned :: nat

record Producer =
  pr_partitioner :: Partitioner
  pr_acks :: Acks
  pr_linger :: int
  pr_batchSize :: int
  pr_maxInFlight :: "nat option"
  pr_inFlight :: nat
  pr_rateLimitTries :: int
  pr_rateLimitWait :: int
  pr_retryStatuses :: "byte list"
  pr_idempotent :: bool
  pr_producerID :: string
  pr_onSent :: nat
  pr_onAsyncError :: nat
  pr_closed :: bool
  pr_batchers :: "(PartitionRef \<times> batcher) list"
  pr_idempSeqs :: "(PartitionRef \<times> 64 word) list"
  pr_asyncErrors :: int
  pr_sendCount :: int
  pr_chans :: "(nat \<times> batchResult) list"
  pr_nextChan :: nat
  pr_sentCalls :: "(nat \<times> PartitionRef \<times> int) list"
  pr_errorCalls :: "(nat \<times> PartitionRef \<times> go_error) list"
  pr_slept :: "int list"

section \<open>Options and construction\<close>

definition defaultBatchSize :: int where
  "defaultBatchSize = 256"

definition zero_producer :: Producer where
  "zero_producer = \<lparr>pr_partitioner = DefaultPartitioner 0, pr_acks = AcksLocal, pr_linger = 0, pr_batchSize = defaultBatchSize,
     pr_maxInFlight = None, pr_inFlight = 0, pr_rateLimitTries = 0, pr_rateLimitWait = 0, pr_retryStatuses = [], pr_idempotent = False,
     pr_producerID = [], pr_onSent = 0, pr_onAsyncError = 0, pr_closed = False, pr_batchers = [], pr_idempSeqs = [],
     pr_asyncErrors = 0, pr_sendCount = 0, pr_chans = [], pr_nextChan = 0, pr_sentCalls = [], pr_errorCalls = [], pr_slept = []\<rparr>"

definition WithPartitioner :: "Partitioner \<Rightarrow> Producer \<Rightarrow> Producer" where
  "WithPartitioner pt p = p\<lparr>pr_partitioner := pt\<rparr>"

definition WithAcks :: "Acks \<Rightarrow> Producer \<Rightarrow> Producer" where
  "WithAcks a p = p\<lparr>pr_acks := a\<rparr>"

definition WithLinger :: "int \<Rightarrow> Producer \<Rightarrow> Producer" where
  "WithLinger d p = p\<lparr>pr_linger := d\<rparr>"

definition WithBatchSize :: "int \<Rightarrow> Producer \<Rightarrow> Producer" where
  "WithBatchSize n p = (if 0 < n then p\<lparr>pr_batchSize := n\<rparr> else p)"

definition WithRateLimitRetry :: "int \<Rightarrow> int \<Rightarrow> Producer \<Rightarrow> Producer" where
  "WithRateLimitRetry tries wait p = p\<lparr>pr_rateLimitTries := tries, pr_rateLimitWait := wait\<rparr>"

definition WithRetryOn :: "byte list \<Rightarrow> Producer \<Rightarrow> Producer" where
  "WithRetryOn statuses p = p\<lparr>pr_retryStatuses := pr_retryStatuses p @ statuses\<rparr>"

definition WithOnSent :: "Producer \<Rightarrow> Producer" where
  "WithOnSent p = p\<lparr>pr_onSent := Suc (pr_onSent p)\<rparr>"

definition WithOnAsyncError :: "Producer \<Rightarrow> Producer" where
  "WithOnAsyncError p = p\<lparr>pr_onAsyncError := Suc (pr_onAsyncError p)\<rparr>"

definition WithMaxInFlight :: "int \<Rightarrow> Producer \<Rightarrow> Producer" where
  "WithMaxInFlight n p = (if 0 < n then p\<lparr>pr_maxInFlight := Some (nat n)\<rparr> else p)"

definition WithIdempotency :: "Producer \<Rightarrow> Producer" where
  "WithIdempotency p = p\<lparr>pr_idempotent := True\<rparr>"

definition hex_digit :: "nat \<Rightarrow> char" where
  "hex_digit n = ''0123456789abcdef'' ! n"

definition hex_EncodeToString :: "bytes \<Rightarrow> string" where
  "hex_EncodeToString b = concat (map (\<lambda>x. [hex_digit (unat x div 16), hex_digit (unat x mod 16)]) b)"

text \<open>\<open>random\<close> is the outcome of \<^verbatim>\<open>rand.Read\<close> on the sixteen bytes of the identifier.\<close>

definition newProducerID :: "bytes result \<Rightarrow> string result" where
  "newProducerID random = (case random of Inl e \<Rightarrow> Inl e | Inr buf \<Rightarrow> Inr (hex_EncodeToString buf))"

definition NewProducer :: "'t Transport option \<Rightarrow> bytes result \<Rightarrow> (Producer \<Rightarrow> Producer) list \<Rightarrow> Producer result" where
  "NewProducer t random opts =
     (if t = None then Inl (ErrNew ''sdk: NewProducer requires a Transport'')
      else
        (let p = foldl (\<lambda>p opt. opt p) zero_producer opts in
         case (if pr_idempotent p then newProducerID random else Inr (pr_producerID p)) of
           Inl err \<Rightarrow> Inl (ErrWrap ''sdk: producer-id'' err)
         | Inr pid \<Rightarrow>
             (let p = p\<lparr>pr_producerID := pid\<rparr> in
              Inr (if 0 < pr_linger p then
                     (case pr_partitioner p of
                        StickyPartitioner _ _ _ _ \<Rightarrow> p
                      | _ \<Rightarrow> p\<lparr>pr_partitioner := NewStickyPartitioner (pr_partitioner p) (pr_linger p)\<rparr>)
                   else p))))"

section \<open>Routing and stamping\<close>

definition checkOpen :: "Producer \<Rightarrow> unit result" where
  "checkOpen p = (if pr_closed p then Inl (ErrNew ''sdk: producer is closed'') else Inr ())"

definition route :: "'t Transport \<Rightarrow> int \<Rightarrow> Producer \<Rightarrow> 't \<Rightarrow> string \<Rightarrow> Record \<Rightarrow> Producer \<times> 't \<times> PartitionRef result" where
  "route tp now p t topic r =
     (case tp_PartitionsFor tp t topic of
        (t, Inl err) \<Rightarrow> (p, t, Inl (ErrWrap ''sdk: partition count'' err))
      | (t, Inr n) \<Rightarrow>
          (case Partition now (pr_partitioner p) r n of
             (pt, idx) \<Rightarrow> (p\<lparr>pr_partitioner := pt\<rparr>, t, Inr \<lparr>p_Topic = topic, p_Index = idx\<rparr>)))"

definition seq_of :: "Producer \<Rightarrow> PartitionRef \<Rightarrow> 64 word" where
  "seq_of p pp = (case map_of (pr_idempSeqs p) pp of None \<Rightarrow> 0 | Some s \<Rightarrow> s)"

definition stampIdempotencyHeaders :: "Producer \<Rightarrow> PartitionRef \<Rightarrow> Record \<Rightarrow> Producer \<times> Record" where
  "stampIdempotencyHeaders p pp r =
     (let seq = seq_of p pp in
      (p\<lparr>pr_idempSeqs := AList.update pp (seq + 1) (pr_idempSeqs p)\<rparr>,
       r\<lparr>r_Headers := r_Headers r @ [\<lparr>h_Key = HeaderProducerID, h_Value = Some (bytes_of_string (pr_producerID p))\<rparr>,
           \<lparr>h_Key = HeaderProducerSeq, h_Value = Some (be64 seq)\<rparr>]\<rparr>))"

definition RewindIdempotencySequence :: "Producer \<Rightarrow> PartitionRef \<Rightarrow> Producer" where
  "RewindIdempotencySequence p pp =
     (if \<not> pr_idempotent p then p
      else case map_of (pr_idempSeqs p) pp of
             None \<Rightarrow> p
           | Some seq \<Rightarrow> if 0 < seq then p\<lparr>pr_idempSeqs := AList.update pp (seq - 1) (pr_idempSeqs p)\<rparr> else p)"

definition stamp_if :: "Producer \<Rightarrow> PartitionRef \<Rightarrow> Record \<Rightarrow> Producer \<times> Record" where
  "stamp_if p pp r = (if pr_idempotent p then stampIdempotencyHeaders p pp r else (p, r))"

definition fireOnSent :: "Producer \<Rightarrow> PartitionRef \<Rightarrow> int \<Rightarrow> Producer" where
  "fireOnSent p pp offset = p\<lparr>pr_sentCalls := pr_sentCalls p @ map (\<lambda>h. (h, pp, offset)) [0..<pr_onSent p]\<rparr>"

definition recordAsyncError :: "Producer \<Rightarrow> PartitionRef \<Rightarrow> go_error \<Rightarrow> Producer" where
  "recordAsyncError p pp err = p\<lparr>pr_asyncErrors := pr_asyncErrors p + 1,
     pr_errorCalls := pr_errorCalls p @ map (\<lambda>h. (h, pp, err)) [0..<pr_onAsyncError p]\<rparr>"

section \<open>Retries\<close>

text \<open>\<^verbatim>\<open>errors.As\<close> with a \<^verbatim>\<open>*proto.ProtocolError\<close>.\<close>

fun protocol_status :: "go_error \<Rightarrow> byte option" where
  "protocol_status (ErrProtocol status msg) = Some status"
| "protocol_status (ErrWrap m e) = protocol_status e"
| "protocol_status _ = None"

definition shouldRetry :: "Producer \<Rightarrow> go_error \<Rightarrow> bool" where
  "shouldRetry p err =
     (case protocol_status err of
        None \<Rightarrow> False
      | Some status \<Rightarrow> if status = StatusRateLimited then True else status \<in> set (pr_retryStatuses p))"

definition wrap64 :: "int \<Rightarrow> int" where
  "wrap64 x = int64_of (uint64_of x)"

fun backoff_loop :: "int \<Rightarrow> nat \<Rightarrow> int \<Rightarrow> int" where
  "backoff_loop base 0 d = d"
| "backoff_loop base (Suc n) d = (if d < wrap64 (8 * base) then backoff_loop base n (wrap64 (d * 2)) else d)"

definition backoff :: "int \<Rightarrow> nat \<Rightarrow> int" where
  "backoff base attempt =
     (let d = backoff_loop base attempt base in if wrap64 (8 * base) < d then wrap64 (8 * base) else d)"

text \<open>\<open>stopped attempt\<close> is the context's error when the wait after that attempt ends by \<^verbatim>\<open>ctx.Done()\<close>.\<close>

function retry_loop :: "'t Transport \<Rightarrow> (nat \<Rightarrow> go_error option) \<Rightarrow> PartitionRef \<Rightarrow> Record \<Rightarrow> nat \<Rightarrow> Producer \<Rightarrow> 't
    \<Rightarrow> Producer \<times> 't \<times> int \<times> go_error option" where
  "retry_loop tp stopped pp r attempt p t =
     (case tp_Publish tp t pp r of
        (t, offset, err) \<Rightarrow>
          if err = None \<or> \<not> shouldRetry p (the err) \<or> pr_rateLimitTries p \<le> int attempt then
            (if err = None then p\<lparr>pr_sendCount := pr_sendCount p + 1\<rparr> else p, t, offset, err)
          else
            (let p = p\<lparr>pr_slept := pr_slept p @ [backoff (pr_rateLimitWait p) attempt]\<rparr> in
             case stopped attempt of
               Some e \<Rightarrow> (p, t, 0, Some e)
             | None \<Rightarrow> retry_loop tp stopped pp r (Suc attempt) p t))"
  by pat_completeness auto
termination
  by (relation "measure (\<lambda>(tp, stopped, pp, r, attempt, p, t). nat (pr_rateLimitTries p) - attempt)") auto

declare retry_loop.simps [simp del]

definition publishWithRetry :: "'t Transport \<Rightarrow> (nat \<Rightarrow> go_error option) \<Rightarrow> PartitionRef \<Rightarrow> Record \<Rightarrow> Producer \<Rightarrow> 't
    \<Rightarrow> Producer \<times> 't \<times> int \<times> go_error option" where
  "publishWithRetry tp stopped pp r p t =
     (if pr_rateLimitTries p < 1 then
        (case tp_Publish tp t pp r of
           (t, offset, err) \<Rightarrow> (if err = None then p\<lparr>pr_sendCount := pr_sendCount p + 1\<rparr> else p, t, offset, err))
      else retry_loop tp stopped pp r 0 p t)"

section \<open>Batchers\<close>

definition newBatcher :: batcher where
  "newBatcher = \<lparr>bt_pending = [], bt_results = [], bt_timer = False, bt_closed = False, bt_spawned = 0\<rparr>"

text \<open>The part of \<^verbatim>\<open>add\<close> and \<^verbatim>\<open>addNoWait\<close> before the wait; a full batch spawns a flush, the first record of a batch arms the timer.\<close>

definition bt_enqueue :: "int \<Rightarrow> batcher \<Rightarrow> Record \<Rightarrow> nat option \<Rightarrow> batcher" where
  "bt_enqueue batchSize b r ch =
     (let b = b\<lparr>bt_pending := bt_pending b @ [r], bt_results := bt_results b @ [ch]\<rparr>;
          shouldFlush = batchSize \<le> int (length (bt_pending b));
          b = (if \<not> shouldFlush \<and> \<not> bt_timer b then b\<lparr>bt_timer := True\<rparr> else b)
      in if shouldFlush then b\<lparr>bt_spawned := Suc (bt_spawned b)\<rparr> else b)"

definition get_batcher :: "Producer \<Rightarrow> PartitionRef \<Rightarrow> batcher" where
  "get_batcher p pp = (case map_of (pr_batchers p) pp of None \<Rightarrow> newBatcher | Some b \<Rightarrow> b)"

definition put_batcher :: "Producer \<Rightarrow> PartitionRef \<Rightarrow> batcher \<Rightarrow> Producer" where
  "put_batcher p pp b = p\<lparr>pr_batchers := AList.update pp b (pr_batchers p)\<rparr>"

definition enqueue :: "Producer \<Rightarrow> PartitionRef \<Rightarrow> Record \<Rightarrow> Producer \<times> nat result" where
  "enqueue p pp r =
     (if pr_closed p then (p, Inl (ErrNew ''sdk: producer is closed''))
      else
        (let b = get_batcher p pp; p = put_batcher p pp b in
         if bt_closed b then (p, Inl (ErrNew ''sdk: batcher closed''))
         else (let ch = pr_nextChan p in
               ((put_batcher p pp (bt_enqueue (pr_batchSize p) b r (Some ch)))\<lparr>pr_nextChan := Suc ch\<rparr>, Inr ch))))"

definition enqueueNoWait :: "Producer \<Rightarrow> PartitionRef \<Rightarrow> Record \<Rightarrow> Producer \<times> unit result" where
  "enqueueNoWait p pp r =
     (if pr_closed p then (p, Inl (ErrNew ''sdk: producer is closed''))
      else
        (let b = get_batcher p pp; p = put_batcher p pp b in
         if bt_closed b then (p, Inl (ErrNew ''sdk: batcher closed''))
         else (put_batcher p pp (bt_enqueue (pr_batchSize p) b r None), Inr ())))"

text \<open>The locked part of \<^verbatim>\<open>flushNow\<close>: what it takes is published after the lock is released.\<close>

definition flush_begin :: "batcher \<Rightarrow> batcher \<times> (Record list \<times> nat option list) option" where
  "flush_begin b =
     (if length (bt_pending b) = 0 then (b, None)
      else (b\<lparr>bt_pending := [], bt_results := [], bt_timer := False\<rparr>, Some (bt_pending b, bt_results b)))"

primrec answer_error :: "PartitionRef \<Rightarrow> go_error \<Rightarrow> nat option list \<Rightarrow> Producer \<Rightarrow> Producer" where
  "answer_error pp err [] p = p"
| "answer_error pp err (ch # chs) p = answer_error pp err chs
     (case ch of None \<Rightarrow> recordAsyncError p pp err
      | Some c \<Rightarrow> p\<lparr>pr_chans := pr_chans p @ [(c, \<lparr>br_offset = 0, br_err = Some err\<rparr>)]\<rparr>)"

primrec answer_offsets :: "int \<Rightarrow> nat option list \<Rightarrow> Producer \<Rightarrow> Producer" where
  "answer_offsets offset [] p = p"
| "answer_offsets offset (ch # chs) p = answer_offsets (offset + 1) chs
     (case ch of None \<Rightarrow> p | Some c \<Rightarrow> p\<lparr>pr_chans := pr_chans p @ [(c, \<lparr>br_offset = offset, br_err = None\<rparr>)]\<rparr>)"

definition flush_end :: "'t Transport \<Rightarrow> PartitionRef \<Rightarrow> Record list \<times> nat option list \<Rightarrow> Producer \<Rightarrow> 't
    \<Rightarrow> Producer \<times> 't \<times> go_error option" where
  "flush_end tp pp taken p t =
     (case tp_PublishBatch tp t pp (fst taken) of
        (t, baseOffset, Some err) \<Rightarrow> (answer_error pp err (snd taken) p, t, Some err)
      | (t, baseOffset, None) \<Rightarrow>
          (case (if pr_acks p = AcksDurable then tp_Sync tp t pp else (t, Inr ())) of
             (t, Inl syncErr) \<Rightarrow> (answer_error pp syncErr (snd taken) p, t, Some syncErr)
           | (t, Inr _) \<Rightarrow>
               (answer_offsets baseOffset (snd taken) (p\<lparr>pr_sendCount := pr_sendCount p + int (length (fst taken))\<rparr>), t, None)))"

definition flushNow :: "'t Transport \<Rightarrow> PartitionRef \<Rightarrow> Producer \<Rightarrow> 't \<Rightarrow> Producer \<times> 't \<times> go_error option" where
  "flushNow tp pp p t =
     (case flush_begin (get_batcher p pp) of
        (b, None) \<Rightarrow> (p, t, None)
      | (b, Some taken) \<Rightarrow> flush_end tp pp taken (put_batcher p pp b) t)"

definition bt_shutdown :: "PartitionRef \<Rightarrow> Producer \<Rightarrow> Producer" where
  "bt_shutdown pp p =
     (let b = get_batcher p pp in
      if bt_closed b then p
      else put_batcher (answer_error pp (ErrNew ''sdk: producer closed'') (bt_results b) p) pp
             (b\<lparr>bt_closed := True, bt_timer := False, bt_pending := [], bt_results := []\<rparr>))"

section \<open>Operations of the producer\<close>

text \<open>\<^verbatim>\<open>Send\<close> returns at once, or waits on a result channel until the batch is flushed.\<close>

datatype send_out = SendDone int "go_error option" | Waits PartitionRef nat

definition Send :: "'t Transport \<Rightarrow> int \<Rightarrow> (nat \<Rightarrow> go_error option) \<Rightarrow> string \<Rightarrow> Record \<Rightarrow> Producer \<Rightarrow> 't \<Rightarrow> Producer \<times> 't \<times> send_out" where
  "Send tp now stopped topic r p t =
     (case checkOpen p of
        Inl err \<Rightarrow> (p, t, SendDone 0 (Some err))
      | Inr _ \<Rightarrow>
     (case route tp now p t topic r of
        (p, t, Inl err) \<Rightarrow> (p, t, SendDone 0 (Some err))
      | (p, t, Inr pp) \<Rightarrow>
     (let (p, r) = stamp_if p pp r in
      if 0 < pr_linger p then
        (case enqueue p pp r of
           (p, Inl err) \<Rightarrow> (p, t, SendDone 0 (Some err))
         | (p, Inr ch) \<Rightarrow> (p, t, Waits pp ch))
      else
     (case publishWithRetry tp stopped pp r p t of
        (p, t, offset, Some err) \<Rightarrow> (p, t, SendDone 0 (Some err))
      | (p, t, offset, None) \<Rightarrow>
     (case (if pr_acks p = AcksDurable then tp_Sync tp t pp else (t, Inr ())) of
        (t, Inl err) \<Rightarrow> (p, t, SendDone offset (Some (ErrWrap ''sdk: sync after produce'' err)))
      | (t, Inr _) \<Rightarrow> (fireOnSent p pp offset, t, SendDone offset None))))))"

text \<open>The end of a \<^verbatim>\<open>Send\<close> that waited: its channel has a value.\<close>

definition Send_resume :: "PartitionRef \<Rightarrow> nat \<Rightarrow> Producer \<Rightarrow> (Producer \<times> int \<times> go_error option) option" where
  "Send_resume pp ch p =
     (case map_of (pr_chans p) ch of
        None \<Rightarrow> None
      | Some res \<Rightarrow> Some (if br_err res = None then fireOnSent p pp (br_offset res) else p, br_offset res, br_err res))"

definition SendBatch :: "'t Transport \<Rightarrow> int \<Rightarrow> string \<Rightarrow> Record list \<Rightarrow> Producer \<Rightarrow> 't \<Rightarrow> Producer \<times> 't \<times> int list \<times> go_error option" where
  "SendBatch tp now topic records p t =
     (case checkOpen p of
        Inl err \<Rightarrow> (p, t, [], Some err)
      | Inr _ \<Rightarrow>
     (if length records = 0 then (p, t, [], None)
      else
     (case route tp now p t topic (records ! 0) of
        (p, t, Inl err) \<Rightarrow> (p, t, [], Some err)
      | (p, t, Inr pp) \<Rightarrow>
     (case tp_PublishBatch tp t pp records of
        (t, baseOffset, Some err) \<Rightarrow> (p, t, [], Some (ErrWrap ''sdk: SendBatch'' err))
      | (t, baseOffset, None) \<Rightarrow>
     (let p = p\<lparr>pr_sendCount := pr_sendCount p + int (length records)\<rparr>;
          offsets = map (\<lambda>i. baseOffset + int i) [0..<length records] in
      case (if pr_acks p = AcksDurable then tp_Sync tp t pp else (t, Inr ())) of
        (t, Inl err) \<Rightarrow> (p, t, offsets, Some (ErrWrap ''sdk: sync after batch'' err))
      | (t, Inr _) \<Rightarrow> (foldl (\<lambda>p off. fireOnSent p pp off) p offsets, t, offsets, None))))))"

text \<open>
  \<^verbatim>\<open>SendNoWait\<close>: the record goes to a batcher, or a publishing goroutine is spawned, or the call waits for a slot.
\<close>

datatype nowait_out = Accepted | Refused go_error | Spawned PartitionRef Record | Blocked

definition SendNoWait :: "'t Transport \<Rightarrow> int \<Rightarrow> go_error option \<Rightarrow> string \<Rightarrow> Record \<Rightarrow> Producer \<Rightarrow> 't \<Rightarrow> Producer \<times> 't \<times> nowait_out" where
  "SendNoWait tp now stop topic r p t =
     (case checkOpen p of
        Inl err \<Rightarrow> (p, t, Refused err)
      | Inr _ \<Rightarrow>
     (case route tp now p t topic r of
        (p, t, Inl err) \<Rightarrow> (p, t, Refused err)
      | (p, t, Inr pp) \<Rightarrow>
     (let (p, r) = stamp_if p pp r in
      if 0 < pr_linger p then
        (case enqueueNoWait p pp r of
           (p, Inl err) \<Rightarrow> (p, t, Refused err)
         | (p, Inr _) \<Rightarrow> (p, t, Accepted))
      else
        (case pr_maxInFlight p of
           None \<Rightarrow> (p, t, Spawned pp r)
         | Some n \<Rightarrow>
             if pr_inFlight p < n then (p\<lparr>pr_inFlight := Suc (pr_inFlight p)\<rparr>, t, Spawned pp r)
             else (case stop of Some err \<Rightarrow> (p, t, Refused err) | None \<Rightarrow> (p, t, Blocked))))))"

definition nowait_goroutine :: "'t Transport \<Rightarrow> PartitionRef \<Rightarrow> Record \<Rightarrow> Producer \<Rightarrow> 't \<Rightarrow> Producer \<times> 't" where
  "nowait_goroutine tp pp r p t =
     (case publishWithRetry tp (\<lambda>_. None) pp r p t of
        (p, t, offset, err) \<Rightarrow>
          (let p = (case err of None \<Rightarrow> p | Some e \<Rightarrow> recordAsyncError p pp e)
           in (if pr_maxInFlight p = None then p else p\<lparr>pr_inFlight := pr_inFlight p - 1\<rparr>, t)))"

primrec flush_each :: "'t Transport \<Rightarrow> PartitionRef list \<Rightarrow> Producer \<Rightarrow> 't \<Rightarrow> Producer \<times> 't \<times> go_error option" where
  "flush_each tp [] p t = (p, t, None)"
| "flush_each tp (pp # pps) p t =
     (case flushNow tp pp p t of
        (p, t, Some err) \<Rightarrow> (p, t, Some err)
      | (p, t, None) \<Rightarrow> flush_each tp pps p t)"

text \<open>The order in which Go ranges over the map of batchers is the argument \<open>order\<close>.\<close>

definition Flush :: "'t Transport \<Rightarrow> PartitionRef list \<Rightarrow> Producer \<Rightarrow> 't \<Rightarrow> Producer \<times> 't \<times> go_error option" where
  "Flush tp order p t = flush_each tp order p t"

definition pr_Close :: "PartitionRef list \<Rightarrow> Producer \<Rightarrow> Producer" where
  "pr_Close order p = (if pr_closed p then p else foldl (\<lambda>p pp. bt_shutdown pp p) (p\<lparr>pr_closed := True\<rparr>) order)"

definition PendingCount :: "Producer \<Rightarrow> nat" where
  "PendingCount p = (\<Sum>x \<leftarrow> pr_batchers p. length (bt_pending (snd x)))"

record ProducerStats =
  st_SendCount :: int
  st_AsyncErrors :: int
  st_Pending :: nat
  st_BatcherCount :: nat

definition pr_Stats :: "Producer \<Rightarrow> ProducerStats" where
  "pr_Stats p = \<lparr>st_SendCount = pr_sendCount p, st_AsyncErrors = pr_asyncErrors p, st_Pending = PendingCount p,
     st_BatcherCount = length (pr_batchers p)\<rparr>"

end
