(* ===== verification/Sdk_Inproc.thy ===== *)
theory Sdk_Inproc
  imports Sdk_Producer
begin

text \<open>
  The in-process transport (\<^verbatim>\<open>broker/inproc/inproc.go\<close>): the calls of the client library on a broker of the same process. Its
  state is the broker and the group manager the broker was given, if any. Clocks are arguments as in the broker's model; the
  records of a batch are published one after the other, each with its own clock reading. The calls are those of a context that is not cancelled.
\<close>

record ('st, 'o) inproc =
  ip_broker :: "'st Broker"
  ip_groups :: "'o Manager option"

definition ip_Publish :: "'st store_ops \<Rightarrow> int \<times> int \<Rightarrow> ('st, 'o) inproc \<Rightarrow> PartitionRef \<Rightarrow> Record \<Rightarrow> ('st, 'o) inproc \<times> int \<times> go_error option" where
  "ip_Publish ops clk t p r =
     (case bk_Publish ops None (fst clk) (snd clk) None (ip_broker t) p r of (b, off, err) \<Rightarrow> (t\<lparr>ip_broker := b\<rparr>, off, err))"

primrec ip_publish_rest :: "'st store_ops \<Rightarrow> (nat \<Rightarrow> int \<times> int) \<Rightarrow> PartitionRef \<Rightarrow> int \<Rightarrow> nat \<Rightarrow> Record list \<Rightarrow> ('st, 'o) inproc
    \<Rightarrow> ('st, 'o) inproc \<times> int \<times> go_error option" where
  "ip_publish_rest ops clk p baseOffset i [] t = (t, baseOffset, None)"
| "ip_publish_rest ops clk p baseOffset i (r # rs) t =
     (case ip_Publish ops (clk i) t p r of
        (t, _, Some err) \<Rightarrow> (t, baseOffset, Some err)
      | (t, _, None) \<Rightarrow> ip_publish_rest ops clk p baseOffset (Suc i) rs t)"

definition ip_PublishBatch :: "'st store_ops \<Rightarrow> (nat \<Rightarrow> int \<times> int) \<Rightarrow> ('st, 'o) inproc \<Rightarrow> PartitionRef \<Rightarrow> Record list
    \<Rightarrow> ('st, 'o) inproc \<times> int \<times> go_error option" where
  "ip_PublishBatch ops clk t p records =
     (case records of
        [] \<Rightarrow> (t, 0, None)
      | r # rs \<Rightarrow>
          (case ip_Publish ops (clk 0) t p r of
             (t, baseOffset, Some err) \<Rightarrow> (t, 0, Some err)
           | (t, baseOffset, None) \<Rightarrow> ip_publish_rest ops clk p baseOffset 1 rs t))"

definition ip_Subscribe :: "'st store_ops \<Rightarrow> ('st, 'o) inproc \<Rightarrow> PartitionRef \<Rightarrow> int \<Rightarrow> ('st, 'o) inproc \<times> pump result" where
  "ip_Subscribe ops t p fromOffset =
     (case bk_Subscribe ops None (ip_broker t) p fromOffset of (b, res) \<Rightarrow> (t\<lparr>ip_broker := b\<rparr>, res))"

definition ip_Commit :: "'o offset_ops \<Rightarrow> ('st, 'o) inproc \<Rightarrow> string \<Rightarrow> PartitionRef \<Rightarrow> int \<Rightarrow> ('st, 'o) inproc \<times> unit result" where
  "ip_Commit oops t grp p offset =
     (case ip_groups t of
        None \<Rightarrow> (t, Inr ())
      | Some mgr \<Rightarrow> (case mg_Commit oops mgr grp (p_Topic p) (p_Index p) offset of (mgr, res) \<Rightarrow> (t\<lparr>ip_groups := Some mgr\<rparr>, res)))"

definition ip_JoinGroup :: "'o offset_ops \<Rightarrow> int \<times> int \<Rightarrow> string \<Rightarrow> ('st, 'o) inproc \<Rightarrow> string \<Rightarrow> string \<Rightarrow> string list
    \<Rightarrow> ('st, 'o) inproc \<times> JoinResult result" where
  "ip_JoinGroup oops clk fresh t grp memberID topics =
     (case ip_groups t of
        None \<Rightarrow> (t, Inl (ErrNew ''inproc: broker has no group manager''))
      | Some mgr \<Rightarrow>
          (case mg_Join oops (PartitionsFor (bk_registry (ip_broker t))) (fst clk) (snd clk) fresh mgr grp memberID topics of
             (mgr, res) \<Rightarrow>
               (t\<lparr>ip_groups := Some mgr\<rparr>,
                case res of
                  Inl err \<Rightarrow> Inl err
                | Inr j \<Rightarrow> Inr \<lparr>jr_MemberID = jr_MemberID j, jr_Generation = jr_Generation j,
                    jr_Assignments = map (\<lambda>a. \<lparr>as_Partition = as_Partition a, as_CommittedOffset = as_CommittedOffset a\<rparr>)
                      (jr_Assignments j)\<rparr>)))"

text \<open>\<^verbatim>\<open>Heartbeat\<close> returns, or waits on the wake-up channel of a long poll.\<close>

definition ip_Heartbeat :: "int \<times> int \<Rightarrow> ('st, 'o) inproc \<Rightarrow> string \<Rightarrow> string \<Rightarrow> int \<Rightarrow> int \<Rightarrow> ('st, 'o) inproc \<times> wait" where
  "ip_Heartbeat clk t grp memberID generation maxWait =
     (case ip_groups t of
        None \<Rightarrow> (t, Returned False (Some (ErrNew ''inproc: broker has no group manager'')))
      | Some mgr \<Rightarrow>
          if 0 < maxWait then
            (case HeartbeatWait_begin (fst clk) (snd clk) mgr grp memberID generation maxWait of
               (mgr, w) \<Rightarrow> (t\<lparr>ip_groups := Some mgr\<rparr>, w))
          else
            (case mg_Heartbeat (fst clk) (snd clk) mgr grp memberID generation of
               (mgr, needed, err) \<Rightarrow> (t\<lparr>ip_groups := Some mgr\<rparr>, Returned needed err)))"

definition ip_LeaveGroup :: "('st, 'o) inproc \<Rightarrow> string \<Rightarrow> string \<Rightarrow> ('st, 'o) inproc \<times> unit result" where
  "ip_LeaveGroup t grp memberID =
     (case ip_groups t of
        None \<Rightarrow> (t, Inr ())
      | Some mgr \<Rightarrow> (case mg_Leave mgr grp memberID of (mgr, res) \<Rightarrow> (t\<lparr>ip_groups := Some mgr\<rparr>, res)))"

definition ip_Sync :: "'st store_ops \<Rightarrow> ('st, 'o) inproc \<Rightarrow> PartitionRef \<Rightarrow> ('st, 'o) inproc \<times> unit result" where
  "ip_Sync ops t p = (case bk_Sync ops None (ip_broker t) p of (b, res) \<Rightarrow> (t\<lparr>ip_broker := b\<rparr>, res))"

definition ip_PartitionsFor :: "('st, 'o) inproc \<Rightarrow> string \<Rightarrow> ('st, 'o) inproc \<times> int result" where
  "ip_PartitionsFor t topic = (t, PartitionsFor (bk_registry (ip_broker t)) topic)"

definition ip_HighWater :: "'st store_ops \<Rightarrow> ('st, 'o) inproc \<Rightarrow> PartitionRef \<Rightarrow> ('st, 'o) inproc \<times> int result" where
  "ip_HighWater ops t p = (case bk_HighWater ops None (ip_broker t) p of (b, res) \<Rightarrow> (t\<lparr>ip_broker := b\<rparr>, res))"

definition ip_EnsureTopic :: "('st, 'o) inproc \<Rightarrow> string \<Rightarrow> int \<Rightarrow> ('st, 'o) inproc \<times> unit result" where
  "ip_EnsureTopic t name partitions =
     (let partitions = (if partitions \<le> 0 then 1 else partitions) in
      case bk_CreateTopic (ip_broker t) \<lparr>sp_Name = name, sp_PartitionCount = partitions, sp_RetentionMs = 0, sp_SegmentBytes = 0\<rparr> of
        (b, Inl err) \<Rightarrow> (t\<lparr>ip_broker := b\<rparr>, if errors_Is err ErrTopicExists then Inr () else Inl err)
      | (b, Inr _) \<Rightarrow> (t\<lparr>ip_broker := b\<rparr>, Inr ()))"

definition ip_DeleteTopic :: "'st store_ops \<Rightarrow> ('st, 'o) inproc \<Rightarrow> string \<Rightarrow> ('st, 'o) inproc \<times> unit result" where
  "ip_DeleteTopic ops t name = (case bk_DeleteTopic ops (ip_broker t) name of (b, res) \<Rightarrow> (t\<lparr>ip_broker := b\<rparr>, res))"

text \<open>What a producer sees of it.\<close>

definition inproc_transport :: "'st store_ops \<Rightarrow> (nat \<Rightarrow> int \<times> int) \<Rightarrow> ('st, 'o) inproc Transport" where
  "inproc_transport ops clk = \<lparr>tp_Publish = ip_Publish ops (clk 0), tp_PublishBatch = ip_PublishBatch ops clk,
     tp_PartitionsFor = ip_PartitionsFor, tp_Sync = ip_Sync ops\<rparr>"

end
