(* ===== verification/Sdk_Producer_Props.thy ===== *)
theory Sdk_Producer_Props
  imports Sdk_Inproc Broker_Props "HOL-Library.Multiset"
begin

text \<open>
  What the producer promises: how often it publishes and how long it waits between retries; that every waiting call is answered
  exactly once, although flushes of one partition may overlap and overtake each other; and that a retried send of an idempotent
  producer, through the in-process transport to a broker on the disk store, stores the record once whatever replies are lost.
\<close>

section \<open>Retries\<close>

lemma wrap64_id: "int64_ok x \<Longrightarrow> wrap64 x = x"
  by (simp add: wrap64_def int64_of_uint64_of)

lemma backoff_loop_pow:
  assumes "0 \<le> base" "8 * base < 2 ^ 63" "k \<le> 3"
  shows "backoff_loop base n (base * 2 ^ k) = (if base = 0 then 0 else base * 2 ^ min (k + n) 3)"
  using assms(3)
proof (induction n arbitrary: k)
  case (Suc n)
  have w8: "wrap64 (8 * base) = 8 * base" using assms by (intro wrap64_id) (simp add: int64_ok_def)
  consider "base = 0" | "0 < base" "k = 3" | "0 < base" "k < 3" using assms(1) Suc.prems by linarith
  then show ?case
  proof cases
    case 3
    then have "k = 0 \<or> k = 1 \<or> k = 2" by auto
    then have lt: "base * 2 ^ k < 8 * base" "base * 2 ^ k * 2 = base * 2 ^ Suc k" "int64_ok (base * 2 ^ Suc k)"
      using 3(1) assms(2) by (auto simp: int64_ok_def)
    then have "wrap64 (base * 2 ^ k * 2) = base * 2 ^ Suc k" by (simp only: wrap64_id)
    with Suc.IH [of "Suc k"] lt w8 3 show ?thesis by simp
  qed (simp_all add: w8 wrap64_id int64_ok_def)
qed simp

lemma backoff_eq:
  assumes "0 \<le> base" "8 * base < 2 ^ 63"
  shows "backoff base n = base * 2 ^ min n 3"
proof -
  have w8: "wrap64 (8 * base) = 8 * base" using assms by (intro wrap64_id) (simp add: int64_ok_def)
  have "(2 :: int) ^ min n 3 \<le> 2 ^ 3" by (intro power_increasing) simp_all
  then have "base * 2 ^ min n 3 \<le> base * 8" using assms(1) by (intro mult_left_mono) simp_all
  with backoff_loop_pow [OF assms, of 0 n] w8 show ?thesis by (simp add: backoff_def)
qed

text \<open>A transport that counts the publications it is asked for.\<close>

definition counting :: "'t Transport \<Rightarrow> ('t \<times> nat) Transport" where
  "counting tp = \<lparr>
     tp_Publish = (\<lambda>t pp r. case tp_Publish tp (fst t) pp r of (t', res) \<Rightarrow> ((t', Suc (snd t)), res)),
     tp_PublishBatch = (\<lambda>t pp rs. case tp_PublishBatch tp (fst t) pp rs of (t', res) \<Rightarrow> ((t', Suc (snd t)), res)),
     tp_PartitionsFor = (\<lambda>t topic. case tp_PartitionsFor tp (fst t) topic of (t', res) \<Rightarrow> ((t', snd t), res)),
     tp_Sync = (\<lambda>t pp. case tp_Sync tp (fst t) pp of (t', res) \<Rightarrow> ((t', snd t), res))\<rparr>"

lemma shouldRetry_slept [simp]: "shouldRetry (p\<lparr>pr_slept := x\<rparr>) = shouldRetry p"
  by (simp add: shouldRetry_def fun_eq_iff split: option.split)

lemma retry_loop_count:
  assumes "int attempt \<le> pr_rateLimitTries p"
    and "retry_loop (counting tp) stopped pp r attempt p (t, c) = (p', (t', c'), off, err)"
  shows "\<exists>n. c' = c + Suc n \<and> int attempt + int n \<le> pr_rateLimitTries p
    \<and> (\<exists>m. pr_slept p' = pr_slept p @ map (backoff (pr_rateLimitWait p)) [attempt..<attempt + m] \<and> m \<le> Suc n \<and> int attempt + int m \<le> pr_rateLimitTries p)
    \<and> (\<forall>e. err = Some e \<and> shouldRetry p e \<and> stopped = (\<lambda>_. None) \<longrightarrow> int attempt + int n = pr_rateLimitTries p)"
  using assms
proof (induction "nat (pr_rateLimitTries p) - attempt" arbitrary: attempt p t c)
  case 0
  then have T: "pr_rateLimitTries p = int attempt" by simp
  obtain t1 o1 e1 where pub: "tp_Publish tp t pp r = (t1, o1, e1)" by (metis prod.collapse)
  have "retry_loop (counting tp) stopped pp r attempt p (t, c)
      = (if e1 = None then p\<lparr>pr_sendCount := pr_sendCount p + 1\<rparr> else p, (t1, Suc c), o1, e1)"
    by (subst retry_loop.simps) (simp add: counting_def pub T)
  with "0.prems" T show ?case by (intro exI [of _ 0]) (auto intro!: exI [of _ 0] split: if_splits)
next
  case (Suc k)
  then have T: "int attempt < pr_rateLimitTries p" by simp
  obtain t1 o1 e1 where pub: "tp_Publish tp t pp r = (t1, o1, e1)" by (metis prod.collapse)
  let ?p = "p\<lparr>pr_slept := pr_slept p @ [backoff (pr_rateLimitWait p) attempt]\<rparr>"
  have run: "retry_loop (counting tp) stopped pp r attempt p (t, c)
      = (if e1 = None \<or> \<not> shouldRetry p (the e1) then (if e1 = None then p\<lparr>pr_sendCount := pr_sendCount p + 1\<rparr> else p, (t1, Suc c), o1, e1)
         else case stopped attempt of Some e \<Rightarrow> (?p, (t1, Suc c), 0, Some e)
              | None \<Rightarrow> retry_loop (counting tp) stopped pp r (Suc attempt) ?p (t1, Suc c))"
    using T by (subst retry_loop.simps) (simp add: counting_def pub Let_def)
  consider "e1 = None \<or> \<not> shouldRetry p (the e1)" | e where "\<not> (e1 = None \<or> \<not> shouldRetry p (the e1))" "stopped attempt = Some e"
    | "\<not> (e1 = None \<or> \<not> shouldRetry p (the e1))" "stopped attempt = None"
    by (cases "stopped attempt") blast+
  then show ?case
  proof cases
    case 1
    with run Suc.prems T show ?thesis by (intro exI [of _ 0]) (auto intro!: exI [of _ 0] split: if_splits)
  next
    case 2
    with run Suc.prems T show ?thesis by (intro exI [of _ 0]) (auto intro!: exI [of _ "Suc 0"])
  next
    case 3
    have "k = nat (pr_rateLimitTries ?p) - Suc attempt" "int (Suc attempt) \<le> pr_rateLimitTries ?p" using Suc.hyps(2) T by simp_all
    moreover have "retry_loop (counting tp) stopped pp r (Suc attempt) ?p (t1, Suc c) = (p', (t', c'), off, err)"
      using run 3 Suc.prems(2) by simp
    ultimately obtain n m where ih: "c' = Suc c + Suc n" "int (Suc attempt) + int n \<le> pr_rateLimitTries p"
      "pr_slept p' = pr_slept ?p @ map (backoff (pr_rateLimitWait p)) [Suc attempt..<Suc attempt + m]" "m \<le> Suc n"
      "int (Suc attempt) + int m \<le> pr_rateLimitTries p"
      "\<forall>e. err = Some e \<and> shouldRetry p e \<and> stopped = (\<lambda>_. None) \<longrightarrow> int (Suc attempt) + int n = pr_rateLimitTries p"
      using Suc.hyps(1) [of ?p "Suc attempt" t1 "Suc c"] by auto
    have "[attempt..<attempt + Suc m] = attempt # [Suc attempt..<Suc attempt + m]" by (simp add: upt_conv_Cons)
    then have sl: "pr_slept p' = pr_slept p @ map (backoff (pr_rateLimitWait p)) [attempt..<attempt + Suc m]"
      unfolding ih(3) by (simp del: upt_Suc)
    have "\<exists>m. pr_slept p' = pr_slept p @ map (backoff (pr_rateLimitWait p)) [attempt..<attempt + m] \<and> m \<le> Suc (Suc n)
        \<and> int attempt + int m \<le> pr_rateLimitTries p"
      by (rule exI [of _ "Suc m"]) (use sl ih(4,5) in \<open>simp del: upt_Suc\<close>)
    with ih(1,2,6) show ?thesis by (intro exI [of _ "Suc n"]) auto
  qed
qed


definition busy_transport :: "unit Transport" where
  "busy_transport = \<lparr>tp_Publish = (\<lambda>t pp r. (t, 0, Some (ErrProtocol StatusRateLimited ''slow down''))),
     tp_PublishBatch = (\<lambda>t pp rs. (t, 0, None)), tp_PartitionsFor = (\<lambda>t topic. (t, Inr 1)), tp_Sync = (\<lambda>t pp. (t, Inr ()))\<rparr>"


section \<open>Batchers and their flushes\<close>

text \<open>
  The interleavings of the callers, the timers, the flush goroutines and \<^verbatim>\<open>Close\<close>. A flight is a batch taken from a batcher whose
  publication is under way.
\<close>

type_synonym flight = "PartitionRef \<times> Record list \<times> nat option list"

inductive pstep :: "'t Transport \<Rightarrow> Producer \<times> 't \<times> flight list \<Rightarrow> Producer \<times> 't \<times> flight list \<Rightarrow> bool" for tp where
  send: "enqueue p pp r = (p', Inr ch) \<Longrightarrow> pstep tp (p, t, fl) (p', t, fl)"
| send_nowait: "enqueueNoWait p pp r = (p', Inr ()) \<Longrightarrow> pstep tp (p, t, fl) (p', t, fl)"
| timer_fires: "map_of (pr_batchers p) pp = Some b \<Longrightarrow> bt_timer b \<Longrightarrow>
    pstep tp (p, t, fl) (put_batcher p pp (b\<lparr>bt_spawned := Suc (bt_spawned b)\<rparr>), t, fl)"
| goroutine: "map_of (pr_batchers p) pp = Some b \<Longrightarrow> 0 < bt_spawned b \<Longrightarrow> flush_begin b = (b', taken) \<Longrightarrow>
    pstep tp (p, t, fl) (put_batcher p pp (b'\<lparr>bt_spawned := bt_spawned b' - 1\<rparr>), t, fl @ (case taken of None \<Rightarrow> [] | Some x \<Rightarrow> [(pp, x)]))"
| explicit_flush: "map_of (pr_batchers p) pp = Some b \<Longrightarrow> flush_begin b = (b', taken) \<Longrightarrow>
    pstep tp (p, t, fl) (put_batcher p pp b', t, fl @ (case taken of None \<Rightarrow> [] | Some x \<Rightarrow> [(pp, x)]))"
| publication: "flush_end tp pp taken p t = (p', t', err) \<Longrightarrow> pstep tp (p, t, fl @ (pp, taken) # fl') (p', t', fl @ fl')"
| close: "pstep tp (p, t, fl) (pr_Close (map fst (pr_batchers p)) p, t, fl)"

definition somes :: "nat option list \<Rightarrow> nat list" where
  "somes xs = map the (filter (\<lambda>x. x \<noteq> None) xs)"

lemma somes_simps [simp]: "somes [] = []" "somes (None # xs) = somes xs" "somes (Some c # xs) = c # somes xs"
  "somes (xs @ ys) = somes xs @ somes ys"
  by (simp_all add: somes_def)

definition open_chans :: "Producer \<Rightarrow> nat list" where
  "open_chans p = concat (map (\<lambda>x. somes (bt_results (snd x))) (pr_batchers p))"

definition flight_chans :: "flight list \<Rightarrow> nat list" where
  "flight_chans fl = concat (map (\<lambda>x. somes (snd (snd x))) fl)"

lemma flight_chans_simps [simp]: "flight_chans [] = []" "flight_chans (x # fl) = somes (snd (snd x)) @ flight_chans fl"
  "flight_chans (fl @ fl') = flight_chans fl @ flight_chans fl'"
  by (simp_all add: flight_chans_def)

lemma mset_update:
  assumes "distinct (map fst al)"
  shows "mset (concat (map (\<lambda>x. f (snd x)) (AList.update k v al))) + (case map_of al k of None \<Rightarrow> {#} | Some w \<Rightarrow> mset (f w))
    = mset (concat (map (\<lambda>x. f (snd x)) al)) + mset (f v)"
  using assms by (induction al) (auto simp: map_of_eq_None_iff ac_simps split: option.splits)

lemma open_chans_put:
  assumes "distinct (map fst (pr_batchers p))"
  shows "mset (open_chans (put_batcher p pp b)) + mset (somes (bt_results (get_batcher p pp)))
    = mset (open_chans p) + mset (somes (bt_results b))"
  using mset_update [OF assms, of "\<lambda>b. somes (bt_results b)" pp b]
  by (simp add: open_chans_def put_batcher_def get_batcher_def newBatcher_def split: option.splits)

lemma put_batcher_sel [simp]:
  "pr_chans (put_batcher p pp b) = pr_chans p" "pr_nextChan (put_batcher p pp b) = pr_nextChan p"
  "pr_closed (put_batcher p pp b) = pr_closed p" "pr_batchSize (put_batcher p pp b) = pr_batchSize p"
  "get_batcher (put_batcher p pp b) qq = (if qq = pp then b else get_batcher p qq)"
  "distinct (map fst (pr_batchers p)) \<Longrightarrow> distinct (map fst (pr_batchers (put_batcher p pp b)))"
  by (simp_all add: put_batcher_def get_batcher_def update_conv' distinct_update)

definition answered :: "Producer \<Rightarrow> nat multiset" where
  "answered p = mset (map fst (pr_chans p))"

definition issued :: "nat \<Rightarrow> nat multiset" where
  "issued n = mset [0..<n]"

lemma issued_Suc [simp]: "issued (Suc n) = add_mset n (issued n)"
  by (simp add: issued_def)

lemma answered_put [simp]: "answered (put_batcher p pp b) = answered p" "answered (p\<lparr>pr_nextChan := n\<rparr>) = answered p"
  "answered (p\<lparr>pr_closed := c\<rparr>) = answered p"
  by (simp_all add: answered_def put_batcher_def)

lemma answers:
  "map fst (pr_chans (answer_error pp err chs p)) = map fst (pr_chans p) @ somes chs"
  "pr_batchers (answer_error pp err chs p) = pr_batchers p" "pr_nextChan (answer_error pp err chs p) = pr_nextChan p"
  "map fst (pr_chans (answer_offsets off chs p)) = map fst (pr_chans p) @ somes chs"
  "pr_batchers (answer_offsets off chs p) = pr_batchers p" "pr_nextChan (answer_offsets off chs p) = pr_nextChan p"
proof -
  show "map fst (pr_chans (answer_error pp err chs p)) = map fst (pr_chans p) @ somes chs"
    "pr_batchers (answer_error pp err chs p) = pr_batchers p" "pr_nextChan (answer_error pp err chs p) = pr_nextChan p"
    by (induction chs arbitrary: p) (simp_all add: recordAsyncError_def split: option.split)
  show "map fst (pr_chans (answer_offsets off chs p)) = map fst (pr_chans p) @ somes chs"
    "pr_batchers (answer_offsets off chs p) = pr_batchers p" "pr_nextChan (answer_offsets off chs p) = pr_nextChan p"
    by (induction chs arbitrary: p off) (simp_all split: option.split)
qed

lemma answered_answers: "answered (answer_error pp err chs p) = answered p + mset (somes chs)"
  unfolding answered_def answers by simp

text \<open>
  Every channel handed out is in one place: a batcher, a flight, or answered. A batcher with pending records has a flush coming.
\<close>

definition scheduled :: "batcher \<Rightarrow> bool" where
  "scheduled b \<longleftrightarrow> (bt_pending b \<noteq> [] \<longrightarrow> bt_timer b \<or> 0 < bt_spawned b) \<and> length (bt_results b) = length (bt_pending b)"

definition psys_ok :: "Producer \<times> 't \<times> flight list \<Rightarrow> bool" where
  "psys_ok s \<longleftrightarrow> (case s of (p, t, fl) \<Rightarrow> distinct (map fst (pr_batchers p))
     \<and> (\<forall>pp. scheduled (get_batcher p pp))
     \<and> mset (open_chans p) + mset (flight_chans fl) + answered p = issued (pr_nextChan p))"

lemma scheduled_new [simp]: "scheduled newBatcher"
  by (simp add: scheduled_def newBatcher_def)

lemma scheduled_enqueue: "scheduled b \<Longrightarrow> scheduled (bt_enqueue n b r ch)"
  by (auto simp: scheduled_def bt_enqueue_def Let_def)

lemma bt_enqueue_results [simp]: "bt_results (bt_enqueue n b r ch) = bt_results b @ [ch]"
  by (simp add: bt_enqueue_def Let_def)

lemma flush_begin_scheduled:
  assumes "flush_begin b = (b', taken)" "scheduled b"
  shows "scheduled b'" "scheduled (b'\<lparr>bt_spawned := n\<rparr>)"
    "somes (bt_results b') @ (case taken of None \<Rightarrow> [] | Some x \<Rightarrow> somes (snd x)) = somes (bt_results b)"
  using assms by (auto simp: flush_begin_def scheduled_def split: if_splits)

lemma flush_end_sel:
  assumes "flush_end tp pp taken p t = (p', t', err)"
  shows "pr_batchers p' = pr_batchers p" "pr_nextChan p' = pr_nextChan p"
    "answered p' = answered p + mset (somes (snd taken))"
  using assms by (auto simp: flush_end_def answered_def answers simp flip: mset_map split: prod.splits option.splits sum.splits if_splits)

lemma enqueue_ok:
  assumes ok: "psys_ok (p, t, fl)" and p': "p' = (put_batcher (put_batcher p pp (get_batcher p pp)) pp
      (bt_enqueue n (get_batcher p pp) r ch))\<lparr>pr_nextChan := m\<rparr>"
    and m: "issued m = issued (pr_nextChan p) + mset (somes [ch])"
  shows "psys_ok (p', t, fl)"
proof -
  let ?b = "get_batcher p pp" and ?p1 = "put_batcher p pp (get_batcher p pp)"
  have d: "distinct (map fst (pr_batchers p))" "distinct (map fst (pr_batchers ?p1))" and s: "\<forall>pp. scheduled (get_batcher p pp)"
    using ok by (simp_all add: psys_ok_def)
  have "mset (open_chans ?p1) = mset (open_chans p)" using open_chans_put [OF d(1), of pp ?b] by simp
  then have "mset (open_chans p') = mset (open_chans p) + mset (somes [ch])"
    using open_chans_put [OF d(2), of pp "bt_enqueue n ?b r ch"] by (simp add: p' open_chans_def)
  moreover have "get_batcher p' qq = (if qq = pp then bt_enqueue n ?b r ch else get_batcher p qq)" for qq
    unfolding p' get_batcher_def by (simp add: put_batcher_def update_conv')
  moreover have "distinct (map fst (pr_batchers p'))" using d by (simp add: p')
  ultimately show ?thesis
    using ok s m scheduled_enqueue [of ?b n r ch] by (simp add: psys_ok_def p' ac_simps)
qed

lemma flush_begin_ok:
  assumes ok: "psys_ok (p, t, fl)" and b: "map_of (pr_batchers p) pp = Some b" "flush_begin b = (b', taken)"
    and b2: "b2 = b' \<or> b2 = b'\<lparr>bt_spawned := n\<rparr>"
  shows "psys_ok (put_batcher p pp b2, t, fl @ (case taken of None \<Rightarrow> [] | Some x \<Rightarrow> [(pp, x)]))"
proof -
  have g: "get_batcher p pp = b" using b(1) by (simp add: get_batcher_def)
  have d: "distinct (map fst (pr_batchers p))" and s: "scheduled b" using ok g by (auto simp: psys_ok_def)
  note fb = flush_begin_scheduled [OF b(2) s]
  have r: "bt_results b2 = bt_results b'" "scheduled b2" using b2 fb by auto
  have "mset (somes (bt_results b)) = mset (somes (bt_results b')) + mset (flight_chans (case taken of None \<Rightarrow> [] | Some x \<Rightarrow> [(pp, x)]))"
    using fb(3) by (metis (no_types, lifting) mset_append flight_chans_simps append_Nil2 option.case_eq_if snd_conv)
  with open_chans_put [OF d, of pp b2] g r have "mset (open_chans (put_batcher p pp b2))
      + mset (flight_chans (case taken of None \<Rightarrow> [] | Some x \<Rightarrow> [(pp, x)])) = mset (open_chans p)"
    by (simp add: ac_simps)
  with ok d r(2) show ?thesis by (simp add: psys_ok_def ac_simps)
qed

lemma shutdown_ok:
  assumes "psys_ok (p, t, fl)"
  shows "psys_ok (bt_shutdown pp p, t, fl)"
proof (cases "bt_closed (get_batcher p pp)")
  case False
  let ?b = "get_batcher p pp"
  let ?q = "answer_error pp (ErrNew ''sdk: producer closed'') (bt_results ?b) p"
  let ?b' = "?b\<lparr>bt_closed := True, bt_timer := False, bt_pending := [], bt_results := []\<rparr>"
  have d: "distinct (map fst (pr_batchers ?q))" using assms by (simp add: psys_ok_def answers)
  have g: "get_batcher ?q = get_batcher p" "open_chans ?q = open_chans p" by (simp_all add: get_batcher_def open_chans_def answers fun_eq_iff)
  have "mset (open_chans (put_batcher ?q pp ?b')) + mset (somes (bt_results ?b)) = mset (open_chans p)"
    using open_chans_put [OF d, of pp ?b'] by (simp add: g)
  with assms d False show ?thesis
    by (auto simp: psys_ok_def bt_shutdown_def Let_def g answers answered_answers scheduled_def ac_simps)
qed (simp add: assms bt_shutdown_def)

lemma pstep_ok:
  assumes "pstep tp s s'" "psys_ok s"
  shows "psys_ok s'"
  using assms
proof (induction rule: pstep.induct)
  case (send p pp r p' ch t fl)
  then have "p' = (put_batcher (put_batcher p pp (get_batcher p pp)) pp
      (bt_enqueue (pr_batchSize p) (get_batcher p pp) r (Some (pr_nextChan p))))\<lparr>pr_nextChan := Suc (pr_nextChan p)\<rparr>"
    by (auto simp: enqueue_def Let_def split: if_splits)
  from enqueue_ok [OF send(2) this] show ?case by simp
next
  case (send_nowait p pp r p' t fl)
  then have "p' = (put_batcher (put_batcher p pp (get_batcher p pp)) pp
      (bt_enqueue (pr_batchSize p) (get_batcher p pp) r None))\<lparr>pr_nextChan := pr_nextChan p\<rparr>"
    by (auto simp: enqueueNoWait_def Let_def put_batcher_def split: if_splits)
  from enqueue_ok [OF send_nowait(2) this] show ?case by simp
next
  case (timer_fires p pp b t fl)
  then have g: "get_batcher p pp = b" by (simp add: get_batcher_def)
  with timer_fires open_chans_put [of p pp "b\<lparr>bt_spawned := Suc (bt_spawned b)\<rparr>"] show ?case
    by (auto simp: psys_ok_def scheduled_def)
next
  case (goroutine p pp b b' taken t fl)
  then show ?case by (intro flush_begin_ok) auto
next
  case (explicit_flush p pp b b' taken t fl)
  then show ?case by (intro flush_begin_ok) auto
next
  case (publication pp taken p t p' t' err fl fl')
  note sel = flush_end_sel [OF publication(1)]
  have "get_batcher p' = get_batcher p" "open_chans p' = open_chans p" by (simp_all add: get_batcher_def open_chans_def sel fun_eq_iff)
  with publication(2) show ?case by (simp add: psys_ok_def sel ac_simps)
next
  case (close p t fl)
  have "psys_ok (foldl (\<lambda>p pp. bt_shutdown pp p) q pps, t, fl)" if "psys_ok (q, t, fl)" for q pps
    using that by (induction pps arbitrary: q) (simp_all add: shutdown_ok)
  moreover have "psys_ok (p\<lparr>pr_closed := True\<rparr>, t, fl)" using close by (simp add: psys_ok_def get_batcher_def open_chans_def)
  ultimately show ?case using close by (simp add: pr_Close_def)
qed

text \<open>
  C18: Whatever the interleaving of senders, timers, flushes, publications and a close, every result channel a waiting send was
  given is in exactly one place: with a pending record, in a batch being published, or answered with one value. No pending record
  is forgotten: its batcher has an armed timer or a flush about to run.
\<close>

theorem sends_answered_once:
  assumes "(pstep tp)\<^sup>*\<^sup>* (p0, t0, []) (p, t, fl)" "pr_batchers p0 = []" "pr_chans p0 = []" "pr_nextChan p0 = 0"
  shows "mset (open_chans p) + mset (flight_chans fl) + mset (map fst (pr_chans p)) = mset [0..<pr_nextChan p]
    \<and> (bt_pending (get_batcher p pp) \<noteq> [] \<longrightarrow> bt_timer (get_batcher p pp) \<or> 0 < bt_spawned (get_batcher p pp))"
proof -
  have "psys_ok (p0, t0, [])" using assms(2-4) by (simp add: psys_ok_def get_batcher_def open_chans_def answered_def issued_def)
  with assms(1) have "psys_ok (p, t, fl)"
    by (induction rule: rtranclp_induct) (auto intro: pstep_ok)
  then show ?thesis unfolding psys_ok_def scheduled_def answered_def issued_def by auto
qed

text \<open>A transport that keeps the records of its only partition in a list.\<close>

definition list_transport :: "Record list Transport" where
  "list_transport = \<lparr>tp_Publish = (\<lambda>t pp r. (t @ [r], int (length t), None)),
     tp_PublishBatch = (\<lambda>t pp rs. (t @ rs, int (length t), None)),
     tp_PartitionsFor = (\<lambda>t topic. (t, Inr 1)), tp_Sync = (\<lambda>t pp. (t, Inr ()))\<rparr>"

definition lingering :: "int \<Rightarrow> Producer" where
  "lingering n = WithLinger 5 (WithBatchSize n zero_producer)"

lemmas producer_eval = lingering_def WithLinger_def WithBatchSize_def zero_producer_def defaultBatchSize_def enqueue_def get_batcher_def
  put_batcher_def newBatcher_def bt_enqueue_def flush_begin_def Let_def

lemma sends_answered_once_witness:
  "\<exists>p. (pstep list_transport)\<^sup>*\<^sup>* (lingering 9, [], []) (p, [], []) \<and> pr_nextChan p = 1
    \<and> mset (open_chans p) + mset (flight_chans []) + mset (map fst (pr_chans p)) = mset [0..<1]
    \<and> (bt_timer (get_batcher p \<lparr>p_Topic = ''t'', p_Index = 0\<rparr>) \<or> 0 < bt_spawned (get_batcher p \<lparr>p_Topic = ''t'', p_Index = 0\<rparr>))"
proof -
  let ?pp = "\<lparr>p_Topic = ''t'', p_Index = 0\<rparr>"
  obtain p ch where e: "enqueue (lingering 9) ?pp keyless = (p, Inr ch)" by (simp add: producer_eval)
  have "(pstep list_transport)\<^sup>*\<^sup>* (lingering 9, [], []) (p, [], [])" by (rule r_into_rtranclp, rule pstep.send [OF e])
  moreover from e have "pr_nextChan p = 1" "bt_pending (get_batcher p ?pp) \<noteq> []" by (auto simp: producer_eval)
  moreover have "pr_batchers (lingering 9) = []" "pr_chans (lingering 9) = []" "pr_nextChan (lingering 9) = 0" by (simp_all add: producer_eval)
  ultimately show ?thesis using sends_answered_once [of list_transport "lingering 9" "[]" p "[]" "[]" ?pp] by auto
qed

text \<open>
  C40: Flushes of one partition can overlap: the batch of an earlier send can be published after the batch of a later one, so the
  partition's log has the two records in the reverse of the order in which the producer accepted them.
\<close>

theorem flushes_overtake:
  "\<exists>p1 p2 p3 p. enqueue (lingering 1) pp a = (p1, Inr 0)
    \<and> (pstep list_transport)\<^sup>*\<^sup>* (p1, [], []) (p2, [], [(pp, [a], [Some 0])])
    \<and> enqueue p2 pp b = (p3, Inr 1)
    \<and> (pstep list_transport)\<^sup>*\<^sup>* (p3, [], [(pp, [a], [Some 0])]) (p, [b, a], [])
    \<and> map_of (pr_chans p) 0 = Some \<lparr>br_offset = 1, br_err = None\<rparr> \<and> map_of (pr_chans p) 1 = Some \<lparr>br_offset = 0, br_err = None\<rparr>"
proof -
  let ?idle = "newBatcher" and ?full = "\<lambda>r c. newBatcher\<lparr>bt_pending := [r], bt_results := [Some c], bt_spawned := 1\<rparr>"
  let ?P = "\<lambda>b n cs k. (lingering 1)\<lparr>pr_batchers := [(pp, b)], pr_nextChan := n, pr_chans := cs, pr_sendCount := k\<rparr>"
  let ?A = "(pp, [a], [Some 0])" and ?B = "(pp, [b], [Some 1])"
  let ?r0 = "(0, \<lparr>br_offset = 1, br_err = None\<rparr>)" and ?r1 = "(1, \<lparr>br_offset = 0, br_err = None\<rparr>)"
  have e1: "enqueue (lingering 1) pp a = (?P (?full a 0) 1 [] 0, Inr 0)"
    and e2: "enqueue (?P ?idle 1 [] 0) pp b = (?P (?full b 1) 2 [] 0, Inr 1)"
    by (simp_all add: producer_eval)
  have g: "pstep list_transport (?P (?full r c) n [] 0, [], fl) (?P ?idle n [] 0, [], fl @ [(pp, [r], [Some c])])" for r c n fl
    using pstep.goroutine [of "?P (?full r c) n [] 0" pp "?full r c" "?idle\<lparr>bt_spawned := 1\<rparr>" "Some ([r], [Some c])" list_transport "[]" fl]
    by (simp add: producer_eval)
  have ga: "pstep list_transport (?P (?full a 0) 1 [] 0, [], []) (?P ?idle 1 [] 0, [], [] @ [?A])"
    and gb: "pstep list_transport (?P (?full b 1) 2 [] 0, [], [?A]) (?P ?idle 2 [] 0, [], [?A] @ [?B])"
    by (rule g)+
  have "flush_end list_transport pp ([b], [Some 1]) (?P ?idle 2 [] 0) [] = (?P ?idle 2 [?r1] 1, [b], None)"
    by (simp add: flush_end_def list_transport_def producer_eval)
  from pstep.publication [OF this, of "[?A]" "[]"]
  have pb: "pstep list_transport (?P ?idle 2 [] 0, [], [?A, ?B]) (?P ?idle 2 [?r1] 1, [b], [?A])" by simp
  have "flush_end list_transport pp ([a], [Some 0]) (?P ?idle 2 [?r1] 1) [b] = (?P ?idle 2 [?r1, ?r0] 2, [b, a], None)"
    by (simp add: flush_end_def list_transport_def producer_eval)
  from pstep.publication [OF this, of "[]" "[]"]
  have pa: "pstep list_transport (?P ?idle 2 [?r1] 1, [b], [?A]) (?P ?idle 2 [?r1, ?r0] 2, [b, a], [])" by simp
  have "(pstep list_transport)\<^sup>*\<^sup>* (?P (?full a 0) 1 [] 0, [], []) (?P ?idle 1 [] 0, [], [?A])"
    using ga by auto
  moreover have "(pstep list_transport)\<^sup>*\<^sup>* (?P (?full b 1) 2 [] 0, [], [?A]) (?P ?idle 2 [?r1, ?r0] 2, [b, a], [])"
    using gb pb pa by (auto intro: converse_rtranclp_into_rtranclp)
  ultimately show ?thesis using e1 e2 by (intro exI conjI) (assumption | simp)+
qed

section \<open>Exactly-once sends\<close>

text \<open>
  A transport with a faulty link in front: the first calls lose the reply of a publication that happened, or are
  refused before it happens; the caller gets the given error. The transport is given per attempt, by the number of faults still to
  come, so that every attempt can read a clock of its own.
\<close>

datatype fault = LoseReply go_error | RefuseRequest go_error

primrec fault_error :: "fault \<Rightarrow> go_error" where
  "fault_error (LoseReply e) = e"
| "fault_error (RefuseRequest e) = e"

definition lossy :: "(nat \<Rightarrow> 't Transport) \<Rightarrow> ('t \<times> fault list) Transport" where
  "lossy tp = \<lparr>
     tp_Publish = (\<lambda>t pp r. case snd t of
         [] \<Rightarrow> (case tp_Publish (tp 0) (fst t) pp r of (t', res) \<Rightarrow> ((t', []), res))
       | LoseReply e # fs \<Rightarrow> (case tp_Publish (tp (Suc (length fs))) (fst t) pp r of (t', res) \<Rightarrow> ((t', fs), 0, Some e))
       | RefuseRequest e # fs \<Rightarrow> ((fst t, fs), 0, Some e)),
     tp_PublishBatch = (\<lambda>t pp rs. case tp_PublishBatch (tp (length (snd t))) (fst t) pp rs of (t', res) \<Rightarrow> ((t', snd t), res)),
     tp_PartitionsFor = (\<lambda>t topic. case tp_PartitionsFor (tp (length (snd t))) (fst t) topic of (t', res) \<Rightarrow> ((t', snd t), res)),
     tp_Sync = (\<lambda>t pp. case tp_Sync (tp (length (snd t))) (fst t) pp of (t', res) \<Rightarrow> ((t', snd t), res))\<rparr>"

lemma seq_bytes: "foldl (\<lambda>seq x. push_bit 8 seq OR ucast x) 0 (be64 v) = (v :: 64 word)"
proof -
  have "foldl (\<lambda>seq x. push_bit 8 seq OR ucast x) 0 [b0, b1, b2, b3, b4, b5, b6, b7] = Uint64 [b0, b1, b2, b3, b4, b5, b6, b7]" for b0 b1 b2 b3 b4 b5 b6 b7
    by (simp add: Uint64_def push_bit_or ac_simps)
  from this [of "ucast (drop_bit 56 v)" "ucast (drop_bit 48 v)" "ucast (drop_bit 40 v)" "ucast (drop_bit 32 v)" "ucast (drop_bit 24 v)"
      "ucast (drop_bit 16 v)" "ucast (drop_bit 8 v)" "ucast v"] show ?thesis
    using Uint64_be64 [of v] unfolding be64_def by simp
qed

lemma stamped_key:
  assumes "stampIdempotencyHeaders p pp r = (p', r')" "pr_producerID p \<noteq> []"
  shows "producerIdempKey r' = Some (pr_producerID p, seq_of p pp)"
  using assms by (auto simp: stampIdempotencyHeaders_def Let_def producerIdempKey_def last_header_def HeaderProducerID_def HeaderProducerSeq_def
      seq_bytes)

text \<open>The first attempt that reaches the broker, by the number of faults still to come then.\<close>

primrec reaches :: "fault list \<Rightarrow> nat" where
  "reaches [] = 0"
| "reaches (f # fs) = (case f of LoseReply e \<Rightarrow> Suc (length fs) | RefuseRequest e \<Rightarrow> reaches fs)"

text \<open>The broker noted the record at time \<open>seen\<close>: an attempt before the entry is stale is answered with the stored offset and changes no log.\<close>

definition applied :: "int \<Rightarrow> PartitionRef \<Rightarrow> Record \<Rightarrow> int \<Rightarrow> 'st Broker \<Rightarrow> bool" where
  "applied seen pp r off b \<longleftrightarrow> bk_cluster b = None \<and> bk_validate b pp = Inr ()
     \<and> (\<exists>i q cp. producerIdempKey r = Some (i, q) \<and> map_of (ps_dedup (part_state b pp)) i = Some cp
          \<and> q \<le> cp_lastSeq cp \<and> cp_lastOffset cp = off \<and> cp_lastSeen cp = seen)"

definition remembers :: "'st Broker \<Rightarrow> int \<Rightarrow> int \<Rightarrow> bool" where
  "remembers b seen now \<longleftrightarrow> bk_dedupTTL b \<le> 0 \<or> now - bk_dedupTTL b \<le> seen"

lemma applied_again:
  assumes "applied seen pp r off b" "remembers b seen now"
  shows "\<exists>b'. bk_Publish ops ctx now now' stop b pp r = (b', off, None) \<and> applied seen pp r off b' \<and> bk_store b' = bk_store b
    \<and> bk_dedupTTL b' = bk_dedupTTL b"
proof -
  obtain i q cp where k: "producerIdempKey r = Some (i, q)" "map_of (ps_dedup (part_state b pp)) i = Some cp"
    "q \<le> cp_lastSeq cp" "cp_lastOffset cp = off" "cp_lastSeen cp = seen"
    using assms(1) by (auto simp: applied_def)
  have m: "map_of (ps_dedup (pub_state now b pp r)) i = Some cp"
    using k assms(2) by (auto simp: pub_state_def evictStaleDedupLocked_def remembers_def map_of_filter_in)
  then have "dedup_lookup (producerIdempKey r) (pub_state now b pp r) = Some off" using k by (simp add: dedup_lookup_def)
  with assms(1) publish_retry [of b pp r now off ops ctx now' stop] k m show ?thesis
    by (intro exI [of _ "put_part b pp (pub_state now b pp r)"]) (simp add: applied_def bk_validate_def)
qed

lemma applied_noted:
  assumes "part_state b' pp = noted now r off ps" "producerIdempKey r = Some k"
    and "bk_cluster b' = None" "bk_validate b' pp = Inr ()"
  shows "applied now pp r off b'"
  using assms by (cases k) (auto simp: applied_def noted_def checkpoint_def update_Some_unfold)

text \<open>What a retry leaves of the producer: only its counters change.\<close>

definition same_config :: "Producer \<Rightarrow> Producer \<Rightarrow> bool" where
  "same_config p p' \<longleftrightarrow> p' = p\<lparr>pr_slept := pr_slept p', pr_sendCount := pr_sendCount p'\<rparr>"

lemma same_config_step: "same_config (p\<lparr>pr_slept := x\<rparr>) p' \<Longrightarrow> same_config p p'"
  by (simp add: same_config_def)

lemma same_config_sel:
  assumes "same_config p p'"
  shows "pr_acks p' = pr_acks p" "pr_idempSeqs p' = pr_idempSeqs p"
  by (subst assms [unfolded same_config_def], simp)+

lemma lossy_retry_applied:
  assumes "applied seen pp r off (ip_broker t)" "list_all (\<lambda>f. shouldRetry p (fault_error f)) fs"
    "int attempt + int (length fs) \<le> pr_rateLimitTries p" "\<forall>k \<le> length fs. remembers (ip_broker t) seen (fst (clk k 0))"
  shows "\<exists>p' b'. retry_loop (lossy (\<lambda>k. inproc_transport ops (clk k))) (\<lambda>_. None) pp r attempt p (t, fs) = (p', (t\<lparr>ip_broker := b'\<rparr>, []), off, None)
    \<and> bk_store b' = bk_store (ip_broker t) \<and> same_config p p'"
  using assms
proof (induction fs arbitrary: attempt p t)
  case Nil
  then have "remembers (ip_broker t) seen (fst (clk 0 0))" by simp
  from applied_again [OF Nil(1) this, of ops None "snd (clk 0 0)" None] obtain b' where
    "bk_Publish ops None (fst (clk 0 0)) (snd (clk 0 0)) None (ip_broker t) pp r = (b', off, None)" "bk_store b' = bk_store (ip_broker t)" by blast
  then show ?case
    by (subst retry_loop.simps) (auto simp: lossy_def inproc_transport_def ip_Publish_def same_config_def)
next
  case (Cons f fs)
  let ?p = "p\<lparr>pr_slept := pr_slept p @ [backoff (pr_rateLimitWait p) attempt]\<rparr>" and ?c = "clk (Suc (length fs)) 0"
  let ?tp = "lossy (\<lambda>k. inproc_transport ops (clk k))"
  have "remembers (ip_broker t) seen (fst ?c)" using Cons.prems(4) by simp
  from applied_again [OF Cons.prems(1) this, of ops None "snd ?c" None] obtain b1 where b1:
    "bk_Publish ops None (fst ?c) (snd ?c) None (ip_broker t) pp r = (b1, off, None)" "applied seen pp r off b1"
    "bk_store b1 = bk_store (ip_broker t)" "bk_dedupTTL b1 = bk_dedupTTL (ip_broker t)" by blast
  define t1 where "t1 = (case f of LoseReply e \<Rightarrow> t\<lparr>ip_broker := b1\<rparr> | RefuseRequest e \<Rightarrow> t)"
  have t1: "applied seen pp r off (ip_broker t1)" "bk_store (ip_broker t1) = bk_store (ip_broker t)" "t1\<lparr>ip_broker := x\<rparr> = t\<lparr>ip_broker := x\<rparr>"
    "bk_dedupTTL (ip_broker t1) = bk_dedupTTL (ip_broker t)" for x
    using b1 Cons.prems(1) by (auto simp: t1_def split: fault.split)
  have "retry_loop ?tp (\<lambda>_. None) pp r attempt p (t, f # fs) = retry_loop ?tp (\<lambda>_. None) pp r (Suc attempt) ?p (t1, fs)"
    using Cons.prems(2,3) b1(1)
    by (subst retry_loop.simps) (cases f; simp add: lossy_def inproc_transport_def ip_Publish_def t1_def)
  moreover have "\<exists>p' b'. retry_loop ?tp (\<lambda>_. None) pp r (Suc attempt) ?p (t1, fs) = (p', (t1\<lparr>ip_broker := b'\<rparr>, []), off, None)
      \<and> bk_store b' = bk_store (ip_broker t1) \<and> same_config ?p p'"
    using Cons.prems(2-4) t1(1,4) by (intro Cons.IH) (simp_all add: remembers_def)
  ultimately show ?case using t1(2,3) same_config_step by auto
qed

context store
begin

lemma publish_fresh:
  assumes "inv (bk_store b)" "pub_ok ops fits addressable now now' b pp r"
    and "dedup_lookup (producerIdempKey r) (pub_state now b pp r) = None"
  shows "\<exists>b'. bk_Publish ops None now now' None b pp r = (b', hw_of (bk_store b) pp, None)
    \<and> log_of (bk_store b') pp = log_of (bk_store b) pp @ [log_entry nrm now' (hw_of (bk_store b) pp) r]
    \<and> part_state b' pp = noted now r (hw_of (bk_store b) pp) (pub_state now b pp r)
    \<and> bk_registry b' = bk_registry b \<and> bk_cluster b' = bk_cluster b \<and> bk_dedupTTL b' = bk_dedupTTL b"
proof (rule publish_effect [OF assms, where stop = None])
  fix b' err assume b': "bk_Publish ops None now now' None b pp r = (b', hw_of (bk_store b) pp, err)"
    "log_of (bk_store b') = (let L = (log_of (bk_store b))(pp := log_of (bk_store b) pp @ [log_entry nrm now' (hw_of (bk_store b) pp) r])
       in if persists b pp r then L(dedup_part b := L (dedup_part b) @ [dedup_entry nrm now now' (hw_of (bk_store b) (dedup_part b)) pp (hw_of (bk_store b) pp) r]) else L)"
    "\<And>q. part_state b' q = (if q = pp then noted now r (hw_of (bk_store b) pp) (pub_state now b pp r) else part_state b q)"
    "bk_registry b' = bk_registry b" "bk_cluster b' = bk_cluster b" "bk_dedupTTL b' = bk_dedupTTL b" "None = None \<Longrightarrow> err = None"
  have "log_of (bk_store b') pp = log_of (bk_store b) pp @ [log_entry nrm now' (hw_of (bk_store b) pp) r]"
    using persists_other [of b pp r] by (cases "persists b pp r") (auto simp: b'(2) Let_def)
  with b' show ?thesis by auto
qed

lemma lossy_retry_fresh:
  assumes "inv (bk_store (ip_broker t))" "pub_ok ops fits addressable now now' (ip_broker t) pp r" "producerIdempKey r = Some k"
    "dedup_lookup (Some k) (pub_state now (ip_broker t) pp r) = None"
    "list_all (\<lambda>f. shouldRetry p (fault_error f)) fs" "int attempt + int (length fs) \<le> pr_rateLimitTries p \<or> fs = [] \<and> attempt = 0"
    "clk (reaches fs) 0 = (now, now')" "\<forall>j < reaches fs. remembers (ip_broker t) now (fst (clk j 0))"
  defines "off \<equiv> hw_of (bk_store (ip_broker t)) pp"
  shows "\<exists>p' b'. retry_loop (lossy (\<lambda>k. inproc_transport ops (clk k))) (\<lambda>_. None) pp r attempt p (t, fs) = (p', (t\<lparr>ip_broker := b'\<rparr>, []), off, None)
    \<and> log_of (bk_store b') pp = log_of (bk_store (ip_broker t)) pp @ [log_entry nrm now' off r] \<and> same_config p p'"
  using assms(5-8)
proof (induction fs arbitrary: attempt p)
  case Nil
  obtain b' where b': "bk_Publish ops None now now' None (ip_broker t) pp r = (b', off, None)"
    "log_of (bk_store b') pp = log_of (bk_store (ip_broker t)) pp @ [log_entry nrm now' off r]"
    using publish_fresh [OF assms(1,2)] assms(3,4) unfolding off_def by auto
  with Nil(3) show ?case
    by (subst retry_loop.simps) (auto simp: lossy_def inproc_transport_def ip_Publish_def same_config_def)
next
  case (Cons f fs)
  let ?p = "p\<lparr>pr_slept := pr_slept p @ [backoff (pr_rateLimitWait p) attempt]\<rparr>" and ?tp = "lossy (\<lambda>k. inproc_transport ops (clk k))"
  have tries: "int (Suc attempt) + int (length fs) \<le> pr_rateLimitTries ?p" using Cons.prems(2) by simp
  have fs: "list_all (\<lambda>f. shouldRetry ?p (fault_error f)) fs" using Cons.prems(1) by simp
  show ?case
  proof (cases f)
    case (LoseReply e)
    obtain b1 where b1: "bk_Publish ops None now now' None (ip_broker t) pp r = (b1, off, None)"
      "log_of (bk_store b1) pp = log_of (bk_store (ip_broker t)) pp @ [log_entry nrm now' off r]"
      "part_state b1 pp = noted now r off (pub_state now (ip_broker t) pp r)" "bk_registry b1 = bk_registry (ip_broker t)"
      "bk_cluster b1 = bk_cluster (ip_broker t)" "bk_dedupTTL b1 = bk_dedupTTL (ip_broker t)"
      using publish_fresh [OF assms(1,2)] assms(3,4) unfolding off_def by auto
    have "bk_cluster (ip_broker t) = None" "bk_validate (ip_broker t) pp = Inr ()" using assms(2) by (auto simp: pub_ok_def)
    then have ap: "applied now pp r off b1"
      using applied_noted [OF b1(3) assms(3)] b1(4,5) bk_validate_cong [of b1 "ip_broker t" pp] by simp
    have one: "retry_loop ?tp (\<lambda>_. None) pp r attempt p (t, f # fs) = retry_loop ?tp (\<lambda>_. None) pp r (Suc attempt) ?p (t\<lparr>ip_broker := b1\<rparr>, fs)"
      using Cons.prems b1(1) LoseReply by (subst retry_loop.simps) (simp add: lossy_def inproc_transport_def ip_Publish_def)
    have "\<forall>j \<le> length fs. remembers b1 now (fst (clk j 0))" using Cons.prems(4) LoseReply b1(6) by (simp add: remembers_def)
    with lossy_retry_applied [of now pp r off "t\<lparr>ip_broker := b1\<rparr>" ?p fs "Suc attempt" clk ops] ap fs tries
    obtain p' b' where "retry_loop ?tp (\<lambda>_. None) pp r (Suc attempt) ?p (t\<lparr>ip_broker := b1\<rparr>, fs)
        = (p', (t\<lparr>ip_broker := b'\<rparr>, []), off, None)" "bk_store b' = bk_store b1" "same_config ?p p'"
      by auto
    with one b1(2) same_config_step show ?thesis by auto
  next
    case (RefuseRequest e)
    then have one: "retry_loop ?tp (\<lambda>_. None) pp r attempt p (t, f # fs) = retry_loop ?tp (\<lambda>_. None) pp r (Suc attempt) ?p (t, fs)"
      using Cons.prems by (subst retry_loop.simps) (simp add: lossy_def)
    have "clk (reaches fs) 0 = (now, now')" "\<forall>j < reaches fs. remembers (ip_broker t) now (fst (clk j 0))"
      using Cons.prems(3,4) RefuseRequest by simp_all
    from Cons.IH [OF fs disjI1 [OF tries] this] obtain p' b' where
      "retry_loop ?tp (\<lambda>_. None) pp r (Suc attempt) ?p (t, fs) = (p', (t\<lparr>ip_broker := b'\<rparr>, []), off, None)"
      "log_of (bk_store b') pp = log_of (bk_store (ip_broker t)) pp @ [log_entry nrm now' off r]" "same_config ?p p'"
      by auto
    with one same_config_step show ?thesis by auto
  qed
qed

end

lemma publishWithRetry_loop: "publishWithRetry tp stopped pp r p t = retry_loop tp stopped pp r 0 p t"
  by (simp add: publishWithRetry_def retry_loop.simps split: prod.split)

text \<open>
  C11: A send of an idempotent producer over the in-process transport, to a broker on the disk store, returns the offset of the
  record and leaves the record in the log exactly once, whichever of the first attempts were refused and whichever were
  applied with their reply lost, as long as the failures are retryable and no more than the configured retries, and the clock of
  no later attempt is past the lifetime of the deduplication entry.
\<close>

theorem send_exactly_once:
  assumes "\<not> pr_closed p" "pr_idempotent p" "pr_producerID p \<noteq> []" "pr_linger p \<le> 0" "pr_acks p = AcksLocal"
    and "PartitionsFor (bk_registry (ip_broker t)) topic = Inr n" "Partition clock (pr_partitioner p) r n = (pt, i)"
    and "pp = \<lparr>p_Topic = topic, p_Index = i\<rparr>" "stampIdempotencyHeaders p pp r = (p1, r')"
    and "file_inv (bk_store (ip_broker t))" "pub_ok file_ops file_fits file_addressable now now' (ip_broker t) pp r'"
    and "dedup_lookup (Some (pr_producerID p, seq_of p pp)) (pub_state now (ip_broker t) pp r') = None"
    and "list_all (\<lambda>f. shouldRetry p (fault_error f)) fs" "int (length fs) \<le> pr_rateLimitTries p \<or> fs = []"
    and "clk (reaches fs) 0 = (now, now')" "\<forall>j < reaches fs. remembers (ip_broker t) now (fst (clk j 0))"
    and "off = file_hw (bk_store (ip_broker t)) pp"
  shows "\<exists>p' b'. Send (lossy (\<lambda>k. inproc_transport file_ops (clk k))) clock (\<lambda>_. None) topic r p (t, fs) = (p', (t\<lparr>ip_broker := b'\<rparr>, []), SendDone off None)
    \<and> file_log (bk_store b') pp = file_log (bk_store (ip_broker t)) pp @ [log_entry norm_record now' off r']
    \<and> seq_of p' pp = seq_of p pp + 1"
proof -
  let ?tp = "lossy (\<lambda>k. inproc_transport file_ops (clk k))"
  let ?p0 = "p\<lparr>pr_partitioner := pt\<rparr>"
  have rt: "route ?tp clock p (t, fs) topic r = (?p0, (t, fs), Inr pp)"
    using assms(6-8) by (simp add: route_def lossy_def inproc_transport_def ip_PartitionsFor_def)
  obtain p2 where st: "stamp_if ?p0 pp r = (p2, r')" "pr_linger p2 = pr_linger p" "pr_acks p2 = pr_acks p"
      "pr_rateLimitTries p2 = pr_rateLimitTries p" "shouldRetry p2 = shouldRetry p" "seq_of p2 pp = seq_of p pp + 1"
    using assms(2,9)
    by (auto simp: stamp_if_def stampIdempotencyHeaders_def Let_def seq_of_def shouldRetry_def fun_eq_iff update_conv' split: option.splits)
  have key: "producerIdempKey r' = Some (pr_producerID p, seq_of p pp)" by (rule stamped_key [OF assms(9,3)])
  have "\<exists>p' b'. retry_loop ?tp (\<lambda>_. None) pp r' 0 p2 (t, fs) = (p', (t\<lparr>ip_broker := b'\<rparr>, []), file_hw (bk_store (ip_broker t)) pp, None)
      \<and> file_log (bk_store b') pp = file_log (bk_store (ip_broker t)) pp @ [log_entry norm_record now' (file_hw (bk_store (ip_broker t)) pp) r'] \<and> same_config p2 p'"
    using assms(10-16) key st(4,5) by (intro fil.lossy_retry_fresh [of t now now' pp r' "(pr_producerID p, seq_of p pp)"]) auto
  then obtain p' b' where run: "retry_loop ?tp (\<lambda>_. None) pp r' 0 p2 (t, fs) = (p', (t\<lparr>ip_broker := b'\<rparr>, []), off, None)"
      "file_log (bk_store b') pp = file_log (bk_store (ip_broker t)) pp @ [log_entry norm_record now' off r']" "same_config p2 p'"
    by (auto simp: assms(17))
  note sel = same_config_sel [OF run(3)]
  have "Send ?tp clock (\<lambda>_. None) topic r p (t, fs) = (fireOnSent p' pp off, (t\<lparr>ip_broker := b'\<rparr>, []), SendDone off None)"
    using assms(1,4,5) rt st(1-3) run(1) sel(1) by (simp add: Send_def checkOpen_def publishWithRetry_loop)
  moreover have "seq_of (fireOnSent p' pp off) pp = seq_of p pp + 1"
    using sel(2) st(6) by (simp add: seq_of_def fireOnSent_def)
  ultimately show ?thesis using run(2) by blast
qed

definition idem_producer :: Producer where
  "idem_producer = (WithRateLimitRetry 2 10 (WithIdempotency zero_producer))\<lparr>pr_producerID := ''p''\<rparr>"

definition idem_sent :: Record where
  "idem_sent = snd (stampIdempotencyHeaders idem_producer sample_part (sample_record 9))"

lemma idem_fits: "file_fits (NewFileStore root mb) sample_part idem_sent"
proof (rule file_fits_empty)
  show "frame_fits (stamp 1 0 idem_sent)" "length (frame (stamp 1 0 idem_sent)) < 2 ^ 32"
    by (simp_all add: frame_fits_def wf_record_def buf32_def idem_sent_def stampIdempotencyHeaders_def Let_def sample_record_def length_frame
        length_encodeRecord int64_ok_def HeaderProducerID_def HeaderProducerSeq_def idem_producer_def)
qed (simp_all add: new_file_store sample_addressable)

lemma send_exactly_once_witness:
  "\<exists>p' b'. Send (lossy (\<lambda>k. inproc_transport file_ops (\<lambda>_. ([90, 40, 1] ! k, 1)))) 7 (\<lambda>_. None) ''t'' (sample_record 9) idem_producer
      (\<lparr>ip_broker = NewBroker (NewFileStore [''d''] 10) sample_registry None 100 [], ip_groups = None :: unit Manager option\<rparr>,
       [LoseReply (ErrProtocol StatusRateLimited []), RefuseRequest (ErrProtocol StatusRateLimited [])])
      = (p', (\<lparr>ip_broker = b', ip_groups = None\<rparr>, []), SendDone 0 None)
    \<and> file_log (bk_store b') sample_part = [log_entry norm_record 1 0 idem_sent]"
proof -
  let ?b = "NewBroker (NewFileStore [''d''] 10) sample_registry None 100 []"
  let ?t = "\<lparr>ip_broker = ?b, ip_groups = None :: unit Manager option\<rparr>"
  let ?fs = "[LoseReply (ErrProtocol StatusRateLimited []), RefuseRequest (ErrProtocol StatusRateLimited [])]"
  have sel: "\<not> pr_closed idem_producer" "pr_idempotent idem_producer" "pr_producerID idem_producer \<noteq> []" "pr_linger idem_producer \<le> 0"
    "pr_acks idem_producer = AcksLocal" "pr_rateLimitTries idem_producer = 2"
    by (simp_all add: idem_producer_def WithRateLimitRetry_def WithIdempotency_def zero_producer_def)
  have n: "PartitionsFor (bk_registry (ip_broker ?t)) ''t'' = Inr 1"
    by (simp add: NewBroker_def sample_registry_def Hydrate_def NewRegistry_def PartitionsFor_def reg_Get_def)
  obtain pt i where pt: "Partition 7 (pr_partitioner idem_producer) (sample_record 9) 1 = (pt, i)" by fastforce
  have "i = 0"
    using Partition_in_range [of 1 "pr_partitioner idem_producer" 7 "sample_record 9" pt i] pt
    by (simp add: idem_producer_def WithRateLimitRetry_def WithIdempotency_def zero_producer_def)
  then have pp: "sample_part = \<lparr>p_Topic = ''t'', p_Index = i\<rparr>" by (simp add: sample_part_def)
  obtain p1 where st: "stampIdempotencyHeaders idem_producer sample_part (sample_record 9) = (p1, idem_sent)" by (simp add: idem_sent_def stampIdempotencyHeaders_def Let_def)
  have inv: "file_inv (bk_store (ip_broker ?t))" by (simp add: NewBroker_def new_file_store)
  have tm: "timed 1 idem_sent = idem_sent" by (simp add: timed_def idem_sent_def stampIdempotencyHeaders_def Let_def sample_record_def)
  have ok: "pub_ok file_ops file_fits file_addressable 1 1 (ip_broker ?t) sample_part idem_sent"
    using sample_valid [of ?b] by (simp add: pub_ok_def sample_addressable idem_fits int64_ok_def persists_def tm NewBroker_def)
  have nw: "dedup_lookup (Some (pr_producerID idem_producer, seq_of idem_producer sample_part)) (pub_state 1 (ip_broker ?t) sample_part idem_sent) = None"
    by (simp add: dedup_lookup_def pub_state_def evictStaleDedupLocked_def part_state_def NewBroker_def)
  have "list_all (\<lambda>f. shouldRetry idem_producer (fault_error f)) ?fs" by (simp add: shouldRetry_def)
  from send_exactly_once [OF sel(1-5) n pt pp st inv ok nw this, of "\<lambda>k _. ([90, 40, 1] ! k, 1)", OF _ _ _ refl] sel(6) show ?thesis
    by (simp add: NewBroker_def new_file_store remembers_def less_Suc_eq numeral_2_eq_2) blast
qed

end
