(* ===== verification/Spec2Isabelle.thy ===== *)
theory Spec2Isabelle
  imports Wire_Properties Log_Properties Store_Properties Group_Assign Group_Offset_Props
    Topic_Registry Group_Manager_Props Cluster_Props Broker_Props Auth_Token Server_Client
    Store_Bootstrap Sdk_Producer_Props
begin

text \<open>
  \<^bold>\<open>Holocron\<close> is a distributed append-only log broker written in Go. Producers and consumers talk to a broker over a
  length-framed binary protocol. A broker keeps each topic partition as a log of segment files, serves
  reads, long-poll fetches and subscriptions from it, assigns partitions to the members of consumer groups,
  suppresses retries of idempotent producers, and replicates its log through Raft in cluster mode. This library models the
  broker and its protocol from the wire down to the bytes on disk. Paths below are relative to the module root.

  \<^bold>\<open>Foundations.\<close> \<open>Holocron_Prelude\<close> fixes how Go values are read: byte slices are lists of 8-bit words, a slice that may be
  nil is an option, strings are HOL strings, \<open>int32\<close> and \<open>int64\<close> are integers with explicit ranges and truncating conversions,
  errors are the datatype \<open>go_error\<close>, a fallible function returns \<open>go_error + 'a\<close>. It holds big-endian encoding, CRC-32C, binary
  search and the two codec locales. \<open>Go_Strconv\<close> models decimal printing and parsing, \<open>Go_Maps\<close> Go maps as
  association lists.

  \<^bold>\<open>Wire protocol\<close> (\<^verbatim>\<open>proto/wire.go\<close>, \<^verbatim>\<open>record.go\<close>, \<^verbatim>\<open>topic.go\<close>, \<^verbatim>\<open>lz4.go\<close>). \<open>Wire_Primitives\<close> has frames, responses, strings,
  records; \<open>Wire_Data\<close>, \<open>Wire_Admin\<close>, \<open>Wire_Groups\<close> have one record, encoder and decoder per message; every message is an
  interpretation of the locale \<open>message_codec\<close>. \<open>Wire_Properties\<close> states the round trips and that decoders never panic. The LZ4 block
  functions are parameters with the law \<open>lz4_library\<close>.

  \<^bold>\<open>Partition logs\<close> (\<^verbatim>\<open>broker/internal/log\<close>). \<open>Log_Files\<close> models the directory, files with their synced prefix, crashes and
  \<^verbatim>\<open>bufio\<close>; \<open>Log_Frame\<close>, \<open>Log_Index\<close>, \<open>Log_Segment\<close>, \<open>Log_Partition\<close>, \<open>Log_Compact\<close> follow \<^verbatim>\<open>frame.go\<close>, \<^verbatim>\<open>index.go\<close>, \<^verbatim>\<open>segment.go\<close>,
  \<^verbatim>\<open>partition.go\<close> and \<^verbatim>\<open>compact.go\<close> function by function. \<open>Log_Segment_Inv\<close>, \<open>Log_Partition_Inv\<close>, \<open>Log_Retention\<close>,
  \<open>Log_Compact_Inv\<close> and \<open>Log_Durability\<close> prove that every operation keeps the representation invariant \<open>part_repr\<close> (the files hold the
  frames of the records). \<open>Log_Properties\<close> refines the log to the contract \<open>log_spec\<close> on record lists and treats crashes, compaction
  and retention.

  \<^bold>\<open>Stores\<close> (\<^verbatim>\<open>broker/internal/storage\<close>). \<open>Store_Contract\<close> is the interface \<^verbatim>\<open>Store\<close> as a method table and the locale \<open>store\<close> of what its
  clients rely on; \<open>Store_Memory\<close> and \<open>Store_File\<close> model both implementations and interpret the locale (\<open>mem\<close>, \<open>fil\<close>);
  \<open>Store_Properties\<close> shows that they answer alike. \<open>Store_Bootstrap\<close> copies the segment files of a partition from a peer
  (\<^verbatim>\<open>BootstrapPartitionFromPeer\<close> of \<^verbatim>\<open>broker/embed/bootstrap.go\<close>), shows that the chunk loop ends for every peer, and what a broker opened on
  the copy serves.

  \<^bold>\<open>Topics and groups\<close> (\<^verbatim>\<open>broker/internal/topic\<close>, \<^verbatim>\<open>broker/internal/groups\<close>). \<open>Topic_Registry\<close> models the registry and its file.
  \<open>Group_Assign\<close> has the assignment strategies, \<open>Group_Offsets\<close> the three offset stores with the contract \<open>offset_store\<close> in
  \<open>Group_Offset_Props\<close>, \<open>Group_Manager\<close> the manager. Its long-poll heartbeats interleave with the other operations in
  the step relation \<open>mstep\<close> of \<open>Group_Manager_Props\<close>, whose reachable states the ownership and wake-up invariants range over.

  \<^bold>\<open>Replication\<close> (\<^verbatim>\<open>broker/internal/cluster\<close>). \<open>Cluster_Commands\<close> has the command encodings, \<open>Cluster_FSM\<close> the replicated state machine,
  its snapshots and the catch-up from a peer, with a refinement of an abstract state machine; \<open>Cluster_Props\<close> shows that replicas converge and where they do not.

  \<^bold>\<open>Broker\<close> (\<^verbatim>\<open>broker/internal/broker/broker.go\<close>, \<^verbatim>\<open>hydrateDedupFromTopic\<close> of \<^verbatim>\<open>broker/embed/bootstrap.go\<close>). \<open>Broker_Core\<close> has publishing with
  deduplication and fan-out, topic operations, reads and the goroutine of a subscription as the step function \<open>pump_step\<close>.
  \<open>Broker_Publish\<close>, \<open>Broker_Subscribe\<close> and \<open>Broker_Dedup\<close> hold the invariants over any store of the locale; \<open>Broker_Props\<close> states them for the disk
  store.

  \<^bold>\<open>Authentication and authorization\<close> (\<^verbatim>\<open>broker/internal/auth\<close>). \<open>Auth_Scope\<close> has principals, the scope grammar and the authorizers,
  \<open>Auth_Token\<close> base64, tokens, the denylist and the verifiers. The signature scheme and the JSON text of tokens are the parameter
  \<open>jwt_lib\<close>.

  \<^bold>\<open>Server\<close> (\<^verbatim>\<open>broker/internal/server\<close>). \<open>Server_Quota\<close> has the token bucket, \<open>Server_Core\<close> the handshake, \<open>dispatch\<close>, all handlers and the
  connection loop as the state machine \<open>serve_step\<close>. \<open>Server_Props\<close> proves complete mediation by the authorizer, and which requests escape
  it; \<open>Server_Client\<close> follows a record from the bytes a client sends to the bytes it reads back.

  \<^bold>\<open>Producer\<close> (\<^verbatim>\<open>sdk/partitioner.go\<close>, \<^verbatim>\<open>producer.go\<close>, \<^verbatim>\<open>batcher.go\<close>, \<^verbatim>\<open>broker/inproc/inproc.go\<close>). \<open>Sdk_Partitioner\<close> has the routing strategies,
  \<open>Sdk_Producer\<close> the producer over a transport given by the record \<open>Transport\<close>, \<open>Sdk_Inproc\<close> the in-process transport on the broker's model.
  \<open>Sdk_Producer_Props\<close> bounds the retries, shows over the step relation \<open>pstep\<close> that every waiting send is answered once, and that a retried
  send of an idempotent producer is stored once by a disk broker.

  \<^bold>\<open>Bounds and loops.\<close> Every loop is structural, has a termination measure, or is a \<open>partial_function\<close> into option for which the
  properties prove that it returns (the replays of the offsets and deduplication topics, the catch-up from a peer, with reads of
  256 records as in the code). Offsets, timestamps and sizes are within their Go types by explicit hypotheses:
  \<open>append_fits\<close> and \<open>file_fits\<close> keep a segment below 4 GiB and relative offsets below \<open>2 ^ 32\<close>, \<open>buf32\<close> a message below 4 GiB,
  \<open>maxFrameBytes\<close> is the limit of the readers. The witnesses show that the hypotheses hold on concrete inputs.

  \<^bold>\<open>Concurrency.\<close> Operations that the code runs under one mutex are single steps; what happens between them is a step relation
  (group manager, subscriptions, connections, flushes of the producer). Clocks are arguments, so a theorem holds for all readings of the clock its hypotheses allow. Metrics,
  logging and the failures of the operating system other than crashes and a failed save of the registry are left out.

  \<^bold>\<open>Not modelled.\<close> \<^verbatim>\<open>cluster.go\<close> beyond \<^verbatim>\<open>Apply\<close>, \<^verbatim>\<open>tls.go\<close>, \<^verbatim>\<open>tlsconfig\<close> and \<^verbatim>\<open>metrics\<close> configure third-party libraries. \<^verbatim>\<open>embed.go\<close> and
  \<^verbatim>\<open>holocrond\<close> wire the parts together, parse flags and start goroutines. Of the SDK the consumer, credential files and the network
  transport are left out; the streams and connect libraries and the schema registry run on that consumer, and the command line is a client of the
  protocol.
\<close>

end
